(* ===== verification/Prelude.thy ===== *)
theory Prelude
  imports Main "HOL-Library.Word" "HOL-Library.Multiset"
begin

text \<open>
  Prelude of the ascii-poker development: the machine integer types of the C++ code, the result
  type that carries its exceptions, the two ways it reads a map (\<open>operator[]\<close> and \<open>at\<close>), and
  the generic lemmas on lists, maps and 32-bit words that the components share.

  \<^item> \<open>uint8_t\<close>, \<open>uint32_t\<close>, \<open>uint64_t\<close> are \<open>8 word\<close>, \<open>32 word\<close>, \<open>64 word\<close>, so that every
    addition and subtraction wraps as in the code; \<open>size_t\<close> values that only count or index a
    container are \<open>nat\<close>.
  \<^item> \<open>'a result\<close> is what a member function that may throw returns: \<open>Ret\<close> the new state or value,
    \<open>Exn\<close> the exception, \<open>NoFuel\<close> when a recursion that the code does not bound was cut off by
    the fuel argument of the model.
\<close>

section \<open>Types\<close>

type_synonym u8 = "8 word"
type_synonym u32 = "32 word"
type_synonym u64 = "64 word"

datatype exn =
    OutOfRange      \<comment> \<open>\<open>std::out_of_range\<close>: \<open>map::at\<close> on a missing key, \<open>Deck::deal\<close>\<close>
  | LengthError     \<comment> \<open>\<open>std::length_error\<close>\<close>
  | RuntimeError    \<comment> \<open>\<open>std::runtime_error\<close>\<close>
  | InvalidArgument \<comment> \<open>\<open>std::invalid_argument\<close>\<close>
  | JsonError       \<comment> \<open>\<open>nlohmann::json::exception\<close>\<close>
  | DatabaseError   \<comment> \<open>\<open>poker::server::DatabaseError\<close>\<close>

datatype 'a result = Ret 'a | Exn exn | NoFuel

fun bind_r :: "'a result \<Rightarrow> ('a \<Rightarrow> 'b result) \<Rightarrow> 'b result" where
  "bind_r (Ret x) f = f x"
| "bind_r (Exn e) f = Exn e"
| "bind_r NoFuel f = NoFuel"

fun map_r :: "('a \<Rightarrow> 'b) \<Rightarrow> 'a result \<Rightarrow> 'b result" where
  "map_r f (Ret x) = Ret (f x)"
| "map_r f (Exn e) = Exn e"
| "map_r f NoFuel = NoFuel"

fun mapM_r :: "('a \<Rightarrow> 'b result) \<Rightarrow> 'a list \<Rightarrow> 'b list result" where
  "mapM_r f [] = Ret []"
| "mapM_r f (x # xs) = bind_r (f x) (\<lambda>y. map_r (Cons y) (mapM_r f xs))"

text \<open>\<open>m[k]\<close> on an \<open>unordered_map\<close>: a missing key reads as the default value.\<close>

definition getd :: "'v \<Rightarrow> ('k \<rightharpoonup> 'v) \<Rightarrow> 'k \<Rightarrow> 'v" where
  "getd d m k = (case m k of None \<Rightarrow> d | Some v \<Rightarrow> v)"

text \<open>\<open>m.at(k)\<close>: a missing key throws.\<close>

definition map_at :: "('k \<rightharpoonup> 'v) \<Rightarrow> 'k \<Rightarrow> 'v result" where
  "map_at m k = (case m k of None \<Rightarrow> Exn OutOfRange | Some v \<Rightarrow> Ret v)"

section \<open>Lemmas\<close>

named_theorems wf_simps \<open>rewrites that hold in well-formed states\<close>

lemma bind_r_Ret_iff: "bind_r m f = Ret y \<longleftrightarrow> (\<exists>x. m = Ret x \<and> f x = Ret y)"
  by (cases m) auto

lemma map_r_Ret_iff: "map_r f m = Ret y \<longleftrightarrow> (\<exists>x. m = Ret x \<and> y = f x)"
  by (cases m) auto

lemma bind_r_assoc: "bind_r (bind_r m f) g = bind_r m (\<lambda>x. bind_r (f x) g)"
  by (cases m) auto

lemma bind_r_cong [fundef_cong]:
  "m = m' \<Longrightarrow> (\<And>x. m' = Ret x \<Longrightarrow> f x = f' x) \<Longrightarrow> bind_r m f = bind_r m' f'"
  by (cases m') auto

lemma mapM_r_Ret: "(\<And>x. x \<in> set xs \<Longrightarrow> f x = Ret (g x)) \<Longrightarrow> mapM_r f xs = Ret (map g xs)"
  by (induction xs) auto

lemma mapM_r_length: "mapM_r f xs = Ret ys \<Longrightarrow> length ys = length xs"
  by (induction xs arbitrary: ys) (auto simp: bind_r_Ret_iff map_r_Ret_iff)

lemma getd_upd [simp]: "getd d (m(k \<mapsto> v)) k' = (if k' = k then v else getd d m k')"
  by (simp add: getd_def)

lemma getd_upd_None [simp]: "getd d (m(k := None)) k' = (if k' = k then d else getd d m k')"
  by (simp add: getd_def)

lemma getd_empty [simp]: "getd d Map.empty k = d"
  by (simp add: getd_def)

lemma map_at_Ret: "k \<in> dom m \<Longrightarrow> map_at m k = Ret (getd d m k)"
  by (auto simp: map_at_def getd_def)

lemma map_at_Ret_iff: "map_at m k = Ret v \<longleftrightarrow> m k = Some v"
  by (auto simp: map_at_def split: option.splits)

lemma remove1_append_single: "x \<notin> set xs \<Longrightarrow> remove1 x (xs @ [x]) = xs"
  by (simp add: remove1_append)

lemma distinct_nth_index: "distinct xs \<Longrightarrow> i < length xs \<Longrightarrow> j < length xs \<Longrightarrow> xs ! i = xs ! j \<longleftrightarrow> i = j"
  by (simp add: nth_eq_iff_index_eq)

lemma unat_min: "unat (min a b) = min (unat a) (unat b)" for a b :: "'a::len word"
  by (simp add: min_def word_le_nat_alt)

lemma unat_plus_le: "unat a + unat b < 2 ^ LENGTH('a) \<Longrightarrow> unat (a + b) = unat a + unat b"
  for a b :: "'a::len word"
  by (simp add: unat_word_ariths)

lemma unat_minus_le: "b \<le> a \<Longrightarrow> unat (a - b) = unat a - unat b"
  for a b :: "'a::len word"
  by (rule unat_sub)

lemma u32_less_max: "unat x < 4294967296" for x :: u32
  using unsigned_less [of x] by simp

text \<open>A property of the result, if there is one; and of a call that does not throw.\<close>

definition keeps :: "('a \<Rightarrow> bool) \<Rightarrow> 'a result \<Rightarrow> bool" where
  "keeps P r \<longleftrightarrow> (\<forall>x. r = Ret x \<longrightarrow> P x)"

lemma keeps_simps [simp]: "keeps P (Ret x) = P x" "keeps P NoFuel" "keeps P (Exn e)"
  by (simp_all add: keeps_def)

lemma result_case:
  "(\<forall>e. m \<noteq> Exn e) \<Longrightarrow> (\<And>x. m = Ret x \<Longrightarrow> P x) \<Longrightarrow>
    (case m of Ret x \<Rightarrow> P x | Exn e \<Rightarrow> False | NoFuel \<Rightarrow> True)"
  by (cases m) auto

lemma bind_r_cases:
  assumes "\<forall>e. m \<noteq> Exn e" "\<And>x. m = Ret x \<Longrightarrow> (\<forall>e. f x \<noteq> Exn e) \<and> (\<forall>y. f x = Ret y \<longrightarrow> P y)"
  shows "(\<forall>e. bind_r m f \<noteq> Exn e) \<and> (\<forall>y. bind_r m f = Ret y \<longrightarrow> P y)"
  using assms by (cases m) auto

text \<open>Sums of machine words as natural numbers, and the wrap-free sum of a list.\<close>

definition nsum :: "('a \<Rightarrow> u32) \<Rightarrow> 'a list \<Rightarrow> nat" where
  "nsum f xs = sum_list (map (\<lambda>x. unat (f x)) xs)"

lemma nsum_simps [simp]:
  "nsum f [] = 0"
  "nsum f (x # xs) = unat (f x) + nsum f xs"
  "nsum f (xs @ ys) = nsum f xs + nsum f ys"
  by (simp_all add: nsum_def)

lemma nsum_cong: "(\<And>x. x \<in> set xs \<Longrightarrow> f x = g x) \<Longrightarrow> nsum f xs = nsum g xs"
  by (induction xs) auto

lemma nsum_member: "x \<in> set xs \<Longrightarrow> unat (f x) \<le> nsum f xs"
  by (induction xs) auto

lemma unat_sum_list:
  "sum_list (map unat xs) < 2 ^ 32 \<Longrightarrow> unat (sum_list xs) = sum_list (map unat xs)"
  for xs :: "u32 list"
proof (induction xs)
  case (Cons x xs)
  then have "unat (sum_list xs) = sum_list (map unat xs)" by simp
  with Cons.prems show ?case by (simp add: unat_plus_le)
qed simp

end
