(* ===== verification/Cards.thy ===== *)
theory Cards
  imports Prelude
begin

text \<open>
  Playing cards: \<open>Suit\<close>, \<open>Rank\<close> and \<open>Card\<close> of \<open>common/include/poker/card.h\<close>, and the string form of
  a card that \<open>common/include/poker/protocol.h\<close> puts on the wire (\<open>to_json\<close>/\<open>from_json\<close> for
  \<open>Card\<close>). The card order \<open>operator<\<close> is the type's \<open>linorder\<close>.
\<close>

section \<open>Data\<close>

datatype suit = Clubs | Diamonds | Hearts | Spades

datatype rank = Two | Three | Four | Five | Six | Seven | Eight | Nine | Ten
  | Jack | Queen | King | Ace

record card =
  c_suit :: suit
  c_rank :: rank

text \<open>The underlying \<open>uint8_t\<close> values of the enums.\<close>

fun suit_code :: "suit \<Rightarrow> nat" where
  "suit_code Clubs = 0"
| "suit_code Diamonds = 1"
| "suit_code Hearts = 2"
| "suit_code Spades = 3"

fun rank_code :: "rank \<Rightarrow> nat" where
  "rank_code Two = 0"
| "rank_code Three = 1"
| "rank_code Four = 2"
| "rank_code Five = 3"
| "rank_code Six = 4"
| "rank_code Seven = 5"
| "rank_code Eight = 6"
| "rank_code Nine = 7"
| "rank_code Ten = 8"
| "rank_code Jack = 9"
| "rank_code Queen = 10"
| "rank_code King = 11"
| "rank_code Ace = 12"

definition all_suits :: "suit list" where
  "all_suits = [Clubs, Diamonds, Hearts, Spades]"

definition all_ranks :: "rank list" where
  "all_ranks = [Two, Three, Four, Five, Six, Seven, Eight, Nine, Ten, Jack, Queen, King, Ace]"

definition suit_symbols :: "string list" where
  "suit_symbols = [''C'', ''D'', ''H'', ''S'']"

definition rank_symbols :: "string list" where
  "rank_symbols = [''2'', ''3'', ''4'', ''5'', ''6'', ''7'', ''8'', ''9'', ''10'', ''J'', ''Q'', ''K'', ''A'']"

definition get_suit_symbol :: "suit \<Rightarrow> string" where
  "get_suit_symbol s = suit_symbols ! suit_code s"

definition get_rank_symbol :: "rank \<Rightarrow> string" where
  "get_rank_symbol r = rank_symbols ! rank_code r"

definition card_to_string :: "card \<Rightarrow> string" where
  "card_to_string c = get_rank_symbol (c_rank c) @ get_suit_symbol (c_suit c)"

section \<open>The order on cards\<close>

definition card_eq :: "card \<Rightarrow> card \<Rightarrow> bool" where
  "card_eq a b \<longleftrightarrow> c_rank a = c_rank b \<and> c_suit a = c_suit b"

definition card_lt :: "card \<Rightarrow> card \<Rightarrow> bool" where
  "card_lt a b \<longleftrightarrow>
     (if c_rank a \<noteq> c_rank b then rank_code (c_rank a) < rank_code (c_rank b)
      else suit_code (c_suit a) < suit_code (c_suit b))"

definition card_gt :: "card \<Rightarrow> card \<Rightarrow> bool" where
  "card_gt a b \<longleftrightarrow> card_lt b a"

lemma suit_code_inj: "suit_code a = suit_code b \<longleftrightarrow> a = b"
  by (cases a; cases b) simp_all

lemma rank_code_inj: "rank_code a = rank_code b \<longleftrightarrow> a = b"
  by (induction a; cases b) simp_all

lemma suit_code_bound: "suit_code s < 4"
  by (cases s) simp_all

lemma rank_code_bound: "rank_code r < 13"
  by (cases r) simp_all

lemma all_suits_nth: "all_suits ! suit_code s = s"
  by (cases s) (simp_all add: all_suits_def)

lemma all_ranks_nth: "all_ranks ! rank_code r = r"
  by (cases r) (simp_all add: all_ranks_def)

lemma set_all_suits: "set all_suits = UNIV"
proof -
  have "s \<in> set all_suits" for s by (cases s) (simp_all add: all_suits_def)
  then show ?thesis by blast
qed

lemma set_all_ranks: "set all_ranks = UNIV"
proof -
  have "r \<in> set all_ranks" for r by (cases r) (simp_all add: all_ranks_def)
  then show ?thesis by blast
qed

lemma card_eq_iff: "card_eq a b \<longleftrightarrow> a = b"
  by (auto simp: card_eq_def)

instantiation card_ext :: (linorder) linorder
begin

definition less_eq_card_ext :: "'a card_scheme \<Rightarrow> 'a card_scheme \<Rightarrow> bool" where
  "less_eq_card_ext a b \<longleftrightarrow>
     (rank_code (c_rank a), suit_code (c_suit a)) = (rank_code (c_rank b), suit_code (c_suit b))
       \<and> card.more a \<le> card.more b
     \<or> rank_code (c_rank a) < rank_code (c_rank b)
     \<or> rank_code (c_rank a) = rank_code (c_rank b) \<and> suit_code (c_suit a) < suit_code (c_suit b)"

definition less_card_ext :: "'a card_scheme \<Rightarrow> 'a card_scheme \<Rightarrow> bool" where
  "less_card_ext a b \<longleftrightarrow> a \<le> b \<and> \<not> b \<le> a"

instance
proof
  fix a b c :: "'a card_scheme"
  show "a < b \<longleftrightarrow> a \<le> b \<and> \<not> b \<le> a" by (simp add: less_card_ext_def)
  show "a \<le> a" by (simp add: less_eq_card_ext_def)
  show "a \<le> b \<Longrightarrow> b \<le> c \<Longrightarrow> a \<le> c" by (auto simp: less_eq_card_ext_def)
  show "a \<le> b \<Longrightarrow> b \<le> a \<Longrightarrow> a = b"
    by (cases a; cases b) (auto simp: less_eq_card_ext_def suit_code_inj rank_code_inj)
  show "a \<le> b \<or> b \<le> a" by (auto simp: less_eq_card_ext_def)
qed

end

lemma card_lt_less: "card_lt a b \<longleftrightarrow> a < b"
  by (cases a; cases b)
    (auto simp: card_lt_def less_card_ext_def less_eq_card_ext_def suit_code_inj rank_code_inj
      dest: less_not_sym)

section \<open>The wire form of a card\<close>

text \<open>
  \<open>from_json(const json&, Card&)\<close>: the string after \<open>j.get<std::string>()\<close>, of at least two
  characters, a suit letter last and a rank before it. The first two checks throw
  \<open>std::runtime_error\<close>, the rank ones \<open>std::invalid_argument\<close>.
\<close>

fun suit_of_char :: "char \<Rightarrow> suit result" where
  "suit_of_char c =
     (if c = CHR ''C'' then Ret Clubs
      else if c = CHR ''D'' then Ret Diamonds
      else if c = CHR ''H'' then Ret Hearts
      else if c = CHR ''S'' then Ret Spades
      else Exn RuntimeError)"

fun rank_of_char :: "char \<Rightarrow> rank result" where
  "rank_of_char c =
     (if c = CHR ''2'' then Ret Two
      else if c = CHR ''3'' then Ret Three
      else if c = CHR ''4'' then Ret Four
      else if c = CHR ''5'' then Ret Five
      else if c = CHR ''6'' then Ret Six
      else if c = CHR ''7'' then Ret Seven
      else if c = CHR ''8'' then Ret Eight
      else if c = CHR ''9'' then Ret Nine
      else if c = CHR ''J'' then Ret Jack
      else if c = CHR ''Q'' then Ret Queen
      else if c = CHR ''K'' then Ret King
      else if c = CHR ''A'' then Ret Ace
      else Exn InvalidArgument)"

definition rank_of_string :: "string \<Rightarrow> rank result" where
  "rank_of_string s =
     (if s = ''10'' then Ret Ten
      else if length s = 1 then rank_of_char (s ! 0)
      else Exn InvalidArgument)"

definition card_of_string :: "string \<Rightarrow> card result" where
  "card_of_string str =
     (if length str < 2 then Exn RuntimeError
      else bind_r (suit_of_char (last str))
        (\<lambda>s. bind_r (rank_of_string (take (length str - 1) str))
          (\<lambda>r. Ret \<lparr>c_suit = s, c_rank = r\<rparr>)))"

lemma suit_of_char_symbol: "suit_of_char (hd (get_suit_symbol s)) = Ret s"
  by (cases s) (simp_all add: get_suit_symbol_def suit_symbols_def)

lemma suit_symbol_single: "get_suit_symbol s = [hd (get_suit_symbol s)]"
  by (cases s) (simp_all add: get_suit_symbol_def suit_symbols_def)

lemma rank_of_string_symbol: "rank_of_string (get_rank_symbol r) = Ret r"
  by (cases r) (simp_all add: get_rank_symbol_def rank_symbols_def rank_of_string_def)

lemma rank_symbol_nonempty: "get_rank_symbol r \<noteq> []"
  by (cases r) (simp_all add: get_rank_symbol_def rank_symbols_def)

lemma suit_of_char_Ret: "suit_of_char c = Ret s \<Longrightarrow> get_suit_symbol s = [c]"
  by (auto simp: get_suit_symbol_def suit_symbols_def split: if_splits)

lemma rank_of_char_Ret: "rank_of_char c = Ret r \<Longrightarrow> get_rank_symbol r = [c]"
  by (auto simp: get_rank_symbol_def rank_symbols_def split: if_splits)

lemma rank_of_string_Ret: "rank_of_string s = Ret r \<Longrightarrow> get_rank_symbol r = s"
proof (cases "s = ''10''")
  case True
  then show "rank_of_string s = Ret r \<Longrightarrow> ?thesis"
    by (auto simp: rank_of_string_def get_rank_symbol_def rank_symbols_def)
next
  case False
  assume "rank_of_string s = Ret r"
  with False have "length s = 1" and "rank_of_char (s ! 0) = Ret r"
    by (auto simp: rank_of_string_def simp del: rank_of_char.simps split: if_splits)
  then show ?thesis
    by (cases s) (auto dest: rank_of_char_Ret simp del: rank_of_char.simps)
qed

lemma card_of_string_to_string: "card_of_string (card_to_string c) = Ret c"
proof -
  have "card_to_string c = get_rank_symbol (c_rank c) @ [hd (get_suit_symbol (c_suit c))]"
    by (simp add: card_to_string_def flip: suit_symbol_single)
  moreover have "length (get_rank_symbol (c_rank c)) \<ge> 1"
    using rank_symbol_nonempty by (simp add: Suc_leI)
  ultimately show ?thesis
    by (simp add: card_of_string_def suit_of_char_symbol rank_of_string_symbol
        rank_symbol_nonempty del: suit_of_char.simps)
qed

lemma card_of_string_sound: "card_of_string s = Ret c \<Longrightarrow> card_to_string c = s"
  by (cases s rule: rev_cases)
    (auto simp: card_of_string_def bind_r_Ret_iff card_to_string_def
      simp del: suit_of_char.simps split: if_splits
      dest!: suit_of_char_Ret rank_of_string_Ret)

text \<open>
  The string form of a card is a bijection with the 52 cards: a card read back from what
  \<open>to_string\<close> wrote is the same card, and \<open>from_json\<close> accepts no other string than the one
  \<open>to_string\<close> writes (every other string throws).
\<close>

theorem card_string_roundtrip:
  "card_of_string s = Ret c \<longleftrightarrow> s = card_to_string c"
  using card_of_string_to_string card_of_string_sound by blast

end
