(* ===== verification/Deck.thy ===== *)
theory Deck
  imports Cards
begin

text \<open>
  The deck of \<open>common/include/poker/deck.h\<close> and \<open>common/src/deck.cpp\<close>: a vector of cards whose
  back is the top of the deck. The constructor's two loops, \<open>deal\<close> with its
  \<open>std::out_of_range\<close>, and \<open>shuffle\<close>.

  \<open>std::shuffle\<close> draws from a generator seeded by \<open>std::random_device\<close>; the model takes the draws
  as an argument (\<open>ds\<close>, one number per position) and performs the exchange of position \<open>i\<close> with
  a position at or below \<open>i\<close> that the draw selects, so that every permutation is the result of
  some draws and no draw gives anything else.
\<close>

section \<open>Operations\<close>

record deck =
  m_cards :: "card list"

text \<open>\<open>Deck::Deck()\<close>: suits in the outer loop, ranks in the inner one.\<close>

definition new_deck :: deck where
  "new_deck = \<lparr>m_cards = concat (map (\<lambda>s. map (\<lambda>r. \<lparr>c_suit = s, c_rank = r\<rparr>) all_ranks) all_suits)\<rparr>"

definition swap_at :: "nat \<Rightarrow> nat \<Rightarrow> 'a list \<Rightarrow> 'a list" where
  "swap_at i j xs = xs[i := xs ! j, j := xs ! i]"

fun shuffle_draws :: "nat \<Rightarrow> nat list \<Rightarrow> 'a list \<Rightarrow> 'a list" where
  "shuffle_draws i [] xs = xs"
| "shuffle_draws i (d # ds) xs =
     (if i < length xs then shuffle_draws (Suc i) ds (swap_at i (d mod Suc i) xs) else xs)"

definition shuffle :: "nat list \<Rightarrow> deck \<Rightarrow> deck" where
  "shuffle ds d = d\<lparr>m_cards := shuffle_draws 1 ds (m_cards d)\<rparr>"

text \<open>The loop of \<open>Deck::deal\<close>: \<open>push_back(m_cards.back())\<close>, \<open>pop_back()\<close>.\<close>

fun deal_loop :: "nat \<Rightarrow> card list \<Rightarrow> card list \<Rightarrow> card list \<times> card list" where
  "deal_loop 0 dealt cards = (dealt, cards)"
| "deal_loop (Suc n) dealt cards = deal_loop n (dealt @ [last cards]) (butlast cards)"

definition deal :: "nat \<Rightarrow> deck \<Rightarrow> (card list \<times> deck) result" where
  "deal cnt d =
     (if cnt > length (m_cards d) then Exn OutOfRange
      else (case deal_loop cnt [] (m_cards d) of
              (dealt, cards) \<Rightarrow> Ret (dealt, d\<lparr>m_cards := cards\<rparr>)))"

definition deck_size :: "deck \<Rightarrow> nat" where
  "deck_size d = length (m_cards d)"

definition deck_empty :: "deck \<Rightarrow> bool" where
  "deck_empty d = (m_cards d = [])"

section \<open>The new deck\<close>

lemma length_new_deck: "length (m_cards new_deck) = 52"
  by (simp add: new_deck_def all_suits_def all_ranks_def)

lemma set_new_deck: "set (m_cards new_deck) = UNIV"
proof -
  have "c \<in> set (m_cards new_deck)" for c :: card
    by (cases c) (auto simp: new_deck_def set_all_suits set_all_ranks)
  then show ?thesis by blast
qed

lemma distinct_new_deck: "distinct (m_cards new_deck)"
  by (simp add: new_deck_def all_suits_def all_ranks_def)

text \<open>
  A new deck holds every one of the 52 cards exactly once.
\<close>

theorem new_deck_complete:
  "mset (m_cards new_deck) = mset_set UNIV \<and> deck_size new_deck = 52"
  using mset_set_set [OF distinct_new_deck]
  by (simp add: set_new_deck length_new_deck deck_size_def)

section \<open>Shuffling\<close>

lemma mset_swap_at: "i < length xs \<Longrightarrow> j < length xs \<Longrightarrow> mset (swap_at i j xs) = mset xs"
  unfolding swap_at_def by (rule mset_swap)

lemma length_swap_at [simp]: "length (swap_at i j xs) = length xs"
  by (simp add: swap_at_def)

lemma mset_shuffle_draws: "mset (shuffle_draws i ds xs) = mset xs"
proof (induction i ds xs rule: shuffle_draws.induct)
  case (2 i d ds xs)
  have "d mod Suc i < length xs" if "i < length xs"
    using that mod_less_divisor [of "Suc i" d] by linarith
  with 2 show ?case by (simp add: mset_swap_at)
qed simp

lemma length_shuffle_draws [simp]: "length (shuffle_draws i ds xs) = length xs"
  by (metis mset_shuffle_draws size_mset)

lemma shuffle_draws_append:
  "i + length ds \<le> length xs \<Longrightarrow>
   shuffle_draws i (ds @ es) xs = shuffle_draws (i + length ds) es (shuffle_draws i ds xs)"
proof (induction ds arbitrary: i xs)
  case (Cons d ds)
  from Cons.prems Cons.IH [of "Suc i" "swap_at i (d mod Suc i) xs"] show ?case by simp
qed simp

lemma shuffle_draws_beyond:
  "n \<ge> i + length ds \<Longrightarrow> i + length ds \<le> length xs \<Longrightarrow>
   shuffle_draws i ds xs = shuffle_draws i ds (take n xs) @ drop n xs"
proof (induction ds arbitrary: i xs)
  case (Cons d ds)
  then have i: "i < length xs" "i < n" by simp_all
  have j: "d mod Suc i < n" "d mod Suc i < length xs"
    using i mod_less_divisor [of "Suc i" d] by linarith+
  let ?ys = "swap_at i (d mod Suc i) xs"
  have tk: "take n ?ys = swap_at i (d mod Suc i) (take n xs)"
    using i j by (simp add: swap_at_def take_update_swap)
  have dr: "drop n ?ys = drop n xs"
    using i j by (simp add: swap_at_def)
  have "shuffle_draws (Suc i) ds ?ys = shuffle_draws (Suc i) ds (take n ?ys) @ drop n ?ys"
    by (rule Cons.IH) (use Cons.prems in simp_all)
  with i show ?case
    by (simp only: tk dr shuffle_draws.simps length_take min_less_iff_conj if_True simp_thms)
qed simp

lemma shuffle_draws_snoc:
  assumes "length ds + 1 = length xs" and "shuffle_draws 1 ds xs = zs"
  shows "shuffle_draws 1 (ds @ [j]) (xs @ [x]) = swap_at (length xs) (j mod Suc (length xs)) (zs @ [x])"
proof -
  have "shuffle_draws 1 (ds @ [j]) (xs @ [x]) =
      shuffle_draws (1 + length ds) [j] (shuffle_draws 1 ds (xs @ [x]))"
    using assms(1) by (intro shuffle_draws_append) simp
  also have "shuffle_draws 1 ds (xs @ [x]) = zs @ [x]"
    using shuffle_draws_beyond [of 1 ds "length xs" "xs @ [x]"] assms by simp
  finally show ?thesis
    using assms by auto
qed

lemma swap_last_same: "swap_at (length zs) (length zs mod Suc (length zs)) (zs @ [x]) = zs @ [x]"
  by (simp add: swap_at_def)

lemma swap_last_other:
  assumes "j < length bs" and "bs ! j = x"
  shows "swap_at (length bs) (j mod Suc (length bs)) (bs[j := y] @ [x]) = bs @ [y]"
  using assms by (auto simp: swap_at_def nth_append list_update_append list_update_same_conv)

lemma shuffle_draws_onto:
  "mset ys = mset xs \<Longrightarrow> \<exists>ds. length ds = length xs - 1 \<and> shuffle_draws 1 ds xs = ys"
proof (induction xs arbitrary: ys rule: rev_induct)
  case (snoc x xs)
  then obtain bs y where ys: "ys = bs @ [y]" by (cases ys rule: rev_cases) auto
  have len: "length bs = length xs" using mset_eq_length [OF snoc.prems] ys by simp
  show ?case
  proof (cases "xs = []")
    case True
    then show ?thesis using snoc.prems ys len by simp
  next
    case nonempty: False
    show ?thesis
    proof (cases "y = x")
      case True
      then have "mset bs = mset xs" using snoc.prems ys by simp
      then obtain ds where ds: "length ds = length xs - 1" "shuffle_draws 1 ds xs = bs"
        using snoc.IH by blast
      then have "shuffle_draws 1 (ds @ [length xs]) (xs @ [x]) = ys"
        using shuffle_draws_snoc [of ds xs bs "length xs" x] nonempty swap_last_same [of bs x] True ys len
        by (simp add: Suc_leI)
      with ds(1) nonempty show ?thesis
        by (intro exI [of _ "ds @ [length xs]"]) (simp add: Suc_leI)
    next
      case False
      have "x \<in># mset ys" using snoc.prems by simp
      then have "x \<in> set bs" using False ys by auto
      then obtain j where j: "j < length bs" "bs ! j = x" by (auto simp: in_set_conv_nth)
      have "mset (bs[j := y]) = mset xs"
      proof -
        have "add_mset y (mset bs) - {#x#} = mset xs"
          using snoc.prems ys by simp
        with \<open>x \<in> set bs\<close> j show ?thesis by (simp add: mset_update)
      qed
      then obtain ds where ds: "length ds = length xs - 1" "shuffle_draws 1 ds xs = bs[j := y]"
        using snoc.IH by blast
      then have "shuffle_draws 1 (ds @ [j]) (xs @ [x]) = ys"
        using shuffle_draws_snoc [of ds xs "bs[j := y]" j x] nonempty swap_last_other [OF j, of y] ys len
        by (simp add: Suc_leI)
      with ds(1) nonempty show ?thesis
        by (intro exI [of _ "ds @ [j]"]) (simp add: Suc_leI)
    qed
  qed
qed simp

text \<open>
  Shuffling permutes the deck, and every permutation of the deck is the outcome of some draws
  of the generator.
\<close>

theorem shuffle_permutations:
  "{shuffle ds d | ds. True} = {d' . mset (m_cards d') = mset (m_cards d) \<and> deck.more d' = deck.more d}"
proof (intro equalityI subsetI)
  fix d' assume "d' \<in> {shuffle ds d | ds. True}"
  then show "d' \<in> {d' . mset (m_cards d') = mset (m_cards d) \<and> deck.more d' = deck.more d}"
    by (auto simp: shuffle_def mset_shuffle_draws)
next
  fix d' assume "d' \<in> {d' . mset (m_cards d') = mset (m_cards d) \<and> deck.more d' = deck.more d}"
  then obtain ds where "shuffle_draws 1 ds (m_cards d) = m_cards d'"
    using shuffle_draws_onto by blast
  then show "d' \<in> {shuffle ds d | ds. True}"
    by (auto simp: shuffle_def intro!: exI [of _ ds])
qed

section \<open>Dealing\<close>

lemma deal_loop_rev:
  "n \<le> length cards \<Longrightarrow>
   deal_loop n dealt cards = (dealt @ take n (rev cards), rev (drop n (rev cards)))"
proof (induction n arbitrary: dealt cards)
  case (Suc n)
  then obtain bs c where "cards = bs @ [c]" by (cases cards rule: rev_cases) auto
  with Suc show ?case by simp
qed simp

text \<open>
  \<open>deal\<close> throws exactly when fewer cards are left than asked for; otherwise it takes cards one
  by one from the back, so that the rest of the deck followed by the dealt cards in reverse is the
  deck before, and nothing is dealt twice or lost.
\<close>

theorem deal_spec:
  "deal n d =
     (if n > deck_size d then Exn OutOfRange
      else Ret (rev (drop (deck_size d - n) (m_cards d)),
                d\<lparr>m_cards := take (deck_size d - n) (m_cards d)\<rparr>))"
  by (simp add: deal_def deal_loop_rev deck_size_def drop_rev take_rev)

lemma deal_Ret:
  "deal n d = Ret (cs, d') \<longleftrightarrow>
     n \<le> length (m_cards d) \<and> cs = rev (drop (length (m_cards d) - n) (m_cards d)) \<and>
     d' = d\<lparr>m_cards := take (length (m_cards d) - n) (m_cards d)\<rparr>"
  by (auto simp: deal_def deal_loop_rev drop_rev take_rev)

lemma deal_mset: "deal n d = Ret (cs, d') \<Longrightarrow> mset (m_cards d) = mset cs + mset (m_cards d')"
  by (auto simp: deal_Ret) (metis append_take_drop_id mset_append add.commute)

lemma deal_lengths:
  "deal n d = Ret (cs, d') \<Longrightarrow> length cs = n \<and> length (m_cards d') = length (m_cards d) - n"
  by (auto simp: deal_Ret)

lemma deal_Ex: "n \<le> length (m_cards d) \<Longrightarrow> \<exists>cs d'. deal n d = Ret (cs, d')"
  by (auto simp: deal_Ret)

end
