(* ===== verification/HandEvaluator.thy ===== *)
theory HandEvaluator
  imports Cards "HOL-Library.List_Lexorder" "HOL-Library.Product_Lexorder"
    "HOL-Library.While_Combinator" "HOL-Library.Sublist"
begin

text \<open>
  The hand evaluator of \<open>common/include/poker/hand_evaluator.h\<close> and
  \<open>common/src/hand_evaluator.cpp\<close>: the value of five cards (\<open>evaluate_five\<close>), the best five of
  any number of cards (\<open>evaluate_best\<close>, a do-while over the index combinations in lexicographic
  order), and the labels of the categories.

  Card values are \<open>rank_value\<close> numbers from 2 to 14 that are only compared and counted, so they are
  \<open>nat\<close>; \<open>std::array\<close>s of five are lists of length five. \<open>operator<=>\<close> of \<open>HandValue\<close> (defaulted,
  so lexicographic on the members) is the \<open>linorder\<close> of the record.
\<close>

section \<open>Data\<close>

datatype hand_category = HighCard | OnePair | TwoPair | ThreeOfKind | Straight | Flush
  | FullHouse | FourOfKind | StraightFlush

fun category_code :: "hand_category \<Rightarrow> nat" where
  "category_code HighCard = 0"
| "category_code OnePair = 1"
| "category_code TwoPair = 2"
| "category_code ThreeOfKind = 3"
| "category_code Straight = 4"
| "category_code Flush = 5"
| "category_code FullHouse = 6"
| "category_code FourOfKind = 7"
| "category_code StraightFlush = 8"

record hand_value =
  category :: hand_category
  tiebreakers :: "nat list"

definition default_hand :: hand_value where
  "default_hand = \<lparr>category = HighCard, tiebreakers = [0, 0, 0, 0, 0]\<rparr>"

lemma category_code_inj: "category_code a = category_code b \<longleftrightarrow> a = b"
  by (cases a; cases b) simp_all

definition hand_key :: "'a hand_value_scheme \<Rightarrow> (nat \<times> nat list) \<times> 'a" where
  "hand_key h = ((category_code (category h), tiebreakers h), hand_value.more h)"

lemma hand_key_inj: "hand_key a = hand_key b \<longleftrightarrow> a = b"
  by (cases a; cases b) (auto simp: hand_key_def category_code_inj)

instantiation hand_value_ext :: (linorder) linorder
begin

definition less_eq_hand_value_ext :: "'a hand_value_scheme \<Rightarrow> 'a hand_value_scheme \<Rightarrow> bool" where
  "less_eq_hand_value_ext a b \<longleftrightarrow> hand_key a \<le> hand_key b"

definition less_hand_value_ext :: "'a hand_value_scheme \<Rightarrow> 'a hand_value_scheme \<Rightarrow> bool" where
  "less_hand_value_ext a b \<longleftrightarrow> hand_key a < hand_key b"

instance
  by standard
    (auto simp: less_eq_hand_value_ext_def less_hand_value_ext_def hand_key_inj
      intro: le_neq_trans simp flip: hand_key_inj)

end

section \<open>Operations\<close>

definition rank_value :: "rank \<Rightarrow> nat" where
  "rank_value r = rank_code r + 2"

text \<open>\<open>is_straight\<close>: the out-parameter \<open>high\<close> is the value of the option.\<close>

fun ascending_run :: "nat list \<Rightarrow> bool" where
  "ascending_run (x # y # zs) = (if y \<noteq> x + 1 then False else ascending_run (y # zs))"
| "ascending_run _ = True"

definition is_straight :: "nat list \<Rightarrow> nat option" where
  "is_straight values =
     (let sorted = sort values in
      if ascending_run sorted then Some (sorted ! 4)
      else if sorted ! 0 = 2 \<and> sorted ! 1 = 3 \<and> sorted ! 2 = 4 \<and> sorted ! 3 = 5 \<and> sorted ! 4 = 14
        then Some 5
      else None)"

definition make_hand :: "hand_category \<Rightarrow> nat list \<Rightarrow> hand_value" where
  "make_hand c t = \<lparr>category = c, tiebreakers = t\<rparr>"

text \<open>The loop \<open>++counts[v]\<close> over the values.\<close>

definition count_values :: "nat list \<Rightarrow> nat \<Rightarrow> nat" where
  "count_values values = fold (\<lambda>v c. c(v := c v + 1)) values (\<lambda>_. 0)"

text \<open>The index range of the loops \<open>for (int v = 14; v >= 2; --v)\<close>.\<close>

definition down_values :: "nat list" where
  "down_values = rev [2..<15]"

definition trip_pair :: "(nat \<Rightarrow> nat) \<Rightarrow> nat \<times> nat" where
  "trip_pair counts =
     fold (\<lambda>v (trip, pair).
        if counts v = 3 \<and> trip = 0 then (v, pair)
        else if counts v = 2 \<and> pair = 0 then (trip, v)
        else (trip, pair)) down_values (0, 0)"

text \<open>The kicker loops fill a zeroed array of \<open>n\<close> entries with the first values that pass the test.\<close>

definition kickers :: "nat \<Rightarrow> (nat \<Rightarrow> bool) \<Rightarrow> nat list \<Rightarrow> nat list" where
  "kickers n p values = take n (filter p values @ replicate n 0)"

definition find0 :: "(nat \<Rightarrow> bool) \<Rightarrow> nat list \<Rightarrow> nat" where
  "find0 p xs = (case find p xs of None \<Rightarrow> 0 | Some x \<Rightarrow> x)"

definition evaluate_five_values :: "nat list \<Rightarrow> bool \<Rightarrow> hand_value" where
  "evaluate_five_values values0 flush =
     (let values = rev (sort values0);
          counts = count_values values;
          straight = is_straight values
      in
      if flush \<and> straight \<noteq> None then make_hand StraightFlush [the straight, 0, 0, 0, 0]
      else (case find (\<lambda>v. counts v = 4) down_values of
        Some v \<Rightarrow> make_hand FourOfKind [v, find0 (\<lambda>k. counts k = 1) down_values, 0, 0, 0]
      | None \<Rightarrow>
        (case trip_pair counts of (trip, pair) \<Rightarrow>
         if trip \<noteq> 0 \<and> pair \<noteq> 0 then make_hand FullHouse [trip, pair, 0, 0, 0]
         else if flush then make_hand Flush values
         else if straight \<noteq> None then make_hand Straight [the straight, 0, 0, 0, 0]
         else if trip \<noteq> 0 then
           (let ks = kickers 2 (\<lambda>v. v \<noteq> trip) values
            in make_hand ThreeOfKind [trip, ks ! 0, ks ! 1, 0, 0])
         else
           (let pairs = take 2 (filter (\<lambda>v. counts v = 2) down_values) in
            if length pairs = 2 then
              make_hand TwoPair [pairs ! 0, pairs ! 1,
                find0 (\<lambda>v. v \<noteq> pairs ! 0 \<and> v \<noteq> pairs ! 1) values, 0, 0]
            else if length pairs = 1 then
              (let ks = kickers 3 (\<lambda>v. v \<noteq> pairs ! 0) values
               in make_hand OnePair [pairs ! 0, ks ! 0, ks ! 1, ks ! 2, 0])
            else make_hand HighCard values))))"

definition evaluate_five :: "card list \<Rightarrow> hand_value" where
  "evaluate_five cards =
     (let values = map (\<lambda>c. rank_value (c_rank c)) cards;
          s = c_suit (cards ! 0);
          flush = list_all (\<lambda>c. c_suit c = s) cards
      in evaluate_five_values values flush)"

text \<open>
  The lambda \<open>next_combination\<close>: from the last index down, the first that is not at its maximum is
  raised, and the indices after it are refilled consecutively.
\<close>

fun next_combination_from :: "nat \<Rightarrow> nat \<Rightarrow> nat list \<Rightarrow> nat list option" where
  "next_combination_from n 0 c = None"
| "next_combination_from n (Suc i) c =
     (if c ! i \<noteq> i + n - 5
      then Some (fold (\<lambda>j c. c[j := c ! (j - 1) + 1]) [Suc i..<5] (c[i := c ! i + 1]))
      else next_combination_from n i c)"

definition next_combination :: "nat \<Rightarrow> nat list \<Rightarrow> nat list option" where
  "next_combination n c = next_combination_from n 5 c"

definition best_step :: "card list \<Rightarrow> nat list option \<times> hand_value \<Rightarrow> nat list option \<times> hand_value" where
  "best_step cards st =
     (case st of (None, best) \<Rightarrow> (None, best)
      | (Some idx, best) \<Rightarrow>
        (let value = evaluate_five (map (\<lambda>i. cards ! i) idx)
         in (next_combination (length cards) idx, if value > best then value else best)))"

definition evaluate_best :: "card list \<Rightarrow> hand_value" where
  "evaluate_best cards =
     (if length cards < 5 then default_hand
      else snd (while (\<lambda>(idx, best). idx \<noteq> None) (best_step cards)
             (Some [0, 1, 2, 3, 4], default_hand)))"

fun hand_category_label :: "hand_category \<Rightarrow> string" where
  "hand_category_label HighCard = ''High card''"
| "hand_category_label OnePair = ''Pair''"
| "hand_category_label TwoPair = ''Two pair''"
| "hand_category_label ThreeOfKind = ''Three of a kind''"
| "hand_category_label Straight = ''Straight''"
| "hand_category_label Flush = ''Flush''"
| "hand_category_label FullHouse = ''Full house''"
| "hand_category_label FourOfKind = ''Four of a kind''"
| "hand_category_label StraightFlush = ''Straight flush''"

section \<open>The loops of the evaluation\<close>

lemma count_values_fold:
  "fold (\<lambda>v c. c(v := c v + 1)) vs f = (\<lambda>v. f v + count_list vs v)"
  by (induction vs arbitrary: f) (auto simp: fun_eq_iff)

lemma count_values_eq: "count_values vs v = count_list vs v"
  using count_values_fold [of vs "\<lambda>_. 0"] by (simp add: count_values_def)

lemma rank_value_range: "rank_value r \<in> {2..14}"
  using rank_code_bound [of r] by (simp add: rank_value_def)

lemma sorted_down_values: "sorted_wrt (>) down_values"
  by (simp add: down_values_def upt_rec)

lemma set_down_values: "set down_values = {2..14}"
  unfolding down_values_def set_rev set_upt by auto

text \<open>Two strictly descending lists with the same elements are equal.\<close>

lemma desc_unique:
  "sorted_wrt (>) xs \<Longrightarrow> sorted_wrt (>) ys \<Longrightarrow> set xs = set ys \<Longrightarrow> xs = ys"
  for xs ys :: "nat list"
proof -
  assume "sorted_wrt (>) xs" "sorted_wrt (>) ys" "set xs = set ys"
  then have "sorted_wrt (<) (rev xs)" "sorted_wrt (<) (rev ys)" "set (rev xs) = set (rev ys)"
    by (simp_all add: sorted_wrt_rev)
  then have "rev xs = rev ys" using strict_sorted_equal by blast
  then show ?thesis by simp
qed

text \<open>
  A loop over all values from 14 down that only reacts to values of the hand sees the same values
  as a loop over the distinct values \<open>ds\<close> of the hand in descending order.
\<close>

lemma filter_down_values:
  assumes "sorted_wrt (>) ds" and "set ds \<subseteq> {2..14}" and "\<And>v. p v \<Longrightarrow> v \<in> set ds"
  shows "filter p down_values = filter p ds"
  using assms sorted_down_values set_down_values
  by (intro desc_unique) (auto simp: sorted_wrt_filter)

lemma find_filter: "find p xs = (case filter p xs of [] \<Rightarrow> None | y # _ \<Rightarrow> Some y)"
  by (induction xs) auto

lemma trip_pair_fold:
  assumes "0 \<notin> set vs"
  shows "fold (\<lambda>v (trip, pair).
        if counts v = 3 \<and> trip = 0 then (v, pair)
        else if counts v = (2::nat) \<and> pair = 0 then (trip, v)
        else (trip, pair)) vs (t, p) =
    (if t = 0 then find0 (\<lambda>v. counts v = 3) vs else t,
     if p = 0 then find0 (\<lambda>v. counts v = 2) vs else p)"
  using assms by (induction vs arbitrary: t p) (auto simp: find0_def split: option.splits)

lemma trip_pair_eq:
  "trip_pair counts = (find0 (\<lambda>v. counts v = 3) down_values, find0 (\<lambda>v. counts v = 2) down_values)"
proof -
  have "0 \<notin> set down_values" by (simp add: set_down_values)
  then show ?thesis by (simp add: trip_pair_def trip_pair_fold)
qed

section \<open>The reference evaluation\<close>

text \<open>
  The textbook rule, against which the code is proved: group equal values, order the groups by
  size and then by value, and read the category off the group sizes. A straight is a set of five
  consecutive values, or the wheel A-2-3-4-5, which counts as five high.
\<close>

definition hand_groups :: "nat list \<Rightarrow> (nat \<times> nat) list" where
  "hand_groups vs = rev (sort (map (\<lambda>v. (count_list vs v, v)) (remdups vs)))"

definition straight_high :: "nat list \<Rightarrow> nat option" where
  "straight_high vs =
     (if set vs = {Max (set vs) - 4..Max (set vs)} then Some (Max (set vs))
      else if set vs = {2, 3, 4, 5, 14} then Some 5 else None)"

definition reference_value :: "nat list \<Rightarrow> bool \<Rightarrow> hand_value" where
  "reference_value vs flush =
     (let shape = map fst (hand_groups vs);
          by_group = take 5 (map snd (hand_groups vs) @ [0, 0, 0, 0, 0]);
          by_value = rev (sort vs)
      in
      case straight_high vs of
        Some h \<Rightarrow> make_hand (if flush then StraightFlush else Straight) [h, 0, 0, 0, 0]
      | None \<Rightarrow>
          if shape = [4, 1] then make_hand FourOfKind by_group
          else if shape = [3, 2] then make_hand FullHouse by_group
          else if flush then make_hand Flush by_value
          else if shape = [3, 1, 1] then make_hand ThreeOfKind by_group
          else if shape = [2, 2, 1] then make_hand TwoPair by_group
          else if shape = [2, 1, 1, 1] then make_hand OnePair by_group
          else make_hand HighCard by_value)"

lemma desc_remdups: "sorted_wrt (\<ge>) ws \<Longrightarrow> sorted_wrt (>) (remdups ws)" for ws :: "nat list"
  by (induction ws) (auto simp: order_le_less)

lemma filter_down_remdups:
  assumes "sorted_wrt (\<ge>) ws" and "set ws \<subseteq> {2..14}" and "\<And>v. p v \<Longrightarrow> v \<in> set ws"
  shows "filter p down_values = filter p (remdups ws)"
  using assms by (intro filter_down_values desc_remdups) auto

lemma list_of_five: "length xs = 5 \<Longrightarrow> \<exists>a b c d e. xs = [a, b, c, d, e]"
  by (auto simp: numeral_eq_Suc length_Suc_conv)

lemma sort_rev [simp]: "sort (rev xs) = sort xs"
  by (rule properties_for_sort) simp_all

lemma sort_sort [simp]: "sort (sort xs) = sort xs"
  by (rule sorted_sort_id) simp

lemma five_cases:
  assumes "length vs = 5"
  obtains a b c d e :: nat where "rev (sort vs) = [a, b, c, d, e]"
    "a \<ge> b" "b \<ge> c" "c \<ge> d" "d \<ge> e" "sort vs = [e, d, c, b, a]"
proof -
  obtain a b c d e where l: "rev (sort vs) = [a, b, c, d, e]"
    using list_of_five [of "rev (sort vs)"] assms by auto
  then have s: "sort vs = [e, d, c, b, a]" by (metis rev_rev_ident rev.simps append.simps)
  have "sorted (sort vs)" by simp
  with s have "a \<ge> b" "b \<ge> c" "c \<ge> d" "d \<ge> e" by simp_all
  with l s show ?thesis using that by blast
qed

lemma desc_set_iff:
  fixes a b c d e v w x y z :: nat
  assumes "a \<ge> b" "b \<ge> c" "c \<ge> d" "d \<ge> e" and "sorted_wrt (>) [v, w, x, y, z]"
  shows "{a, b, c, d, e} = {v, w, x, y, z} \<longleftrightarrow> [a, b, c, d, e] = [v, w, x, y, z]"
proof
  assume eq: "{a, b, c, d, e} = {v, w, x, y, z}"
  have "card {v, w, x, y, z} = 5" using assms(5) by auto
  then have "card (set [a, b, c, d, e]) = length [a, b, c, d, e]" using eq by simp
  then have "distinct [a, b, c, d, e]" by (rule card_distinct)
  then have "distinct (rev [a, b, c, d, e])" by (simp only: distinct_rev)
  moreover have "sorted (rev [a, b, c, d, e])" using assms(1-4) by simp
  ultimately have "sorted_wrt (<) (rev [a, b, c, d, e])" by (simp only: strict_sorted_iff simp_thms)
  then have "sorted_wrt (>) [a, b, c, d, e]" by (simp only: sorted_wrt_rev)
  then show "[a, b, c, d, e] = [v, w, x, y, z]"
    using assms(5) eq by (intro desc_unique) simp_all
qed auto

lemma atLeastAtMost_five: "{k..k + 4} = {k + 4, k + 3, k + 2, k + 1, k}" for k :: nat
  by auto

lemma is_straight_eq:
  assumes "length vs = 5" and "set vs \<subseteq> {2..14}"
  shows "is_straight vs = straight_high vs"
proof -
  obtain a b c d e where ws: "rev (sort vs) = [a, b, c, d, e]" "sort vs = [e, d, c, b, a]"
    and o: "a \<ge> b" "b \<ge> c" "c \<ge> d" "d \<ge> e"
    using five_cases [OF assms(1)] by metis
  have st: "set vs = {a, b, c, d, e}"
    using ws(1) by (metis set_rev set_sort list.set(1) list.set(2))
  have mx: "Max (set vs) = a" using o by (simp add: st)
  have run: "(set vs = {a - 4..a}) = (d = e + 1 \<and> c = d + 1 \<and> b = c + 1 \<and> a = b + 1)"
  proof (cases "a \<ge> 6")
    case True
    then obtain k where k: "a = k + 4" by (metis le_add_diff_inverse2 le_trans numeral_le_iff semiring_norm)
    have "sorted_wrt (>) [k + 4, k + 3, k + 2, k + 1, k]" by simp
    from desc_set_iff [OF o this]
    have "(set vs = {k..k + 4}) = ([a, b, c, d, e] = [k + 4, k + 3, k + 2, k + 1, k])"
      unfolding st atLeastAtMost_five .
    also have "\<dots> = (d = e + 1 \<and> c = d + 1 \<and> b = c + 1 \<and> a = b + 1)"
      unfolding list.inject using k by arith
    finally show ?thesis using k by simp
  next
    case False
    then have "a - 4 \<notin> set vs" using subsetD [OF assms(2), of "a - 4"] by auto
    then have "set vs \<noteq> {a - 4..a}" by auto
    moreover have "e \<ge> 2" using assms(2) st by auto
    ultimately show ?thesis using False by auto
  qed
  have wheel: "(set vs = {2, 3, 4, 5, 14}) = (e = 2 \<and> d = 3 \<and> c = 4 \<and> b = 5 \<and> a = 14)"
  proof -
    have "sorted_wrt (>) [14, 5, 4, 3, 2::nat]" by simp
    from desc_set_iff [OF o this] have "(set vs = {14, 5, 4, 3, 2}) = ([a, b, c, d, e] = [14, 5, 4, 3, 2])"
      by (simp add: st)
    moreover have "{2, 3, 4, 5, 14} = {14, 5, 4, 3, 2::nat}" by auto
    ultimately show ?thesis by auto
  qed
  show ?thesis
    unfolding is_straight_def straight_high_def mx run wheel ws(2) by auto
qed

lemma count_list_mset: "count_list xs = count (mset xs)"
  by (simp add: fun_eq_iff count_mset)

lemma count_values_mset: "count_values vs = count (mset vs)"
  by (simp add: fun_eq_iff count_values_eq count_mset)

lemma evaluate_five_values_sorted:
  "evaluate_five_values vs flush = evaluate_five_values (rev (sort vs)) flush"
proof -
  have "count_values (rev (sort vs)) = count_values vs" by (simp add: count_values_mset)
  moreover have "is_straight vs = is_straight (rev (sort vs))"
    by (simp add: is_straight_def)
  ultimately show ?thesis
    by (simp add: evaluate_five_values_def)
qed

lemma mset_eq_cong:
  assumes "mset vs = mset ws"
  shows "evaluate_five_values vs flush = evaluate_five_values ws flush"
    and "reference_value vs flush = reference_value ws flush"
proof -
  have "sort vs = sort ws" using assms by (metis properties_for_sort mset_sort sorted_sort)
  then show "evaluate_five_values vs flush = evaluate_five_values ws flush"
    by (metis evaluate_five_values_sorted)
  have "set vs = set ws" using assms by (rule mset_eq_setD)
  have c: "count_list vs = count_list ws" using assms by (simp add: count_list_mset)
  have "mset (remdups vs) = mset (remdups ws)"
    using \<open>set vs = set ws\<close> by (simp add: set_eq_iff_mset_remdups_eq)
  then have "sort (map (\<lambda>v. (count_list vs v, v)) (remdups vs))
      = sort (map (\<lambda>v. (count_list ws v, v)) (remdups ws))"
    unfolding c by (metis (no_types) mset_map mset_sort properties_for_sort sorted_sort)
  then have "hand_groups vs = hand_groups ws" by (simp add: hand_groups_def)
  then show "reference_value vs flush = reference_value ws flush"
    using \<open>sort vs = sort ws\<close> \<open>set vs = set ws\<close>
    by (simp add: reference_value_def straight_high_def)
qed

text \<open>
  The code's loops only see the sizes and values of the groups: \<open>F n\<close> is the list of the values
  that occur \<open>n\<close> times, in descending order.
\<close>

lemma evaluate_five_values_filters:
  assumes vals: "rev (sort ws) = ws" and st: "is_straight ws = sh"
    and flt: "\<forall>n>0. filter (\<lambda>v. count_values ws v = n) down_values = F n"
  shows "evaluate_five_values ws flush =
     (if flush \<and> sh \<noteq> None then make_hand StraightFlush [the sh, 0, 0, 0, 0]
      else if F 4 \<noteq> [] then make_hand FourOfKind [hd (F 4), hd (F 1 @ [0]), 0, 0, 0]
      else if hd (F 3 @ [0]) \<noteq> 0 \<and> hd (F 2 @ [0]) \<noteq> 0
        then make_hand FullHouse [hd (F 3 @ [0]), hd (F 2 @ [0]), 0, 0, 0]
      else if flush then make_hand Flush ws
      else if sh \<noteq> None then make_hand Straight [the sh, 0, 0, 0, 0]
      else if hd (F 3 @ [0]) \<noteq> 0 then
        (let ks = kickers 2 (\<lambda>v. v \<noteq> hd (F 3 @ [0])) ws
         in make_hand ThreeOfKind [hd (F 3 @ [0]), ks ! 0, ks ! 1, 0, 0])
      else
        (let pairs = take 2 (F 2) in
         if length pairs = 2 then
           make_hand TwoPair [pairs ! 0, pairs ! 1,
             hd (filter (\<lambda>v. v \<noteq> pairs ! 0 \<and> v \<noteq> pairs ! 1) ws @ [0]), 0, 0]
         else if length pairs = 1 then
           (let ks = kickers 3 (\<lambda>v. v \<noteq> pairs ! 0) ws
            in make_hand OnePair [pairs ! 0, ks ! 0, ks ! 1, ks ! 2, 0])
         else make_hand HighCard ws))"
proof -
  have f0: "find0 p xs = hd (filter p xs @ [0])" for p and xs :: "nat list"
    by (induction xs) (auto simp: find0_def)
  have n: "(0::nat) < 1" "(0::nat) < 2" "(0::nat) < 3" "(0::nat) < 4" by simp_all
  have f4: "find (\<lambda>v. count_values ws v = 4) down_values = (case F 4 of [] \<Rightarrow> None | v # _ \<Rightarrow> Some v)"
    unfolding find_filter flt [rule_format, OF n(4)] ..
  show ?thesis
    unfolding evaluate_five_values_def Let_def vals st trip_pair_eq f0 f4
      flt [rule_format, OF n(1)] flt [rule_format, OF n(2)] flt [rule_format, OF n(3)]
    by (cases "F 4"; cases sh) simp_all
qed

lemma desc_mset_unique:
  "sorted_wrt (\<ge>) xs \<Longrightarrow> sorted_wrt (\<ge>) ys \<Longrightarrow> mset xs = mset ys \<Longrightarrow> xs = ys"
  for xs ys :: "nat list"
proof -
  assume "sorted_wrt (\<ge>) xs" "sorted_wrt (\<ge>) ys" and m: "mset xs = mset ys"
  then have "sorted (rev xs)" "sorted (rev ys)" by (simp_all add: sorted_wrt_rev)
  moreover have "mset (rev xs) = mset (rev ys)" using m by simp
  ultimately have "rev xs = rev ys" by (metis properties_for_sort sorted_sort_id)
  then show ?thesis by simp
qed

lemma set_hand_groups: "set (hand_groups vs) = (\<lambda>v. (count_list vs v, v)) ` set vs"
  by (simp add: hand_groups_def)

lemma distinct_hand_groups: "distinct (hand_groups vs)"
  by (simp add: hand_groups_def distinct_map inj_on_def)

lemma sorted_hand_groups: "sorted_wrt (>) (hand_groups vs)"
proof -
  have "sorted (rev (hand_groups vs))" by (simp add: hand_groups_def)
  then have "sorted_wrt (<) (rev (hand_groups vs))"
    using distinct_hand_groups by (simp add: strict_sorted_iff)
  then show ?thesis by (simp add: sorted_wrt_rev)
qed

lemma sorted_same_size:
  "sorted_wrt (>) gs \<Longrightarrow> sorted_wrt (>) (map snd (filter (\<lambda>g. fst g = n) gs))"
  for gs :: "(nat \<times> nat) list"
  by (induction gs) (auto simp: less_prod_def)

lemma count_replicates:
  "distinct xs \<Longrightarrow>
   count (sum_list (map (\<lambda>v. replicate_mset (c v) v) xs)) x = (if x \<in> set xs then c x else 0)"
  by (induction xs) auto

lemma mset_hand_groups:
  "mset (concat (map (\<lambda>(n, v). replicate n v) (hand_groups vs))) = mset vs"
proof -
  let ?f = "\<lambda>g. mset (case g of (n, v) \<Rightarrow> replicate n v) :: nat multiset"
  let ?gs = "map (\<lambda>v. (count_list vs v, v)) (remdups vs)"
  have "mset (concat (map (\<lambda>(n, v). replicate n v) (hand_groups vs))) = sum_list (map ?f (hand_groups vs))"
    by (simp add: mset_concat comp_def)
  also have "\<dots> = sum_mset (image_mset ?f (mset (hand_groups vs)))"
    by (simp flip: sum_mset_sum_list)
  also have "mset (hand_groups vs) = mset ?gs" by (simp add: hand_groups_def)
  also have "sum_mset (image_mset ?f (mset ?gs)) = sum_list (map ?f ?gs)"
    by (simp only: mset_map [symmetric] sum_mset_sum_list)
  also have "\<dots> = sum_list (map (\<lambda>v. replicate_mset (count_list vs v) v) (remdups vs))"
    by (simp add: comp_def)
  also have "\<dots> = mset vs"
    by (rule multiset_eqI) (simp add: count_replicates count_list_mset not_in_iff)
  finally show ?thesis .
qed

lemma groups_of_size:
  assumes "sorted_wrt (\<ge>) ws" and "set ws \<subseteq> {2..14}" and "n > 0"
  shows "filter (\<lambda>v. count_values ws v = n) down_values
    = map snd (filter (\<lambda>g. fst g = n) (hand_groups ws))"
proof (rule desc_unique)
  show "sorted_wrt (>) (filter (\<lambda>v. count_values ws v = n) down_values)"
    by (intro sorted_wrt_filter sorted_down_values)
  show "sorted_wrt (>) (map snd (filter (\<lambda>g. fst g = n) (hand_groups ws)))"
    by (intro sorted_same_size sorted_hand_groups)
  show "set (filter (\<lambda>v. count_values ws v = n) down_values)
      = set (map snd (filter (\<lambda>g. fst g = n) (hand_groups ws)))"
  proof -
    have occ: "count_list ws v = n \<Longrightarrow> v \<in> set ws" for v
      using assms(3) count_notin [of v ws] by (cases "v \<in> set ws") simp_all
    have "set (filter (\<lambda>v. count_values ws v = n) down_values) = {v \<in> set ws. count_list ws v = n}"
      unfolding set_filter set_down_values count_values_eq using assms(2) occ by blast
    also have "\<dots> = set (map snd (filter (\<lambda>g. fst g = n) (hand_groups ws)))"
      unfolding set_map set_filter set_hand_groups by force
    finally show ?thesis .
  qed
qed

lemma group_shapes:
  assumes "sum_list ns = 5" and "sorted_wrt (\<ge>) ns" and "\<forall>n \<in> set ns. n > 0"
  shows "ns \<in> {[5], [4, 1], [3, 2], [3, 1, 1], [2, 2, 1], [2, 1, 1, 1], [1, 1, 1, 1, 1::nat]}"
proof -
  have two: "a = 4 \<and> b = 1 \<or> a = 3 \<and> b = 2" if "a + b = 5" "a \<ge> b" "b > 0" for a b :: nat
    using that by arith
  have three: "a = 3 \<and> b = 1 \<and> c = 1 \<or> a = 2 \<and> b = 2 \<and> c = 1"
    if "a + b + c = 5" "a \<ge> b" "b \<ge> c" "c > 0" for a b c :: nat
  proof (cases "a = 3")
    case True with that show ?thesis by arith
  next
    case False
    with that have "a = 2" by linarith
    with that show ?thesis by arith
  qed
  have four: "a = 2 \<and> b = 1 \<and> c = 1 \<and> d = 1"
    if "a + b + c + d = 5" "a \<ge> b" "b \<ge> c" "c \<ge> d" "d > 0" for a b c d :: nat
    using that by (intro conjI; linarith)
  consider a where "ns = [a]" | a b where "ns = [a, b]" | a b c where "ns = [a, b, c]"
    | a b c d where "ns = [a, b, c, d]" | a b c d e rest where "ns = a # b # c # d # e # rest"
    using assms(1) by (metis list.exhaust sum_list.Nil zero_neq_numeral)
  then show ?thesis
  proof cases
    case (2 a b) then show ?thesis using assms two [of a b] by auto
  next
    case (3 a b c) then show ?thesis using assms three [of a b c] by auto
  next
    case (4 a b c d) then show ?thesis using assms four [of a b c d] by auto
  next
    case (5 a b c d e rest)
    have sum: "a + b + c + d + e + sum_list rest = 5" using assms(1) 5 by simp
    have "a > 0" "b > 0" "c > 0" "d > 0" "e > 0" using assms(3) 5 by simp_all
    with sum have "a = 1" "b = 1" "c = 1" "d = 1" "e = 1" "sum_list rest = 0" by linarith+
    moreover have "rest = []" using 5 assms(3) \<open>sum_list rest = 0\<close> by (cases rest) auto
    ultimately show ?thesis using 5 by simp
  qed (use assms in simp)
qed

lemma straight_high_distinct:
  assumes "straight_high vs = Some h" and "set vs \<subseteq> {2..14}"
  shows "card (set vs) = 5"
proof -
  define m where "m = Max (set vs)"
  consider "set vs = {m - 4..m}" | "set vs = {2, 3, 4, 5, 14}"
    using assms(1) by (auto simp: straight_high_def m_def split: if_splits)
  then show ?thesis
  proof cases
    case 1
    moreover have "m - 4 \<in> {m - 4..m}" by simp
    ultimately have "m - 4 \<in> {2..14}" using assms(2) by blast
    then show ?thesis unfolding 1 by auto
  qed simp
qed

lemma hand_groups_shape:
  assumes "length ws = 5" "set ws \<subseteq> {2..14}"
  shows "map fst (hand_groups ws) \<in> {[5], [4, 1], [3, 2], [3, 1, 1], [2, 2, 1], [2, 1, 1, 1], [1, 1, 1, 1, 1]}"
proof (rule group_shapes)
  show "sorted_wrt (\<ge>) (map fst (hand_groups ws))"
    unfolding sorted_wrt_map by (rule sorted_wrt_mono_rel [OF _ sorted_hand_groups]) (auto simp: less_prod_def)
  have "mset (concat (map (\<lambda>(n, v). replicate n v) (hand_groups ws))) = mset ws" by (rule mset_hand_groups)
  from arg_cong [OF this, of size] show "sum_list (map fst (hand_groups ws)) = 5"
    using assms(1) by (simp add: length_concat comp_def case_prod_unfold)
qed (auto simp: set_hand_groups count_list_mset)

lemma straight_groups:
  assumes "length (hand_groups ws) \<noteq> 5" "set ws \<subseteq> {2..14}"
  shows "straight_high ws = None"
proof (rule ccontr)
  assume "straight_high ws \<noteq> None"
  then have "card (set ws) = 5" using straight_high_distinct assms(2) by blast
  then show False using assms(1) by (simp add: hand_groups_def length_remdups_card_conv)
qed

lemma evaluate_desc_reference:
  assumes len: "length ws = 5" and desc: "sorted_wrt (\<ge>) ws" and rng: "set ws \<subseteq> {2..14}"
  shows "evaluate_five_values ws flush = reference_value ws flush"
proof -
  define gs where "gs = hand_groups ws"
  define F where "F n = map snd (filter (\<lambda>g. fst g = n) gs)" for n
  have vals: "rev (sort ws) = ws"
    using desc sorted_sort_id [of "rev ws"] by (simp add: sorted_wrt_rev)
  have ms: "mset ws = mset (concat (map (\<lambda>(n, v). replicate n v) gs))"
    unfolding gs_def by (rule mset_hand_groups [symmetric])
  have pos: "\<forall>g \<in> set gs. fst g > 0 \<and> snd g > 0"
    using rng by (auto simp: gs_def set_hand_groups count_list_mset)
  have dist: "distinct (map snd gs)"
    by (simp add: gs_def hand_groups_def rev_map distinct_map inj_on_def)
  note shape = hand_groups_shape [OF len rng, folded gs_def] and strt = straight_groups [OF _ rng, folded gs_def]
  have sg: "sorted_wrt (>) gs" unfolding gs_def by (rule sorted_hand_groups)
  have by_value: "p = filter q ws" if "sorted_wrt (\<ge>) p" "mset p = filter_mset q (mset ws)" for p q
    using that desc by (intro desc_mset_unique) (auto simp: sorted_wrt_filter)
  have flt: "\<forall>n>0. filter (\<lambda>v. count_values ws v = n) down_values = F n"
    unfolding F_def gs_def using groups_of_size [OF desc rng] by blast
  note base = evaluate_five_values_filters [OF vals is_straight_eq [OF len rng] flt, of flush]
  have ref: "reference_value ws flush =
     (case straight_high ws of
        Some h \<Rightarrow> make_hand (if flush then StraightFlush else Straight) [h, 0, 0, 0, 0]
      | None \<Rightarrow>
          if map fst gs = [4, 1] then make_hand FourOfKind (take 5 (map snd gs @ [0, 0, 0, 0, 0]))
          else if map fst gs = [3, 2] then make_hand FullHouse (take 5 (map snd gs @ [0, 0, 0, 0, 0]))
          else if flush then make_hand Flush ws
          else if map fst gs = [3, 1, 1] then make_hand ThreeOfKind (take 5 (map snd gs @ [0, 0, 0, 0, 0]))
          else if map fst gs = [2, 2, 1] then make_hand TwoPair (take 5 (map snd gs @ [0, 0, 0, 0, 0]))
          else if map fst gs = [2, 1, 1, 1] then make_hand OnePair (take 5 (map snd gs @ [0, 0, 0, 0, 0]))
          else make_hand HighCard ws)"
    unfolding reference_value_def Let_def vals gs_def [symmetric] ..
  from shape show ?thesis
  proof (elim insertE emptyE)
    assume s: "map fst gs = [5]"
    then obtain v where "gs = [(5, v)]" by auto
    with strt show ?thesis unfolding ref base by (simp add: F_def)
  next
    assume "map fst gs = [4, 1]"
    then obtain v w where "gs = [(4, v), (1, w)]" by auto
    with strt show ?thesis unfolding ref base by (simp add: F_def)
  next
    assume "map fst gs = [3, 2]"
    then obtain v w where "gs = [(3, v), (2, w)]" by auto
    with strt pos show ?thesis unfolding ref base by (simp add: F_def)
  next
    assume "map fst gs = [3, 1, 1]"
    then obtain t x y where gs: "gs = [(3, t), (1, x), (1, y)]" by auto
    have "[x, y] = filter (\<lambda>v. v \<noteq> t) ws"
      by (rule by_value) (use sg dist ms gs in \<open>auto simp: less_prod_def numeral_eq_Suc\<close>)
    note this [symmetric]
    with gs strt pos show ?thesis unfolding ref base by (simp add: F_def kickers_def)
  next
    assume "map fst gs = [2, 2, 1]"
    then obtain t u x where gs: "gs = [(2, t), (2, u), (1, x)]" by auto
    have "[x] = filter (\<lambda>v. v \<noteq> t \<and> v \<noteq> u) ws"
      by (rule by_value) (use sg dist ms gs in \<open>auto simp: less_prod_def numeral_eq_Suc\<close>)
    note this [symmetric]
    with gs strt pos show ?thesis unfolding ref base by (simp add: F_def)
  next
    assume "map fst gs = [2, 1, 1, 1]"
    then obtain t x y z where gs: "gs = [(2, t), (1, x), (1, y), (1, z)]" by auto
    have "[x, y, z] = filter (\<lambda>v. v \<noteq> t) ws"
      by (rule by_value) (use sg dist ms gs in \<open>auto simp: less_prod_def numeral_eq_Suc\<close>)
    note this [symmetric]
    with gs strt pos show ?thesis unfolding ref base by (simp add: F_def kickers_def)
  next
    assume "map fst gs = [1, 1, 1, 1, 1]"
    then obtain a b c d e where "gs = [(1, a), (1, b), (1, c), (1, d), (1, e)]" by auto
    then show ?thesis unfolding ref base by (simp add: F_def split: option.split)
  qed
qed

lemma evaluate_five_values_reference:
  assumes "length vs = 5" and "set vs \<subseteq> {2..14}"
  shows "evaluate_five_values vs flush = reference_value vs flush"
proof -
  obtain a b c d e where ws: "rev (sort vs) = [a, b, c, d, e]"
    and o: "a \<ge> b" "b \<ge> c" "c \<ge> d" "d \<ge> e"
    using five_cases [OF assms(1)] by metis
  have m: "mset vs = mset [a, b, c, d, e]" unfolding ws [symmetric] by simp
  have "evaluate_five_values [a, b, c, d, e] flush = reference_value [a, b, c, d, e] flush"
    by (rule evaluate_desc_reference) (use o mset_eq_setD [OF m] assms(2) in auto)
  then show ?thesis using mset_eq_cong [OF m] by simp
qed

lemma evaluate_five_reference:
  assumes "length cards = 5"
  shows "evaluate_five cards =
    reference_value (map (\<lambda>c. rank_value (c_rank c)) cards) (\<exists>s. \<forall>c \<in> set cards. c_suit c = s)"
proof -
  obtain c cs where cards: "cards = c # cs" using assms by (cases cards) auto
  have "set (map (\<lambda>c. rank_value (c_rank c)) cards) \<subseteq> {2..14}"
    using rank_value_range by auto
  then have "evaluate_five cards =
      reference_value (map (\<lambda>c. rank_value (c_rank c)) cards) (list_all (\<lambda>x. c_suit x = c_suit c) cards)"
    using assms unfolding evaluate_five_def Let_def
    by (subst evaluate_five_values_reference) (simp_all add: cards)
  moreover have "list_all (\<lambda>x. c_suit x = c_suit c) cards = (\<exists>s. \<forall>x \<in> set cards. c_suit x = s)"
    by (auto simp: cards list_all_iff)
  ultimately show ?thesis by simp
qed

text \<open>
  C35. Five cards are classified and ranked by the textbook rule: the code's counting loops give
  the category and the tie-breaking values that grouping equal ranks by size and rank gives, for
  every hand of five cards.
\<close>

theorem evaluate_five_correct:
  assumes "length cards = 5"
  shows "evaluate_five cards =
    reference_value (map (\<lambda>c. rank_value (c_rank c)) cards) (\<exists>s. \<forall>c \<in> set cards. c_suit c = s)"
  using assms by (rule evaluate_five_reference)

theorem evaluate_five_correct_witness:
  "length [\<lparr>c_suit = Spades, c_rank = Ace\<rparr>, \<lparr>c_suit = Hearts, c_rank = Ace\<rparr>,
     \<lparr>c_suit = Clubs, c_rank = King\<rparr>, \<lparr>c_suit = Spades, c_rank = King\<rparr>, \<lparr>c_suit = Hearts, c_rank = King\<rparr>] = 5
   \<and> evaluate_five [\<lparr>c_suit = Spades, c_rank = Ace\<rparr>, \<lparr>c_suit = Hearts, c_rank = Ace\<rparr>,
     \<lparr>c_suit = Clubs, c_rank = King\<rparr>, \<lparr>c_suit = Spades, c_rank = King\<rparr>, \<lparr>c_suit = Hearts, c_rank = King\<rparr>]
     = make_hand FullHouse [13, 14, 0, 0, 0]"
proof -
  have "(10::nat) \<in> {10..14}" "(2::nat) \<in> {2, 3, 4, 5, 14}" "(10::nat) \<notin> {14, 13}" "(2::nat) \<notin> {14, 13}"
    by simp_all
  then have "{14, 13} \<noteq> {10..14::nat}" "{14, 13} \<noteq> {2, 3, 4, 5, 14::nat}" by blast+
  then show ?thesis
    by (subst evaluate_five_correct)
      (simp_all add: reference_value_def straight_high_def hand_groups_def rank_value_def Let_def)
qed

lemma evaluate_five_mset:
  assumes "mset xs = mset ys" and "length xs = 5"
  shows "evaluate_five xs = evaluate_five ys"
proof -
  have "length ys = 5" using mset_eq_length [OF assms(1)] assms(2) by simp
  moreover have "set xs = set ys" using assms(1) by (rule mset_eq_setD)
  moreover have "mset (map (\<lambda>c. rank_value (c_rank c)) xs) = mset (map (\<lambda>c. rank_value (c_rank c)) ys)"
    using assms(1) by simp
  ultimately show ?thesis
    unfolding evaluate_five_reference [OF assms(2)] by (simp add: evaluate_five_reference mset_eq_cong(2))
qed

section \<open>The best of the index combinations\<close>

definition combo :: "nat \<Rightarrow> nat list \<Rightarrow> bool" where
  "combo n c \<longleftrightarrow> length c = 5 \<and> sorted_wrt (<) c \<and> (\<forall>i \<in> set c. i < n)"

lemma combo_five:
  "combo n [a, b, p, q, r] \<longleftrightarrow> a < b \<and> b < p \<and> p < q \<and> q < r \<and> r < n"
  by (auto simp: combo_def)

lemma combo_obtain:
  assumes "combo n c"
  obtains a b p q r where "c = [a, b, p, q, r]" "a < b" "b < p" "p < q" "q < r" "r < n"
  using assms list_of_five [of c] by (metis combo_def combo_five)

lemma next_combination_five:
  "next_combination (m + 5) [a, b, p, q, r] =
    (if r \<noteq> m + 4 then Some [a, b, p, q, r + 1]
     else if q \<noteq> m + 3 then Some [a, b, p, q + 1, q + 2]
     else if p \<noteq> m + 2 then Some [a, b, p + 1, p + 2, p + 3]
     else if b \<noteq> m + 1 then Some [a, b + 1, b + 2, b + 3, b + 4]
     else if a \<noteq> m then Some [a + 1, a + 2, a + 3, a + 4, a + 5]
     else None)"
  by (simp add: next_combination_def numeral_eq_Suc upt_rec)

text \<open>\<open>next_combination\<close> is the successor in the lexicographic order of the combinations.\<close>

lemma next_combination_Some:
  assumes "combo (m + 5) c" and "next_combination (m + 5) c = Some c'"
  shows "combo (m + 5) c'" and "c < c'" and "combo (m + 5) d \<Longrightarrow> c < d \<Longrightarrow> c' \<le> d"
proof -
  obtain a b p q r where c: "c = [a, b, p, q, r]" "a < b" "b < p" "p < q" "q < r" "r < m + 5"
    using assms(1) by (rule combo_obtain)
  show "combo (m + 5) c'" and "c < c'"
    using assms(2) c by (auto simp: next_combination_five combo_five split: if_splits)
  assume "combo (m + 5) d" and lt: "c < d"
  then obtain a' b' p' q' r' where
    d: "d = [a', b', p', q', r']" "a' < b'" "b' < p'" "p' < q'" "q' < r'" "r' < m + 5"
    using combo_obtain by metis
  show "c' \<le> d"
    using assms(2) c d lt by (auto simp: next_combination_five split: if_splits)
qed

lemma next_combination_None:
  assumes "combo (m + 5) c" and "next_combination (m + 5) c = None" and "combo (m + 5) d"
  shows "d \<le> c"
proof -
  obtain a b p q r where c: "c = [a, b, p, q, r]" "a < b" "b < p" "p < q" "q < r" "r < m + 5"
    using assms(1) by (rule combo_obtain)
  obtain a' b' p' q' r' where
    d: "d = [a', b', p', q', r']" "a' < b'" "b' < p'" "p' < q'" "q' < r'" "r' < m + 5"
    using assms(3) combo_obtain by metis
  show ?thesis
    using assms(2) c d by (auto simp: next_combination_five split: if_splits)
qed

lemma finite_combos: "finite {c. combo n c}"
  by (rule finite_subset [OF _ finite_lists_length_eq [of "{..<n}" 5]]) (auto simp: combo_def)

definition hand_at :: "card list \<Rightarrow> nat list \<Rightarrow> hand_value" where
  "hand_at cards idx = evaluate_five (map (\<lambda>i. cards ! i) idx)"

lemma default_hand_least: "default_hand \<le> h"
  if "h = make_hand k t" and "t \<ge> [0, 0, 0, 0, 0]"
  using that by (cases k)
    (auto simp: default_hand_def make_hand_def less_eq_hand_value_ext_def hand_key_def less_eq_prod_def)

lemma first_combo_least: "combo n d \<Longrightarrow> [0, 1, 2, 3, 4] \<le> d"
  by (erule combo_obtain) auto

text \<open>
  The loop invariant: \<open>best\<close> is the maximum of the default and of the values of all combinations
  before the current one.
\<close>

definition best_inv :: "card list \<Rightarrow> nat list option \<times> hand_value \<Rightarrow> bool" where
  "best_inv cards st \<longleftrightarrow>
     (case st of
        (None, best) \<Rightarrow> best = Max (insert default_hand (hand_at cards ` {d. combo (length cards) d}))
      | (Some idx, best) \<Rightarrow> combo (length cards) idx \<and>
          best = Max (insert default_hand (hand_at cards ` {d. combo (length cards) d \<and> d < idx})))"

abbreviation best_measure :: "nat \<Rightarrow> ((nat list option \<times> hand_value) \<times> nat list option \<times> hand_value) set" where
  "best_measure n \<equiv> measure (\<lambda>(idx, best). case idx of None \<Rightarrow> 0 | Some c \<Rightarrow> Suc (card {d. combo n d \<and> c < d}))"

lemma finite_combos_such: "finite {d. combo n d \<and> P d}"
  using finite_combos [of n] by (rule rev_finite_subset) auto

lemma best_step_inv:
  assumes "length cards = m + 5" "best_inv cards s" "fst s \<noteq> None"
  shows "best_inv cards (best_step cards s) \<and> (best_step cards s, s) \<in> best_measure (length cards)"
proof -
  let ?n = "length cards"
  obtain idx best where s: "s = (Some idx, best)" using assms(3) by (cases s) auto
  have co: "combo ?n idx"
    and best: "best = Max (insert default_hand (hand_at cards ` {d. combo ?n d \<and> d < idx}))"
    using assms(2) by (simp_all add: s best_inv_def)
  define best' where "best' = (if hand_at cards idx > best then hand_at cards idx else best)"
  have stp: "best_step cards s = (next_combination ?n idx, best')"
    by (simp add: s best_step_def best'_def hand_at_def Let_def)
  have "best' = max (hand_at cards idx) best" by (simp add: best'_def max_def)
  also have "\<dots> = Max (insert (hand_at cards idx)
      (insert default_hand (hand_at cards ` {d. combo ?n d \<and> d < idx})))"
    unfolding best using finite_combos_such by (subst Max_insert) auto
  also have "insert (hand_at cards idx) (insert default_hand (hand_at cards ` {d. combo ?n d \<and> d < idx}))
      = insert default_hand (hand_at cards ` {d. combo ?n d \<and> d \<le> idx})"
    using co by (auto simp: order_le_less)
  finally have best': "best' = Max (insert default_hand (hand_at cards ` {d. combo ?n d \<and> d \<le> idx}))" .
  show ?thesis
  proof (cases "next_combination ?n idx")
    case None
    then have "{d. combo ?n d \<and> d \<le> idx} = {d. combo ?n d}"
      using next_combination_None co assms by auto
    then show ?thesis by (simp add: stp [unfolded s] None best_inv_def best' s)
  next
    case (Some c)
    have c: "combo ?n c" "idx < c" "\<And>d. combo ?n d \<Longrightarrow> idx < d \<Longrightarrow> c \<le> d"
      using next_combination_Some [of m idx c] co Some assms by auto
    have "{d. combo ?n d \<and> d \<le> idx} = {d. combo ?n d \<and> d < c}"
      using c by (auto simp: not_le [symmetric] dest: order_le_less_trans)
    moreover have "card {d. combo ?n d \<and> c < d} < card {d. combo ?n d \<and> idx < d}"
      using c finite_combos_such by (intro psubset_card_mono) auto
    ultimately show ?thesis
      using c(1) by (simp add: stp [unfolded s] Some best_inv_def best' s)
  qed
qed

lemma evaluate_best_loop:
  assumes "length cards = m + 5"
  shows "evaluate_best cards = Max (insert default_hand (hand_at cards ` {d. combo (length cards) d}))"
proof -
  let ?n = "length cards" and ?b = "\<lambda>(idx :: nat list option, best :: hand_value). idx \<noteq> None"
  have step: "best_inv cards (best_step cards s) \<and> (best_step cards s, s) \<in> best_measure ?n"
    if "best_inv cards s" "?b s" for s
    using best_step_inv [OF assms that(1)] that(2) by (cases s) simp
  have "{d. combo ?n d \<and> d < [0, 1, 2, 3, 4]} = {}"
    using first_combo_least [of ?n] by (auto dest: leD)
  then have "best_inv cards (Some [0, 1, 2, 3, 4], default_hand)"
    using assms by (simp only: best_inv_def prod.case option.case image_empty) (simp add: combo_five)
  moreover define w where "w = while ?b (best_step cards) (Some [0, 1, 2, 3, 4], default_hand)"
  ultimately have "best_inv cards w \<and> \<not> ?b w"
    unfolding w_def
    by (intro while_rule [where P = "best_inv cards" and r = "best_measure ?n" and Q = "\<lambda>w. best_inv cards w \<and> \<not> ?b w"])
      (use step in \<open>blast | rule wf_measure\<close>)+
  moreover obtain idx best where w: "w = (idx, best)" by (cases w)
  ultimately have "best = Max (insert default_hand (hand_at cards ` {d. combo ?n d}))"
    by (cases idx) (simp_all add: best_inv_def)
  then show ?thesis using assms w by (simp add: evaluate_best_def w_def)
qed

text \<open>Index combinations are the five-card sub-multisets of the cards.\<close>

lemma subseq_of_mset:
  "mset h \<subseteq># mset cards \<Longrightarrow> \<exists>h'. subseq h' cards \<and> mset h' = mset h"
proof (induction cards arbitrary: h)
  case (Cons c cards)
  show ?case
  proof (cases "c \<in> set h")
    case True
    then have "mset (remove1 c h) \<subseteq># mset cards"
      using Cons.prems by (simp add: insert_subset_eq_iff subset_eq_diff_conv)
    then obtain h' where "subseq h' cards" "mset h' = mset (remove1 c h)"
      using Cons.IH by blast
    then show ?thesis using True by (intro exI [of _ "c # h'"]) simp
  next
    case False
    then have "mset h \<subseteq># mset cards"
    proof (intro mset_subset_eqI)
      fix a
      show "count (mset h) a \<le> count (mset cards) a"
      proof (cases "a = c")
        case True
        then have "count (mset h) a = 0" using False by simp
        then show ?thesis by (rule ord_eq_le_trans) simp
      next
        case False
        then show ?thesis using mset_subset_eq_count [OF Cons.prems, of a] by simp
      qed
    qed
    then show ?thesis using Cons.IH by (meson list_emb_Cons)
  qed
qed simp

lemma nths_indices: "nths xs N = map ((!) xs) (filter (\<lambda>i. i \<in> N) [0..<length xs])"
proof (induction xs rule: rev_induct)
  case (snoc x xs)
  have "map ((!) (xs @ [x])) (filter (\<lambda>i. i \<in> N) [0..<length xs])
      = map ((!) xs) (filter (\<lambda>i. i \<in> N) [0..<length xs])"
    by (rule map_cong) (auto simp: nth_append)
  with snoc show ?case by (simp add: nths_append)
qed simp

lemma subseq_combo:
  assumes "subseq h cards" and "length h = 5"
  shows "\<exists>d. combo (length cards) d \<and> h = map ((!) cards) d"
proof -
  obtain N where "h = nths cards N" using assms(1) by (auto simp: subseq_conv_nths)
  then have "h = map ((!) cards) (filter (\<lambda>i. i \<in> N) [0..<length cards])"
    by (simp add: nths_indices)
  moreover from this have "combo (length cards) (filter (\<lambda>i. i \<in> N) [0..<length cards])"
    using assms(2) by (auto simp: combo_def sorted_wrt_filter)
  ultimately show ?thesis by blast
qed

lemma combo_submset:
  assumes "combo (length cards) d"
  shows "mset (map ((!) cards) d) \<subseteq># mset cards"
proof -
  have "distinct d" using assms by (simp add: combo_def strict_sorted_iff)
  moreover have "set d \<subseteq> set [0..<length cards]" using assms by (auto simp: combo_def)
  moreover have "finite (set [0..<length cards])" "distinct [0..<length cards]" by simp_all
  ultimately have "mset d \<subseteq># mset [0..<length cards]"
    by (metis mset_set_set subset_imp_msubset_mset_set)
  then have "image_mset ((!) cards) (mset d) \<subseteq># image_mset ((!) cards) (mset [0..<length cards])"
    by (rule image_mset_subseteq_mono)
  moreover have "image_mset ((!) cards) (mset [0..<length cards]) = mset cards"
    by (metis map_nth mset_map)
  ultimately show ?thesis by (simp add: mset_map)
qed

definition five_card_hands :: "card list \<Rightarrow> hand_value set" where
  "five_card_hands cards = evaluate_five ` {h. length h = 5 \<and> mset h \<subseteq># mset cards}"

lemma hand_at_combos:
  "hand_at cards ` {d. combo (length cards) d} = five_card_hands cards"
proof (intro equalityI subsetI)
  fix v assume "v \<in> hand_at cards ` {d. combo (length cards) d}"
  then obtain d where "v = hand_at cards d" "combo (length cards) d" by blast
  then show "v \<in> five_card_hands cards"
    using combo_submset [of cards d] by (auto simp: hand_at_def five_card_hands_def combo_def)
next
  fix v assume "v \<in> five_card_hands cards"
  then obtain h where h: "v = evaluate_five h" "length h = 5" "mset h \<subseteq># mset cards"
    by (auto simp: five_card_hands_def)
  obtain h' where h': "subseq h' cards" "mset h' = mset h" using subseq_of_mset [OF h(3)] by blast
  moreover have "length h' = 5" using mset_eq_length [OF h'(2)] h(2) by simp
  ultimately obtain d where "combo (length cards) d" "h' = map ((!) cards) d"
    using subseq_combo by blast
  moreover have "v = evaluate_five h'"
    using evaluate_five_mset [OF h'(2) \<open>length h' = 5\<close>] h(1) by simp
  ultimately show "v \<in> hand_at cards ` {d. combo (length cards) d}"
    by (auto simp: hand_at_def)
qed

lemma finite_five_card_hands: "finite (five_card_hands cards)"
  unfolding hand_at_combos [symmetric] using finite_combos by blast

lemma five_card_hands_nonempty: "length cards \<ge> 5 \<Longrightarrow> five_card_hands cards \<noteq> {}"
  by (auto simp: five_card_hands_def intro!: exI [of _ "take 5 cards"])
    (metis append_take_drop_id mset_append mset_subset_eq_add_left)

lemma zeros_least: "length t = 5 \<Longrightarrow> [0, 0, 0, 0, 0] \<le> t" for t :: "nat list"
  using list_of_five [of t] by auto

lemma evaluate_five_ge_default:
  assumes "length h = 5"
  shows "default_hand \<le> evaluate_five h"
proof -
  have "min k 5 + (5 - k) = 5" for k :: nat by arith
  then have "length (tiebreakers (reference_value vs f)) = 5" if "length vs = 5" for vs f
    using that by (simp add: reference_value_def Let_def make_hand_def split: option.split)
  then have "length (tiebreakers (evaluate_five h)) = 5"
    using assms by (simp add: evaluate_five_reference)
  moreover have "evaluate_five h = make_hand (category (evaluate_five h)) (tiebreakers (evaluate_five h))"
    by (simp add: make_hand_def)
  ultimately show ?thesis using default_hand_least zeros_least by blast
qed

lemma evaluate_best_Max:
  assumes "length cards \<ge> 5"
  shows "evaluate_best cards = Max (five_card_hands cards)"
proof -
  obtain m where "length cards = m + 5" using assms by (metis add.commute le_Suc_ex)
  then have "evaluate_best cards = Max (insert default_hand (five_card_hands cards))"
    unfolding hand_at_combos [symmetric] by (rule evaluate_best_loop)
  also have "\<dots> = max default_hand (Max (five_card_hands cards))"
    using finite_five_card_hands five_card_hands_nonempty [OF assms] by (rule Max_insert)
  also have "\<dots> = Max (five_card_hands cards)"
  proof (rule max_absorb2)
    have "Max (five_card_hands cards) \<in> five_card_hands cards"
      using finite_five_card_hands five_card_hands_nonempty [OF assms] by (rule Max_in)
    then show "default_hand \<le> Max (five_card_hands cards)"
      using evaluate_five_ge_default by (auto simp: five_card_hands_def)
  qed
  finally show ?thesis .
qed

lemma evaluate_best_mset:
  assumes "mset xs = mset ys"
  shows "evaluate_best xs = evaluate_best ys"
proof (cases "length xs \<ge> 5")
  case True
  then show ?thesis
    using assms mset_eq_length [OF assms] by (simp add: evaluate_best_Max five_card_hands_def)
next
  case False
  then show ?thesis using mset_eq_length [OF assms] by (simp add: evaluate_best_def)
qed

text \<open>
  C36. The best hand of five or more cards is the greatest value over all choices of five of them:
  the enumeration of index combinations misses none, stops, and the result does not depend on the
  order of the cards.
\<close>

theorem evaluate_best_correct:
  assumes "length cards \<ge> 5"
  shows "evaluate_best cards = Max (evaluate_five ` {h. length h = 5 \<and> mset h \<subseteq># mset cards})
    \<and> (\<forall>cards'. mset cards' = mset cards \<longrightarrow> evaluate_best cards' = evaluate_best cards)"
  using evaluate_best_Max [OF assms] evaluate_best_mset unfolding five_card_hands_def by blast

theorem evaluate_best_correct_witness:
  "length [\<lparr>c_suit = Spades, c_rank = Ace\<rparr>, \<lparr>c_suit = Hearts, c_rank = Ace\<rparr>,
     \<lparr>c_suit = Clubs, c_rank = King\<rparr>, \<lparr>c_suit = Spades, c_rank = King\<rparr>,
     \<lparr>c_suit = Diamonds, c_rank = Two\<rparr>] \<ge> 5
   \<and> evaluate_best (rev [\<lparr>c_suit = Spades, c_rank = Ace\<rparr>, \<lparr>c_suit = Hearts, c_rank = Ace\<rparr>,
     \<lparr>c_suit = Clubs, c_rank = King\<rparr>, \<lparr>c_suit = Spades, c_rank = King\<rparr>,
     \<lparr>c_suit = Diamonds, c_rank = Two\<rparr>])
   = evaluate_best [\<lparr>c_suit = Spades, c_rank = Ace\<rparr>, \<lparr>c_suit = Hearts, c_rank = Ace\<rparr>,
     \<lparr>c_suit = Clubs, c_rank = King\<rparr>, \<lparr>c_suit = Spades, c_rank = King\<rparr>,
     \<lparr>c_suit = Diamonds, c_rank = Two\<rparr>]"
proof -
  have h: "length [\<lparr>c_suit = Spades, c_rank = Ace\<rparr>, \<lparr>c_suit = Hearts, c_rank = Ace\<rparr>,
     \<lparr>c_suit = Clubs, c_rank = King\<rparr>, \<lparr>c_suit = Spades, c_rank = King\<rparr>,
     \<lparr>c_suit = Diamonds, c_rank = Two\<rparr>] \<ge> 5" by simp
  note best = conjunct2 [OF evaluate_best_correct [OF h]]
  show ?thesis
    by (rule conjI [OF h]) (rule best [rule_format, OF mset_rev])
qed

end
