(* ===== verification/SidePots.thy ===== *)
theory SidePots
  imports Prelude
begin

text \<open>
  The side pots of \<open>common/include/poker/side_pots.h\<close> and \<open>common/src/side_pots.cpp\<close>:
  \<open>compute_side_pots\<close> repeatedly takes the smallest outstanding contribution of the players still
  eligible from everybody. Contributions and pot amounts are 32-bit and wrap; the loop guard
  compares with the sentinel \<open>numeric_limits<uint32_t>::max()\<close>, as the code does.

  The reference is the layering of the pot: cut every contribution at the distinct contributions
  of the players who have not folded; each slice is a pot. The lemmas show that the loop computes
  exactly the slices, and from that what the pots add up to.
\<close>

section \<open>Data and operations\<close>

record pot_player_state =
  contributed :: u32
  folded :: bool

record side_pot =
  amount :: u32
  eligible_player_indices :: "nat list"

definition u32_max :: u32 where
  "u32_max = 4294967295"

text \<open>
  \<open>remaining[index]\<close>. The indices are always in range; reading past the end is undefined in C++ and
  reads 0 here.
\<close>

definition rem_at :: "u32 list \<Rightarrow> nat \<Rightarrow> u32" where
  "rem_at remaining i = (if i < length remaining then remaining ! i else 0)"

definition min_bet :: "u32 list \<Rightarrow> nat list \<Rightarrow> u32" where
  "min_bet remaining eligible =
     fold (\<lambda>i m. if rem_at remaining i > 0 then min m (rem_at remaining i) else m) eligible u32_max"

text \<open>The loop over \<open>remaining\<close>: the amount of the pot and the remaining contributions after it.\<close>

fun share_loop :: "u32 \<Rightarrow> u32 \<Rightarrow> u32 list \<Rightarrow> u32 \<times> u32 list" where
  "share_loop m amt [] = (amt, [])"
| "share_loop m amt (r # rs) =
     (if r = 0 then (case share_loop m amt rs of (a, rs') \<Rightarrow> (a, r # rs'))
      else let share = min r m
           in (case share_loop m (amt + share) rs of (a, rs') \<Rightarrow> (a, (r - share) # rs')))"

lemma share_loop_eq:
  "share_loop m amt rs = (amt + sum_list (map (\<lambda>r. min r m) rs), map (\<lambda>r. r - min r m) rs)"
  by (induction m amt rs rule: share_loop.induct) (auto simp: Let_def)

lemma Min_insert_min: "finite A \<Longrightarrow> Min (insert (min a b) A) = Min (insert a (insert b A))"
  by (cases "A = {}") (simp_all add: min.assoc)

lemma min_bet_fold:
  "fold (\<lambda>i m. if f i > 0 then min m (f i) else m) is (m0 :: u32)
    = Min (insert m0 (f ` {i \<in> set is. f i > 0}))"
proof (induction "is" arbitrary: m0)
  case (Cons i "is")
  show ?case
  proof (cases "f i > 0")
    case True
    then have "f ` {j \<in> set (i # is). f j > 0} = insert (f i) (f ` {j \<in> set is. f j > 0})" by auto
    moreover have "Min (insert (min m0 (f i)) (f ` {j \<in> set is. f j > 0}))
        = Min (insert m0 (insert (f i) (f ` {j \<in> set is. f j > 0})))"
      by (rule Min_insert_min) simp
    ultimately show ?thesis using Cons True by simp
  next
    case False
    then have "{j \<in> set (i # is). f j > 0} = {j \<in> set is. f j > 0}" by auto
    then show ?thesis using Cons False by simp
  qed
qed simp

lemma min_bet_Min:
  "min_bet remaining eligible
    = Min (insert u32_max (rem_at remaining ` {i \<in> set eligible. rem_at remaining i > 0}))"
  unfolding min_bet_def by (rule min_bet_fold)

lemma min_bet_attained:
  assumes "min_bet remaining eligible \<noteq> u32_max"
  obtains i where "i \<in> set eligible" "rem_at remaining i = min_bet remaining eligible"
    "rem_at remaining i > 0"
proof -
  have "min_bet remaining eligible
      \<in> insert u32_max (rem_at remaining ` {i \<in> set eligible. rem_at remaining i > 0})"
    unfolding min_bet_Min by (rule Min_in) auto
  with assms show ?thesis using that by auto
qed

function pots_loop :: "u32 list \<Rightarrow> nat list \<Rightarrow> side_pot list" where
  "pots_loop remaining eligible =
     (if eligible = [] then []
      else let m = min_bet remaining eligible in
        if m = u32_max then []
        else (case share_loop m 0 remaining of (amt, remaining') \<Rightarrow>
          \<lparr>amount = amt, eligible_player_indices = eligible\<rparr> #
          pots_loop remaining' (filter (\<lambda>i. rem_at remaining' i \<noteq> 0) eligible)))"
  by pat_completeness auto
termination
proof (relation "measure (\<lambda>(remaining, eligible). length eligible)", goal_cases)
  case (2 remaining eligible m amt remaining')
  then obtain i where i: "i \<in> set eligible" "rem_at remaining i = m" "rem_at remaining i > 0"
    using min_bet_attained by metis
  then have "rem_at remaining' i = 0"
    using 2 by (auto simp: share_loop_eq rem_at_def split: if_splits)
  with i(1) have "length (filter (\<lambda>i. rem_at remaining' i \<noteq> 0) eligible) < length eligible"
    by (intro length_filter_less) auto
  then show ?case by simp
qed simp

declare pots_loop.simps [simp del]

definition compute_side_pots :: "pot_player_state list \<Rightarrow> side_pot list" where
  "compute_side_pots players =
     pots_loop (map contributed players)
       (filter (\<lambda>i. \<not> folded (players ! i)) [0..<length players])"

section \<open>The layering of the contributions\<close>

definition slice :: "nat list \<Rightarrow> nat \<Rightarrow> nat \<Rightarrow> nat" where
  "slice cs p l = sum_list (map (\<lambda>c. min c l - min c p) cs)"

fun layers :: "nat list \<Rightarrow> nat \<Rightarrow> nat list \<Rightarrow> nat list \<Rightarrow> (nat \<times> nat list) list" where
  "layers cs p el [] = []"
| "layers cs p el (l # ls) = (slice cs p l, el) # layers cs l (filter (\<lambda>i. cs ! i > l) el) ls"

definition levels :: "nat list \<Rightarrow> nat \<Rightarrow> nat list \<Rightarrow> nat list" where
  "levels cs p el = sorted_list_of_set ((!) cs ` {i \<in> set el. cs ! i > p})"

definition pot_view :: "side_pot \<Rightarrow> nat \<times> nat list" where
  "pot_view sp = (unat (amount sp), eligible_player_indices sp)"

lemma pot_view_simp [simp]: "pot_view \<lparr>amount = a, eligible_player_indices = el\<rparr> = (unat a, el)"
  by (simp add: pot_view_def)

lemma levels_empty: "\<forall>i \<in> set el. cs ! i \<le> p \<Longrightarrow> levels cs p el = []"
proof -
  assume "\<forall>i \<in> set el. cs ! i \<le> p"
  then have "{i \<in> set el. cs ! i > p} = {}" by auto
  then show ?thesis by (simp add: levels_def)
qed

lemma levels_step:
  assumes l: "i \<in> set el" "cs ! i = l" "l > p" "\<forall>j \<in> set el. cs ! j > p \<longrightarrow> l \<le> cs ! j"
  shows "levels cs p el = l # levels cs l (filter (\<lambda>i. cs ! i > l) el)"
proof -
  let ?A = "(!) cs ` {i \<in> set el. cs ! i > p}"
  have fin: "finite ?A" and ne: "?A \<noteq> {}" using l by auto
  have "Min ?A = l" by (rule Min_eqI) (use l in auto)
  moreover have "?A - {l} = (!) cs ` {i \<in> set (filter (\<lambda>i. cs ! i > l) el). cs ! i > l}"
    using l by (auto simp: order.order_iff_strict)
  ultimately show ?thesis
    unfolding levels_def using sorted_list_of_set_nonempty [OF fin ne] by simp
qed

text \<open>One pass of the loop over \<open>remaining\<close>, read over naturals.\<close>

lemma share_loop_slice:
  assumes rem: "map unat remaining = map (\<lambda>c. c - p) cs" and lp: "p \<le> l"
    and m: "unat m = l - p" and bound: "sum_list cs < 2 ^ 32"
    and loop: "share_loop m 0 remaining = (amt, remaining')"
  shows "unat amt = slice cs p l" "map unat remaining' = map (\<lambda>c. c - l) cs"
proof -
  have eqs: "amt = sum_list (map (\<lambda>r. min r m) remaining)"
      "remaining' = map (\<lambda>r. r - min r m) remaining"
    using loop by (simp_all add: share_loop_eq)
  have "map unat (map (\<lambda>r. min r m) remaining) = map (\<lambda>x. min x (l - p)) (map unat remaining)"
    by (simp add: unat_min m)
  also have "\<dots> = map (\<lambda>c. min c l - min c p) cs"
    unfolding rem using lp by (auto simp: min_def)
  finally have shares: "map unat (map (\<lambda>r. min r m) remaining) = map (\<lambda>c. min c l - min c p) cs" .
  have "slice cs p l \<le> sum_list cs"
    unfolding slice_def using sum_list_mono [of cs "\<lambda>c. min c l - min c p" "\<lambda>c. c"] by simp
  then show "unat amt = slice cs p l"
    unfolding eqs slice_def using bound shares
    by (subst unat_sum_list) (simp_all add: slice_def del: map_map)
  have "map unat remaining' = map (\<lambda>x. x - min x (l - p)) (map unat remaining)"
    by (simp add: eqs unat_min m unat_minus_le)
  also have "\<dots> = map (\<lambda>c. c - l) cs" unfolding rem using lp by (auto simp: min_def)
  finally show "map unat remaining' = map (\<lambda>c. c - l) cs" .
qed

lemma rem_at_unat:
  "map unat remaining = map (\<lambda>c. c - p) cs \<Longrightarrow> i < length cs \<Longrightarrow> unat (rem_at remaining i) = cs ! i - p"
  by (metis (no_types, lifting) length_map nth_map rem_at_def)

lemma min_bet_level:
  assumes rem: "map unat remaining = map (\<lambda>c. c - p) cs" and el: "set el \<subseteq> {..<length cs}"
    and small: "\<forall>c \<in> set cs. c < 2 ^ 32 - 1"
  shows "min_bet remaining el = u32_max \<Longrightarrow> \<forall>i \<in> set el. cs ! i \<le> p"
    and "min_bet remaining el \<noteq> u32_max \<Longrightarrow>
      \<exists>i \<in> set el. \<exists>l. cs ! i = l \<and> l > p \<and> unat (min_bet remaining el) = l - p
        \<and> (\<forall>j \<in> set el. cs ! j > p \<longrightarrow> l \<le> cs ! j)"
proof -
  have at: "unat (rem_at remaining i) = cs ! i - p" if "i \<in> set el" for i
    using rem_at_unat [OF rem] el that by auto
  have le: "min_bet remaining el \<le> rem_at remaining i" if "i \<in> set el" "cs ! i > p" for i
  proof -
    have "rem_at remaining i > 0" using at that by (simp add: word_less_nat_alt)
    then show ?thesis unfolding min_bet_Min using that by (intro Min_le) auto
  qed
  { assume max: "min_bet remaining el = u32_max"
    show "\<forall>i \<in> set el. cs ! i \<le> p"
    proof (rule ballI, rule ccontr)
      fix i assume i: "i \<in> set el" "\<not> cs ! i \<le> p"
      then have "u32_max \<le> rem_at remaining i" using le max by auto
      then have "2 ^ 32 - 1 \<le> cs ! i - p"
        using at [OF i(1)] by (simp add: word_le_nat_alt u32_max_def)
      moreover have "cs ! i \<in> set cs" using i el by (auto intro: nth_mem)
      ultimately show False using small by fastforce
    qed }
  { assume "min_bet remaining el \<noteq> u32_max"
    then obtain i where i: "i \<in> set el" "rem_at remaining i = min_bet remaining el"
        "rem_at remaining i > 0"
      by (rule min_bet_attained)
    have gt: "cs ! i > p" using at [OF i(1)] i(3) by (simp add: word_less_nat_alt)
    moreover have "cs ! i \<le> cs ! j" if "j \<in> set el" "cs ! j > p" for j
    proof -
      have "unat (rem_at remaining i) \<le> unat (rem_at remaining j)"
        using le [OF that] i(2) by (simp add: word_le_nat_alt)
      then show ?thesis using at [OF i(1)] at [OF that(1)] that(2) gt by linarith
    qed
    ultimately show "\<exists>i \<in> set el. \<exists>l. cs ! i = l \<and> l > p \<and> unat (min_bet remaining el) = l - p
        \<and> (\<forall>j \<in> set el. cs ! j > p \<longrightarrow> l \<le> cs ! j)"
      using i(1) at [OF i(1)] unfolding i(2) by blast }
qed

lemma pots_loop_layers:
  assumes "map unat remaining = map (\<lambda>c. c - p) cs" "set el \<subseteq> {..<length cs}"
    "\<forall>c \<in> set cs. c < 2 ^ 32 - 1" "sum_list cs < 2 ^ 32"
  shows "map pot_view (pots_loop remaining el) = layers cs p el (levels cs p el)"
  using assms
proof (induction remaining el arbitrary: p rule: pots_loop.induct)
  case (1 remaining el)
  note rem = "1.prems"(1) and el = "1.prems"(2) and small = "1.prems"(3) and bound = "1.prems"(4)
  show ?case
  proof (cases "el = [] \<or> min_bet remaining el = u32_max")
    case True
    then have "\<forall>i \<in> set el. cs ! i \<le> p" using min_bet_level(1) [OF rem el small] by auto
    then show ?thesis using True by (auto simp: levels_empty pots_loop.simps [of remaining el] Let_def)
  next
    case False
    then obtain i l where l: "i \<in> set el" "cs ! i = l" "l > p"
        "unat (min_bet remaining el) = l - p" "\<forall>j \<in> set el. cs ! j > p \<longrightarrow> l \<le> cs ! j"
      using min_bet_level(2) [OF rem el small] by blast
    obtain amt remaining' where sl: "share_loop (min_bet remaining el) 0 remaining = (amt, remaining')"
      by fastforce
    note sh = share_loop_slice [OF rem less_imp_le [OF l(3)] l(4) bound sl]
    have eq: "filter (\<lambda>i. rem_at remaining' i \<noteq> 0) el = filter (\<lambda>i. cs ! i > l) el"
    proof (rule filter_cong)
      fix j assume "j \<in> set el"
      then have "unat (rem_at remaining' j) = cs ! j - l" using rem_at_unat [OF sh(2)] el by auto
      then show "(rem_at remaining' j \<noteq> 0) = (cs ! j > l)" by (metis leD leI unat_0 unat_eq_zero zero_less_diff diff_is_0_eq)
    qed simp
    have "map pot_view (pots_loop remaining' (filter (\<lambda>i. rem_at remaining' i \<noteq> 0) el))
        = layers cs l (filter (\<lambda>i. cs ! i > l) el) (levels cs l (filter (\<lambda>i. cs ! i > l) el))"
      unfolding eq
      using "1.IH" [OF _ refl _ sl [symmetric] sh(2)] el small bound False unfolding eq by auto
    then show ?thesis using False sl sh(1)
      by (simp add: pots_loop.simps [of remaining el] levels_step [OF l(1-3,5)] Let_def)
  qed
qed

text \<open>
  The closed form of the layering: pot \<open>k\<close> is cut between the levels \<open>k - 1\<close> and \<open>k\<close>; the first
  pot is open to every player who has not folded, each further one to those who reached its level.
\<close>

definition contributions :: "pot_player_state list \<Rightarrow> nat list" where
  "contributions ps = map (\<lambda>p. unat (contributed p)) ps"

definition live :: "pot_player_state list \<Rightarrow> nat list" where
  "live ps = filter (\<lambda>i. \<not> folded (ps ! i)) [0..<length ps]"

definition pot_levels :: "pot_player_state list \<Rightarrow> nat list" where
  "pot_levels ps = levels (contributions ps) 0 (live ps)"

definition pot_layer :: "pot_player_state list \<Rightarrow> nat \<Rightarrow> nat \<times> nat list" where
  "pot_layer ps k =
     (slice (contributions ps) (if k = 0 then 0 else pot_levels ps ! (k - 1)) (pot_levels ps ! k),
      filter (\<lambda>i. k = 0 \<or> pot_levels ps ! k \<le> contributions ps ! i) (live ps))"

definition top_live :: "pot_player_state list \<Rightarrow> nat" where
  "top_live ps = Max (insert 0 ((!) (contributions ps) ` set (live ps)))"

lemma layers_nth:
  assumes "sorted_wrt (<) (p # ls)" "\<forall>i \<in> set el. cs ! i > p \<longrightarrow> cs ! i \<in> set ls"
  shows "layers cs p el ls = map (\<lambda>k. (slice cs (if k = 0 then p else ls ! (k - 1)) (ls ! k),
      filter (\<lambda>i. k = 0 \<or> ls ! k \<le> cs ! i) el)) [0..<length ls]"
  using assms
proof (induction ls arbitrary: p el)
  case (Cons l ls)
  let ?el = "filter (\<lambda>i. l < cs ! i) el"
  have IH: "layers cs l ?el ls = map (\<lambda>k. (slice cs (if k = 0 then l else ls ! (k - 1)) (ls ! k),
      filter (\<lambda>i. k = 0 \<or> ls ! k \<le> cs ! i) ?el)) [0..<length ls]"
    by (rule Cons.IH) (use Cons.prems in \<open>auto dest: less_trans\<close>)
  show ?case
  proof (rule nth_equalityI)
    show "length (layers cs p el (l # ls)) = length (map (\<lambda>k. (slice cs (if k = 0 then p
        else (l # ls) ! (k - 1)) ((l # ls) ! k), filter (\<lambda>i. k = 0 \<or> (l # ls) ! k \<le> cs ! i) el))
        [0..<length (l # ls)])"
      by (simp add: IH)
  next
    fix k assume "k < length (layers cs p el (l # ls))"
    then have k: "k < Suc (length ls)" by (simp add: IH)
    show "layers cs p el (l # ls) ! k = map (\<lambda>k. (slice cs (if k = 0 then p
        else (l # ls) ! (k - 1)) ((l # ls) ! k), filter (\<lambda>i. k = 0 \<or> (l # ls) ! k \<le> cs ! i) el))
        [0..<length (l # ls)] ! k"
    proof (cases k)
      case (Suc j)
      have gt: "l < ls ! j" using Cons.prems(1) k Suc by simp
      have fil: "filter (\<lambda>i. j = 0 \<or> ls ! j \<le> cs ! i) ?el = filter (\<lambda>i. ls ! j \<le> cs ! i) el"
        unfolding filter_filter
      proof (rule filter_cong [OF refl])
        fix i assume i: "i \<in> set el"
        show "(l < cs ! i \<and> (j = 0 \<or> ls ! j \<le> cs ! i)) = (ls ! j \<le> cs ! i)"
        proof
          assume "l < cs ! i \<and> (j = 0 \<or> ls ! j \<le> cs ! i)"
          moreover
          { assume "j = 0" "l < cs ! i"
            then have "cs ! i \<in> set ls" using Cons.prems i by fastforce
            then obtain n where "n < length ls" "ls ! n = cs ! i" by (auto simp: in_set_conv_nth)
            moreover have "sorted ls" using Cons.prems(1) by (simp add: strict_sorted_iff)
            ultimately have "ls ! 0 \<le> cs ! i" by (metis le0 sorted_nth_mono) }
          ultimately show "ls ! j \<le> cs ! i" by auto
        qed (use gt in auto)
      qed
      have j: "j < length [0..<length ls]" "k < length [0..<length (l # ls)]" using k Suc by auto
      have kk: "[0..<length (l # ls)] ! k = k" using k by (subst nth_upt) simp_all
      have "layers cs p el (l # ls) ! k = (slice cs (if j = 0 then l else ls ! (j - 1)) (ls ! j),
          filter (\<lambda>i. j = 0 \<or> ls ! j \<le> cs ! i) ?el)"
        using j by (simp only: layers.simps Suc nth_Cons_Suc IH nth_map) (simp add: nth_upt)
      then show ?thesis
        unfolding fil nth_map [OF j(2)] kk using Suc by (cases j) simp_all
    qed (simp del: upt_Suc)
  qed
qed simp

lemma levels_sorted: "sorted_wrt (<) (p # levels cs p el)"
  unfolding levels_def by (auto simp: strict_sorted_iff)

lemma set_levels: "set (levels cs p el) = (!) cs ` {i \<in> set el. cs ! i > p}"
  unfolding levels_def by simp

lemma set_live: "set (live ps) = {i. i < length ps \<and> \<not> folded (ps ! i)}"
  by (auto simp: live_def)

lemma compute_side_pots_layers:
  assumes "sum_list (contributions ps) < 2 ^ 32 - 1"
  shows "map pot_view (compute_side_pots ps)
    = layers (contributions ps) 0 (live ps) (levels (contributions ps) 0 (live ps))"
proof -
  have small: "\<forall>c \<in> set (contributions ps). c < 2 ^ 32 - 1"
    using member_le_sum_list [of _ "contributions ps"] assms by (blast intro: le_less_trans)
  have "sum_list (contributions ps) < 2 ^ 32" using assms by linarith
  moreover have "map unat (map contributed ps) = map (\<lambda>c. c - 0) (contributions ps)"
    by (simp add: contributions_def)
  moreover have "set (live ps) \<subseteq> {..<length (contributions ps)}"
    by (auto simp: set_live contributions_def)
  ultimately show ?thesis
    unfolding compute_side_pots_def live_def [symmetric] by (intro pots_loop_layers small)
qed

text \<open>
  C37. As long as the contributions of a hand do not overflow, the loop computes exactly the
  layers of the pot: pot \<open>k\<close> holds what every player, folded or not, put in between the levels
  \<open>k - 1\<close> and \<open>k\<close> of the distinct positive contributions of the players still in the hand, and
  may be won by those who reached level \<open>k\<close> (the first pot by everybody still in the hand, also
  by a player who put in nothing).
\<close>

theorem side_pots_layers:
  assumes "sum_list (contributions ps) < 2 ^ 32 - 1"
  shows "map pot_view (compute_side_pots ps) = map (pot_layer ps) [0..<length (pot_levels ps)]"
proof -
  have "\<forall>i \<in> set (live ps). contributions ps ! i > 0 \<longrightarrow> contributions ps ! i \<in> set (pot_levels ps)"
    by (auto simp: pot_levels_def set_levels)
  then show ?thesis
    unfolding compute_side_pots_layers [OF assms] pot_levels_def [symmetric]
    by (subst layers_nth) (use levels_sorted [of 0 "contributions ps" "live ps"] in
        \<open>simp_all add: pot_levels_def pot_layer_def\<close>)
qed

text \<open>Two players all in for 50 and 100 and a third who folded after 70.\<close>

definition sample_pot :: "pot_player_state list" where
  "sample_pot = [\<lparr>contributed = 50, folded = False\<rparr>, \<lparr>contributed = 100, folded = False\<rparr>,
      \<lparr>contributed = 70, folded = True\<rparr>]"

lemma contributions_sample: "contributions sample_pot = [50, 100, 70]"
  by (simp add: contributions_def sample_pot_def)

lemma live_sample: "live sample_pot = [0, 1]"
  by (simp add: live_def sample_pot_def upt_rec)

lemma pot_levels_sample: "pot_levels sample_pot = [50, 100]"
proof -
  have "{i \<in> set [0, 1]. [50, 100, 70] ! i > (0::nat)} = {0, 1}" by auto
  then show ?thesis unfolding pot_levels_def levels_def contributions_sample live_sample
    by (simp only:) simp
qed

theorem side_pots_layers_witness:
  "map pot_view (compute_side_pots sample_pot) = [(150, [0, 1]), (70, [1])]"
  using side_pots_layers [of sample_pot]
  by (simp add: contributions_sample live_sample pot_levels_sample pot_layer_def slice_def upt_rec)

section \<open>What the pots add up to\<close>

lemma slice_add: "p \<le> l \<Longrightarrow> l \<le> m \<Longrightarrow> slice cs p l + slice cs l m = slice cs p m"
  by (induction cs) (auto simp: slice_def min_def)

lemma slice_refl: "slice cs p p = 0"
  by (simp add: slice_def)

lemma layers_total:
  "sorted_wrt (<) (p # ls) \<Longrightarrow>
    sum_list (map fst (layers cs p el ls)) = slice cs p (last (p # ls))"
proof (induction ls arbitrary: p el)
  case (Cons l ls)
  have "l \<le> last (l # ls)" using Cons.prems by (auto simp: less_imp_le)
  then show ?case using Cons by (simp add: slice_add)
qed (simp add: slice_refl)

lemma sorted_append_last: "sorted xs \<Longrightarrow> x \<in> set xs \<Longrightarrow> x \<le> last xs" for xs :: "nat list"
  by (induction xs) (auto split: if_splits)

lemma sorted_last_Max: "sorted xs \<Longrightarrow> xs \<noteq> [] \<Longrightarrow> last xs = Max (set xs)" for xs :: "nat list"
  by (rule Max_eqI [symmetric]) (auto dest: sorted_append_last)

lemma last_pot_levels: "last (0 # pot_levels ps) = top_live ps"
proof -
  have "sorted (0 # pot_levels ps)"
    using levels_sorted [of 0] by (simp add: pot_levels_def strict_sorted_iff less_imp_le)
  then have "last (0 # pot_levels ps) = Max (set (0 # pot_levels ps))"
    by (intro sorted_last_Max) simp_all
  also have "\<dots> = top_live ps"
    unfolding top_live_def
    by (rule arg_cong [where f = Max]) (auto simp: pot_levels_def set_levels)
  finally show ?thesis .
qed

lemma total_min:
  assumes "sum_list (contributions ps) < 2 ^ 32 - 1"
  shows "sum_list (map (\<lambda>sp. unat (amount sp)) (compute_side_pots ps))
    = sum_list (map (\<lambda>c. min c (top_live ps)) (contributions ps))"
proof -
  have "map (\<lambda>sp. unat (amount sp)) (compute_side_pots ps)
      = map fst (map pot_view (compute_side_pots ps))"
    by (simp add: pot_view_def)
  also have "sum_list \<dots> = slice (contributions ps) 0 (top_live ps)"
    unfolding compute_side_pots_layers [OF assms] last_pot_levels [symmetric] pot_levels_def
    by (rule layers_total) (rule levels_sorted)
  finally show ?thesis by (simp add: slice_def)
qed

lemma sum_list_min_eq_iff:
  "sum_list (map (\<lambda>c. min c m) cs) = sum_list cs \<longleftrightarrow> (\<forall>c \<in> set cs. c \<le> (m :: nat))"
proof (induction cs)
  case (Cons c cs)
  have "sum_list (map (\<lambda>c. min c m) cs) \<le> sum_list cs"
    using sum_list_mono [of cs "\<lambda>c. min c m" "\<lambda>c. c"] by simp
  with Cons show ?case by (auto simp: min_def)
qed simp

text \<open>
  C38. Nothing of the hand is lost or created by the pots except the chips that a folded player put
  in above everybody still in the hand: the pots add up to every contribution capped at the
  largest contribution of a player who has not folded. In particular they add up to everything
  that was put in exactly when no folded player put in more than that.
\<close>

theorem side_pots_total:
  assumes "sum_list (contributions ps) < 2 ^ 32 - 1"
  shows "sum_list (map (\<lambda>sp. unat (amount sp)) (compute_side_pots ps))
      = sum_list (map (\<lambda>c. min c (top_live ps)) (contributions ps))
    \<and> (sum_list (map (\<lambda>sp. unat (amount sp)) (compute_side_pots ps)) = sum_list (contributions ps)
        \<longleftrightarrow> (\<forall>c \<in> set (contributions ps). c \<le> top_live ps))"
  by (simp only: total_min [OF assms] sum_list_min_eq_iff)

text \<open>The folded player of the sample put in less than the top, so all 220 chips are in the pots.\<close>

theorem side_pots_total_witness:
  "sum_list (map (\<lambda>sp. unat (amount sp)) (compute_side_pots sample_pot)) = 220"
proof -
  have "top_live sample_pot = 100"
    by (simp add: top_live_def contributions_sample live_sample)
  then show ?thesis
    using side_pots_total [of sample_pot] by (simp add: contributions_sample)
qed

text \<open>The chips that disappear when a folded player put in more than everybody else: 20 of 100.\<close>

lemma side_pots_overfold:
  "sum_list (map (\<lambda>sp. unat (amount sp))
     (compute_side_pots [\<lparr>contributed = 40, folded = False\<rparr>, \<lparr>contributed = 60, folded = True\<rparr>])) = 80"
  by (simp add: total_min contributions_def top_live_def live_def upt_rec)

lemma pot_eligible:
  "sp \<in> set (pots_loop remaining el) \<Longrightarrow>
    eligible_player_indices sp \<noteq> [] \<and> set (eligible_player_indices sp) \<subseteq> set el
      \<and> (distinct el \<longrightarrow> distinct (eligible_player_indices sp))"
proof (induction remaining el rule: pots_loop.induct)
  case (1 remaining el)
  obtain amt remaining' where sl: "share_loop (min_bet remaining el) 0 remaining = (amt, remaining')"
    by fastforce
  show ?case
  proof (cases "el = [] \<or> min_bet remaining el = u32_max")
    case True
    then have "pots_loop remaining el = []"
      by (auto simp: pots_loop.simps [of remaining el] Let_def)
    then show ?thesis using "1.prems" by simp
  next
    case False
    then consider "eligible_player_indices sp = el"
      | "sp \<in> set (pots_loop remaining' (filter (\<lambda>i. rem_at remaining' i \<noteq> 0) el))"
      using "1.prems" sl by (auto simp: pots_loop.simps [of remaining el] Let_def)
    then show ?thesis
    proof cases
      case 2
      then show ?thesis using "1.IH" [OF _ refl _ sl [symmetric] 2] False by auto
    qed (use False in auto)
  qed
qed

text \<open>What the award loop of the game relies on: no pot is without a player, and only players of
  the hand who have not folded are listed, each once.\<close>

lemma side_pot_eligible:
  assumes "sp \<in> set (compute_side_pots ps)"
  shows "eligible_player_indices sp \<noteq> []" "distinct (eligible_player_indices sp)"
    "\<forall>i \<in> set (eligible_player_indices sp). i < length ps \<and> \<not> folded (ps ! i)"
  using pot_eligible [of sp "map contributed ps" "live ps"] assms
  by (auto simp: compute_side_pots_def live_def)

end
