(* ===== verification/Protocol.thy ===== *)
theory Protocol
  imports Cards "HOL-Library.Char_ord" "HOL-Library.List_Lexorder"
begin

text \<open>
  The messages of \<open>common/include/poker/protocol.h\<close>, \<open>common/src/protocol.cpp\<close> and the error codes
  of \<open>common/include/poker/error_codes.h\<close>: a record per struct, a datatype for each of the two
  \<open>std::variant\<close>s, and the \<open>to_json\<close> and \<open>from_json\<close> functions.

  JSON values are modelled as far as the code uses \<open>nlohmann::json\<close>: building and reading values.
  The text form (\<open>dump\<close>, \<open>parse\<close>) belongs to that library. Reads convert as the library does: an
  integer is cast to the width asked for, a number may be read from a boolean, an enumerator that
  is not in its table reads as the first of the table, a missing key or a wrong type throws.
\<close>

section \<open>Error codes\<close>

datatype error_code =
    InvalidJson | InvalidMessage | JoinFailed | NotInRoom | NotYourTurn | CannotCheck | InvalidRaise
  | NotEnoughChips | InvalidMaxPlayers | NameTaken | InvalidPlayerName | NotAuthenticated | RoomFull
  | NotRoomHost | NotEnoughPlayers | GameAlreadyStarted | WrongPassword | AlreadyOnline
  | InvalidPassword

type_synonym i32 = "32 word" \<comment> \<open>\<open>int\<close>, read signed\<close>

fun error_code_value :: "error_code \<Rightarrow> i32" where
  "error_code_value InvalidJson = 1"
| "error_code_value InvalidMessage = 2"
| "error_code_value JoinFailed = 3"
| "error_code_value NotInRoom = 4"
| "error_code_value NotYourTurn = 5"
| "error_code_value CannotCheck = 6"
| "error_code_value InvalidRaise = 7"
| "error_code_value NotEnoughChips = 8"
| "error_code_value InvalidMaxPlayers = 9"
| "error_code_value NameTaken = 10"
| "error_code_value InvalidPlayerName = 11"
| "error_code_value NotAuthenticated = 12"
| "error_code_value RoomFull = 13"
| "error_code_value NotRoomHost = 14"
| "error_code_value NotEnoughPlayers = 15"
| "error_code_value GameAlreadyStarted = 16"
| "error_code_value WrongPassword = 17"
| "error_code_value AlreadyOnline = 18"
| "error_code_value InvalidPassword = 19"

text \<open>The dash of \<open>CannotCheck\<close> is U+2013, three bytes of UTF-8.\<close>

fun error_code_message :: "error_code \<Rightarrow> string" where
  "error_code_message InvalidJson = ''Invalid JSON''"
| "error_code_message InvalidMessage = ''Invalid message''"
| "error_code_message JoinFailed = ''Join to room failed''"
| "error_code_message NotInRoom = ''Not in a room''"
| "error_code_message NotYourTurn = ''Not your turn''"
| "error_code_message CannotCheck =
     ''Cannot check '' @ [CHR 0xE2, CHR 0x80, CHR 0x93] @ '' there is a bet''"
| "error_code_message InvalidRaise = ''Invalid raise amount''"
| "error_code_message NotEnoughChips = ''Not enough chips''"
| "error_code_message InvalidMaxPlayers = ''max_players must be at least 2''"
| "error_code_message NameTaken = ''Player name is already taken''"
| "error_code_message InvalidPlayerName = ''Invalid player name''"
| "error_code_message NotAuthenticated = ''Send login with username and password first''"
| "error_code_message RoomFull = ''Room is full''"
| "error_code_message NotRoomHost = ''Only the room host can start the game''"
| "error_code_message NotEnoughPlayers = ''At least 2 players are required to start''"
| "error_code_message GameAlreadyStarted = ''Game has already started''"
| "error_code_message WrongPassword = ''Wrong password''"
| "error_code_message AlreadyOnline = ''Account is already online''"
| "error_code_message InvalidPassword = ''Invalid password (4-128 chars, letter and digit required)''"

section \<open>Messages\<close>

datatype action = Fold | Check | Call | Raise

datatype game_phase = PreFlop | Flop | Turn | River | Showdown

text \<open>Client messages; \<open>LeaveRoom\<close>, \<open>ListRooms\<close> and \<open>StartGame\<close> have no members.\<close>

record login =
  lg_username :: string
  lg_password :: string

record create_room =
  cr_room_name :: string
  cr_max_players :: u8

record join_room =
  jr_room_id :: u64

record player_action =
  pa_action :: action
  pa_amount :: "u32 option"

text \<open>Server messages.\<close>

record welcome_msg =
  wl_player_name :: string
  wl_chips :: u32
  wl_is_new_account :: bool

record room_info =
  ri_room_id :: u64
  ri_room_name :: string
  ri_current_players :: u8
  ri_max_players :: u8
  ri_in_game :: bool

record room_list =
  rl_rooms :: "room_info list"

record joined_room =
  jd_room_id :: u64
  jd_player_names :: "string list"
  jd_host_name :: string
  jd_max_players :: u8
  jd_in_game :: bool

record player_state =
  ps_name :: string
  ps_chips :: u32
  ps_round_bet :: u32
  ps_folded :: bool
  ps_all_in :: bool
  ps_is_dealer :: bool
  ps_is_small_blind :: bool
  ps_is_big_blind :: bool
  ps_hole_cards :: "card list"

record game_state_update =
  gs_general_cards :: "card list"
  gs_your_cards :: "card list"
  gs_phase :: game_phase
  gs_active_player_name :: string
  gs_total_pot :: u32
  gs_current_bet :: u32
  gs_players :: "player_state list"

record your_turn =
  yt_available_actions :: "action list"
  yt_min_amount :: u32
  yt_max_amount :: u32
  yt_to_call :: u32
  yt_your_chips :: u32

record action_event =
  ae_player_name :: string
  ae_action :: action
  ae_amount :: "u32 option"

record error_msg =
  er_code :: i32
  er_description :: string

record left_room =
  lr_room_id :: u64
  lr_your_chips :: u32
  lr_has_your_chips :: bool

record hand_result =
  hr_winner_names :: "string list"
  hr_pot_amount :: u32
  hr_winner_hand_labels :: "string list"

datatype client_message =
    CLogin login
  | CCreateRoom create_room
  | CJoinRoom join_room
  | CLeaveRoom
  | CListRooms
  | CStartGame
  | CPlayerAction player_action

datatype server_message =
    SWelcome welcome_msg
  | SRoomList room_list
  | SJoinedRoom joined_room
  | SGameStateUpdate game_state_update
  | SYourTurn your_turn
  | SError error_msg
  | SLeftRoom left_room
  | SHandResult hand_result
  | SActionEvent action_event

definition make_error :: "error_code \<Rightarrow> string \<Rightarrow> error_msg" where
  "make_error code detail =
     (let description = error_code_message code;
          description = (if detail \<noteq> [] then description @ '': '' @ detail else description)
      in \<lparr>er_code = error_code_value code, er_description = description\<rparr>)"

section \<open>JSON values\<close>

text \<open>
  \<open>JFloat\<close> is a floating point number by its integral part, all the code ever reads of one. The
  members of an object are listed in any order, with no key twice; iteration goes by key.
\<close>

datatype json =
    JNull
  | JBool bool
  | JInt int
  | JFloat int
  | JString string
  | JArray "json list"
  | JObject "(string \<times> json) list"

text \<open>\<open>j.at(k)\<close>, \<open>j.contains(k)\<close>, and what a range-based \<open>for\<close> over \<open>j\<close> visits.\<close>

fun json_at :: "json \<Rightarrow> string \<Rightarrow> json result" where
  "json_at (JObject kvs) k = (case map_of kvs k of None \<Rightarrow> Exn JsonError | Some v \<Rightarrow> Ret v)"
| "json_at _ k = Exn JsonError"

fun json_contains :: "json \<Rightarrow> string \<Rightarrow> bool" where
  "json_contains (JObject kvs) k = (map_of kvs k \<noteq> None)"
| "json_contains _ k = False"

fun json_items :: "json \<Rightarrow> json list" where
  "json_items JNull = []"
| "json_items (JArray xs) = xs"
| "json_items (JObject kvs) = map snd (sort_key fst kvs)"
| "json_items j = [j]"

text \<open>\<open>j.get<T>()\<close> for the types the messages are made of.\<close>

fun get_string :: "json \<Rightarrow> string result" where
  "get_string (JString s) = Ret s"
| "get_string _ = Exn JsonError"

fun get_bool :: "json \<Rightarrow> bool result" where
  "get_bool (JBool b) = Ret b"
| "get_bool _ = Exn JsonError"

fun get_arithmetic :: "json \<Rightarrow> int result" where
  "get_arithmetic (JInt i) = Ret i"
| "get_arithmetic (JFloat i) = Ret i"
| "get_arithmetic (JBool b) = Ret (if b then 1 else 0)"
| "get_arithmetic _ = Exn JsonError"

definition get_u8 :: "json \<Rightarrow> u8 result" where
  "get_u8 j = map_r word_of_int (get_arithmetic j)"

definition get_u32 :: "json \<Rightarrow> u32 result" where
  "get_u32 j = map_r word_of_int (get_arithmetic j)"

definition get_i32 :: "json \<Rightarrow> i32 result" where
  "get_i32 j = map_r word_of_int (get_arithmetic j)"

text \<open>\<open>uint64_t\<close> is the library's own unsigned type, which is not read from a boolean.\<close>

fun get_u64 :: "json \<Rightarrow> u64 result" where
  "get_u64 (JBool b) = Exn JsonError"
| "get_u64 j = map_r word_of_int (get_arithmetic j)"

fun get_list :: "(json \<Rightarrow> 'a result) \<Rightarrow> json \<Rightarrow> 'a list result" where
  "get_list f (JArray xs) = mapM_r f xs"
| "get_list f _ = Exn JsonError"

definition get_strings :: "json \<Rightarrow> string list result" where
  "get_strings j = get_list get_string j"

text \<open>\<open>j.at(k).get_to(x)\<close>, and the same behind \<open>if (j.contains(k)) ... else x = d\<close>.\<close>

definition get_at :: "json \<Rightarrow> string \<Rightarrow> (json \<Rightarrow> 'a result) \<Rightarrow> 'a result" where
  "get_at j k f = bind_r (json_at j k) f"

definition get_or :: "json \<Rightarrow> string \<Rightarrow> 'a \<Rightarrow> (json \<Rightarrow> 'a result) \<Rightarrow> 'a result" where
  "get_or j k d f = (if json_contains j k then get_at j k f else Ret d)"

text \<open>Cards are strings. A vector of cards has its own reader, which iterates over any value.\<close>

definition card_to_json :: "card \<Rightarrow> json" where
  "card_to_json c = JString (card_to_string c)"

definition card_from_json :: "json \<Rightarrow> card result" where
  "card_from_json j = bind_r (get_string j) card_of_string"

definition get_cards :: "json \<Rightarrow> card list result" where
  "get_cards j = mapM_r card_from_json (json_items j)"

text \<open>The tables of \<open>NLOHMANN_JSON_SERIALIZE_ENUM\<close>: a value that is not in the table reads as its
  first entry.\<close>

definition action_table :: "(action \<times> string) list" where
  "action_table = [(Fold, ''fold''), (Check, ''check''), (Call, ''call''), (Raise, ''raise'')]"

definition phase_table :: "(game_phase \<times> string) list" where
  "phase_table = [(PreFlop, ''preflop''), (Flop, ''flop''), (Turn, ''turn''), (River, ''river''),
     (Showdown, ''showdown'')]"

definition enum_to_json :: "('e \<times> string) list \<Rightarrow> 'e \<Rightarrow> json" where
  "enum_to_json tab e =
     JString (case filter (\<lambda>(x, s). x = e) tab of (_, s) # _ \<Rightarrow> s | [] \<Rightarrow> snd (hd tab))"

definition enum_from_json :: "('e \<times> string) list \<Rightarrow> json \<Rightarrow> 'e" where
  "enum_from_json tab j =
     (case filter (\<lambda>(x, s). JString s = j) tab of (x, _) # _ \<Rightarrow> x | [] \<Rightarrow> fst (hd tab))"

definition action_to_json :: "action \<Rightarrow> json" where
  "action_to_json a = enum_to_json action_table a"

definition get_action :: "json \<Rightarrow> action result" where
  "get_action j = Ret (enum_from_json action_table j)"

definition phase_to_json :: "game_phase \<Rightarrow> json" where
  "phase_to_json p = enum_to_json phase_table p"

definition get_phase :: "json \<Rightarrow> game_phase result" where
  "get_phase j = Ret (enum_from_json phase_table j)"

text \<open>The optional \<open>amount\<close> of an action: absent and \<open>null\<close> both read as \<open>std::nullopt\<close>.\<close>

definition amount_to_json :: "u32 option \<Rightarrow> json" where
  "amount_to_json a = (case a of Some v \<Rightarrow> JInt (uint v) | None \<Rightarrow> JNull)"

definition get_amount :: "json \<Rightarrow> u32 option result" where
  "get_amount j =
     (if json_contains j ''amount'' \<and> json_at j ''amount'' \<noteq> Ret JNull
      then map_r Some (get_at j ''amount'' get_u32)
      else Ret None)"

section \<open>\<open>to_json\<close> and \<open>from_json\<close>\<close>

definition to_json_login :: "login \<Rightarrow> json" where
  "to_json_login msg = JObject [
     (''username'', JString (lg_username msg)),
     (''password'', JString (lg_password msg))]"

definition from_json_login :: "json \<Rightarrow> login result" where
  "from_json_login j =
     bind_r (get_at j ''username'' get_string) (\<lambda>a.
     bind_r (get_at j ''password'' get_string) (\<lambda>b.
     Ret \<lparr>lg_username = a, lg_password = b\<rparr>))"

definition to_json_create_room :: "create_room \<Rightarrow> json" where
  "to_json_create_room msg = JObject [
     (''room_name'', JString (cr_room_name msg)),
     (''max_players'', JInt (uint (cr_max_players msg)))]"

definition from_json_create_room :: "json \<Rightarrow> create_room result" where
  "from_json_create_room j =
     bind_r (get_at j ''room_name'' get_string) (\<lambda>a.
     bind_r (get_at j ''max_players'' get_u8) (\<lambda>b.
     Ret \<lparr>cr_room_name = a, cr_max_players = b\<rparr>))"

definition to_json_join_room :: "join_room \<Rightarrow> json" where
  "to_json_join_room msg = JObject [
     (''room_id'', JInt (uint (jr_room_id msg)))]"

definition from_json_join_room :: "json \<Rightarrow> join_room result" where
  "from_json_join_room j =
     bind_r (get_at j ''room_id'' get_u64) (\<lambda>a.
     Ret \<lparr>jr_room_id = a\<rparr>)"

definition to_json_player_action :: "player_action \<Rightarrow> json" where
  "to_json_player_action msg = JObject [
     (''action'', action_to_json (pa_action msg)),
     (''amount'', amount_to_json (pa_amount msg))]"

definition from_json_player_action :: "json \<Rightarrow> player_action result" where
  "from_json_player_action j =
     bind_r (get_at j ''action'' get_action) (\<lambda>a.
     bind_r (get_amount j) (\<lambda>b.
     Ret \<lparr>pa_action = a, pa_amount = b\<rparr>))"

definition to_json_welcome_msg :: "welcome_msg \<Rightarrow> json" where
  "to_json_welcome_msg msg = JObject [
     (''player_name'', JString (wl_player_name msg)),
     (''chips'', JInt (uint (wl_chips msg))),
     (''is_new_account'', JBool (wl_is_new_account msg))]"

definition from_json_welcome_msg :: "json \<Rightarrow> welcome_msg result" where
  "from_json_welcome_msg j =
     bind_r (get_at j ''player_name'' get_string) (\<lambda>a.
     bind_r (get_or j ''chips'' 0 get_u32) (\<lambda>b.
     bind_r (get_or j ''is_new_account'' False get_bool) (\<lambda>c.
     Ret \<lparr>wl_player_name = a, wl_chips = b, wl_is_new_account = c\<rparr>)))"

definition to_json_room_info :: "room_info \<Rightarrow> json" where
  "to_json_room_info msg = JObject [
     (''room_id'', JInt (uint (ri_room_id msg))),
     (''room_name'', JString (ri_room_name msg)),
     (''current_players'', JInt (uint (ri_current_players msg))),
     (''max_players'', JInt (uint (ri_max_players msg))),
     (''in_game'', JBool (ri_in_game msg))]"

definition from_json_room_info :: "json \<Rightarrow> room_info result" where
  "from_json_room_info j =
     bind_r (get_at j ''room_id'' get_u64) (\<lambda>a.
     bind_r (get_at j ''room_name'' get_string) (\<lambda>b.
     bind_r (get_at j ''current_players'' get_u8) (\<lambda>c.
     bind_r (get_at j ''max_players'' get_u8) (\<lambda>d.
     bind_r (get_or j ''in_game'' False get_bool) (\<lambda>e.
     Ret \<lparr>ri_room_id = a, ri_room_name = b, ri_current_players = c, ri_max_players = d, ri_in_game = e\<rparr>)))))"

definition to_json_room_list :: "room_list \<Rightarrow> json" where
  "to_json_room_list msg = JObject [
     (''rooms'', JArray (map to_json_room_info (rl_rooms msg)))]"

definition from_json_room_list :: "json \<Rightarrow> room_list result" where
  "from_json_room_list j =
     bind_r (get_at j ''rooms'' (get_list from_json_room_info)) (\<lambda>a.
     Ret \<lparr>rl_rooms = a\<rparr>)"

definition to_json_joined_room :: "joined_room \<Rightarrow> json" where
  "to_json_joined_room msg = JObject [
     (''room_id'', JInt (uint (jd_room_id msg))),
     (''player_names'', JArray (map JString (jd_player_names msg))),
     (''host_name'', JString (jd_host_name msg)),
     (''max_players'', JInt (uint (jd_max_players msg))),
     (''in_game'', JBool (jd_in_game msg))]"

definition from_json_joined_room :: "json \<Rightarrow> joined_room result" where
  "from_json_joined_room j =
     bind_r (get_at j ''room_id'' get_u64) (\<lambda>a.
     bind_r (get_at j ''player_names'' get_strings) (\<lambda>b.
     bind_r (get_at j ''host_name'' get_string) (\<lambda>c.
     bind_r (get_at j ''max_players'' get_u8) (\<lambda>d.
     bind_r (get_or j ''in_game'' False get_bool) (\<lambda>e.
     Ret \<lparr>jd_room_id = a, jd_player_names = b, jd_host_name = c, jd_max_players = d, jd_in_game = e\<rparr>)))))"

definition to_json_player_state :: "player_state \<Rightarrow> json" where
  "to_json_player_state msg = JObject [
     (''name'', JString (ps_name msg)),
     (''chips'', JInt (uint (ps_chips msg))),
     (''round_bet'', JInt (uint (ps_round_bet msg))),
     (''folded'', JBool (ps_folded msg)),
     (''all_in'', JBool (ps_all_in msg)),
     (''is_dealer'', JBool (ps_is_dealer msg)),
     (''is_small_blind'', JBool (ps_is_small_blind msg)),
     (''is_big_blind'', JBool (ps_is_big_blind msg)),
     (''hole_cards'', JArray (map card_to_json (ps_hole_cards msg)))]"

definition from_json_player_state :: "json \<Rightarrow> player_state result" where
  "from_json_player_state j =
     bind_r (get_at j ''name'' get_string) (\<lambda>a.
     bind_r (get_at j ''chips'' get_u32) (\<lambda>b.
     bind_r (get_at j ''round_bet'' get_u32) (\<lambda>c.
     bind_r (get_at j ''folded'' get_bool) (\<lambda>d.
     bind_r (get_at j ''all_in'' get_bool) (\<lambda>e.
     bind_r (get_or j ''is_dealer'' False get_bool) (\<lambda>f.
     bind_r (get_or j ''is_small_blind'' False get_bool) (\<lambda>g.
     bind_r (get_or j ''is_big_blind'' False get_bool) (\<lambda>h.
     bind_r (get_or j ''hole_cards'' [] get_cards) (\<lambda>i.
     Ret \<lparr>ps_name = a, ps_chips = b, ps_round_bet = c, ps_folded = d, ps_all_in = e, ps_is_dealer = f, ps_is_small_blind = g, ps_is_big_blind = h, ps_hole_cards = i\<rparr>)))))))))"

definition to_json_game_state_update :: "game_state_update \<Rightarrow> json" where
  "to_json_game_state_update msg = JObject [
     (''general_cards'', JArray (map card_to_json (gs_general_cards msg))),
     (''your_cards'', JArray (map card_to_json (gs_your_cards msg))),
     (''phase'', phase_to_json (gs_phase msg)),
     (''active_player_name'', JString (gs_active_player_name msg)),
     (''total_pot'', JInt (uint (gs_total_pot msg))),
     (''current_bet'', JInt (uint (gs_current_bet msg))),
     (''players'', JArray (map to_json_player_state (gs_players msg)))]"

definition from_json_game_state_update :: "json \<Rightarrow> game_state_update result" where
  "from_json_game_state_update j =
     bind_r (get_at j ''general_cards'' get_cards) (\<lambda>a.
     bind_r (get_at j ''your_cards'' get_cards) (\<lambda>b.
     bind_r (get_at j ''phase'' get_phase) (\<lambda>c.
     bind_r (get_at j ''active_player_name'' get_string) (\<lambda>d.
     bind_r (get_at j ''total_pot'' get_u32) (\<lambda>e.
     bind_r (get_or j ''current_bet'' 0 get_u32) (\<lambda>f.
     bind_r (get_or j ''players'' [] (get_list from_json_player_state)) (\<lambda>g.
     Ret \<lparr>gs_general_cards = a, gs_your_cards = b, gs_phase = c, gs_active_player_name = d, gs_total_pot = e, gs_current_bet = f, gs_players = g\<rparr>)))))))"

definition to_json_your_turn :: "your_turn \<Rightarrow> json" where
  "to_json_your_turn msg = JObject [
     (''available_actions'', JArray (map action_to_json (yt_available_actions msg))),
     (''min_amount'', JInt (uint (yt_min_amount msg))),
     (''max_amount'', JInt (uint (yt_max_amount msg))),
     (''to_call'', JInt (uint (yt_to_call msg))),
     (''your_chips'', JInt (uint (yt_your_chips msg)))]"

definition from_json_your_turn :: "json \<Rightarrow> your_turn result" where
  "from_json_your_turn j =
     bind_r (get_at j ''available_actions'' (get_list get_action)) (\<lambda>a.
     bind_r (get_at j ''min_amount'' get_u32) (\<lambda>b.
     bind_r (get_at j ''max_amount'' get_u32) (\<lambda>c.
     bind_r (get_or j ''to_call'' 0 get_u32) (\<lambda>d.
     bind_r (get_or j ''your_chips'' 0 get_u32) (\<lambda>e.
     Ret \<lparr>yt_available_actions = a, yt_min_amount = b, yt_max_amount = c, yt_to_call = d, yt_your_chips = e\<rparr>)))))"

definition to_json_action_event :: "action_event \<Rightarrow> json" where
  "to_json_action_event msg = JObject [
     (''player_name'', JString (ae_player_name msg)),
     (''action'', action_to_json (ae_action msg)),
     (''amount'', amount_to_json (ae_amount msg))]"

definition from_json_action_event :: "json \<Rightarrow> action_event result" where
  "from_json_action_event j =
     bind_r (get_at j ''player_name'' get_string) (\<lambda>a.
     bind_r (get_at j ''action'' get_action) (\<lambda>b.
     bind_r (get_amount j) (\<lambda>c.
     Ret \<lparr>ae_player_name = a, ae_action = b, ae_amount = c\<rparr>)))"

definition to_json_error_msg :: "error_msg \<Rightarrow> json" where
  "to_json_error_msg msg = JObject [
     (''code'', JInt (sint (er_code msg))),
     (''description'', JString (er_description msg))]"

definition from_json_error_msg :: "json \<Rightarrow> error_msg result" where
  "from_json_error_msg j =
     bind_r (get_at j ''code'' get_i32) (\<lambda>a.
     bind_r (get_at j ''description'' get_string) (\<lambda>b.
     Ret \<lparr>er_code = a, er_description = b\<rparr>))"

definition to_json_left_room :: "left_room \<Rightarrow> json" where
  "to_json_left_room msg = JObject [
     (''room_id'', JInt (uint (lr_room_id msg))),
     (''your_chips'', JInt (uint (lr_your_chips msg))),
     (''has_your_chips'', JBool (lr_has_your_chips msg))]"

definition from_json_left_room :: "json \<Rightarrow> left_room result" where
  "from_json_left_room j =
     bind_r (get_at j ''room_id'' get_u64) (\<lambda>a.
     bind_r (get_or j ''your_chips'' 0 get_u32) (\<lambda>b.
     bind_r (get_or j ''has_your_chips'' False get_bool) (\<lambda>c.
     Ret \<lparr>lr_room_id = a, lr_your_chips = b, lr_has_your_chips = c\<rparr>)))"

definition to_json_hand_result :: "hand_result \<Rightarrow> json" where
  "to_json_hand_result msg = JObject [
     (''winner_names'', JArray (map JString (hr_winner_names msg))),
     (''pot_amount'', JInt (uint (hr_pot_amount msg))),
     (''winner_hand_labels'', JArray (map JString (hr_winner_hand_labels msg)))]"

definition from_json_hand_result :: "json \<Rightarrow> hand_result result" where
  "from_json_hand_result j =
     bind_r (get_at j ''winner_names'' get_strings) (\<lambda>a.
     bind_r (get_at j ''pot_amount'' get_u32) (\<lambda>b.
     bind_r (get_or j ''winner_hand_labels'' [] get_strings) (\<lambda>c.
     Ret \<lparr>hr_winner_names = a, hr_pot_amount = b, hr_winner_hand_labels = c\<rparr>)))"

fun to_json_client :: "client_message \<Rightarrow> json" where
  "to_json_client (CLogin m) = JObject [(''type'', JString ''login''), (''data'', to_json_login m)]"
| "to_json_client (CCreateRoom m) =
     JObject [(''type'', JString ''create_room''), (''data'', to_json_create_room m)]"
| "to_json_client (CJoinRoom m) =
     JObject [(''type'', JString ''join_room''), (''data'', to_json_join_room m)]"
| "to_json_client CLeaveRoom = JObject [(''type'', JString ''leave_room''), (''data'', JObject [])]"
| "to_json_client CListRooms = JObject [(''type'', JString ''list_rooms''), (''data'', JObject [])]"
| "to_json_client CStartGame = JObject [(''type'', JString ''start_game''), (''data'', JObject [])]"
| "to_json_client (CPlayerAction m) =
     JObject [(''type'', JString ''player_action''), (''data'', to_json_player_action m)]"

definition from_json_client :: "json \<Rightarrow> client_message result" where
  "from_json_client j =
     bind_r (get_at j ''type'' get_string) (\<lambda>type.
       if type = ''login'' then map_r CLogin (get_at j ''data'' from_json_login)
       else if type = ''create_room'' then map_r CCreateRoom (get_at j ''data'' from_json_create_room)
       else if type = ''join_room'' then map_r CJoinRoom (get_at j ''data'' from_json_join_room)
       else if type = ''leave_room'' then get_at j ''data'' (\<lambda>_. Ret CLeaveRoom)
       else if type = ''list_rooms'' then get_at j ''data'' (\<lambda>_. Ret CListRooms)
       else if type = ''start_game'' then get_at j ''data'' (\<lambda>_. Ret CStartGame)
       else if type = ''player_action''
       then map_r CPlayerAction (get_at j ''data'' from_json_player_action)
       else Exn InvalidArgument)"

fun to_json_server :: "server_message \<Rightarrow> json" where
  "to_json_server (SWelcome m) =
     JObject [(''type'', JString ''welcome''), (''data'', to_json_welcome_msg m)]"
| "to_json_server (SRoomList m) =
     JObject [(''type'', JString ''room_list''), (''data'', to_json_room_list m)]"
| "to_json_server (SJoinedRoom m) =
     JObject [(''type'', JString ''joined_room''), (''data'', to_json_joined_room m)]"
| "to_json_server (SGameStateUpdate m) =
     JObject [(''type'', JString ''game_state_update''), (''data'', to_json_game_state_update m)]"
| "to_json_server (SYourTurn m) =
     JObject [(''type'', JString ''your_turn''), (''data'', to_json_your_turn m)]"
| "to_json_server (SError m) = JObject [(''type'', JString ''error''), (''data'', to_json_error_msg m)]"
| "to_json_server (SLeftRoom m) =
     JObject [(''type'', JString ''left_room''), (''data'', to_json_left_room m)]"
| "to_json_server (SHandResult m) =
     JObject [(''type'', JString ''hand_result''), (''data'', to_json_hand_result m)]"
| "to_json_server (SActionEvent m) =
     JObject [(''type'', JString ''action_event''), (''data'', to_json_action_event m)]"

definition from_json_server :: "json \<Rightarrow> server_message result" where
  "from_json_server j =
     bind_r (get_at j ''type'' get_string) (\<lambda>type.
       if type = ''welcome'' then map_r SWelcome (get_at j ''data'' from_json_welcome_msg)
       else if type = ''room_list'' then map_r SRoomList (get_at j ''data'' from_json_room_list)
       else if type = ''joined_room'' then map_r SJoinedRoom (get_at j ''data'' from_json_joined_room)
       else if type = ''game_state_update''
       then map_r SGameStateUpdate (get_at j ''data'' from_json_game_state_update)
       else if type = ''your_turn'' then map_r SYourTurn (get_at j ''data'' from_json_your_turn)
       else if type = ''error'' then map_r SError (get_at j ''data'' from_json_error_msg)
       else if type = ''left_room'' then map_r SLeftRoom (get_at j ''data'' from_json_left_room)
       else if type = ''hand_result'' then map_r SHandResult (get_at j ''data'' from_json_hand_result)
       else if type = ''action_event''
       then map_r SActionEvent (get_at j ''data'' from_json_action_event)
       else Exn InvalidArgument)"

section \<open>Round trips\<close>

lemma get_at_JObject [simp]:
  "get_at (JObject kvs) k f = (case map_of kvs k of None \<Rightarrow> Exn JsonError | Some v \<Rightarrow> f v)"
  by (simp add: get_at_def split: option.splits)

lemma get_or_JObject [simp]:
  "get_or (JObject kvs) k d f = (case map_of kvs k of None \<Rightarrow> Ret d | Some v \<Rightarrow> f v)"
  by (simp add: get_or_def split: option.splits)

lemma get_words [simp]:
  "get_u8 (JInt (uint a)) = Ret a" "get_u32 (JInt (uint b)) = Ret b"
  "get_i32 (JInt (sint c)) = Ret c" "get_u64 (JInt (uint e)) = Ret e"
  by (simp_all add: get_u8_def get_u32_def get_i32_def)

lemma mapM_r_map [simp]: "(\<And>x. f (g x) = Ret x) \<Longrightarrow> mapM_r f (map g xs) = Ret xs"
  by (induction xs) auto

lemma get_strings_map [simp]: "get_strings (JArray (map JString xs)) = Ret xs"
  by (simp add: get_strings_def)

lemma get_cards_map [simp]: "get_cards (JArray (map card_to_json cs)) = Ret cs"
  by (simp add: get_cards_def card_from_json_def card_to_json_def card_of_string_to_string)

lemma enum_roundtrips [simp]:
  "get_action (action_to_json a) = Ret a" "get_phase (phase_to_json p) = Ret p"
  by (cases a; simp add: get_action_def action_to_json_def enum_from_json_def enum_to_json_def
      action_table_def)
    (cases p; simp add: get_phase_def phase_to_json_def enum_from_json_def enum_to_json_def
      phase_table_def)

lemma get_amount_JObject [simp]:
  "get_amount (JObject kvs) = (case map_of kvs ''amount'' of None \<Rightarrow> Ret None
     | Some v \<Rightarrow> if v = JNull then Ret None else map_r Some (get_u32 v))"
  by (simp add: get_amount_def split: option.splits)

lemma amount_roundtrip [simp]:
  "(if amount_to_json a = JNull then Ret None else map_r Some (get_u32 (amount_to_json a))) = Ret a"
  by (simp add: amount_to_json_def split: option.splits)

lemma login_roundtrip [simp]: "from_json_login (to_json_login m) = Ret m"
  by (simp add: from_json_login_def to_json_login_def)

lemma create_room_roundtrip [simp]: "from_json_create_room (to_json_create_room m) = Ret m"
  by (simp add: from_json_create_room_def to_json_create_room_def)

lemma join_room_roundtrip [simp]: "from_json_join_room (to_json_join_room m) = Ret m"
  by (simp add: from_json_join_room_def to_json_join_room_def)

lemma player_action_roundtrip [simp]: "from_json_player_action (to_json_player_action m) = Ret m"
  by (simp add: from_json_player_action_def to_json_player_action_def)

lemma welcome_msg_roundtrip [simp]: "from_json_welcome_msg (to_json_welcome_msg m) = Ret m"
  by (simp add: from_json_welcome_msg_def to_json_welcome_msg_def)

lemma room_info_roundtrip [simp]: "from_json_room_info (to_json_room_info m) = Ret m"
  by (simp add: from_json_room_info_def to_json_room_info_def)

lemma room_list_roundtrip [simp]: "from_json_room_list (to_json_room_list m) = Ret m"
  by (simp add: from_json_room_list_def to_json_room_list_def)

lemma joined_room_roundtrip [simp]: "from_json_joined_room (to_json_joined_room m) = Ret m"
  by (simp add: from_json_joined_room_def to_json_joined_room_def)

lemma player_state_roundtrip [simp]: "from_json_player_state (to_json_player_state m) = Ret m"
  by (simp add: from_json_player_state_def to_json_player_state_def)

lemma game_state_update_roundtrip [simp]: "from_json_game_state_update (to_json_game_state_update m) = Ret m"
  by (simp add: from_json_game_state_update_def to_json_game_state_update_def)

lemma your_turn_roundtrip [simp]: "from_json_your_turn (to_json_your_turn m) = Ret m"
  by (simp add: from_json_your_turn_def to_json_your_turn_def)

lemma action_event_roundtrip [simp]: "from_json_action_event (to_json_action_event m) = Ret m"
  by (simp add: from_json_action_event_def to_json_action_event_def)

lemma error_msg_roundtrip [simp]: "from_json_error_msg (to_json_error_msg m) = Ret m"
  by (simp add: from_json_error_msg_def to_json_error_msg_def)

lemma left_room_roundtrip [simp]: "from_json_left_room (to_json_left_room m) = Ret m"
  by (simp add: from_json_left_room_def to_json_left_room_def)

lemma hand_result_roundtrip [simp]: "from_json_hand_result (to_json_hand_result m) = Ret m"
  by (simp add: from_json_hand_result_def to_json_hand_result_def)

lemma client_roundtrip: "from_json_client (to_json_client m) = Ret m"
  by (cases m) (simp_all add: from_json_client_def)

lemma server_roundtrip: "from_json_server (to_json_server m) = Ret m"
  by (cases m) (simp_all add: from_json_server_def)

text \<open>
  Every message survives the wire format: what \<open>from_json\<close> reads from the JSON that \<open>to_json\<close>
  wrote is the message itself, for each of the 7 client and 9 server messages, with their cards,
  enumerators, optional amounts and lists.
\<close>

theorem message_roundtrip:
  "from_json_client (to_json_client cm) = Ret cm \<and> from_json_server (to_json_server sm) = Ret sm"
  by (simp only: client_roundtrip server_roundtrip)

section \<open>What the readers accept and refuse\<close>

lemma get_action_cases:
  "get_action j = Ret (if j = JString ''check'' then Check else if j = JString ''call'' then Call
     else if j = JString ''raise'' then Raise else Fold)"
  by (simp add: get_action_def enum_from_json_def action_table_def)

definition client_types :: "string list" where
  "client_types = [''login'', ''create_room'', ''join_room'', ''leave_room'', ''list_rooms'',
     ''start_game'', ''player_action'']"

text \<open>
  How lenient the readers are: an action message with an amount is never refused for its
  values. Whatever is not one of the strings \<open>check\<close>, \<open>call\<close>, \<open>raise\<close> is a fold, and the amount is
  the number modulo \<open>2 ^ 32\<close>, so that a negative amount is a huge one. A room size is taken modulo
  256. Only the message type is checked: an unknown one throws \<open>invalid_argument\<close>.
\<close>

theorem lenient_readers:
  "from_json_player_action (JObject [(''action'', j), (''amount'', JInt i)])
     = Ret \<lparr>pa_action = (if j = JString ''check'' then Check else if j = JString ''call'' then Call
         else if j = JString ''raise'' then Raise else Fold), pa_amount = Some (word_of_int i)\<rparr>
   \<and> from_json_create_room (JObject [(''room_name'', JString s), (''max_players'', JInt i)])
     = Ret \<lparr>cr_room_name = s, cr_max_players = word_of_int i\<rparr>
   \<and> (t \<in> set client_types
      \<or> from_json_client (JObject [(''type'', JString t), (''data'', d)]) = Exn InvalidArgument)"
proof (intro conjI)
  show "t \<in> set client_types
      \<or> from_json_client (JObject [(''type'', JString t), (''data'', d)]) = Exn InvalidArgument"
    by (simp add: from_json_client_def client_types_def)
qed (simp_all only: from_json_player_action_def from_json_create_room_def get_action_cases
    get_amount_JObject get_at_JObject get_u32_def get_u8_def, simp_all)

end
