(* ===== verification/Auth.thy ===== *)
theory Auth
  imports Prelude
begin

text \<open>
  The credential rules of \<open>common/include/poker/auth.h\<close> and \<open>common/src/auth.cpp\<close>, with the
  character classes of \<open><cctype>\<close> in the C locale, in which no byte above 127 is in any class.
\<close>

section \<open>Character classes of the C locale\<close>

definition byte_of :: "char \<Rightarrow> nat" where
  "byte_of c = of_char c"

definition isspace :: "char \<Rightarrow> bool" where
  "isspace c \<longleftrightarrow> byte_of c = 32 \<or> 9 \<le> byte_of c \<and> byte_of c \<le> 13"

definition iscntrl :: "char \<Rightarrow> bool" where
  "iscntrl c \<longleftrightarrow> byte_of c < 32 \<or> byte_of c = 127"

definition isalpha :: "char \<Rightarrow> bool" where
  "isalpha c \<longleftrightarrow> 65 \<le> byte_of c \<and> byte_of c \<le> 90 \<or> 97 \<le> byte_of c \<and> byte_of c \<le> 122"

definition isdigit :: "char \<Rightarrow> bool" where
  "isdigit c \<longleftrightarrow> 48 \<le> byte_of c \<and> byte_of c \<le> 57"

definition tolower :: "char \<Rightarrow> char" where
  "tolower c = (if 65 \<le> byte_of c \<and> byte_of c \<le> 90 then char_of (byte_of c + 32) else c)"

section \<open>Definitions\<close>

definition kMinUsernameLength :: nat where "kMinUsernameLength = 1"
definition kMaxUsernameLength :: nat where "kMaxUsernameLength = 32"
definition kMinPasswordLength :: nat where "kMinPasswordLength = 4"
definition kMaxPasswordLength :: nat where "kMaxPasswordLength = 128"

text \<open>Erase up to the first character that is no space, then from after the last such one.\<close>

definition trim_copy :: "string \<Rightarrow> string" where
  "trim_copy v = rev (dropWhile isspace (rev (dropWhile isspace v)))"

fun username_loop :: "string \<Rightarrow> bool" where
  "username_loop [] = True"
| "username_loop (ch # s) = (if iscntrl ch then False else username_loop s)"

definition is_valid_username :: "string \<Rightarrow> bool" where
  "is_valid_username username =
     (if length username < kMinUsernameLength \<or> length username > kMaxUsernameLength then False
      else username_loop username)"

fun password_loop :: "string \<Rightarrow> bool \<Rightarrow> bool \<Rightarrow> bool" where
  "password_loop [] has_letter has_digit = (has_letter \<and> has_digit)"
| "password_loop (ch # s) has_letter has_digit =
     (if iscntrl ch then False
      else if isalpha ch then password_loop s True has_digit
      else if isdigit ch then password_loop s has_letter True
      else password_loop s has_letter has_digit)"

definition is_valid_password :: "string \<Rightarrow> bool" where
  "is_valid_password password =
     (if length password < kMinPasswordLength \<or> length password > kMaxPasswordLength then False
      else password_loop password False False)"

section \<open>What they accept\<close>

lemma username_loop_iff: "username_loop s \<longleftrightarrow> (\<forall>c \<in> set s. \<not> iscntrl c)"
  by (induction s) auto

lemma alpha_not_digit: "isalpha c \<Longrightarrow> \<not> isdigit c"
  by (auto simp: isalpha_def isdigit_def)

lemma password_loop_iff:
  "password_loop s l d \<longleftrightarrow>
    (\<forall>c \<in> set s. \<not> iscntrl c) \<and> (l \<or> (\<exists>c \<in> set s. isalpha c)) \<and> (d \<or> (\<exists>c \<in> set s. isdigit c))"
  by (induction s l d rule: password_loop.induct) (auto dest: alpha_not_digit)

text \<open>
  The credential rules: a user name has 1 to 32 bytes and no control character; a password has
  4 to 128 bytes, no control character, at least one ASCII letter and at least one digit.
\<close>

theorem credential_rules:
  "(is_valid_username u \<longleftrightarrow> 1 \<le> length u \<and> length u \<le> 32 \<and> list_all (\<lambda>c. \<not> iscntrl c) u)
   \<and> (is_valid_password p \<longleftrightarrow> 4 \<le> length p \<and> length p \<le> 128 \<and> list_all (\<lambda>c. \<not> iscntrl c) p
        \<and> list_ex isalpha p \<and> list_ex isdigit p)"
  by (auto simp: is_valid_username_def is_valid_password_def username_loop_iff password_loop_iff
      kMinUsernameLength_def kMaxUsernameLength_def kMinPasswordLength_def kMaxPasswordLength_def
      list_all_iff list_ex_iff not_less Suc_le_eq)

lemma trim_copy_split:
  "\<exists>pre post. s = pre @ trim_copy s @ post \<and> list_all isspace pre \<and> list_all isspace post"
proof -
  let ?d = "dropWhile isspace s"
  have "s = takeWhile isspace s @ ?d" by simp
  moreover have "?d = trim_copy s @ rev (takeWhile isspace (rev ?d))"
    unfolding trim_copy_def by (metis rev_append rev_rev_ident takeWhile_dropWhile_id)
  moreover have "list_all isspace (takeWhile isspace s)"
    "list_all isspace (rev (takeWhile isspace (rev ?d)))"
    by (auto simp: list_all_iff dest: set_takeWhileD)
  ultimately show ?thesis by metis
qed

lemma trim_copy_ends:
  "trim_copy s \<noteq> [] \<Longrightarrow> \<not> isspace (hd (trim_copy s)) \<and> \<not> isspace (last (trim_copy s))"
proof -
  assume ne: "trim_copy s \<noteq> []"
  let ?d = "dropWhile isspace s"
  have "?d = trim_copy s @ rev (takeWhile isspace (rev ?d))"
    unfolding trim_copy_def by (metis rev_append rev_rev_ident takeWhile_dropWhile_id)
  then have "hd (trim_copy s) = hd ?d" "?d \<noteq> []" using ne by (metis hd_append2, metis append_is_Nil_conv)
  moreover have "dropWhile isspace (rev ?d) \<noteq> []"
    using ne unfolding trim_copy_def by (simp only: rev_is_Nil_conv not_False_eq_True)
  ultimately show ?thesis
    using hd_dropWhile [of isspace s] hd_dropWhile [of isspace "rev ?d"]
    by (simp add: trim_copy_def last_rev)
qed

lemma trim_copy_idem: "trim_copy (trim_copy s) = trim_copy s"
proof (cases "trim_copy s = []")
  case False
  then have "dropWhile isspace (trim_copy s) = trim_copy s"
    using trim_copy_ends [of s] by (cases "trim_copy s") auto
  moreover have "dropWhile isspace (rev (trim_copy s)) = rev (trim_copy s)"
    using trim_copy_ends [OF False] False by (cases "rev (trim_copy s)") (auto simp: hd_rev)
  ultimately show ?thesis by (simp add: trim_copy_def [of "trim_copy s"])
qed (simp only:, simp add: trim_copy_def)

text \<open>
  Trimming removes exactly the white space at both ends: what is removed is white space, what
  is left neither begins nor ends with any, and trimming twice changes nothing.
\<close>

theorem trim_copy_spec:
  "(\<exists>pre post. s = pre @ trim_copy s @ post \<and> list_all isspace pre \<and> list_all isspace post)
   \<and> (trim_copy s = [] \<or> \<not> isspace (hd (trim_copy s)) \<and> \<not> isspace (last (trim_copy s)))
   \<and> trim_copy (trim_copy s) = trim_copy s"
  using trim_copy_split trim_copy_ends trim_copy_idem by blast

end
