(* ===== verification/PasswordHash.thy ===== *)
theory PasswordHash
  imports Auth
begin

text \<open>
  \<open>PasswordHasher\<close> of \<open>server/src/storage/password_hash.cpp\<close>. The two OpenSSL functions it calls are
  parameters: \<open>rand_bytes\<close> is the outcome of \<open>RAND_bytes\<close> (the 16 bytes, or \<open>None\<close> for a failure), and
  \<open>pbkdf2 password salt iterations\<close> the outcome of \<open>PKCS5_PBKDF2_HMAC\<close> with SHA-256 and 32 bytes of
  output. The standard library's \<open>std::hex\<close> output, \<open>std::stoi\<close> and \<open>>> std::hex\<close> are modelled with
  the inputs they tolerate.
\<close>

section \<open>Hexadecimal\<close>

type_synonym pbkdf2 = "string \<Rightarrow> u8 list \<Rightarrow> int \<Rightarrow> u8 list option"

definition kIterations :: int where "kIterations = 100000"
definition kSaltBytes :: nat where "kSaltBytes = 16"
definition kHashBytes :: nat where "kHashBytes = 32"

definition hex_digits :: string where
  "hex_digits = ''0123456789abcdef''"

definition to_hex :: "u8 list \<Rightarrow> string" where
  "to_hex bs = concat (map (\<lambda>b. [hex_digits ! (unat b div 16), hex_digits ! (unat b mod 16)]) bs)"

fun hex_value :: "char \<Rightarrow> nat option" where
  "hex_value c =
     (if isdigit c then Some (byte_of c - 48)
      else if 97 \<le> byte_of c \<and> byte_of c \<le> 102 then Some (byte_of c - 87)
      else if 65 \<le> byte_of c \<and> byte_of c \<le> 70 then Some (byte_of c - 55)
      else None)"

definition isxdigit :: "char \<Rightarrow> bool" where
  "isxdigit c = (hex_value c \<noteq> None)"

text \<open>The sign that number readers accept.\<close>

fun take_sign :: "string \<Rightarrow> bool \<times> string" where
  "take_sign (c # s) = (if c = CHR ''-'' then (True, s) else if c = CHR ''+'' then (False, s) else (False, c # s))"
| "take_sign [] = (False, [])"

fun drop_0x :: "string \<Rightarrow> string" where
  "drop_0x (a # b # s) = (if a = CHR ''0'' \<and> (b = CHR ''x'' \<or> b = CHR ''X'') then s else a # b # s)"
| "drop_0x s = s"

text \<open>\<open>ss >> std::hex >> value\<close> on the characters of \<open>ss\<close>; \<open>None\<close> when the stream fails.\<close>

definition read_hex :: "string \<Rightarrow> int option" where
  "read_hex s =
     (case take_sign (dropWhile isspace s) of (neg, s1) \<Rightarrow>
        let ds = takeWhile isxdigit (drop_0x s1);
            v = int (fold (\<lambda>c n. 16 * n + the (hex_value c)) ds 0)
        in if ds = [] then None else Some (if neg then - v else v))"

fun from_hex_loop :: "string \<Rightarrow> u8 list option" where
  "from_hex_loop (a # b # s) =
     (case read_hex [a, b] of
        None \<Rightarrow> None
      | Some v \<Rightarrow> map_option (Cons (word_of_int v)) (from_hex_loop s))"
| "from_hex_loop s = Some []"

definition from_hex :: "string \<Rightarrow> u8 list option" where
  "from_hex hex = (if length hex mod 2 \<noteq> 0 then None else from_hex_loop hex)"

section \<open>Strings\<close>

text \<open>\<open>value.find(c, pos)\<close>; \<open>None\<close> is \<open>npos\<close>, and \<open>npos + 1\<close> wraps to 0.\<close>

definition find_char :: "char \<Rightarrow> string \<Rightarrow> nat \<Rightarrow> nat option" where
  "find_char c s pos =
     (let k = length (takeWhile (\<lambda>x. x \<noteq> c) (drop pos s))
      in if pos + k < length s then Some (pos + k) else None)"

definition after :: "nat option \<Rightarrow> nat" where
  "after pos = (case pos of None \<Rightarrow> 0 | Some i \<Rightarrow> i + 1)"

definition substr :: "string \<Rightarrow> nat \<Rightarrow> nat \<Rightarrow> string" where
  "substr s pos len = take len (drop pos s)"

definition stoi :: "string \<Rightarrow> int result" where
  "stoi s =
     (case take_sign (dropWhile isspace s) of (neg, s1) \<Rightarrow>
        let ds = takeWhile isdigit s1;
            v = int (fold (\<lambda>c n. 10 * n + (byte_of c - 48)) ds 0);
            v = (if neg then - v else v)
        in if ds = [] then Exn InvalidArgument
           else if v < - 2147483648 \<or> v > 2147483647 then Exn OutOfRange
           else Ret v)"

section \<open>Hashing and verifying\<close>

definition derive_key :: "pbkdf2 \<Rightarrow> string \<Rightarrow> u8 list \<Rightarrow> u8 list result" where
  "derive_key pbkdf2 password salt =
     (case pbkdf2 password salt kIterations of None \<Rightarrow> Exn RuntimeError | Some key \<Rightarrow> Ret key)"

definition hash :: "pbkdf2 \<Rightarrow> u8 list option \<Rightarrow> string \<Rightarrow> string result" where
  "hash pbkdf2 rand_bytes password =
     (case rand_bytes of
        None \<Rightarrow> Exn RuntimeError
      | Some salt \<Rightarrow>
          map_r (\<lambda>key. ''pbkdf2-sha256$'' @ ''100000'' @ ''$'' @ to_hex salt @ ''$'' @ to_hex key)
            (derive_key pbkdf2 password salt))"

definition verify :: "pbkdf2 \<Rightarrow> string \<Rightarrow> string \<Rightarrow> bool result" where
  "verify pbkdf2 password stored_hash =
     (let first = find_char (CHR ''$'') stored_hash 0;
          second = find_char (CHR ''$'') stored_hash (after first);
          third = find_char (CHR ''$'') stored_hash (after second)
      in case (first, second, third) of
           (Some first, Some second, Some third) \<Rightarrow>
             if substr stored_hash 0 first \<noteq> ''pbkdf2-sha256'' then Ret False
             else bind_r (stoi (substr stored_hash (first + 1) (second - first - 1))) (\<lambda>iterations.
               let salt_hex = substr stored_hash (second + 1) (third - second - 1);
                   hash_hex = drop (third + 1) stored_hash
               in case (from_hex salt_hex, from_hex hash_hex) of
                    (Some salt, Some expected_hash) \<Rightarrow>
                      if length expected_hash \<noteq> kHashBytes then Ret False
                      else (case pbkdf2 password salt iterations of
                              None \<Rightarrow> Ret False
                            | Some actual \<Rightarrow> Ret (actual = expected_hash))
                  | _ \<Rightarrow> Ret False)
         | _ \<Rightarrow> Ret False)"

section \<open>Round trips\<close>

definition hex_digit :: "nat \<Rightarrow> char" where
  "hex_digit n = hex_digits ! n"

lemma all_hex_digits:
  "\<forall>n \<in> set [0..<16]. hex_value (hex_digit n) = Some n \<and> \<not> isspace (hex_digit n)
    \<and> hex_digit n \<notin> {CHR ''-'', CHR ''+'', CHR ''x'', CHR ''X'', CHR ''$''}"
  by code_simp

lemma hex_digit:
  assumes "n < 16"
  shows "hex_value (hex_digit n) = Some n" "\<not> isspace (hex_digit n)" "hex_digit n \<noteq> CHR ''-''"
    "hex_digit n \<noteq> CHR ''+''" "hex_digit n \<noteq> CHR ''x''" "hex_digit n \<noteq> CHR ''X''"
    "hex_digit n \<noteq> CHR ''$''" "isxdigit (hex_digit n)"
  using all_hex_digits assms by (simp_all add: isxdigit_def del: hex_value.simps)

lemma read_hex_digits:
  assumes "a < 16" "b < 16"
  shows "read_hex [hex_digit a, hex_digit b] = Some (int (16 * a + b))"
  using hex_digit [OF assms(1)] hex_digit [OF assms(2)]
  by (simp add: read_hex_def del: hex_value.simps)

lemma to_hex_Cons:
  "to_hex (b # bs) = hex_digit (unat b div 16) # hex_digit (unat b mod 16) # to_hex bs"
  by (simp add: to_hex_def hex_digit_def)

lemma length_to_hex: "length (to_hex bs) = 2 * length bs"
  by (induction bs) (simp_all add: to_hex_Cons, simp add: to_hex_def)

lemma unat_u8: "unat (b :: u8) < 256"
  using unsigned_less [of b] by simp

lemma to_hex_no_dollar: "CHR ''$'' \<notin> set (to_hex bs)"
proof (induction bs)
  case (Cons b bs)
  have "unat b div 16 < 16" "unat b mod 16 < 16" using unat_u8 [of b] by auto
  then show ?case using Cons hex_digit(7) by (metis to_hex_Cons set_ConsD)
qed (simp add: to_hex_def)

lemma from_hex_loop_to_hex: "from_hex_loop (to_hex bs) = Some bs"
proof (induction bs)
  case (Cons b bs)
  have "unat b div 16 < 16" "unat b mod 16 < 16" using unat_u8 [of b] by auto
  then have "read_hex [hex_digit (unat b div 16), hex_digit (unat b mod 16)] = Some (int (unat b))"
    by (subst read_hex_digits) simp_all
  then show ?case using Cons by (simp add: to_hex_Cons)
qed (simp add: to_hex_def)

lemma from_hex_to_hex: "from_hex (to_hex bs) = Some bs"
  by (simp add: from_hex_def length_to_hex from_hex_loop_to_hex)

lemma find_char_append:
  "c \<notin> set xs \<Longrightarrow> find_char c (pre @ xs @ c # ys) (length pre) = Some (length pre + length xs)"
proof -
  assume "c \<notin> set xs"
  then have "takeWhile (\<lambda>x. x \<noteq> c) (xs @ c # ys) = xs" by (induction xs) auto
  then show ?thesis by (simp add: find_char_def)
qed

lemma substr_append: "substr (pre @ xs @ ys) (length pre) (length xs) = xs"
  by (simp add: substr_def)

lemma split_dollars:
  assumes "CHR ''$'' \<notin> set a" "CHR ''$'' \<notin> set b" "CHR ''$'' \<notin> set c"
    and s_def: "s = a @ ''$'' @ b @ ''$'' @ c @ ''$'' @ d"
  shows "find_char (CHR ''$'') s 0 = Some (length a)"
    "find_char (CHR ''$'') s (length a + 1) = Some (length a + 1 + length b)"
    "find_char (CHR ''$'') s (length a + 1 + length b + 1) = Some (length a + 1 + length b + 1 + length c)"
    "substr s 0 (length a) = a" "substr s (length a + 1) (length b) = b"
    "substr s (length a + 1 + length b + 1) (length c) = c"
    "drop (length a + 1 + length b + 1 + length c + 1) s = d"
proof -
  have s': "s = (a @ ''$'' @ b @ ''$'' @ c @ ''$'') @ d" by (simp add: s_def)
  have "length a + 1 + length b + 1 + length c + 1 = length (a @ ''$'' @ b @ ''$'' @ c @ ''$'')"
    by simp
  then show "drop (length a + 1 + length b + 1 + length c + 1) s = d"
    unfolding s' by (metis append_eq_conv_conj)
qed (unfold s_def,
  use find_char_append [OF assms(1), of "[]"]
    find_char_append [OF assms(2), of "a @ ''$''"]
    find_char_append [OF assms(3), of "a @ ''$'' @ b @ ''$''"]
    substr_append [of "[]" a] substr_append [of "a @ ''$''" b]
    substr_append [of "a @ ''$'' @ b @ ''$''" c]
  in simp_all)

lemma verify_split:
  assumes "CHR ''$'' \<notin> set a" "CHR ''$'' \<notin> set b" "CHR ''$'' \<notin> set c"
    and "s = a @ ''$'' @ b @ ''$'' @ c @ ''$'' @ d"
  shows "verify pbkdf2 q s =
    (if a \<noteq> ''pbkdf2-sha256'' then Ret False
     else bind_r (stoi b) (\<lambda>iterations.
       case (from_hex c, from_hex d) of
         (Some salt, Some expected_hash) \<Rightarrow>
           if length expected_hash \<noteq> kHashBytes then Ret False
           else (case pbkdf2 q salt iterations of
                   None \<Rightarrow> Ret False
                 | Some actual \<Rightarrow> Ret (actual = expected_hash))
       | _ \<Rightarrow> Ret False))"
proof -
  note split = split_dollars [OF assms]
  have len: "length a + 1 + length b - length a - 1 = length b"
    "length a + 1 + length b + 1 + length c - (length a + 1 + length b) - 1 = length c" by simp_all
  show ?thesis
    unfolding verify_def Let_def after_def
    by (simp only: split(1) option.case, simp only: split(2) option.case,
      simp only: split(3) option.case prod.case, simp only: len split(4-7))
qed

lemma verify_stored:
  assumes "length key = 32"
  shows "verify pbkdf2 q (''pbkdf2-sha256$'' @ ''100000'' @ ''$'' @ to_hex salt @ ''$'' @ to_hex key)
    = Ret (pbkdf2 q salt kIterations = Some key)"
proof -
  have "stoi ''100000'' = Ret kIterations"
    by (simp add: stoi_def isdigit_def isspace_def byte_of_def kIterations_def of_char_def)
  moreover have "verify pbkdf2 q (''pbkdf2-sha256$'' @ ''100000'' @ ''$'' @ to_hex salt @ ''$'' @ to_hex key)
     = (if ''pbkdf2-sha256'' \<noteq> ''pbkdf2-sha256'' then Ret False
     else bind_r (stoi ''100000'') (\<lambda>iterations.
       case (from_hex (to_hex salt), from_hex (to_hex key)) of
         (Some salt, Some expected_hash) \<Rightarrow>
           if length expected_hash \<noteq> kHashBytes then Ret False
           else (case pbkdf2 q salt iterations of
                   None \<Rightarrow> Ret False
                 | Some actual \<Rightarrow> Ret (actual = expected_hash))
       | _ \<Rightarrow> Ret False))"
    by (rule verify_split) (simp_all add: to_hex_no_dollar)
  ultimately show ?thesis
    using assms by (simp add: from_hex_to_hex kHashBytes_def split: option.splits)
qed

text \<open>
  Passwords: what \<open>hash\<close> stores (algorithm, iteration count, salt and key, in hexadecimal)
  verifies for a password exactly when that password derives the same key from the same salt, so
  the right password is always accepted and a wrong one only if it collides under PBKDF2. A
  failure of the random source or of the derivation while hashing throws.
\<close>

theorem verify_hash:
  assumes "\<And>p salt n key. pbkdf2 p salt n = Some key \<Longrightarrow> length key = 32"
  shows "case hash pbkdf2 rand_bytes password of
      Ret stored \<Rightarrow> \<exists>salt key. rand_bytes = Some salt \<and> pbkdf2 password salt kIterations = Some key
        \<and> verify pbkdf2 q stored = Ret (pbkdf2 q salt kIterations = Some key)
        \<and> verify pbkdf2 password stored = Ret True
    | Exn e \<Rightarrow> e = RuntimeError
        \<and> (rand_bytes = None \<or> pbkdf2 password (the rand_bytes) kIterations = None)
    | NoFuel \<Rightarrow> False"
  by (auto simp: hash_def derive_key_def verify_stored [OF assms] split: option.splits
      simp del: append_Cons append_assoc)

text \<open>A derivation that depends on its first byte only: it tells \<open>a1\<close> from \<open>b1\<close>.\<close>

definition sample_pbkdf2 :: pbkdf2 where
  "sample_pbkdf2 p salt n = Some (replicate 32 (if hd p = CHR ''a'' then 1 else 2))"

theorem verify_hash_witness:
  "case hash sample_pbkdf2 (Some (replicate 16 7)) ''a1'' of
     Ret stored \<Rightarrow> verify sample_pbkdf2 ''b1'' stored = Ret False
       \<and> verify sample_pbkdf2 ''a1'' stored = Ret True
   | _ \<Rightarrow> False"
  using verify_hash [of sample_pbkdf2 "Some (replicate 16 7)" "''a1''" "''b1''"]
  by (auto simp: sample_pbkdf2_def hash_def derive_key_def)

end
