(* ===== verification/UserRepository.thy ===== *)
theory UserRepository
  imports PasswordHash
begin

text \<open>
  The storage of \<open>server/src/storage/database.cpp\<close> (schema migrations) and
  \<open>server/src/storage/user_repository.cpp\<close> (accounts). The state is the content of the SQLite file:
  the rows of \<open>schema_version\<close> and of \<open>users\<close>, whether \<open>users\<close> has the column \<open>updated_at\<close>, and the
  largest id handed out. The SQL statements of the source are modelled by what they do to it:
  \<open>UNIQUE COLLATE NOCASE\<close> compares names with ASCII letters folded, a failed statement changes
  nothing, and \<open>ALTER TABLE ADD COLUMN\<close> with a default that is an expression is refused by SQLite
  when the table has rows. \<open>db_ok\<close> tells whether SQLite can complete statements (it is \<open>False\<close> while
  the file is locked or unreadable). Time stamps are not modelled.
\<close>

section \<open>State\<close>

record user_row =
  u_id :: int
  u_username :: string
  u_password_hash :: string
  u_chips :: int

record database =
  db_ok :: bool
  db_schema_version :: "int list option"
  db_users :: "user_row list option"
  db_updated_at :: bool
  db_wal :: bool
  db_last_id :: int

record user_record =
  ur_id :: int
  ur_username :: string
  ur_chips :: u32

datatype user_create_result = Created | UsernameTaken

section \<open>Schema migrations\<close>

definition kLatestSchemaVersion :: int where "kLatestSchemaVersion = 2"

text \<open>\<open>exec\<close> of a statement: \<open>None\<close> for an error code of SQLite.\<close>

definition exec :: "(database \<Rightarrow> database option) \<Rightarrow> database \<Rightarrow> database result" where
  "exec sql d =
     (if \<not> db_ok d then Exn DatabaseError
      else case sql d of None \<Rightarrow> Exn DatabaseError | Some d' \<Rightarrow> Ret d')"

definition sql_create_schema_version :: "database \<Rightarrow> database option" where
  "sql_create_schema_version d =
     Some (case db_schema_version d of None \<Rightarrow> d\<lparr>db_schema_version := Some []\<rparr> | Some _ \<Rightarrow> d)"

definition sql_insert_version :: "int \<Rightarrow> database \<Rightarrow> database option" where
  "sql_insert_version v d =
     (case db_schema_version d of
        None \<Rightarrow> None
      | Some vs \<Rightarrow> Some (d\<lparr>db_schema_version := Some (vs @ [v])\<rparr>))"

definition sql_update_version :: "int \<Rightarrow> database \<Rightarrow> database option" where
  "sql_update_version v d =
     (case db_schema_version d of
        None \<Rightarrow> None
      | Some vs \<Rightarrow> Some (d\<lparr>db_schema_version := Some (map (\<lambda>_. v) vs)\<rparr>))"

definition sql_create_users :: "database \<Rightarrow> database option" where
  "sql_create_users d =
     Some (case db_users d of
             None \<Rightarrow> d\<lparr>db_users := Some [], db_updated_at := False, db_last_id := 0\<rparr>
           | Some _ \<Rightarrow> d)"

definition sql_add_updated_at :: "database \<Rightarrow> database option" where
  "sql_add_updated_at d =
     (case db_users d of
        None \<Rightarrow> None
      | Some us \<Rightarrow> if db_updated_at d \<or> us \<noteq> [] then None else Some (d\<lparr>db_updated_at := True\<rparr>))"

definition read_schema_version :: "database \<Rightarrow> int result" where
  "read_schema_version d =
     (case db_schema_version d of
        None \<Rightarrow> Exn DatabaseError
      | Some vs \<Rightarrow> if \<not> db_ok d then Exn DatabaseError
                   else Ret (case vs of [] \<Rightarrow> 0 | v # _ \<Rightarrow> v))"

definition write_schema_version :: "int \<Rightarrow> database \<Rightarrow> database result" where
  "write_schema_version version d =
     bind_r (read_schema_version d) (\<lambda>v.
       if v = 0 then exec (sql_insert_version version) d else exec (sql_update_version version) d)"

definition apply_migration :: "int \<Rightarrow> database \<Rightarrow> database result" where
  "apply_migration version d =
     (if version = 1 then exec sql_create_users d
      else if version = 2
      then bind_r (exec (\<lambda>d. Some (d\<lparr>db_wal := True\<rparr>)) d) (exec sql_add_updated_at)
      else Ret d)"

text \<open>
  The state of the file when the loop ends, and the exception that ended it, if any: a migration
  that throws leaves what the earlier statements did.
\<close>

function migrate_loop :: "int \<Rightarrow> database \<Rightarrow> database result" where
  "migrate_loop version d =
     (if version < kLatestSchemaVersion
      then bind_r (bind_r (apply_migration (version + 1) d) (write_schema_version (version + 1)))
        (migrate_loop (version + 1))
      else Ret d)"
  by pat_completeness auto
termination
  by (relation "measure (\<lambda>(version, d). nat (kLatestSchemaVersion - version))") auto

declare migrate_loop.simps [simp del]

definition migrate :: "database \<Rightarrow> database result" where
  "migrate d =
     bind_r (exec sql_create_schema_version d) (\<lambda>d.
     bind_r (read_schema_version d) (\<lambda>version. migrate_loop version d))"

section \<open>Accounts\<close>

definition nocase :: "string \<Rightarrow> string" where
  "nocase s = map tolower s"

definition nocase_eq :: "string \<Rightarrow> string \<Rightarrow> bool" where
  "nocase_eq a b = (nocase a = nocase b)"

text \<open>The rows a statement on \<open>users\<close> sees, \<open>None\<close> when it cannot be prepared or run.\<close>

definition users_of :: "database \<Rightarrow> user_row list option" where
  "users_of d = (if db_ok d then db_users d else None)"

definition select_user :: "database \<Rightarrow> string \<Rightarrow> user_row option" where
  "select_user d username =
     (case users_of d of
        None \<Rightarrow> None
      | Some us \<Rightarrow> List.find (\<lambda>r. nocase_eq (u_username r) username) us)"

text \<open>\<open>std::string\<close> from the \<open>const char*\<close> of a column: up to the first NUL.\<close>

definition c_string :: "string \<Rightarrow> string" where
  "c_string s = takeWhile (\<lambda>c. byte_of c \<noteq> 0) s"

definition find_by_username :: "database \<Rightarrow> string \<Rightarrow> user_record option" where
  "find_by_username d username =
     (case select_user d username of
        None \<Rightarrow> None
      | Some r \<Rightarrow> Some \<lparr>ur_id = u_id r, ur_username = c_string (u_username r),
                        ur_chips = word_of_int (u_chips r)\<rparr>)"

definition username_exists :: "database \<Rightarrow> string \<Rightarrow> bool" where
  "username_exists d username = (find_by_username d username \<noteq> None)"

definition create_user ::
  "pbkdf2 \<Rightarrow> u8 list option \<Rightarrow> database \<Rightarrow> string \<Rightarrow> string \<Rightarrow> u32 \<Rightarrow> (database \<times> user_create_result) result" where
  "create_user pbkdf2 rand_bytes d username password chips =
     (if username_exists d username then Ret (d, UsernameTaken)
      else bind_r (hash pbkdf2 rand_bytes password) (\<lambda>password_hash.
        case users_of d of
          None \<Rightarrow> Exn DatabaseError
        | Some us \<Rightarrow>
            if \<exists>r \<in> set us. nocase_eq (u_username r) username then Ret (d, UsernameTaken)
            else Ret (d\<lparr>db_users := Some (us @ [\<lparr>u_id = db_last_id d + 1, u_username = username,
                          u_password_hash = password_hash, u_chips = uint chips\<rparr>]),
                        db_last_id := db_last_id d + 1\<rparr>, Created)))"

definition verify_password :: "pbkdf2 \<Rightarrow> database \<Rightarrow> string \<Rightarrow> string \<Rightarrow> bool result" where
  "verify_password pbkdf2 d username password =
     (case select_user d username of
        None \<Rightarrow> Ret False
      | Some r \<Rightarrow> verify pbkdf2 password (c_string (u_password_hash r)))"

definition update_chips :: "database \<Rightarrow> string \<Rightarrow> u32 \<Rightarrow> database \<times> bool" where
  "update_chips d username chips =
     (case users_of d of
        None \<Rightarrow> (d, False)
      | Some us \<Rightarrow>
          if \<not> db_updated_at d then (d, False)
          else (d\<lparr>db_users := Some (map (\<lambda>r. if nocase_eq (u_username r) username
                     then r\<lparr>u_chips := uint chips\<rparr> else r) us)\<rparr>,
                length (filter (\<lambda>r. nocase_eq (u_username r) username) us) = 1))"

section \<open>The invariant of the accounts table\<close>

definition row_ok :: "database \<Rightarrow> user_row \<Rightarrow> bool" where
  "row_ok d r \<longleftrightarrow> 0 \<le> u_chips r \<and> u_chips r < 4294967296 \<and> u_id r \<le> db_last_id d
     \<and> c_string (u_username r) = u_username r"

definition rows_ok :: "database \<Rightarrow> user_row list \<Rightarrow> bool" where
  "rows_ok d us \<longleftrightarrow> distinct (map (\<lambda>r. nocase (u_username r)) us) \<and> distinct (map u_id us)
     \<and> (\<forall>r \<in> set us. row_ok d r)"

definition db_wf :: "database \<Rightarrow> bool" where
  "db_wf d \<longleftrightarrow> db_ok d \<and> db_updated_at d
     \<and> (case db_users d of None \<Rightarrow> False | Some us \<Rightarrow> rows_ok d us)"

definition balance :: "database \<Rightarrow> string \<Rightarrow> u32 option" where
  "balance d username = map_option ur_chips (find_by_username d username)"

lemma db_wfE:
  assumes "db_wf d"
  obtains us where "db_users d = Some us" "users_of d = Some us" "rows_ok d us" "db_ok d"
    "db_updated_at d"
  using assms by (auto simp: db_wf_def users_of_def split: option.splits)

lemma filter_unique:
  "distinct (map f us) \<Longrightarrow> length (filter (\<lambda>r. f r = x) us) = (if \<exists>r \<in> set us. f r = x then 1 else 0)"
  by (induction us) (auto simp: image_iff)

lemma find_update:
  "(\<And>r. P (upd r) = P r) \<Longrightarrow> List.find P (map upd us) = map_option upd (List.find P us)"
  by (induction us) auto

lemma find_append:
  "List.find P (xs @ ys) = (case List.find P xs of None \<Rightarrow> List.find P ys | Some x \<Rightarrow> Some x)"
  by (induction xs) auto

lemma select_update:
  assumes "db_wf d"
  shows "select_user (fst (update_chips d n c)) m
    = map_option (\<lambda>r. if nocase_eq n m then r\<lparr>u_chips := uint c\<rparr> else r) (select_user d m)"
proof -
  obtain us where us: "db_users d = Some us" "users_of d = Some us" "db_ok d" "db_updated_at d"
    using db_wfE [OF assms] by metis
  let ?upd = "\<lambda>r. if nocase_eq (u_username r) n then r\<lparr>u_chips := uint c\<rparr> else r"
  have "List.find (\<lambda>r. nocase_eq (u_username r) m) (map ?upd us)
      = map_option ?upd (List.find (\<lambda>r. nocase_eq (u_username r) m) us)"
    by (rule find_update) (simp add: nocase_eq_def)
  also have "\<dots> = map_option (\<lambda>r. if nocase_eq n m then r\<lparr>u_chips := uint c\<rparr> else r)
      (List.find (\<lambda>r. nocase_eq (u_username r) m) us)"
    by (rule option.map_cong0) (auto simp: nocase_eq_def find_Some_iff set_eq_iff)
  finally show ?thesis using us by (simp add: select_user_def update_chips_def users_of_def)
qed

lemma balance_update:
  assumes "db_wf d"
  shows "balance (fst (update_chips d n c)) m
    = (if nocase_eq n m \<and> balance d m \<noteq> None then Some c else balance d m)"
  by (auto simp: balance_def find_by_username_def select_update [OF assms] split: option.splits)

lemma update_returns:
  assumes "db_wf d"
  shows "snd (update_chips d n c) \<longleftrightarrow> balance d n \<noteq> None"
proof -
  obtain us where us: "users_of d = Some us" "db_updated_at d" "rows_ok d us"
    using db_wfE [OF assms] by metis
  have "length (filter (\<lambda>r. nocase (u_username r) = nocase n) us)
      = (if \<exists>r \<in> set us. nocase (u_username r) = nocase n then 1 else 0)"
    using us(3) by (intro filter_unique) (simp add: rows_ok_def)
  then show ?thesis using us
    by (auto simp: update_chips_def nocase_eq_def balance_def find_by_username_def select_user_def
        find_None_iff find_Some_iff split: option.splits)
qed

lemma update_wf: "db_wf d \<Longrightarrow> db_wf (fst (update_chips d n c))"
proof -
  assume wf: "db_wf d"
  obtain us where us: "db_users d = Some us" "users_of d = Some us" "rows_ok d us" "db_ok d"
      "db_updated_at d"
    using db_wfE [OF wf] by metis
  let ?upd = "\<lambda>r. if nocase_eq (u_username r) n then r\<lparr>u_chips := uint c\<rparr> else r"
  let ?d = "d\<lparr>db_users := Some (map ?upd us)\<rparr>"
  have names: "map (\<lambda>r. nocase (u_username r)) (map ?upd us) = map (\<lambda>r. nocase (u_username r)) us"
    "map u_id (map ?upd us) = map u_id us" by simp_all
  have "uint c < 4294967296" using uint_lt2p [of c] by simp
  then have "\<forall>r \<in> set (map ?upd us). row_ok ?d r"
    using us(3) by (auto simp: rows_ok_def row_ok_def)
  then have "rows_ok ?d (map ?upd us)"
    using us(3) unfolding rows_ok_def names by simp
  then show ?thesis using us by (simp add: update_chips_def db_wf_def)
qed

text \<open>The names in the table; storing balances does not touch them.\<close>

definition account_names :: "database \<Rightarrow> string list" where
  "account_names d = (case db_users d of None \<Rightarrow> [] | Some us \<Rightarrow> map u_username us)"

lemma account_names_update: "account_names (fst (update_chips d n c)) = account_names d"
  by (auto simp: account_names_def update_chips_def users_of_def comp_def split: option.split)

section \<open>The interface the game needs\<close>

text \<open>
  A table of chip balances under names: what \<open>GameSession\<close> relies on when it stores stacks. The
  client lemma is the effect of a whole round of updates, one for every seat.
\<close>

locale chip_store =
  fixes valid :: "'db \<Rightarrow> bool"
    and lookup :: "'db \<Rightarrow> string \<Rightarrow> u32 option"
    and store :: "'db \<Rightarrow> string \<Rightarrow> u32 \<Rightarrow> 'db \<times> bool"
    and same :: "string \<Rightarrow> string \<Rightarrow> bool"
  assumes valid_store: "valid db \<Longrightarrow> valid (fst (store db n c))"
    and stored_iff: "valid db \<Longrightarrow> snd (store db n c) \<longleftrightarrow> lookup db n \<noteq> None"
    and lookup_store: "valid db \<Longrightarrow> lookup (fst (store db n c)) m
      = (if same n m \<and> lookup db m \<noteq> None then Some c else lookup db m)"
begin

definition store_all :: "(string \<times> u32) list \<Rightarrow> 'db \<Rightarrow> 'db" where
  "store_all ncs db = fold (\<lambda>(n, c) db. fst (store db n c)) ncs db"

lemma valid_store_all: "valid db \<Longrightarrow> valid (store_all ncs db)"
  unfolding store_all_def by (induction ncs arbitrary: db) (auto simp: valid_store)

lemma lookup_store_all_None: "valid db \<Longrightarrow> lookup (store_all ncs db) m = None \<longleftrightarrow> lookup db m = None"
  unfolding store_all_def
  by (induction ncs arbitrary: db) (auto simp: valid_store lookup_store split: if_splits)

lemma lookup_store_all_other:
  "valid db \<Longrightarrow> \<forall>(n, c) \<in> set ncs. \<not> same n m \<Longrightarrow> lookup (store_all ncs db) m = lookup db m"
  unfolding store_all_def
  by (induction ncs arbitrary: db) (auto simp: valid_store lookup_store)

lemma lookup_store_all_if:
  "valid db \<Longrightarrow> lookup db m = Some v \<Longrightarrow> \<forall>(n, c') \<in> set ncs. same n m \<longrightarrow> c' = c
    \<Longrightarrow> lookup (store_all ncs db) m = Some (if \<exists>(n, c') \<in> set ncs. same n m then c else v)"
proof (induction ncs arbitrary: db v)
  case (Cons p ncs)
  obtain n' c' where p: "p = (n', c')" by (cases p)
  let ?db = "fst (store db n' c')"
  have unfold: "store_all (p # ncs) db = store_all ncs ?db" by (simp add: store_all_def p)
  have v: "valid ?db" using Cons.prems by (simp add: valid_store)
  have l: "lookup ?db m = Some (if same n' m then c else v)"
    using Cons.prems p by (auto simp: lookup_store)
  show ?case
    unfolding unfold using Cons.IH [OF v l] Cons.prems(3) p by auto
qed (simp add: store_all_def)

lemma lookup_store_all:
  assumes "valid db" "(n, c) \<in> set ncs" "same n m" "lookup db m \<noteq> None"
    and "\<forall>(n', c') \<in> set ncs. same n' m \<longrightarrow> c' = c"
  shows "lookup (store_all ncs db) m = Some c"
  using lookup_store_all_if [OF assms(1) _ assms(5)] assms by auto

end

interpretation accounts: chip_store db_wf balance update_chips nocase_eq
  by unfold_locales (simp_all add: update_wf update_returns balance_update)

section \<open>Creating accounts\<close>

lemma valid_username_c_string: "is_valid_username n \<Longrightarrow> c_string n = n"
  unfolding c_string_def
  by (auto simp: is_valid_username_def username_loop_iff iscntrl_def takeWhile_eq_all_conv
      split: if_splits)

lemma hash_c_string:
  assumes "hash pbkdf2 rnd p = Ret h"
  shows "c_string h = h"
proof -
  have "byte_of c \<noteq> 0" if "c \<in> set (to_hex bs)" for c bs
  proof -
    have "unat b div 16 < 16" "unat b mod 16 < 16" for b :: u8 using unat_u8 [of b] by auto
    moreover have "\<forall>n \<in> set [0..<16]. byte_of (hex_digit n) \<noteq> 0" by code_simp
    ultimately show ?thesis using that
      by (induction bs) (auto simp: to_hex_Cons, simp add: to_hex_def)
  qed
  then show ?thesis using assms unfolding c_string_def
    by (auto simp: hash_def derive_key_def map_r_Ret_iff takeWhile_eq_all_conv byte_of_def
        split: option.splits)
qed

lemma select_create:
  assumes wf: "db_wf d" and none: "balance d n = None" and h: "hash pbkdf2 rnd p = Ret h"
  obtains d' where "create_user pbkdf2 rnd d n p c = Ret (d', Created)"
    "select_user d' m = (if nocase_eq n m
       then Some \<lparr>u_id = db_last_id d + 1, u_username = n, u_password_hash = h, u_chips = uint c\<rparr>
       else select_user d m)"
    "c_string n = n \<Longrightarrow> db_wf d'"
proof -
  obtain us where us: "db_users d = Some us" "users_of d = Some us" "rows_ok d us" "db_ok d"
      "db_updated_at d"
    using db_wfE [OF wf] by metis
  let ?r = "\<lparr>u_id = db_last_id d + 1, u_username = n, u_password_hash = h, u_chips = uint c\<rparr>"
  let ?d = "d\<lparr>db_users := Some (us @ [?r]), db_last_id := db_last_id d + 1\<rparr>"
  have sel: "select_user d n = None"
    using none by (simp add: balance_def find_by_username_def split: option.splits)
  then have new: "\<forall>r \<in> set us. \<not> nocase_eq (u_username r) n"
    using us by (simp add: select_user_def find_None_iff)
  have "\<not> username_exists d n" using sel by (simp add: username_exists_def find_by_username_def)
  then have create: "create_user pbkdf2 rnd d n p c = Ret (?d, Created)"
    using us new h by (simp add: create_user_def)
  have "List.find (\<lambda>r. nocase_eq (u_username r) m) us = None" if "nocase_eq n m"
    using new that by (auto simp: find_None_iff nocase_eq_def)
  then have sel': "select_user ?d m = (if nocase_eq n m then Some ?r else select_user d m)"
    using us by (auto simp: select_user_def users_of_def find_append split: option.splits)
  have "db_wf ?d" if "c_string n = n"
  proof -
    have "uint c < 4294967296" using uint_lt2p [of c] by simp
    then have "\<forall>r \<in> set (us @ [?r]). row_ok ?d r"
      using us(3) that by (auto simp: rows_ok_def row_ok_def)
    moreover have "distinct (map (\<lambda>r. nocase (u_username r)) (us @ [?r]))"
      using us(3) new by (auto simp: rows_ok_def nocase_eq_def)
    moreover have "distinct (map u_id (us @ [?r]))"
      using us(3) by (auto simp: rows_ok_def row_ok_def)
    ultimately show ?thesis using us by (simp add: db_wf_def rows_ok_def)
  qed
  with create sel' show ?thesis by (rule that)
qed

lemma create_taken:
  "balance d n \<noteq> None \<Longrightarrow> create_user pbkdf2 rnd d n p c = Ret (d, UsernameTaken)"
  by (auto simp: balance_def create_user_def username_exists_def)

lemma create_throws:
  "balance d n = None \<Longrightarrow> hash pbkdf2 rnd p = Exn e \<Longrightarrow> create_user pbkdf2 rnd d n p c = Exn e"
  by (auto simp: balance_def create_user_def username_exists_def)

lemma hash_cases:
  obtains (ok) h where "hash pbkdf2 rnd p = Ret h" | (throws) "hash pbkdf2 rnd p = Exn RuntimeError"
proof -
  have "(\<exists>h. hash pbkdf2 rnd p = Ret h) \<or> hash pbkdf2 rnd p = Exn RuntimeError"
    by (simp add: hash_def derive_key_def split: option.splits)
  then show ?thesis using that by blast
qed

lemma create_user_wf:
  assumes "db_wf d" "is_valid_username n"
  shows "case create_user pbkdf2 rnd d n p c of Ret (d', _) \<Rightarrow> db_wf d' | Exn e \<Rightarrow> e = RuntimeError
       | NoFuel \<Rightarrow> False"
proof (cases "balance d n = None")
  case True
  show ?thesis
  proof (cases rule: hash_cases [of pbkdf2 rnd p])
    case (ok h)
    then obtain d' where "create_user pbkdf2 rnd d n p c = Ret (d', Created)" "db_wf d'"
      using select_create [OF assms(1) True ok] valid_username_c_string [OF assms(2)] by metis
    then show ?thesis by simp
  qed (use True create_throws in auto)
qed (use assms create_taken in auto)

text \<open>
  The accounts table stays well formed (no two names equal up to the case of ASCII letters, no
  id twice, every balance a 32-bit number) under every operation on it.
\<close>

theorem accounts_invariant:
  assumes "db_wf d" "is_valid_username n"
  shows "db_wf (fst (update_chips d m c))
    \<and> (case create_user pbkdf2 rnd d n p c of Ret (d', _) \<Rightarrow> db_wf d' | Exn e \<Rightarrow> e = RuntimeError
       | NoFuel \<Rightarrow> False)"
  using update_wf [OF assms(1)] create_user_wf [OF assms] by blast

definition sample_db :: database where
  "sample_db = \<lparr>db_ok = True, db_schema_version = Some [2], db_users = Some [],
     db_updated_at = True, db_wal = True, db_last_id = 0\<rparr>"

lemma sample_db_wf: "db_wf sample_db"
  by (simp add: sample_db_def db_wf_def rows_ok_def)

lemma sample_name: "is_valid_username ''Alice''"
  by code_simp

lemma sample_create:
  obtains d' where "create_user sample_pbkdf2 (Some [1]) sample_db ''Alice'' ''a1'' 1000
    = Ret (d', Created)"
proof -
  have none: "balance sample_db ''Alice'' = None"
    by (simp add: balance_def find_by_username_def select_user_def users_of_def sample_db_def)
  obtain h where "hash sample_pbkdf2 (Some [1]) ''a1'' = Ret h"
    by (simp add: hash_def derive_key_def sample_pbkdf2_def)
  then show ?thesis using select_create [OF sample_db_wf none] that by metis
qed

theorem accounts_invariant_witness:
  "case create_user sample_pbkdf2 (Some [1]) sample_db ''Alice'' ''a1'' 1000 of
     Ret (d', r) \<Rightarrow> db_wf d' \<and> r = Created | _ \<Rightarrow> False"
proof -
  obtain d' where d': "create_user sample_pbkdf2 (Some [1]) sample_db ''Alice'' ''a1'' 1000
      = Ret (d', Created)"
    by (rule sample_create)
  then show ?thesis
    using accounts_invariant [OF sample_db_wf sample_name, where ?pbkdf2.0 = sample_pbkdf2
        and rnd = "Some [1]" and p = "''a1''" and c = 1000]
    by simp
qed

text \<open>
  C39. What an account holder sees. Creating an account under a name that exists in any
  capitalisation reports \<open>UsernameTaken\<close> and changes nothing; otherwise, unless hashing throws, the
  account exists afterwards under every capitalisation of the name with the chips given, its
  password check accepts exactly the passwords with the same derived key, and no other account is
  touched. Storing a balance changes the balance of that account only, and reports whether it exists.
\<close>

theorem account_operations:
  assumes wf: "db_wf d" and name: "is_valid_username n"
    and len: "\<And>p salt n key. pbkdf2 p salt n = Some key \<Longrightarrow> length key = 32"
  shows "(snd (update_chips d n' v) \<longleftrightarrow> balance d n' \<noteq> None)
    \<and> balance (fst (update_chips d n' v)) m
        = (if nocase_eq n' m \<and> balance d m \<noteq> None then Some v else balance d m)
    \<and> (case create_user pbkdf2 rnd d n p c of
         Ret (d', UsernameTaken) \<Rightarrow> d' = d \<and> balance d n \<noteq> None
       | Ret (d', Created) \<Rightarrow> balance d n = None
           \<and> balance d' m = (if nocase_eq n m then Some c else balance d m)
           \<and> verify_password pbkdf2 d' m q
               = (if nocase_eq n m
                  then Ret (pbkdf2 q (the rnd) kIterations = pbkdf2 p (the rnd) kIterations)
                  else verify_password pbkdf2 d m q)
       | Exn e \<Rightarrow> balance d n = None \<and> e = RuntimeError
       | NoFuel \<Rightarrow> False)"
proof (intro conjI)
  show "case create_user pbkdf2 rnd d n p c of
         Ret (d', UsernameTaken) \<Rightarrow> d' = d \<and> balance d n \<noteq> None
       | Ret (d', Created) \<Rightarrow> balance d n = None
           \<and> balance d' m = (if nocase_eq n m then Some c else balance d m)
           \<and> verify_password pbkdf2 d' m q
               = (if nocase_eq n m
                  then Ret (pbkdf2 q (the rnd) kIterations = pbkdf2 p (the rnd) kIterations)
                  else verify_password pbkdf2 d m q)
       | Exn e \<Rightarrow> balance d n = None \<and> e = RuntimeError
       | NoFuel \<Rightarrow> False"
  proof (cases "balance d n = None")
    case True
    show ?thesis
    proof (cases rule: hash_cases [of pbkdf2 rnd p])
      case (ok h)
      obtain salt key where rnd: "rnd = Some salt" and key: "pbkdf2 p salt kIterations = Some key"
          and h: "h = ''pbkdf2-sha256$'' @ ''100000'' @ ''$'' @ to_hex salt @ ''$'' @ to_hex key"
        using ok by (auto simp: hash_def derive_key_def map_r_Ret_iff split: option.splits)
      have ver: "verify pbkdf2 q (c_string h)
          = Ret (pbkdf2 q (the rnd) kIterations = pbkdf2 p (the rnd) kIterations)"
        unfolding hash_c_string [OF ok] unfolding h
        by (subst verify_stored) (use len [OF key] rnd key in auto)
      obtain d' where c: "create_user pbkdf2 rnd d n p c = Ret (d', Created)" and
          s: "select_user d' m = (if nocase_eq n m
            then Some \<lparr>u_id = db_last_id d + 1, u_username = n, u_password_hash = h, u_chips = uint c\<rparr>
            else select_user d m)"
        using select_create [OF wf True ok, of c m] by metis
      show ?thesis using True ver
        by (simp add: c balance_def find_by_username_def verify_password_def s)
    qed (use True create_throws in auto)
  qed (use create_taken in auto)
qed (simp_all only: update_returns [OF wf] balance_update [OF wf])

theorem account_operations_witness:
  "\<exists>d'. create_user sample_pbkdf2 (Some [1]) sample_db ''Alice'' ''a1'' 1000 = Ret (d', Created)
     \<and> balance d' ''ALICE'' = Some 1000 \<and> verify_password sample_pbkdf2 d' ''alice'' ''b1'' = Ret False"
proof -
  have len: "length key = 32" if "sample_pbkdf2 p salt n = Some key" for p salt n key
    using that by (auto simp: sample_pbkdf2_def)
  obtain d' where d': "create_user sample_pbkdf2 (Some [1]) sample_db ''Alice'' ''a1'' 1000
      = Ret (d', Created)"
    by (rule sample_create)
  have "nocase_eq ''Alice'' ''ALICE''" "nocase_eq ''Alice'' ''alice''" by code_simp+
  then show ?thesis
    using account_operations [where ?pbkdf2.0 = sample_pbkdf2, OF sample_db_wf sample_name len, where rnd = "Some [1]"
        and p = "''a1''" and c = 1000 and m = "''ALICE''"]
      account_operations [where ?pbkdf2.0 = sample_pbkdf2, OF sample_db_wf sample_name len, where rnd = "Some [1]"
        and p = "''a1''" and c = 1000 and m = "''alice''" and q = "''b1''"]
    unfolding d' by (simp add: sample_pbkdf2_def)
qed

section \<open>Migrations\<close>

lemma migrate_step:
  "version < 2 \<Longrightarrow> migrate_loop version d
    = bind_r (bind_r (apply_migration (version + 1) d) (write_schema_version (version + 1)))
        (migrate_loop (version + 1))"
  "\<not> version < 2 \<Longrightarrow> migrate_loop version d = Ret d"
  by (simp_all add: migrate_loop.simps [of version] kLatestSchemaVersion_def)

lemmas migrate_simps = migrate_def migrate_step exec_def read_schema_version_def
  write_schema_version_def apply_migration_def sql_create_schema_version_def sql_insert_version_def
  sql_update_version_def sql_create_users_def sql_add_updated_at_def

text \<open>
  Opening a database: a new file is brought to schema version 2 with an empty users table; a
  file at version 2 is left as it is, accounts included; a file at version 1 is upgraded when it
  has no accounts, and cannot be opened at all when it has any, because the upgrade adds a column
  whose default is not constant. A file SQLite cannot read throws.
\<close>

theorem migrations:
  "migrate \<lparr>db_ok = True, db_schema_version = None, db_users = None, db_updated_at = u, db_wal = w,
       db_last_id = i\<rparr>
     = Ret \<lparr>db_ok = True, db_schema_version = Some [2], db_users = Some [], db_updated_at = True,
         db_wal = True, db_last_id = 0\<rparr>
   \<and> migrate \<lparr>db_ok = True, db_schema_version = Some [2], db_users = us, db_updated_at = u,
         db_wal = w, db_last_id = i\<rparr>
     = Ret \<lparr>db_ok = True, db_schema_version = Some [2], db_users = us, db_updated_at = u,
         db_wal = w, db_last_id = i\<rparr>
   \<and> migrate \<lparr>db_ok = True, db_schema_version = Some [1], db_users = Some rows,
         db_updated_at = False, db_wal = w, db_last_id = i\<rparr>
     = (if rows = []
        then Ret \<lparr>db_ok = True, db_schema_version = Some [2], db_users = Some [],
               db_updated_at = True, db_wal = True, db_last_id = i\<rparr>
        else Exn DatabaseError)
   \<and> migrate (d\<lparr>db_ok := False\<rparr>) = Exn DatabaseError"
  by (simp add: migrate_simps)

end
