(* ===== verification/GameSession.thy ===== *)
theory GameSession
  imports Deck HandEvaluator SidePots Protocol UserRepository
begin

text \<open>
  \<open>GameSession\<close> of \<open>server/include/game/game_session.h\<close> and \<open>server/src/game/game_session.cpp\<close>: one
  table of no-limit hold'em. The record has the members of the class. A player (\<open>IPlayer*\<close>) and a
  connection (\<open>IConnection*\<close>) are identified by natural numbers; the name of a player is what
  \<open>get_name()\<close> returns; \<open>send_message\<close> appends to \<open>g_outbox\<close>. \<open>g_shuffles\<close> supplies the draws of the
  \<open>i\<close>-th shuffle, \<open>g_shuffle_count\<close> the number of shuffles so far. \<open>g_repo\<close> is \<open>user_repository_\<close> with
  the database behind it. Log lines are left out.

  A hand of cards may end inside the call that ended it and the next one begin, so the member
  functions call each other in a circle: \<open>start\<close>, \<open>ask_current_player\<close>, \<open>next_phase\<close>, \<open>do_showdown\<close>,
  \<open>handle_single_winner\<close>, \<open>try_start_new_hand\<close>, \<open>start_new_hand\<close>. The model gives them a fuel
  argument that counts the calls; \<open>NoFuel\<close> is a circle that was cut off.

  \<open>operator[]\<close> on a map reads \<open>0\<close> for a missing key. (It also inserts the key; in the states that
  occur, all keys that are looked up elsewhere with \<open>find\<close> or \<open>at\<close> are present.)
\<close>

section \<open>State\<close>

type_synonym pid = nat \<comment> \<open>an \<open>IPlayer*\<close>\<close>
type_synonym cid = nat \<comment> \<open>an \<open>IConnection*\<close>\<close>

record game =
  g_repo :: "database option"
  g_bankrolls :: "string \<rightharpoonup> u32"
  g_players :: "pid list"
  g_connection_map :: "cid \<rightharpoonup> pid"
  g_hands :: "pid \<rightharpoonup> card list"
  g_folded :: "pid set"
  g_all_in :: "pid set"
  g_acted :: "pid set"
  g_deck :: deck
  g_community :: "card list"
  g_phase :: game_phase
  g_dealer :: nat
  g_current :: nat
  g_pot :: u32
  g_current_bet :: u32
  g_last_raise :: u32
  g_chips :: "pid \<rightharpoonup> u32"
  g_round_bets :: "pid \<rightharpoonup> u32"
  g_contributed :: "pid \<rightharpoonup> u32"
  g_name :: "pid \<Rightarrow> string"
  g_shuffles :: "nat \<Rightarrow> nat list"
  g_shuffle_count :: nat
  g_outbox :: "(pid \<times> server_message) list"

definition STARTING_CHIPS :: u32 where "STARTING_CHIPS = 1000"
definition SMALL_BLIND :: u32 where "SMALL_BLIND = 10"
definition BIG_BLIND :: u32 where "BIG_BLIND = 20"

definition new_game ::
  "pid list \<Rightarrow> (cid \<rightharpoonup> pid) \<Rightarrow> database option \<Rightarrow> (string \<rightharpoonup> u32) \<Rightarrow> (pid \<Rightarrow> string)
    \<Rightarrow> (nat \<Rightarrow> nat list) \<Rightarrow> game" where
  "new_game players connection_map repo bankrolls name draws =
     \<lparr>g_repo = repo, g_bankrolls = bankrolls, g_players = players,
      g_connection_map = connection_map, g_hands = Map.empty, g_folded = {}, g_all_in = {},
      g_acted = {}, g_deck = new_deck, g_community = [], g_phase = PreFlop, g_dealer = 0,
      g_current = 0, g_pot = 0, g_current_bet = 0, g_last_raise = 0, g_chips = Map.empty,
      g_round_bets = Map.empty, g_contributed = Map.empty, g_name = name, g_shuffles = draws,
      g_shuffle_count = 0, g_outbox = []\<rparr>"

definition send_message :: "pid \<Rightarrow> server_message \<Rightarrow> game \<Rightarrow> game" where
  "send_message p msg g = g\<lparr>g_outbox := g_outbox g @ [(p, msg)]\<rparr>"

definition send_all :: "(pid \<Rightarrow> server_message) \<Rightarrow> game \<Rightarrow> game" where
  "send_all msg g = fold (\<lambda>p. send_message p (msg p)) (g_players g) g"

abbreviation chips_of :: "game \<Rightarrow> pid \<Rightarrow> u32" where
  "chips_of g p \<equiv> getd 0 (g_chips g) p"

abbreviation bet_of :: "game \<Rightarrow> pid \<Rightarrow> u32" where
  "bet_of g p \<equiv> getd 0 (g_round_bets g) p"

abbreviation contributed_of :: "game \<Rightarrow> pid \<Rightarrow> u32" where
  "contributed_of g p \<equiv> getd 0 (g_contributed g) p"

section \<open>Seats\<close>

definition player_count :: "game \<Rightarrow> nat" where
  "player_count g = length (g_players g)"

definition has_enough_players :: "game \<Rightarrow> bool" where
  "has_enough_players g = (length (g_players g) \<ge> 2)"

definition can_player_act :: "game \<Rightarrow> pid \<Rightarrow> bool" where
  "can_player_act g p = (p \<notin> g_folded g \<and> p \<notin> g_all_in g)"

definition sb_index :: "game \<Rightarrow> nat" where
  "sb_index g =
     (if length (g_players g) = 2 then g_dealer g else (g_dealer g + 1) mod length (g_players g))"

definition bb_index :: "game \<Rightarrow> nat" where
  "bb_index g =
     (if length (g_players g) = 2 then (g_dealer g + 1) mod length (g_players g)
      else (g_dealer g + 2) mod length (g_players g))"

definition first_to_act_preflop :: "game \<Rightarrow> nat" where
  "first_to_act_preflop g =
     (if length (g_players g) = 2 then g_dealer g
      else (bb_index g + 1) mod length (g_players g))"

text \<open>The two searches around the table; the first argument bounds the turns of the loop by the
  number of seats, after which each would be back where it began.\<close>

fun postflop_loop :: "nat \<Rightarrow> game \<Rightarrow> nat \<Rightarrow> nat \<Rightarrow> nat" where
  "postflop_loop 0 g start_idx idx = g_dealer g"
| "postflop_loop (Suc k) g start_idx idx =
     (if can_player_act g (g_players g ! idx) then idx
      else let idx = (idx + 1) mod length (g_players g)
           in if idx \<noteq> start_idx then postflop_loop k g start_idx idx else g_dealer g)"

definition first_to_act_postflop :: "game \<Rightarrow> nat" where
  "first_to_act_postflop g =
     (let idx = (g_dealer g + 1) mod length (g_players g)
      in postflop_loop (length (g_players g)) g idx idx)"

fun next_active_loop :: "nat \<Rightarrow> game \<Rightarrow> nat \<Rightarrow> nat" where
  "next_active_loop 0 g idx = idx"
| "next_active_loop (Suc k) g idx =
     (if \<not> can_player_act g (g_players g ! idx) \<and> idx \<noteq> g_current g
      then next_active_loop k g ((idx + 1) mod length (g_players g))
      else idx)"

definition find_next_active_player :: "game \<Rightarrow> nat" where
  "find_next_active_player g =
     (if g_players g = [] then 0
      else next_active_loop (length (g_players g)) g ((g_current g + 1) mod length (g_players g)))"

definition advance_to_next_player :: "game \<Rightarrow> game" where
  "advance_to_next_player g = g\<lparr>g_current := find_next_active_player g\<rparr>"

definition count_active_players :: "game \<Rightarrow> nat" where
  "count_active_players g = length (filter (\<lambda>p. p \<notin> g_folded g) (g_players g))"

definition count_players_with_chips :: "game \<Rightarrow> nat" where
  "count_players_with_chips g =
     length (filter (\<lambda>p. case g_chips g p of None \<Rightarrow> False | Some c \<Rightarrow> c > 0) (g_players g))"

definition get_player :: "game \<Rightarrow> cid \<Rightarrow> pid option" where
  "get_player g c = g_connection_map g c"

section \<open>Betting\<close>

definition mark_all_in_if_needed :: "pid \<Rightarrow> game \<Rightarrow> game" where
  "mark_all_in_if_needed p g =
     (if chips_of g p = 0 then g\<lparr>g_all_in := insert p (g_all_in g)\<rparr> else g)"

text \<open>No caller uses the amount that \<open>contribute\<close> returns.\<close>

definition contribute :: "pid \<Rightarrow> u32 \<Rightarrow> game \<Rightarrow> game" where
  "contribute p amt g =
     (let actual = min amt (chips_of g p);
          g = g\<lparr>g_chips := (g_chips g)(p \<mapsto> chips_of g p - actual)\<rparr>;
          g = g\<lparr>g_round_bets := (g_round_bets g)(p \<mapsto> bet_of g p + actual)\<rparr>;
          g = g\<lparr>g_contributed := (g_contributed g)(p \<mapsto> contributed_of g p + actual)\<rparr>;
          g = g\<lparr>g_pot := g_pot g + actual\<rparr>
      in mark_all_in_if_needed p g)"

definition post_blinds :: "game \<Rightarrow> game" where
  "post_blinds g =
     (let small_blind = g_players g ! sb_index g;
          big_blind = g_players g ! bb_index g;
          g = contribute small_blind SMALL_BLIND g;
          g = contribute big_blind BIG_BLIND g
      in g\<lparr>g_current_bet := bet_of g big_blind\<rparr>)"

definition begin_betting_round :: "game \<Rightarrow> game" where
  "begin_betting_round g = g\<lparr>g_acted := {}\<rparr>"

definition record_player_action :: "pid \<Rightarrow> action \<Rightarrow> game \<Rightarrow> game" where
  "record_player_action p a g =
     (let g = (if a = Raise then g\<lparr>g_acted := {}\<rparr> else g)
      in g\<lparr>g_acted := insert p (g_acted g)\<rparr>)"

text \<open>The loop of \<open>is_round_complete\<close> over the seats.\<close>

fun round_complete_loop :: "game \<Rightarrow> pid list \<Rightarrow> bool result" where
  "round_complete_loop g [] = Ret True"
| "round_complete_loop g (p # ps) =
     (if p \<in> g_folded g then round_complete_loop g ps
      else bind_r (map_at (g_round_bets g) p) (\<lambda>player_bet.
        if player_bet < g_current_bet g \<and> p \<notin> g_all_in g then Ret False
        else if can_player_act g p \<and> p \<notin> g_acted g then Ret False
        else round_complete_loop g ps))"

definition is_round_complete :: "game \<Rightarrow> bool result" where
  "is_round_complete g =
     (if count_active_players g \<le> 1 then Ret True else round_complete_loop g (g_players g))"

section \<open>Messages\<close>

definition player_state_of :: "game \<Rightarrow> bool \<Rightarrow> nat \<Rightarrow> player_state result" where
  "player_state_of g reveal_hole_cards i =
     (let p = g_players g ! i in
      bind_r (map_at (g_chips g) p) (\<lambda>chips.
      bind_r (map_at (g_round_bets g) p) (\<lambda>round_bet.
      bind_r (if reveal_hole_cards \<and> p \<notin> g_folded g then map_at (g_hands g) p else Ret [])
      (\<lambda>hole_cards.
        Ret \<lparr>ps_name = g_name g p, ps_chips = chips, ps_round_bet = round_bet,
             ps_folded = (p \<in> g_folded g), ps_all_in = (p \<in> g_all_in g),
             ps_is_dealer = (i = g_dealer g), ps_is_small_blind = (i = sb_index g),
             ps_is_big_blind = (i = bb_index g), ps_hole_cards = hole_cards\<rparr>))))"

definition build_player_states :: "game \<Rightarrow> bool \<Rightarrow> player_state list result" where
  "build_player_states g reveal_hole_cards =
     mapM_r (player_state_of g reveal_hole_cards) [0..<length (g_players g)]"

definition broadcast_state :: "game \<Rightarrow> game result" where
  "broadcast_state g =
     (let reveal = (g_phase g = Showdown) in
      map_r (\<lambda>player_states.
        send_all (\<lambda>p. SGameStateUpdate
          \<lparr>gs_general_cards = g_community g, gs_your_cards = getd [] (g_hands g) p,
           gs_phase = g_phase g,
           gs_active_player_name =
             (if can_player_act g (g_players g ! g_current g)
              then g_name g (g_players g ! g_current g) else []),
           gs_total_pot = g_pot g, gs_current_bet = g_current_bet g, gs_players = player_states\<rparr>) g)
        (build_player_states g reveal))"

definition broadcast_action_event :: "string \<Rightarrow> action \<Rightarrow> u32 option \<Rightarrow> game \<Rightarrow> game" where
  "broadcast_action_event player_name a amt g =
     send_all (\<lambda>_. SActionEvent \<lparr>ae_player_name = player_name, ae_action = a, ae_amount = amt\<rparr>) g"

definition broadcast_hand_result :: "string list \<Rightarrow> string list \<Rightarrow> u32 \<Rightarrow> game \<Rightarrow> game" where
  "broadcast_hand_result winner_names winner_hand_labels amt g =
     send_all (\<lambda>_. SHandResult \<lparr>hr_winner_names = winner_names, hr_pot_amount = amt,
       hr_winner_hand_labels = winner_hand_labels\<rparr>) g"

definition your_turn_message :: "game \<Rightarrow> pid \<Rightarrow> your_turn" where
  "your_turn_message g p =
     (let bet = bet_of g p;
          to_call = g_current_bet g - bet;
          min_raise_total = g_current_bet g + g_last_raise g;
          all_in_total = bet + chips_of g p;
          actions = [Fold];
          actions = (if to_call = 0 then actions @ [Check]
                     else if chips_of g p > 0 then actions @ [Call] else actions);
          actions = (if chips_of g p > to_call \<and> all_in_total \<ge> min_raise_total
                     then actions @ [Raise] else actions)
      in \<lparr>yt_available_actions = actions, yt_min_amount = min_raise_total,
          yt_max_amount = all_in_total, yt_to_call = to_call, yt_your_chips = chips_of g p\<rparr>)"

section \<open>Balances\<close>

definition persist_player_chips :: "pid \<Rightarrow> game \<Rightarrow> game" where
  "persist_player_chips p g =
     (case g_repo g of
        None \<Rightarrow> g
      | Some db \<Rightarrow>
          (case g_chips g p of
             None \<Rightarrow> g
           | Some c \<Rightarrow> g\<lparr>g_bankrolls := (g_bankrolls g)(g_name g p \<mapsto> c),
                          g_repo := Some (fst (update_chips db (g_name g p) c))\<rparr>))"

definition persist_all_chips :: "game \<Rightarrow> game" where
  "persist_all_chips g = fold persist_player_chips (g_players g) g"

section \<open>Awarding the pots\<close>

definition cards_of :: "game \<Rightarrow> pid \<Rightarrow> card list result" where
  "cards_of g p = map_r (\<lambda>hand. hand @ g_community g) (map_at (g_hands g) p)"

fun winners_loop :: "game \<Rightarrow> pid list \<Rightarrow> hand_value \<Rightarrow> pid list \<Rightarrow> pid list result" where
  "winners_loop g [] best winners = Ret winners"
| "winners_loop g (p # ps) best winners =
     bind_r (cards_of g p) (\<lambda>cards.
       let v = evaluate_best cards in
       if winners = [] \<or> v > best then winners_loop g ps v [p]
       else if v = best then winners_loop g ps best (winners @ [p])
       else winners_loop g ps best winners)"

definition find_winners_among :: "game \<Rightarrow> pid list \<Rightarrow> pid list result" where
  "find_winners_among g contenders =
     (if contenders = [] then Ret []
      else if length contenders = 1 then Ret [hd contenders]
      else winners_loop g contenders default_hand [])"

text \<open>The locals of \<open>award_all_pots\<close> that the loops change, with the game.\<close>

record award =
  aw_game :: game
  aw_names :: "string list"
  aw_labels :: "string list"
  aw_total :: u32

definition pay_share :: "u32 \<Rightarrow> pid \<Rightarrow> award \<Rightarrow> award result" where
  "pay_share share winner aw =
     (let g = aw_game aw;
          g = g\<lparr>g_chips := (g_chips g)(winner \<mapsto> chips_of g winner + share)\<rparr>;
          name = g_name g winner
      in if name \<in> set (aw_names aw) then Ret (aw\<lparr>aw_game := g\<rparr>)
         else map_r (\<lambda>label. aw\<lparr>aw_game := g, aw_names := aw_names aw @ [name],
                               aw_labels := aw_labels aw @ [label]\<rparr>)
           (if length (g_community g) \<ge> 3
            then map_r (\<lambda>cards. hand_category_label (category (evaluate_best cards)))
                   (cards_of g winner)
            else Ret []))"

fun pay_shares :: "u32 \<Rightarrow> pid list \<Rightarrow> award \<Rightarrow> award result" where
  "pay_shares share [] aw = Ret aw"
| "pay_shares share (w # ws) aw = bind_r (pay_share share w aw) (pay_shares share ws)"

definition award_pot :: "side_pot \<Rightarrow> award \<Rightarrow> award result" where
  "award_pot pot aw =
     (let contenders = map (\<lambda>i. g_players (aw_game aw) ! i) (eligible_player_indices pot) in
      bind_r (find_winners_among (aw_game aw) contenders) (\<lambda>winners.
        if winners = [] \<or> amount pot = 0 then Ret aw
        else
          let share = amount pot div word_of_nat (length winners);
              remainder = amount pot mod word_of_nat (length winners)
          in bind_r (pay_shares share winners aw) (\<lambda>aw.
               let g = aw_game aw;
                   g = (if remainder > 0
                        then g\<lparr>g_chips := (g_chips g)(hd winners \<mapsto> chips_of g (hd winners) + remainder)\<rparr>
                        else g)
               in Ret (aw\<lparr>aw_game := g, aw_total := aw_total aw + amount pot\<rparr>))))"

fun award_pots :: "side_pot list \<Rightarrow> award \<Rightarrow> award result" where
  "award_pots [] aw = Ret aw"
| "award_pots (pot # pots) aw = bind_r (award_pot pot aw) (award_pots pots)"

definition pot_states :: "game \<Rightarrow> pot_player_state list" where
  "pot_states g = map (\<lambda>p. \<lparr>contributed = contributed_of g p, folded = (p \<in> g_folded g)\<rparr>) (g_players g)"

definition award_all_pots :: "game \<Rightarrow> game result" where
  "award_all_pots g =
     (if g_pot g = 0 then Ret g
      else
        let side_pots = compute_side_pots (pot_states g) in
        bind_r (award_pots side_pots \<lparr>aw_game = g, aw_names = [], aw_labels = [], aw_total = 0\<rparr>)
        (\<lambda>aw.
          bind_r
            (if aw_names aw \<noteq> []
             then map_r (broadcast_hand_result (aw_names aw) (aw_labels aw) (aw_total aw))
                    (broadcast_state (persist_all_chips (aw_game aw)))
             else Ret (aw_game aw))
            (\<lambda>g. Ret (g\<lparr>g_pot := 0, g_contributed := Map.empty\<rparr>))))"

section \<open>The course of a hand\<close>

text \<open>\<open>start\<close> up to \<open>ask_current_player\<close>: the loop that deals, then the blinds and the messages.\<close>

definition seat_player :: "pid \<Rightarrow> card list \<Rightarrow> game \<Rightarrow> game" where
  "seat_player p hand g =
     (let g = (if g_chips g p = None
               then g\<lparr>g_chips := (g_chips g)(p \<mapsto>
                      case g_bankrolls g (g_name g p) of None \<Rightarrow> STARTING_CHIPS | Some b \<Rightarrow> b)\<rparr>
               else g)
      in g\<lparr>g_hands := (g_hands g)(p \<mapsto> hand), g_round_bets := (g_round_bets g)(p \<mapsto> 0),
           g_contributed := (g_contributed g)(p \<mapsto> 0)\<rparr>)"

fun deal_hands :: "pid list \<Rightarrow> game \<Rightarrow> game result" where
  "deal_hands [] g = Ret g"
| "deal_hands (p # ps) g =
     bind_r (deal 2 (g_deck g)) (\<lambda>(hand, deck).
       deal_hands ps (seat_player p hand (g\<lparr>g_deck := deck\<rparr>)))"

definition reset_table :: "game \<Rightarrow> game" where
  "reset_table g =
     g\<lparr>g_deck := shuffle (g_shuffles g (g_shuffle_count g)) new_deck,
       g_shuffle_count := g_shuffle_count g + 1, g_community := [], g_folded := {}, g_all_in := {},
       g_pot := 0, g_current_bet := 0, g_last_raise := BIG_BLIND, g_contributed := Map.empty\<rparr>"

definition open_betting :: "game \<Rightarrow> game" where
  "open_betting g =
     (let g = post_blinds g;
          g = begin_betting_round g;
          g = g\<lparr>g_current := first_to_act_preflop g, g_phase := PreFlop\<rparr>
      in persist_all_chips g)"

definition start_hand :: "game \<Rightarrow> game result" where
  "start_hand g =
     bind_r (deal_hands (g_players g) (reset_table g)) (\<lambda>g. broadcast_state (open_betting g))"

text \<open>\<open>next_phase\<close> up to \<open>ask_current_player\<close>: the reset of the bets, and one street.\<close>

definition reset_bets :: "game \<Rightarrow> game" where
  "reset_bets g =
     g\<lparr>g_current_bet := 0, g_last_raise := BIG_BLIND,
       g_round_bets := (\<lambda>p. map_option (\<lambda>_. 0) (g_round_bets g p))\<rparr>"

definition deal_street :: "nat \<Rightarrow> game_phase \<Rightarrow> game \<Rightarrow> game result" where
  "deal_street n phase g =
     bind_r (deal n (g_deck g)) (\<lambda>(cards, deck).
       let g = g\<lparr>g_deck := deck, g_community := g_community g @ cards, g_phase := phase\<rparr>;
           g = g\<lparr>g_current := first_to_act_postflop g\<rparr>
       in broadcast_state (begin_betting_round g))"

fun street :: "game_phase \<Rightarrow> (nat \<times> game_phase) option" where
  "street PreFlop = Some (3, Flop)"
| "street Flop = Some (1, Turn)"
| "street Turn = Some (1, River)"
| "street River = None"
| "street Showdown = None"

definition advance_dealer :: "game \<Rightarrow> game" where
  "advance_dealer g = g\<lparr>g_dealer := (g_dealer g + 1) mod length (g_players g)\<rparr>"

fun start :: "nat \<Rightarrow> game \<Rightarrow> game result"
  and ask_current_player :: "nat \<Rightarrow> game \<Rightarrow> game result"
  and next_phase :: "nat \<Rightarrow> game \<Rightarrow> game result"
  and do_showdown :: "nat \<Rightarrow> game \<Rightarrow> game result"
  and handle_single_winner :: "nat \<Rightarrow> game \<Rightarrow> game result"
  and try_start_new_hand :: "nat \<Rightarrow> game \<Rightarrow> game result"
  and start_new_hand :: "nat \<Rightarrow> game \<Rightarrow> game result"
where
  "start 0 g = NoFuel"
| "start (Suc n) g = bind_r (start_hand g) (ask_current_player n)"
| "ask_current_player 0 g = NoFuel"
| "ask_current_player (Suc n) g =
     (let current = g_players g ! g_current g in
      if \<not> can_player_act g current
      then let g = advance_to_next_player g in
           bind_r (is_round_complete g) (\<lambda>complete.
             if complete then next_phase n g else ask_current_player n g)
      else Ret (send_message current (SYourTurn (your_turn_message g current)) g))"
| "next_phase 0 g = NoFuel"
| "next_phase (Suc n) g =
     (if count_active_players g = 1 then handle_single_winner n g
      else
        let g = reset_bets g in
        case street (g_phase g) of
          Some (cards, phase) \<Rightarrow> bind_r (deal_street cards phase g) (ask_current_player n)
        | None \<Rightarrow> if g_phase g = River then do_showdown n g else Ret g)"
| "do_showdown 0 g = NoFuel"
| "do_showdown (Suc n) g =
     bind_r (broadcast_state (g\<lparr>g_phase := Showdown\<rparr>)) (\<lambda>g.
       let contenders = filter (\<lambda>p. p \<notin> g_folded g) (g_players g) in
       if contenders = [] then try_start_new_hand n g
       else if length contenders = 1 then handle_single_winner n g
       else bind_r (award_all_pots g) (try_start_new_hand n))"
| "handle_single_winner 0 g = NoFuel"
| "handle_single_winner (Suc n) g = bind_r (award_all_pots g) (try_start_new_hand n)"
| "try_start_new_hand 0 g = NoFuel"
| "try_start_new_hand (Suc n) g =
     (if \<not> has_enough_players g then Ret g
      else if count_players_with_chips g < 2 then Ret g
      else start_new_hand n g)"
| "start_new_hand 0 g = NoFuel"
| "start_new_hand (Suc n) g = start n (advance_dealer g)"

section \<open>Actions\<close>

text \<open>
  The \<open>switch\<close> of \<open>apply_action\<close>: the game after the action, or the error code sent to the player,
  in which case the action has no effect.
\<close>

definition play_action :: "pid \<Rightarrow> action \<Rightarrow> u32 option \<Rightarrow> game \<Rightarrow> error_code + game" where
  "play_action current a amt g =
     (let bet = bet_of g current in
      case a of
        Fold \<Rightarrow> Inr (g\<lparr>g_folded := insert current (g_folded g)\<rparr>)
      | Check \<Rightarrow> if g_current_bet g \<noteq> bet then Inl CannotCheck else Inr g
      | Call \<Rightarrow>
          let to_call = g_current_bet g - bet
          in Inr (if to_call > 0 then contribute current to_call g else g)
      | Raise \<Rightarrow>
          let min_raise_total = g_current_bet g + g_last_raise g;
              all_in_total = bet + chips_of g current
          in case amt of
               None \<Rightarrow> Inl InvalidRaise
             | Some v \<Rightarrow>
                 if v \<le> g_current_bet g then Inl InvalidRaise
                 else if v \<le> bet then Inl InvalidRaise
                 else if v < min_raise_total \<and> v < all_in_total then Inl InvalidRaise
                 else
                   let to_put = v - bet in
                   if to_put > chips_of g current then Inl NotEnoughChips
                   else
                     let previous_bet = g_current_bet g;
                         g = contribute current to_put g
                     in Inr (if bet_of g current > g_current_bet g
                             then g\<lparr>g_last_raise := bet_of g current - previous_bet,
                                    g_current_bet := bet_of g current\<rparr>
                             else g))"

definition send_error :: "pid \<Rightarrow> error_code \<Rightarrow> game \<Rightarrow> game" where
  "send_error p code g = send_message p (SError (make_error code [])) g"

definition apply_action :: "nat \<Rightarrow> cid \<Rightarrow> action \<Rightarrow> u32 option \<Rightarrow> game \<Rightarrow> game result" where
  "apply_action n connection a amt g =
     (case get_player g connection of
        None \<Rightarrow> Ret g
      | Some current \<Rightarrow>
          if g_players g ! g_current g \<noteq> current then Ret (send_error current NotYourTurn g)
          else
            case play_action current a amt g of
              Inl code \<Rightarrow> Ret (send_error current code g)
            | Inr g \<Rightarrow>
                let g = record_player_action current a g;
                    g = broadcast_action_event (g_name g current) a amt g
                in if count_active_players g = 1 then handle_single_winner n g
                   else
                     let g = advance_to_next_player g in
                     bind_r (is_round_complete g) (\<lambda>complete.
                       if complete then next_phase n g else ask_current_player n g))"

section \<open>Leaving\<close>

definition erase_player_state :: "pid \<Rightarrow> cid \<Rightarrow> game \<Rightarrow> game" where
  "erase_player_state p connection g =
     (let g = persist_player_chips p g
      in g\<lparr>g_hands := (g_hands g)(p := None), g_chips := (g_chips g)(p := None),
           g_round_bets := (g_round_bets g)(p := None),
           g_contributed := (g_contributed g)(p := None), g_folded := g_folded g - {p},
           g_all_in := g_all_in g - {p}, g_acted := g_acted g - {p},
           g_connection_map := (g_connection_map g)(connection := None)\<rparr>)"

text \<open>\<open>std::find_if\<close> over the seats.\<close>

definition seat_of :: "game \<Rightarrow> pid \<Rightarrow> nat option" where
  "seat_of g p = List.find (\<lambda>i. g_players g ! i = p) [0..<length (g_players g)]"

definition fix_index :: "nat \<Rightarrow> nat \<Rightarrow> nat \<Rightarrow> nat" where
  "fix_index seats removed_index i =
     (if i \<ge> seats then 0 else if removed_index < i then i - 1 else i)"

definition fix_indices_after_removal :: "nat \<Rightarrow> game \<Rightarrow> game" where
  "fix_indices_after_removal removed_index g =
     g\<lparr>g_dealer := fix_index (length (g_players g)) removed_index (g_dealer g),
       g_current := fix_index (length (g_players g)) removed_index (g_current g)\<rparr>"

definition continue_after_player_left :: "nat \<Rightarrow> bool \<Rightarrow> game \<Rightarrow> game result" where
  "continue_after_player_left n was_current g =
     bind_r (is_round_complete g) (\<lambda>complete.
       if was_current \<or> complete
       then if complete then next_phase n g else ask_current_player n g
       else broadcast_state g)"

definition remove_player :: "nat \<Rightarrow> cid \<Rightarrow> game \<Rightarrow> game result" where
  "remove_player n connection g =
     (case get_player g connection of
        None \<Rightarrow> Ret g
      | Some p \<Rightarrow>
          (case seat_of g p of
             None \<Rightarrow> Ret g
           | Some removed_index \<Rightarrow>
               let was_current = (g_players g ! g_current g = p);
                   g = (if p \<notin> g_folded g then g\<lparr>g_folded := insert p (g_folded g)\<rparr> else g)
               in bind_r (if count_active_players g = 1 then award_all_pots g else Ret g) (\<lambda>g.
                    let g = erase_player_state p connection g;
                        g = g\<lparr>g_players := remove1 p (g_players g)\<rparr>
                    in if g_players g = [] then Ret g
                       else
                         let g = fix_indices_after_removal removed_index g
                         in if \<not> has_enough_players g then Ret g
                            else if count_active_players g = 1 then try_start_new_hand n g
                            else continue_after_player_left n was_current g)))"

end
