(* ===== verification/GameInvariant.thy ===== *)
theory GameInvariant
  imports GameSession
begin

text \<open>
  The well-formedness of a table and its preservation. \<open>table_wf\<close> says that the indices point at seats,
  that every seat has a stack, a bet and two hole cards, that connections belong to seats, that no
  card is in two places, and that the community cards fit the phase. Every operation of the game,
  from a well-formed table, returns a well-formed table and never throws: in particular the deck
  does not run out, which is where the bound of 23 seats comes from (2 * 23 + 5 <= 52).
\<close>

section \<open>The invariant\<close>

definition max_seats :: nat where
  "max_seats = 23"

definition seated :: "game \<Rightarrow> bool" where
  "seated g \<longleftrightarrow> distinct (g_players g) \<and> length (g_players g) \<le> max_seats
     \<and> (g_players g \<noteq> [] \<longrightarrow> g_dealer g < length (g_players g))
     \<and> ran (g_connection_map g) \<subseteq> set (g_players g)
     \<and> inj_on (g_connection_map g) (dom (g_connection_map g))"

definition hand_cards :: "(pid \<rightharpoonup> card list) \<Rightarrow> pid list \<Rightarrow> card multiset" where
  "hand_cards hands ps = sum_list (map (\<lambda>p. mset (getd [] hands p)) ps)"

definition cards_in_play :: "game \<Rightarrow> card multiset" where
  "cards_in_play g =
     mset (m_cards (g_deck g)) + mset (g_community g) + hand_cards (g_hands g) (g_players g)"

fun board_size :: "game_phase \<Rightarrow> nat" where
  "board_size PreFlop = 0"
| "board_size Flop = 3"
| "board_size Turn = 4"
| "board_size River = 5"
| "board_size Showdown = 5"

definition cards_ok :: "game \<Rightarrow> bool" where
  "cards_ok g \<longleftrightarrow> cards_in_play g \<subseteq># mset (m_cards new_deck)
     \<and> length (g_community g) = board_size (g_phase g)
     \<and> 5 \<le> length (m_cards (g_deck g)) + length (g_community g)"

definition seats_ok :: "game \<Rightarrow> bool" where
  "seats_ok g \<longleftrightarrow> (\<forall>p \<in> set (g_players g). p \<in> dom (g_chips g) \<and> p \<in> dom (g_round_bets g)
     \<and> (\<exists>a b. g_hands g p = Some [a, b]))"

definition table_wf :: "game \<Rightarrow> bool" where
  "table_wf g \<longleftrightarrow> seated g \<and> cards_ok g \<and> seats_ok g
     \<and> (g_players g \<noteq> [] \<longrightarrow> g_current g < length (g_players g))"

text \<open>Two games that differ in what the money functions change only.\<close>

definition money_step :: "game \<Rightarrow> game \<Rightarrow> bool" where
  "money_step g g' \<longleftrightarrow> g_players g' = g_players g \<and> g_connection_map g' = g_connection_map g
     \<and> g_hands g' = g_hands g \<and> g_folded g' = g_folded g \<and> g_deck g' = g_deck g
     \<and> g_community g' = g_community g \<and> g_phase g' = g_phase g \<and> g_dealer g' = g_dealer g
     \<and> g_current g' = g_current g \<and> g_name g' = g_name g
     \<and> g_shuffles g' = g_shuffles g \<and> g_shuffle_count g' = g_shuffle_count g
     \<and> dom (g_chips g) \<subseteq> dom (g_chips g') \<and> dom (g_round_bets g) \<subseteq> dom (g_round_bets g')"

lemma money_step_refl [simp]: "money_step g g"
  by (simp add: money_step_def)

lemma money_step_trans [trans]:
  assumes "money_step g g'" "money_step g' g''"
  shows "money_step g g''"
proof -
  have "dom (g_chips g) \<subseteq> dom (g_chips g'')" "dom (g_round_bets g) \<subseteq> dom (g_round_bets g'')"
    using assms unfolding money_step_def by blast+
  then show ?thesis using assms by (simp only: money_step_def)
qed

lemma wf_money_step:
  assumes "table_wf g" "money_step g g'"
  shows "table_wf g'"
proof -
  have "seated g'" using assms by (simp add: table_wf_def seated_def money_step_def)
  moreover have "cards_ok g'" using assms by (simp add: table_wf_def cards_ok_def cards_in_play_def money_step_def)
  moreover have "seats_ok g'"
  proof -
    have "g_players g' = g_players g" "g_hands g' = g_hands g" "dom (g_chips g) \<subseteq> dom (g_chips g')"
      "dom (g_round_bets g) \<subseteq> dom (g_round_bets g')"
      using assms(2) by (simp_all add: money_step_def)
    then show ?thesis using assms(1) unfolding table_wf_def seats_ok_def by (simp only:) blast
  qed
  moreover have "g_players g' \<noteq> [] \<longrightarrow> g_current g' < length (g_players g')"
    using assms by (simp add: table_wf_def money_step_def)
  ultimately show ?thesis by (simp add: table_wf_def)
qed

lemma money_step_contribute: "money_step g (contribute p a g)"
  unfolding money_step_def contribute_def mark_all_in_if_needed_def Let_def by auto

lemma send_all_eq:
  "send_all msg g = g\<lparr>g_outbox := g_outbox g @ map (\<lambda>p. (p, msg p)) (g_players g)\<rparr>"
proof -
  have "fold (\<lambda>p. send_message p (msg p)) ps g
      = g\<lparr>g_outbox := g_outbox g @ map (\<lambda>p. (p, msg p)) ps\<rparr>" for ps g
    by (induction ps arbitrary: g) (simp_all add: send_message_def)
  then show ?thesis by (simp add: send_all_def)
qed

lemma money_step_outbox: "money_step g (g\<lparr>g_outbox := ob\<rparr>)"
  by (simp add: money_step_def)

lemma money_step_send_all: "money_step g (send_all msg g)"
  by (simp add: send_all_eq money_step_outbox)

lemma money_step_send: "money_step g (send_message p m g)"
  by (simp add: send_message_def money_step_outbox)

lemma persist_player_eq: "\<exists>b r. persist_player_chips p g = g\<lparr>g_bankrolls := b, g_repo := r\<rparr>"
proof -
  have keep: "\<exists>b r. g = g\<lparr>g_bankrolls := b, g_repo := r\<rparr>"
    by (rule exI [of _ "g_bankrolls g"], rule exI [of _ "g_repo g"]) simp
  show ?thesis
    unfolding persist_player_chips_def by (auto split: option.splits intro: keep)
qed

lemma persist_all_eq: "\<exists>b r. persist_all_chips g = g\<lparr>g_bankrolls := b, g_repo := r\<rparr>"
proof -
  have "\<exists>b r. fold persist_player_chips ps g = g\<lparr>g_bankrolls := b, g_repo := r\<rparr>" for ps
  proof (induction ps arbitrary: g)
    case (Cons p ps)
    obtain b r where 1: "persist_player_chips p g = g\<lparr>g_bankrolls := b, g_repo := r\<rparr>"
      using persist_player_eq by blast
    obtain b' r' where 2: "fold persist_player_chips ps (g\<lparr>g_bankrolls := b, g_repo := r\<rparr>)
        = g\<lparr>g_bankrolls := b, g_repo := r, g_bankrolls := b', g_repo := r'\<rparr>"
      using Cons.IH by blast
    have "fold persist_player_chips (p # ps) g = g\<lparr>g_bankrolls := b', g_repo := r'\<rparr>"
      using 1 2 by simp
    then show ?case by blast
  next
    case Nil
    have "fold persist_player_chips [] g = g\<lparr>g_bankrolls := g_bankrolls g, g_repo := g_repo g\<rparr>" by simp
    then show ?case by blast
  qed
  then show ?thesis by (simp add: persist_all_chips_def)
qed

lemma money_step_bank: "money_step g (g\<lparr>g_bankrolls := b, g_repo := r\<rparr>)"
  by (simp add: money_step_def)

lemma money_step_persist_all: "money_step g (persist_all_chips g)"
  using persist_all_eq [of g] money_step_bank by auto

section \<open>Functions that do not throw in a well-formed table\<close>

lemma wfD:
  assumes "table_wf g" "p \<in> set (g_players g)"
  shows "map_at (g_chips g) p = Ret (chips_of g p)" "map_at (g_round_bets g) p = Ret (bet_of g p)"
    "map_at (g_hands g) p = Ret (getd [] (g_hands g) p)" "length (getd [] (g_hands g) p) = 2"
proof -
  have p: "p \<in> dom (g_chips g)" "p \<in> dom (g_round_bets g)" and
    "\<exists>a b. g_hands g p = Some [a, b]" using assms by (auto simp: table_wf_def seats_ok_def)
  then obtain a b where h: "g_hands g p = Some [a, b]" by blast
  show "map_at (g_chips g) p = Ret (chips_of g p)" "map_at (g_round_bets g) p = Ret (bet_of g p)"
    using p by (simp_all add: map_at_Ret)
  show "map_at (g_hands g) p = Ret (getd [] (g_hands g) p)" "length (getd [] (g_hands g) p) = 2"
    using h by (simp_all add: map_at_def getd_def)
qed

definition seat_state :: "game \<Rightarrow> bool \<Rightarrow> nat \<Rightarrow> player_state" where
  "seat_state g reveal i =
     (let p = g_players g ! i in
      \<lparr>ps_name = g_name g p, ps_chips = chips_of g p, ps_round_bet = bet_of g p,
       ps_folded = (p \<in> g_folded g), ps_all_in = (p \<in> g_all_in g),
       ps_is_dealer = (i = g_dealer g), ps_is_small_blind = (i = sb_index g),
       ps_is_big_blind = (i = bb_index g),
       ps_hole_cards = (if reveal \<and> p \<notin> g_folded g then getd [] (g_hands g) p else [])\<rparr>)"

definition state_update :: "game \<Rightarrow> pid \<Rightarrow> game_state_update" where
  "state_update g p =
     \<lparr>gs_general_cards = g_community g, gs_your_cards = getd [] (g_hands g) p,
      gs_phase = g_phase g,
      gs_active_player_name =
        (if can_player_act g (g_players g ! g_current g)
         then g_name g (g_players g ! g_current g) else []),
      gs_total_pot = g_pot g, gs_current_bet = g_current_bet g,
      gs_players = map (seat_state g (g_phase g = Showdown)) [0..<length (g_players g)]\<rparr>"

lemma build_player_states_wf:
  "table_wf g \<Longrightarrow> build_player_states g reveal = Ret (map (seat_state g reveal) [0..<length (g_players g)])"
  unfolding build_player_states_def
  by (rule mapM_r_Ret) (simp add: player_state_of_def seat_state_def wfD Let_def)

lemma broadcast_state_wf:
  "table_wf g \<Longrightarrow> broadcast_state g = Ret (send_all (\<lambda>p. SGameStateUpdate (state_update g p)) g)"
  by (simp add: broadcast_state_def build_player_states_wf state_update_def Let_def)

definition round_complete :: "game \<Rightarrow> bool" where
  "round_complete g \<longleftrightarrow> count_active_players g \<le> 1
     \<or> (\<forall>p \<in> set (g_players g). p \<notin> g_folded g \<longrightarrow> p \<notin> g_all_in g
          \<longrightarrow> bet_of g p \<ge> g_current_bet g \<and> p \<in> g_acted g)"

lemma is_round_complete_wf: "table_wf g \<Longrightarrow> is_round_complete g = Ret (round_complete g)"
proof -
  assume wf: "table_wf g"
  have "round_complete_loop g ps = Ret (\<forall>p \<in> set ps. p \<notin> g_folded g \<longrightarrow> p \<notin> g_all_in g
          \<longrightarrow> bet_of g p \<ge> g_current_bet g \<and> p \<in> g_acted g)"
    if "set ps \<subseteq> set (g_players g)" for ps
    using that
  proof (induction ps)
    case (Cons p ps)
    then show ?case using wfD(2) [OF wf, of p] by (auto simp: can_player_act_def not_less)
  qed simp
  then show ?thesis by (auto simp: is_round_complete_def round_complete_def)
qed

section \<open>Awarding never throws\<close>

lemma cards_of_wf: "table_wf g \<Longrightarrow> p \<in> set (g_players g) \<Longrightarrow>
    cards_of g p = Ret (getd [] (g_hands g) p @ g_community g)"
  by (simp add: cards_of_def wfD)

definition hand_value_of :: "game \<Rightarrow> pid \<Rightarrow> hand_value" where
  "hand_value_of g p = evaluate_best (getd [] (g_hands g) p @ g_community g)"

lemma winners_loop_wf:
  assumes wf: "table_wf g"
  shows "set ps \<subseteq> set (g_players g) \<Longrightarrow> winners \<noteq> [] \<Longrightarrow> \<forall>w \<in> set winners. hand_value_of g w = best \<Longrightarrow>
    winners_loop g ps best winners
      = Ret (let m = Max (insert best (hand_value_of g ` set ps))
             in (if best = m then winners else []) @ filter (\<lambda>p. hand_value_of g p = m) ps)"
proof (induction ps arbitrary: best winners)
  case (Cons p ps)
  let ?v = "hand_value_of g p" and ?m = "Max (insert best (hand_value_of g ` set ps))"
  have cards: "cards_of g p = Ret (getd [] (g_hands g) p @ g_community g)"
    using Cons.prems by (intro cards_of_wf [OF wf]) simp
  consider (greater) "?v > best" | (eq) "?v = best" | (less) "?v < best" by fastforce
  then show ?case
  proof cases
    case greater
    have "Max (insert best (insert ?v (hand_value_of g ` set ps)))
        = Max (insert ?v (hand_value_of g ` set ps))"
      using greater by (subst Max_insert) (auto simp: max_def not_le)
    moreover have "best \<noteq> Max (insert ?v (hand_value_of g ` set ps))"
      using greater Max_ge [of "insert ?v (hand_value_of g ` set ps)" ?v] by auto
    ultimately show ?thesis using greater Cons.prems Cons.IH [of "[p]" ?v] cards
      by (auto simp: Let_def hand_value_of_def [symmetric] simp del: Max_insert)
  next
    case eq
    then show ?thesis using Cons.prems Cons.IH [of "winners @ [p]" best] cards
      by (auto simp: Let_def hand_value_of_def [symmetric] simp del: Max_insert)
  next
    case less
    have "best \<le> ?m" by (rule Max_ge) auto
    then have "?v < ?m" by (rule less_le_trans [OF less])
    then have "?v \<noteq> ?m" "max ?v ?m = ?m" by auto
    moreover have "Max (insert best (insert ?v (hand_value_of g ` set ps))) = max ?v ?m"
      by (subst insert_commute, subst Max_insert) auto
    ultimately have "Max (insert best (insert ?v (hand_value_of g ` set ps))) = ?m" "?v \<noteq> ?m"
      by simp_all
    then show ?thesis using less Cons.prems Cons.IH [of winners best] cards
      by (auto simp: Let_def hand_value_of_def [symmetric] simp del: Max_insert)
  qed
qed simp

text \<open>The players with the best hand among some contenders, in the order of the seats given.\<close>

definition best_hands :: "game \<Rightarrow> pid list \<Rightarrow> pid list" where
  "best_hands g cs = filter (\<lambda>p. hand_value_of g p = Max (hand_value_of g ` set cs)) cs"

lemma find_winners_wf:
  assumes wf: "table_wf g" and cs: "set cs \<subseteq> set (g_players g)"
  shows "find_winners_among g cs = Ret (best_hands g cs)"
proof -
  consider "cs = []" | p where "cs = [p]" | p q ps where "cs = p # q # ps"
    by (metis list.exhaust)
  then show ?thesis
  proof cases
    case 3
    have "winners_loop g cs default_hand [] = winners_loop g (q # ps) (hand_value_of g p) [p]"
      using 3 cs cards_of_wf [OF wf, of p] by (simp add: hand_value_of_def Let_def)
    also have "\<dots> = Ret (best_hands g cs)"
      using 3 cs by (subst winners_loop_wf [OF wf]) (auto simp: Let_def best_hands_def)
    finally show ?thesis using 3 by (simp add: find_winners_among_def)
  qed (simp_all add: find_winners_among_def best_hands_def)
qed

lemma best_hands_nonempty: "cs \<noteq> [] \<Longrightarrow> best_hands g cs \<noteq> []"
proof -
  assume "cs \<noteq> []"
  then have "Max (hand_value_of g ` set cs) \<in> hand_value_of g ` set cs" by (intro Max_in) auto
  then show ?thesis by (auto simp: best_hands_def filter_empty_conv)
qed

lemma set_best_hands: "set (best_hands g cs) \<subseteq> set cs"
  by (auto simp: best_hands_def)

definition credit :: "u32 \<Rightarrow> pid \<Rightarrow> (pid \<rightharpoonup> u32) \<Rightarrow> (pid \<rightharpoonup> u32)" where
  "credit a p chips = chips(p \<mapsto> getd 0 chips p + a)"

lemma dom_credit_eq: "dom (credit a p chips) = insert p (dom chips)"
  by (simp add: credit_def)

lemma dom_credit: "dom chips \<subseteq> dom (credit a p chips)"
  unfolding dom_credit_eq by blast

lemma money_step_chips: "dom (g_chips g) \<subseteq> dom ch \<Longrightarrow> money_step g (g\<lparr>g_chips := ch\<rparr>)"
  by (simp add: money_step_def)

lemma wf_chips: "table_wf g \<Longrightarrow> dom (g_chips g) \<subseteq> dom ch \<Longrightarrow> table_wf (g\<lparr>g_chips := ch\<rparr>)"
  using wf_money_step money_step_chips by blast

lemma pay_share_wf:
  assumes "table_wf (aw_game aw)" "w \<in> set (g_players (aw_game aw))"
  shows "\<exists>aw'. pay_share a w aw = Ret aw' \<and> aw_total aw' = aw_total aw
    \<and> aw_game aw' = (aw_game aw)\<lparr>g_chips := credit a w (g_chips (aw_game aw))\<rparr>"
proof -
  have "table_wf ((aw_game aw)\<lparr>g_chips := credit a w (g_chips (aw_game aw))\<rparr>)"
    using assms(1) dom_credit by (rule wf_chips)
  from cards_of_wf [OF this, of w] assms(2) show ?thesis
    by (simp add: pay_share_def Let_def credit_def)
qed

lemma pay_shares_wf:
  "table_wf (aw_game aw) \<Longrightarrow> set ws \<subseteq> set (g_players (aw_game aw)) \<Longrightarrow>
    \<exists>aw'. pay_shares a ws aw = Ret aw' \<and> aw_total aw' = aw_total aw
      \<and> aw_game aw' = (aw_game aw)\<lparr>g_chips := fold (credit a) ws (g_chips (aw_game aw))\<rparr>"
proof (induction ws arbitrary: aw)
  case (Cons w ws)
  obtain aw1 where 1: "pay_share a w aw = Ret aw1" "aw_total aw1 = aw_total aw"
      "aw_game aw1 = (aw_game aw)\<lparr>g_chips := credit a w (g_chips (aw_game aw))\<rparr>"
    using pay_share_wf [OF Cons.prems(1), of w a] Cons.prems(2) by auto
  have "table_wf (aw_game aw1)" unfolding 1(3) using Cons.prems(1) dom_credit by (rule wf_chips)
  then obtain aw2 where "pay_shares a ws aw1 = Ret aw2" "aw_total aw2 = aw_total aw1"
      "aw_game aw2 = (aw_game aw1)\<lparr>g_chips := fold (credit a) ws (g_chips (aw_game aw1))\<rparr>"
    using Cons.IH [of aw1] Cons.prems(2) 1(3) by auto
  with 1 show ?case by simp
qed simp

text \<open>What one pot does to the stacks.\<close>

definition pay_pot :: "game \<Rightarrow> side_pot \<Rightarrow> (pid \<rightharpoonup> u32) \<Rightarrow> (pid \<rightharpoonup> u32)" where
  "pay_pot g pot chips =
     (let winners = best_hands g (map ((!) (g_players g)) (eligible_player_indices pot)) in
      if amount pot = 0 then chips
      else credit (amount pot mod word_of_nat (length winners)) (hd winners)
        (fold (credit (amount pot div word_of_nat (length winners))) winners chips))"

lemma credit_zero: "p \<in> dom chips \<Longrightarrow> credit 0 p chips = chips"
  by (auto simp: credit_def getd_def)

lemma dom_fold_credit: "dom (fold (credit a) ws chips) = dom chips \<union> set ws"
  by (induction ws arbitrary: chips) (auto simp only: fold_simps comp_apply dom_credit_eq set_simps Un_iff insert_iff empty_iff)

lemma dom_pay_pot: "dom chips \<subseteq> dom (pay_pot g pot chips)"
  unfolding pay_pot_def Let_def 
  by (cases "amount pot = 0") (simp, simp only: if_False dom_credit_eq dom_fold_credit, blast)

lemma best_hands_chips [simp]: "best_hands (g\<lparr>g_chips := ch\<rparr>) cs = best_hands g cs"
  by (simp add: best_hands_def hand_value_of_def)

lemma pay_pot_chips [simp]: "pay_pot (g\<lparr>g_chips := ch\<rparr>) = pay_pot g"
  by (simp add: fun_eq_iff pay_pot_def)

lemma award_pot_wf:
  assumes wf: "table_wf (aw_game aw)" and el: "eligible_player_indices pot \<noteq> []"
    and idx: "\<forall>i \<in> set (eligible_player_indices pot). i < length (g_players (aw_game aw))"
  shows "\<exists>aw'. award_pot pot aw = Ret aw'
    \<and> aw_game aw' = (aw_game aw)\<lparr>g_chips := pay_pot (aw_game aw) pot (g_chips (aw_game aw))\<rparr>"
proof -
  let ?g = "aw_game aw" and ?cs = "map ((!) (g_players (aw_game aw))) (eligible_player_indices pot)"
  have cs: "set ?cs \<subseteq> set (g_players ?g)" using idx by auto
  let ?ws = "best_hands ?g ?cs"
  have ws: "?ws \<noteq> []" "set ?ws \<subseteq> set (g_players ?g)"
    using best_hands_nonempty [of ?cs ?g] el set_best_hands [of ?g ?cs] cs by auto
  let ?share = "amount pot div word_of_nat (length ?ws)"
  obtain aw1 where 1: "pay_shares ?share ?ws aw = Ret aw1" "aw_total aw1 = aw_total aw"
      "aw_game aw1 = ?g\<lparr>g_chips := fold (credit ?share) ?ws (g_chips ?g)\<rparr>"
    using pay_shares_wf [OF wf ws(2)] by metis
  have hd: "hd ?ws \<in> dom (fold (credit ?share) ?ws (g_chips ?g))"
    using ws(1) by (simp add: dom_fold_credit)
  have "aw_game aw1 = ?g\<lparr>g_chips := pay_pot ?g pot (g_chips ?g)\<rparr>"
    if "amount pot mod word_of_nat (length ?ws) = 0" "amount pot \<noteq> 0"
    using that 1(3) credit_zero [OF hd] by (simp add: pay_pot_def Let_def)
  moreover have "(aw_game aw1)\<lparr>g_chips := credit (amount pot mod word_of_nat (length ?ws)) (hd ?ws)
        (g_chips (aw_game aw1))\<rparr> = ?g\<lparr>g_chips := pay_pot ?g pot (g_chips ?g)\<rparr>"
    if "amount pot \<noteq> 0"
    using that 1(3) by (simp add: pay_pot_def Let_def)
  ultimately show ?thesis
    using 1(1) ws(1) find_winners_wf [OF wf cs]
    by (cases "amount pot = 0") (simp_all add: award_pot_def Let_def pay_pot_def credit_def word_gt_0)
qed

lemma award_pots_wf:
  assumes "table_wf (aw_game aw)"
    "\<forall>pot \<in> set pots. eligible_player_indices pot \<noteq> []
       \<and> (\<forall>i \<in> set (eligible_player_indices pot). i < length (g_players (aw_game aw)))"
  shows "\<exists>aw'. award_pots pots aw = Ret aw'
    \<and> aw_game aw' = (aw_game aw)\<lparr>g_chips := fold (pay_pot (aw_game aw)) pots (g_chips (aw_game aw))\<rparr>"
  using assms
proof (induction pots arbitrary: aw)
  case (Cons pot pots)
  obtain aw1 where 1: "award_pot pot aw = Ret aw1"
      "aw_game aw1 = (aw_game aw)\<lparr>g_chips := pay_pot (aw_game aw) pot (g_chips (aw_game aw))\<rparr>"
    using award_pot_wf [OF Cons.prems(1), of pot] Cons.prems(2) by auto
  have wf1: "table_wf (aw_game aw1)" unfolding 1(2) using Cons.prems(1) dom_pay_pot by (rule wf_chips)
  have "\<forall>pot \<in> set pots. eligible_player_indices pot \<noteq> []
       \<and> (\<forall>i \<in> set (eligible_player_indices pot). i < length (g_players (aw_game aw1)))"
    using Cons.prems(2) 1(2) by simp
  from Cons.IH [OF wf1 this] obtain aw2 where "award_pots pots aw1 = Ret aw2"
      "aw_game aw2 = (aw_game aw1)\<lparr>g_chips := fold (pay_pot (aw_game aw1)) pots (g_chips (aw_game aw1))\<rparr>"
    by blast
  with 1 show ?case by simp
qed simp

text \<open>The stacks after \<open>award_all_pots\<close>.\<close>

definition stacks_after_award :: "game \<Rightarrow> (pid \<rightharpoonup> u32)" where
  "stacks_after_award g = fold (pay_pot g) (compute_side_pots (pot_states g)) (g_chips g)"

lemma dom_stacks_after_award: "dom (g_chips g) \<subseteq> dom (stacks_after_award g)"
  unfolding stacks_after_award_def
  by (rule fold_invariant [where P = "\<lambda>ch. dom (g_chips g) \<subseteq> dom ch" and Q = "\<lambda>_. True"])
    (use dom_pay_pot in blast)+

lemma award_all_pots_eq:
  assumes wf: "table_wf g" and pot: "g_pot g \<noteq> 0"
  shows "\<exists>b r ob. award_all_pots g = Ret (g\<lparr>g_chips := stacks_after_award g, g_bankrolls := b,
      g_repo := r, g_outbox := g_outbox g @ ob, g_pot := 0, g_contributed := Map.empty\<rparr>)
    \<and> (\<forall>(q, m) \<in> set ob. (\<exists>h. m = SGameStateUpdate (state_update h q)) \<or> (\<exists>r. m = SHandResult r))
    \<and> r \<in> {g_repo g, g_repo (persist_all_chips (g\<lparr>g_chips := stacks_after_award g\<rparr>))}"
proof -
  let ?aw = "\<lparr>aw_game = g, aw_names = [], aw_labels = [], aw_total = 0\<rparr>"
  have "\<forall>pot \<in> set (compute_side_pots (pot_states g)). eligible_player_indices pot \<noteq> []
       \<and> (\<forall>i \<in> set (eligible_player_indices pot). i < length (g_players g))"
    using side_pot_eligible [of _ "pot_states g"] by (auto simp: pot_states_def)
  then obtain aw where aw: "award_pots (compute_side_pots (pot_states g)) ?aw = Ret aw"
      "aw_game aw = g\<lparr>g_chips := stacks_after_award g\<rparr>"
    using award_pots_wf [of ?aw] wf unfolding stacks_after_award_def by fastforce
  obtain b r where p: "persist_all_chips (aw_game aw)
      = g\<lparr>g_chips := stacks_after_award g, g_bankrolls := b, g_repo := r\<rparr>" (is "_ = ?p")
    using persist_all_eq [of "aw_game aw"] unfolding aw(2) by blast
  have r: "r = g_repo (persist_all_chips (g\<lparr>g_chips := stacks_after_award g\<rparr>))"
    using p unfolding aw(2) by simp
  have "money_step g ?p" using dom_stacks_after_award [of g] by (simp add: money_step_def)
  note bs = broadcast_state_wf [OF wf_money_step [OF wf this]]
  define ob where "ob = map (\<lambda>q. (q, SGameStateUpdate (state_update ?p q))) (g_players g)
    @ map (\<lambda>q. (q, SHandResult \<lparr>hr_winner_names = aw_names aw, hr_pot_amount = aw_total aw,
        hr_winner_hand_labels = aw_labels aw\<rparr>)) (g_players g)"
  have ob: "\<forall>(q, m) \<in> set ob. (\<exists>h. m = SGameStateUpdate (state_update h q)) \<or> (\<exists>r. m = SHandResult r)"
    by (auto simp: ob_def)
  have bc: "map_r (broadcast_hand_result (aw_names aw) (aw_labels aw) (aw_total aw))
      (broadcast_state (persist_all_chips (aw_game aw)))
      = Ret (g\<lparr>g_chips := stacks_after_award g, g_bankrolls := b, g_repo := r,
          g_outbox := g_outbox g @ ob\<rparr>)"
    unfolding p bs by (simp add: send_all_eq broadcast_hand_result_def ob_def)
  have award: "award_all_pots g = bind_r
      (if aw_names aw \<noteq> []
       then map_r (broadcast_hand_result (aw_names aw) (aw_labels aw) (aw_total aw))
              (broadcast_state (persist_all_chips (aw_game aw)))
       else Ret (aw_game aw))
      (\<lambda>g. Ret (g\<lparr>g_pot := 0, g_contributed := Map.empty\<rparr>))"
    using pot aw(1) by (simp add: award_all_pots_def)
  show ?thesis
  proof (cases "aw_names aw = []")
    case True
    have "award_all_pots g = Ret (g\<lparr>g_chips := stacks_after_award g, g_bankrolls := g_bankrolls g,
        g_repo := g_repo g, g_outbox := g_outbox g @ [], g_pot := 0, g_contributed := Map.empty\<rparr>)"
      unfolding award using True by (simp add: aw(2))
    then show ?thesis by (intro exI [of _ "g_bankrolls g"] exI [of _ "g_repo g"] exI [of _ "[]"]) simp
  next
    case False
    have "award_all_pots g = Ret (g\<lparr>g_chips := stacks_after_award g, g_bankrolls := b,
        g_repo := r, g_outbox := g_outbox g @ ob, g_pot := 0, g_contributed := Map.empty\<rparr>)"
      unfolding award bc using False by simp
    then show ?thesis using ob r by blast
  qed
qed

lemma award_all_pots_wf:
  assumes wf: "table_wf g"
  obtains g' where "award_all_pots g = Ret g'" "money_step g g'"
proof (cases "g_pot g = 0")
  case True
  then show ?thesis using that [of g] by (simp add: award_all_pots_def)
next
  case False
  from award_all_pots_eq [OF wf this] obtain b r ob where
    "award_all_pots g = Ret (g\<lparr>g_chips := stacks_after_award g, g_bankrolls := b,
      g_repo := r, g_outbox := g_outbox g @ ob, g_pot := 0, g_contributed := Map.empty\<rparr>)" by blast
  then show ?thesis by (rule that) (use dom_stacks_after_award [of g] in \<open>simp add: money_step_def\<close>)
qed

section \<open>Dealing a hand\<close>

definition initial_chips :: "game \<Rightarrow> pid \<Rightarrow> u32" where
  "initial_chips g p = getd STARTING_CHIPS (g_bankrolls g) (g_name g p)"

definition seated_chips :: "game \<Rightarrow> pid list \<Rightarrow> (pid \<rightharpoonup> u32)" where
  "seated_chips g ps p =
     (if p \<in> set ps \<and> g_chips g p = None then Some (initial_chips g p) else g_chips g p)"

definition zero_at :: "pid list \<Rightarrow> (pid \<rightharpoonup> u32) \<Rightarrow> (pid \<rightharpoonup> u32)" where
  "zero_at ps m p = (if p \<in> set ps then Some 0 else m p)"

lemma hand_cards_simps [simp]:
  "hand_cards h [] = {#}" "hand_cards h (p # ps) = mset (getd [] h p) + hand_cards h ps"
  by (simp_all add: hand_cards_def)

lemma hand_cards_cong: "\<forall>p \<in> set ps. h p = h' p \<Longrightarrow> hand_cards h ps = hand_cards h' ps"
  by (induction ps) (auto simp: getd_def)

lemma seat_player_eq:
  "seat_player p hand g = g\<lparr>g_hands := (g_hands g)(p \<mapsto> hand), g_chips := seated_chips g [p],
     g_round_bets := zero_at [p] (g_round_bets g), g_contributed := zero_at [p] (g_contributed g)\<rparr>"
proof -
  have "seated_chips g [p] = (if g_chips g p = None
      then (g_chips g)(p \<mapsto> case g_bankrolls g (g_name g p) of None \<Rightarrow> STARTING_CHIPS | Some b \<Rightarrow> b)
      else g_chips g)"
    by (auto simp: seated_chips_def initial_chips_def getd_def fun_eq_iff)
  moreover have "zero_at [p] m = m(p \<mapsto> 0)" for m by (auto simp: zero_at_def fun_eq_iff)
  ultimately show ?thesis by (auto simp: seat_player_def Let_def)
qed

lemma deal_two:
  assumes "deal 2 d = Ret (cs, d')"
  obtains a b where "cs = [a, b]"
proof -
  have "length cs = Suc (Suc 0)" using deal_lengths [OF assms] by simp
  then show ?thesis using that by (auto simp: length_Suc_conv)
qed

lemma deal_hands_eq:
  "distinct ps \<Longrightarrow> 2 * length ps \<le> length (m_cards (g_deck g)) \<Longrightarrow>
    \<exists>D H. deal_hands ps g = Ret (g\<lparr>g_deck := D, g_hands := H, g_chips := seated_chips g ps,
        g_round_bets := zero_at ps (g_round_bets g), g_contributed := zero_at ps (g_contributed g)\<rparr>)
      \<and> length (m_cards D) + 2 * length ps = length (m_cards (g_deck g))
      \<and> mset (m_cards D) + hand_cards H ps = mset (m_cards (g_deck g))
      \<and> (\<forall>p \<in> set ps. \<exists>a b. H p = Some [a, b]) \<and> (\<forall>p. p \<notin> set ps \<longrightarrow> H p = g_hands g p)"
proof (induction ps arbitrary: g)
  case Nil
  have "seated_chips g [] = g_chips g" "zero_at [] m = m" for m
    by (simp_all add: seated_chips_def zero_at_def fun_eq_iff)
  then show ?case
    by (intro exI [of _ "g_deck g"] exI [of _ "g_hands g"]) simp
next
  case (Cons p ps)
  obtain hand d where d: "deal 2 (g_deck g) = Ret (hand, d)"
    using deal_Ex [of 2 "g_deck g"] Cons.prems by auto
  then obtain a b where hand: "hand = [a, b]" by (rule deal_two)
  let ?g = "seat_player p hand (g\<lparr>g_deck := d\<rparr>)"
  have len: "length (m_cards (g_deck g)) = length (m_cards d) + 2" "2 * length ps \<le> length (m_cards d)"
    using deal_lengths [OF d] Cons.prems(2) by auto
  then obtain D H where 1: "deal_hands ps ?g = Ret (?g\<lparr>g_deck := D, g_hands := H,
        g_chips := seated_chips ?g ps, g_round_bets := zero_at ps (g_round_bets ?g),
        g_contributed := zero_at ps (g_contributed ?g)\<rparr>)"
      "length (m_cards D) + 2 * length ps = length (m_cards d)"
      "mset (m_cards D) + hand_cards H ps = mset (m_cards d)"
      "\<forall>p \<in> set ps. \<exists>a b. H p = Some [a, b]" "\<forall>q. q \<notin> set ps \<longrightarrow> H q = g_hands ?g q"
    using Cons.IH [of ?g] Cons.prems(1) by (auto simp: seat_player_eq)
  have Hp: "H p = Some [a, b]" using 1(5) Cons.prems(1) hand by (simp add: seat_player_eq)
  have maps: "seated_chips (g\<lparr>g_deck := d, g_hands := h, g_chips := seated_chips (g\<lparr>g_deck := d\<rparr>) [p],
        g_round_bets := x, g_contributed := y\<rparr>) ps = seated_chips g (p # ps)"
      "zero_at ps (zero_at [p] m) = zero_at (p # ps) m" for h x y m
    by (rule ext, simp add: seated_chips_def initial_chips_def) (rule ext, simp add: zero_at_def)
  have "deal_hands (p # ps) g = deal_hands ps ?g" by (simp add: d)
  also have "\<dots> = Ret (g\<lparr>g_deck := D, g_hands := H, g_chips := seated_chips g (p # ps),
        g_round_bets := zero_at (p # ps) (g_round_bets g),
        g_contributed := zero_at (p # ps) (g_contributed g)\<rparr>)"
    unfolding 1(1) by (simp add: seat_player_eq maps)
  moreover have "mset (m_cards D) + hand_cards H (p # ps) = mset (m_cards (g_deck g))"
    using deal_mset [OF d] 1(3) Hp hand by (simp add: getd_def ac_simps)
  moreover have "\<forall>q. q \<notin> set (p # ps) \<longrightarrow> H q = g_hands g q"
    using 1(5) by (simp add: seat_player_eq)
  ultimately show ?case
    using 1(2,4) Hp len(1) by (intro exI [of _ D] exI [of _ H]) auto
qed

section \<open>Seats stay in range\<close>

lemma postflop_loop_less:
  "idx < length (g_players g) \<Longrightarrow> g_dealer g < length (g_players g) \<Longrightarrow>
    postflop_loop k g s idx < length (g_players g)"
proof (induction k arbitrary: idx)
  case (Suc k)
  have "(idx + 1) mod length (g_players g) < length (g_players g)"
    using Suc.prems(1) by (intro mod_less_divisor) linarith
  then show ?case using Suc by (simp add: Let_def)
qed simp

lemma next_active_loop_less:
  "idx < length (g_players g) \<Longrightarrow> next_active_loop k g idx < length (g_players g)"
proof (induction k arbitrary: idx)
  case (Suc k)
  have "(idx + 1) mod length (g_players g) < length (g_players g)"
    using Suc.prems(1) by (intro mod_less_divisor) linarith
  then show ?case using Suc by simp
qed simp

lemma index_bounds:
  assumes "g_players g \<noteq> []"
  shows "g_dealer g < length (g_players g) \<Longrightarrow> sb_index g < length (g_players g)"
    "bb_index g < length (g_players g)"
    "g_dealer g < length (g_players g) \<Longrightarrow> first_to_act_preflop g < length (g_players g)"
    "g_dealer g < length (g_players g) \<Longrightarrow> first_to_act_postflop g < length (g_players g)"
    "find_next_active_player g < length (g_players g)"
  using assms
  by (simp_all add: sb_index_def bb_index_def first_to_act_preflop_def first_to_act_postflop_def
      Let_def postflop_loop_less find_next_active_player_def next_active_loop_less)

section \<open>Starting a hand\<close>

definition same_seats :: "game \<Rightarrow> game \<Rightarrow> bool" where
  "same_seats g g' \<longleftrightarrow> g_players g' = g_players g \<and> g_connection_map g' = g_connection_map g
     \<and> g_name g' = g_name g"

lemma same_seats_refl [simp]: "same_seats g g"
  by (simp add: same_seats_def)

lemma same_seats_trans [trans]: "same_seats g g' \<Longrightarrow> same_seats g' g'' \<Longrightarrow> same_seats g g''"
  by (simp add: same_seats_def)

lemma money_step_same: "money_step g g' \<Longrightarrow> same_seats g g'"
  by (simp add: money_step_def same_seats_def)

text \<open>The table when the hands have been dealt, before the blinds.\<close>

definition dealt :: "game \<Rightarrow> game \<Rightarrow> bool" where
  "dealt g g' \<longleftrightarrow> (\<exists>D H. deal_hands (g_players g) (reset_table g) = Ret g'
     \<and> g' = (reset_table g)\<lparr>g_deck := D, g_hands := H,
         g_chips := seated_chips g (g_players g),
         g_round_bets := zero_at (g_players g) (g_round_bets g),
         g_contributed := zero_at (g_players g) Map.empty\<rparr>
     \<and> length (m_cards D) + 2 * length (g_players g) = 52
     \<and> mset (m_cards D) + hand_cards H (g_players g) = mset (m_cards new_deck)
     \<and> (\<forall>p \<in> set (g_players g). \<exists>a b. H p = Some [a, b]))"

lemma dealt_ex:
  assumes "distinct (g_players g)" "length (g_players g) \<le> max_seats"
  shows "\<exists>g'. dealt g g'"
proof -
  have "m_cards (g_deck (reset_table g)) = shuffle_draws 1 (g_shuffles g (g_shuffle_count g)) (m_cards new_deck)"
    by (simp add: reset_table_def shuffle_def)
  then have deck: "length (m_cards (g_deck (reset_table g))) = 52"
      "mset (m_cards (g_deck (reset_table g))) = mset (m_cards new_deck)"
    by (simp_all add: length_new_deck mset_shuffle_draws)
  have "2 * length (g_players g) \<le> length (m_cards (g_deck (reset_table g)))"
    using assms(2) by (simp add: deck max_seats_def)
  from deal_hands_eq [OF assms(1) this]
  obtain D H where "deal_hands (g_players g) (reset_table g) = Ret ((reset_table g)\<lparr>g_deck := D,
        g_hands := H, g_chips := seated_chips (reset_table g) (g_players g),
        g_round_bets := zero_at (g_players g) (g_round_bets (reset_table g)),
        g_contributed := zero_at (g_players g) (g_contributed (reset_table g))\<rparr>)"
      "length (m_cards D) + 2 * length (g_players g) = 52"
      "mset (m_cards D) + hand_cards H (g_players g) = mset (m_cards new_deck)"
      "\<forall>p \<in> set (g_players g). \<exists>a b. H p = Some [a, b]"
    unfolding deck by blast
  moreover have "seated_chips (reset_table g) (g_players g) = seated_chips g (g_players g)"
    by (rule ext) (simp add: seated_chips_def initial_chips_def reset_table_def)
  moreover have "g_round_bets (reset_table g) = g_round_bets g" "g_contributed (reset_table g) = Map.empty"
    by (simp_all add: reset_table_def)
  ultimately show ?thesis unfolding dealt_def by metis
qed

lemma dealt_fields:
  assumes "dealt g g'"
  shows "g_players g' = g_players g" "g_connection_map g' = g_connection_map g"
    "g_name g' = g_name g" "g_dealer g' = g_dealer g" "g_community g' = []" "g_folded g' = {}"
    "g_all_in g' = {}" "g_pot g' = 0" "g_chips g' = seated_chips g (g_players g)"
    "g_current g' = g_current g"
  using assms by (auto simp: dealt_def reset_table_def)

lemma dealt_cards:
  assumes "dealt g g'" "length (g_players g) \<le> max_seats"
  shows "mset (m_cards (g_deck g')) + hand_cards (g_hands g') (g_players g') = mset (m_cards new_deck)"
    "length (m_cards (g_deck g')) \<ge> 5" "seats_ok g'"
proof -
  obtain D H where g': "g' = (reset_table g)\<lparr>g_deck := D, g_hands := H,
         g_chips := seated_chips g (g_players g),
         g_round_bets := zero_at (g_players g) (g_round_bets g),
         g_contributed := zero_at (g_players g) Map.empty\<rparr>"
      and D: "length (m_cards D) + 2 * length (g_players g) = 52"
      "mset (m_cards D) + hand_cards H (g_players g) = mset (m_cards new_deck)"
      "\<forall>p \<in> set (g_players g). \<exists>a b. H p = Some [a, b]"
    using assms(1) unfolding dealt_def by blast
  have pl: "g_players g' = g_players g" unfolding g' by (simp add: reset_table_def)
  show "mset (m_cards (g_deck g')) + hand_cards (g_hands g') (g_players g') = mset (m_cards new_deck)"
    using D(2) unfolding pl by (simp add: g')
  show "length (m_cards (g_deck g')) \<ge> 5"
    using D(1) assms(2) by (simp add: g' max_seats_def)
  have "p \<in> dom (g_chips g') \<and> p \<in> dom (g_round_bets g') \<and> (\<exists>a b. g_hands g' p = Some [a, b])"
    if "p \<in> set (g_players g)" for p
    using that D(3) by (auto simp: g' seated_chips_def zero_at_def)
  then show "seats_ok g'" unfolding seats_ok_def pl by blast
qed

lemma dealt_wf:
  assumes "dealt g g'" "seated g" "g_players g \<noteq> []" "i < length (g_players g)"
  shows "table_wf (g'\<lparr>g_current := i, g_phase := PreFlop\<rparr>)"
proof -
  have len: "length (g_players g) \<le> max_seats" using assms(2) by (simp add: seated_def)
  have "seated (g'\<lparr>g_current := i, g_phase := PreFlop\<rparr>)"
    using assms(2) dealt_fields [OF assms(1)] by (simp add: seated_def)
  moreover have "cards_ok (g'\<lparr>g_current := i, g_phase := PreFlop\<rparr>)"
    using dealt_cards(1,2) [OF assms(1) len] dealt_fields(5) [OF assms(1)]
    by (simp add: cards_ok_def cards_in_play_def)
  moreover have "seats_ok (g'\<lparr>g_current := i, g_phase := PreFlop\<rparr>)"
    using dealt_cards(3) [OF assms(1) len] by (simp add: seats_ok_def)
  ultimately show ?thesis
    using assms(4) dealt_fields(1) [OF assms(1)] by (simp add: table_wf_def)
qed

lemma money_step_post_blinds: "money_step g (post_blinds g)"
proof -
  have "money_step g (contribute q BIG_BLIND (contribute p SMALL_BLIND g))" for p q
    using money_step_contribute money_step_trans by blast
  then show ?thesis unfolding post_blinds_def Let_def by (simp add: money_step_def)
qed

lemma open_betting_wf:
  assumes "dealt g g'" "seated g" "g_players g \<noteq> []"
  shows "table_wf (open_betting g')" "same_seats g (open_betting g')"
proof -
  let ?b = "begin_betting_round (post_blinds g')"
  let ?i = "first_to_act_preflop ?b"
  have step: "money_step g' ?b" using money_step_post_blinds [of g']
    by (simp add: begin_betting_round_def money_step_def)
  then have fields: "g_players ?b = g_players g" "g_dealer ?b = g_dealer g"
      "same_seats g ?b"
    using dealt_fields [OF assms(1)] by (simp_all add: money_step_def same_seats_def)
  have i: "?i < length (g_players g)"
    using index_bounds(3) [of ?b] assms(2,3) fields by (simp add: seated_def)
  have "money_step (g'\<lparr>g_current := ?i, g_phase := PreFlop\<rparr>) (?b\<lparr>g_current := ?i, g_phase := PreFlop\<rparr>)"
    using step by (simp add: money_step_def)
  then have wf: "table_wf (?b\<lparr>g_current := ?i, g_phase := PreFlop\<rparr>)"
    using wf_money_step dealt_wf [OF assms i] by blast
  have eq: "open_betting g' = persist_all_chips (?b\<lparr>g_current := ?i, g_phase := PreFlop\<rparr>)"
    by (simp add: open_betting_def Let_def)
  show "table_wf (open_betting g')"
    unfolding eq using wf money_step_persist_all by (rule wf_money_step)
  show "same_seats g (open_betting g')"
    unfolding eq using money_step_same [OF money_step_persist_all] fields(3)
    by (simp add: same_seats_def)
qed

lemma start_hand_wf:
  assumes "seated g" "g_players g \<noteq> []"
  shows "\<exists>d. dealt g d \<and> start_hand g
      = Ret (send_all (\<lambda>p. SGameStateUpdate (state_update (open_betting d) p)) (open_betting d))
    \<and> table_wf (open_betting d) \<and> same_seats g (open_betting d)"
proof -
  obtain d where d: "dealt g d" using dealt_ex [of g] assms(1) by (auto simp: seated_def)
  note ob = open_betting_wf [OF d assms]
  have "deal_hands (g_players g) (reset_table g) = Ret d" using d by (auto simp: dealt_def)
  then have "start_hand g = broadcast_state (open_betting d)" by (simp add: start_hand_def)
  then show ?thesis using d ob broadcast_state_wf [OF ob(1)] by auto
qed

section \<open>The rest of the hand\<close>

lemma reset_bets_wf:
  assumes "table_wf g"
  shows "table_wf (reset_bets g)" "same_seats g (reset_bets g)"
proof -
  have "dom (\<lambda>p. map_option (\<lambda>_. 0 :: u32) (g_round_bets g p)) = dom (g_round_bets g)" by auto
  then have "money_step g (reset_bets g)" by (simp add: reset_bets_def money_step_def)
  then show "table_wf (reset_bets g)" "same_seats g (reset_bets g)"
    using assms wf_money_step money_step_same by blast+
qed

text \<open>The table with the cards of a street on the board, as it is broadcast.\<close>

definition with_board :: "card list \<Rightarrow> deck \<Rightarrow> game_phase \<Rightarrow> game \<Rightarrow> game" where
  "with_board cs d ph g =
     (let g1 = g\<lparr>g_deck := d, g_community := g_community g @ cs, g_phase := ph\<rparr>
      in begin_betting_round (g1\<lparr>g_current := first_to_act_postflop g1\<rparr>))"

lemma deal_street_eq:
  assumes wf: "table_wf g" and ne: "g_players g \<noteq> []" and st: "street (g_phase g) = Some (n, ph)"
  obtains cs d where "deal n (g_deck g) = Ret (cs, d)" "table_wf (with_board cs d ph g)"
    "deal_street n ph g = Ret (send_all (\<lambda>p. SGameStateUpdate (state_update (with_board cs d ph g) p))
        (with_board cs d ph g))"
proof -
  have n: "board_size (g_phase g) + n = board_size ph" "board_size ph \<le> 5"
    using st by (cases "g_phase g"; auto)+
  have "n \<le> length (m_cards (g_deck g))"
    using wf n by (simp add: table_wf_def cards_ok_def)
  then obtain cs d where d: "deal n (g_deck g) = Ret (cs, d)" using deal_Ex by blast
  let ?g1 = "g\<lparr>g_deck := d, g_community := g_community g @ cs, g_phase := ph\<rparr>"
  have cards: "mset (m_cards (g_deck g)) = mset cs + mset (m_cards d)" "length cs = n"
      "length (m_cards d) + n = length (m_cards (g_deck g))"
    using deal_mset [OF d] deal_lengths [OF d] \<open>n \<le> _\<close> by simp_all
  have "cards_ok (with_board cs d ph g)"
    using wf cards n
    by (simp add: table_wf_def cards_ok_def cards_in_play_def with_board_def begin_betting_round_def
        Let_def ac_simps)
  moreover have "seated (with_board cs d ph g)" "seats_ok (with_board cs d ph g)"
    using wf by (simp_all add: table_wf_def seated_def seats_ok_def with_board_def
        begin_betting_round_def Let_def)
  moreover have "first_to_act_postflop ?g1 < length (g_players g)"
    using index_bounds(4) [of ?g1] ne wf by (simp add: table_wf_def seated_def)
  ultimately have wf2: "table_wf (with_board cs d ph g)"
    by (simp add: table_wf_def with_board_def begin_betting_round_def Let_def)
  have "deal_street n ph g = broadcast_state (with_board cs d ph g)"
    by (simp add: deal_street_def d with_board_def Let_def)
  then show ?thesis using that d wf2 broadcast_state_wf [OF wf2] by simp
qed

lemma deal_street_wf:
  assumes wf: "table_wf g" and ne: "g_players g \<noteq> []" and st: "street (g_phase g) = Some (n, ph)"
  shows "\<exists>g'. deal_street n ph g = Ret g' \<and> table_wf g' \<and> same_seats g g' \<and> g_folded g' = g_folded g
    \<and> g_all_in g' = g_all_in g \<and> g_phase g' = ph"
proof -
  obtain cs d where wf2: "table_wf (with_board cs d ph g)" and eq:
    "deal_street n ph g = Ret (send_all (\<lambda>p. SGameStateUpdate (state_update (with_board cs d ph g) p))
        (with_board cs d ph g))"
    using deal_street_eq [OF assms] by metis
  show ?thesis
    using eq wf_money_step [OF wf2 money_step_send_all]
    by (auto simp: send_all_eq same_seats_def with_board_def begin_betting_round_def Let_def)
qed

lemma advance_wf:
  assumes "table_wf g" "g_players g \<noteq> []"
  shows "table_wf (advance_to_next_player g)" "same_seats g (advance_to_next_player g)"
  using assms index_bounds(5) [of g]
  by (auto simp: advance_to_next_player_def table_wf_def seated_def cards_ok_def cards_in_play_def
      seats_ok_def same_seats_def)

lemma showdown_wf:
  assumes "table_wf g" "g_phase g = River"
  shows "table_wf (g\<lparr>g_phase := Showdown\<rparr>)" "same_seats g (g\<lparr>g_phase := Showdown\<rparr>)"
  using assms by (simp_all add: table_wf_def seated_def cards_ok_def cards_in_play_def seats_ok_def
      same_seats_def)

lemma seated_advance_dealer:
  "seated g \<Longrightarrow> g_players g \<noteq> [] \<Longrightarrow> seated (advance_dealer g)"
  by (simp add: seated_def advance_dealer_def)

text \<open>A result that is a well-formed table with the same seats, or a circle that was cut off.\<close>

definition sound :: "game \<Rightarrow> game result \<Rightarrow> bool" where
  "sound g r \<longleftrightarrow> (case r of Ret g' \<Rightarrow> table_wf g' \<and> same_seats g g' | Exn e \<Rightarrow> False | NoFuel \<Rightarrow> True)"

lemma sound_simps [simp]:
  "sound g (Ret g') \<longleftrightarrow> table_wf g' \<and> same_seats g g'" "\<not> sound g (Exn e)" "sound g NoFuel"
  by (simp_all add: sound_def)

lemma sound_same: "sound g' r \<Longrightarrow> same_seats g g' \<Longrightarrow> sound g r"
  by (auto simp: sound_def split: result.splits intro: same_seats_trans)

text \<open>
  What one call of the mutual recursion does at a well-formed table: it returns, or it ends in the next call.
\<close>

abbreviation sent_states :: "game \<Rightarrow> game" where
  "sent_states g \<equiv> send_all (\<lambda>p. SGameStateUpdate (state_update g p)) g"

lemma sent_states_wf:
  assumes "table_wf g"
  shows "table_wf (sent_states g)" "same_seats g (sent_states g)"
  using wf_money_step [OF assms money_step_send_all] money_step_same [OF money_step_send_all] .

lemma start_call:
  assumes "seated g" "g_players g \<noteq> []"
  obtains d where "dealt g d" "start (Suc n) g = ask_current_player n (sent_states (open_betting d))"
    "table_wf (open_betting d)" "same_seats g (open_betting d)"
  using start_hand_wf [OF assms] by auto

lemma ask_call:
  assumes "table_wf g" "g_players g \<noteq> []"
  obtains (asked) "ask_current_player (Suc n) g
      = Ret (send_message (g_players g ! g_current g) (SYourTurn (your_turn_message g (g_players g ! g_current g))) g)"
  | (closed) "ask_current_player (Suc n) g = next_phase n (advance_to_next_player g)"
  | (skipped) "ask_current_player (Suc n) g = ask_current_player n (advance_to_next_player g)"
  using is_round_complete_wf [OF advance_wf(1) [OF assms]]
  by (cases "can_player_act g (g_players g ! g_current g)"; cases "round_complete (advance_to_next_player g)")
    (simp_all add: Let_def)

lemma next_phase_call:
  assumes "table_wf g" "g_players g \<noteq> []"
  obtains (single) "count_active_players g = 1" "next_phase (Suc n) g = handle_single_winner n g"
  | (over) "g_phase g = Showdown" "next_phase (Suc n) g = Ret (reset_bets g)"
  | (river) "g_phase g = River" "next_phase (Suc n) g = do_showdown n (reset_bets g)"
  | (street) k phase g' where "street (g_phase g) = Some (k, phase)" "deal_street k phase (reset_bets g) = Ret g'"
      "table_wf g'" "same_seats g g'" "g_phase g' = phase" "next_phase (Suc n) g = ask_current_player n g'"
proof (cases "count_active_players g = 1")
  case False
  note rb = reset_bets_wf [OF assms(1)]
  have ph: "g_phase (reset_bets g) = g_phase g" and ne: "g_players (reset_bets g) \<noteq> []"
    using assms(2) by (simp_all add: reset_bets_def)
  show ?thesis
  proof (cases "street (g_phase g)")
    case None
    then show ?thesis using False ph over river by (cases "g_phase g") (simp_all add: Let_def)
  next
    case (Some st)
    obtain k phase where st: "st = (k, phase)" by (cases st)
    obtain g' where "deal_street k phase (reset_bets g) = Ret g'" "table_wf g'" "same_seats (reset_bets g) g'" "g_phase g' = phase"
      using deal_street_wf [OF rb(1) ne] Some st ph by auto
    then show ?thesis
      using False Some st ph same_seats_trans [OF rb(2)] by (intro street [of k phase g']) (simp_all add: Let_def)
  qed
qed (use single in simp)

lemma showdown_call:
  assumes "table_wf g" "g_phase g = River"
  obtains (none) "do_showdown (Suc n) g = try_start_new_hand n (sent_states (g\<lparr>g_phase := Showdown\<rparr>))"
  | (one) "do_showdown (Suc n) g = handle_single_winner n (sent_states (g\<lparr>g_phase := Showdown\<rparr>))"
  | (paid) g' where "award_all_pots (sent_states (g\<lparr>g_phase := Showdown\<rparr>)) = Ret g'"
      "money_step (sent_states (g\<lparr>g_phase := Showdown\<rparr>)) g'" "do_showdown (Suc n) g = try_start_new_hand n g'"
proof -
  let ?sd = "g\<lparr>g_phase := Showdown\<rparr>"
  let ?cs = "filter (\<lambda>p. p \<notin> g_folded (sent_states ?sd)) (g_players (sent_states ?sd))"
  note sd = showdown_wf(1) [OF assms]
  obtain g' where g': "award_all_pots (sent_states ?sd) = Ret g'" "money_step (sent_states ?sd) g'"
    using award_all_pots_wf [OF sent_states_wf(1) [OF sd]] by metis
  have "do_showdown (Suc n) g = (if ?cs = [] then try_start_new_hand n (sent_states ?sd)
      else if length ?cs = 1 then handle_single_winner n (sent_states ?sd) else try_start_new_hand n g')"
    unfolding do_showdown.simps broadcast_state_wf [OF sd] bind_r.simps Let_def g'(1) by (rule refl)
  then show ?thesis using none one paid [OF g'] by presburger
qed

lemma single_call:
  assumes "table_wf g"
  obtains g' where "award_all_pots g = Ret g'" "money_step g g'" "handle_single_winner (Suc n) g = try_start_new_hand n g'"
  using award_all_pots_wf [OF assms] by (metis bind_r.simps(1) handle_single_winner.simps(2))

lemma try_call:
  obtains (stop) "try_start_new_hand (Suc n) g = Ret g"
  | (again) "g_players g \<noteq> []" "2 \<le> count_players_with_chips g" "try_start_new_hand (Suc n) g = start_new_hand n g"
proof (cases "has_enough_players g \<and> \<not> count_players_with_chips g < 2")
  case True
  then have "g_players g \<noteq> []" "2 \<le> count_players_with_chips g" by (auto simp: has_enough_players_def)
  then show ?thesis using True again by simp
qed (use stop in auto)

lemma same_players: "same_seats g g' \<Longrightarrow> g_players g' = g_players g"
  by (simp add: same_seats_def)

lemma new_hand_seated:
  assumes "seated g" "g_players g \<noteq> []"
  shows "seated (advance_dealer g)" "g_players (advance_dealer g) \<noteq> []" "same_seats g (advance_dealer g)"
  using assms seated_advance_dealer by (simp_all add: same_seats_def advance_dealer_def)

lemma hand_sound:
  shows "seated g \<Longrightarrow> g_players g \<noteq> [] \<Longrightarrow> sound g (start n g)"
    and "table_wf g \<Longrightarrow> g_players g \<noteq> [] \<Longrightarrow> sound g (ask_current_player n g)"
    and "table_wf g \<Longrightarrow> g_players g \<noteq> [] \<Longrightarrow> sound g (next_phase n g)"
    and "table_wf g \<Longrightarrow> g_players g \<noteq> [] \<Longrightarrow> g_phase g = River \<Longrightarrow> sound g (do_showdown n g)"
    and "table_wf g \<Longrightarrow> g_players g \<noteq> [] \<Longrightarrow> sound g (handle_single_winner n g)"
    and "table_wf g \<Longrightarrow> sound g (try_start_new_hand n g)"
    and "seated g \<Longrightarrow> g_players g \<noteq> [] \<Longrightarrow> sound g (start_new_hand n g)"
proof (induction n arbitrary: g)
  case (Suc n)
  {
    case 1
    obtain d where d: "start (Suc n) g = ask_current_player n (sent_states (open_betting d))"
      "table_wf (sent_states (open_betting d))" "same_seats g (sent_states (open_betting d))"
      using start_call [OF 1] sent_states_wf same_seats_trans by metis
    then show ?case using Suc(2) [OF d(2)] same_players [OF d(3)] 1(2) sound_same by simp
  next
    case 2
    note adv = advance_wf [OF 2] same_players [OF advance_wf(2) [OF 2]]
    have "sound g (next_phase n (advance_to_next_player g))" "sound g (ask_current_player n (advance_to_next_player g))"
      using Suc(2,3) adv 2(2) sound_same by metis+
    then show ?case
      using wf_money_step [OF 2(1) money_step_send] money_step_same [OF money_step_send]
      by (cases rule: ask_call [OF 2, of n]) simp_all
  next
    case 3
    note rb = reset_bets_wf [OF 3(1)] same_players [OF reset_bets_wf(2) [OF 3(1)]]
    from 3 show ?case
    proof (cases rule: next_phase_call [where n = n])
      case river
      then show ?thesis using Suc(4) [OF rb(1)] rb 3(2) sound_same by (simp add: reset_bets_def)
    next
      case (street k phase g')
      then show ?thesis using Suc(2) [OF street(3)] same_players [OF street(4)] 3(2) sound_same by simp
    qed (use Suc(5) 3 rb in simp_all)
  next
    case 4
    let ?g = "sent_states (g\<lparr>g_phase := Showdown\<rparr>)"
    note sd = showdown_wf [OF 4(1,3)]
    have wf: "table_wf ?g" and same: "same_seats g ?g" using sent_states_wf [OF sd(1)] sd(2) same_seats_trans by blast+
    from 4(1,3) show ?case
    proof (cases rule: showdown_call [where n = n])
      case one
      then show ?thesis using Suc(5) [OF wf] same_players [OF same] 4(2) same sound_same by simp
    next
      case (paid g')
      then show ?thesis
        using Suc(6) wf_money_step [OF wf paid(2)] same_seats_trans [OF same money_step_same [OF paid(2)]] sound_same by metis
    qed (use Suc(6) [OF wf] same sound_same in simp)
  next
    case 5
    obtain g' where "handle_single_winner (Suc n) g = try_start_new_hand n g'" "money_step g g'"
      using single_call [OF 5(1)] by metis
    then show ?case using Suc(6) wf_money_step [OF 5(1)] money_step_same sound_same by metis
  next
    case 6
    then show ?case using Suc(7) [of g] by (cases rule: try_call [of n g]) (simp_all add: table_wf_def)
  next
    case 7
    then show ?case using Suc(1) [OF new_hand_seated(1,2) [OF 7]] sound_same [OF _ new_hand_seated(3) [OF 7]] by simp
  }
qed simp_all

section \<open>Actions and leaving\<close>

lemma money_step_bets [simp]:
  "money_step g (h\<lparr>g_last_raise := x, g_current_bet := y\<rparr>) = money_step g h"
  by (simp add: money_step_def)

lemma play_action_frame:
  assumes "play_action p a amt g = Inr g'"
  shows "g_players g' = g_players g" "g_connection_map g' = g_connection_map g" "g_name g' = g_name g"
    "g_folded g' = (if a = Fold then insert p (g_folded g) else g_folded g)"
    "table_wf g \<Longrightarrow> table_wf g'"
proof -
  have "money_step g g'" if "a \<noteq> Fold"
    using assms that money_step_contribute
    by (cases a) (auto simp: play_action_def Let_def split: if_splits option.splits)
  moreover have "g' = g\<lparr>g_folded := insert p (g_folded g)\<rparr>" if "a = Fold"
    using assms that by (simp add: play_action_def Let_def)
  moreover have "table_wf g \<Longrightarrow> table_wf (g\<lparr>g_folded := F\<rparr>)" for F
    by (simp add: table_wf_def seated_def cards_ok_def cards_in_play_def seats_ok_def)
  ultimately show "g_players g' = g_players g" "g_connection_map g' = g_connection_map g"
    "g_name g' = g_name g" "g_folded g' = (if a = Fold then insert p (g_folded g) else g_folded g)"
    "table_wf g \<Longrightarrow> table_wf g'"
    using wf_money_step by (cases "a = Fold"; simp add: money_step_def)+
qed

text \<open>\<open>record_player_action\<close> and \<open>broadcast_action_event\<close>.\<close>

definition note_action :: "pid \<Rightarrow> action \<Rightarrow> u32 option \<Rightarrow> game \<Rightarrow> game" where
  "note_action p a amt g = broadcast_action_event (g_name g p) a amt (record_player_action p a g)"

lemma money_step_note: "money_step g (note_action p a amt g)"
  by (simp add: note_action_def broadcast_action_event_def record_player_action_def send_all_eq
      money_step_def Let_def)

lemma g_name_record [simp]: "g_name (record_player_action p a g) = g_name g"
  by (simp add: record_player_action_def Let_def)

lemma apply_action_unfold:
  "apply_action n c a amt g =
     (case g_connection_map g c of
        None \<Rightarrow> Ret g
      | Some p \<Rightarrow>
          if g_players g ! g_current g \<noteq> p then Ret (send_error p NotYourTurn g)
          else case play_action p a amt g of
            Inl code \<Rightarrow> Ret (send_error p code g)
          | Inr g1 \<Rightarrow>
              let g2 = note_action p a amt g1
              in if count_active_players g2 = 1 then handle_single_winner n g2
                 else bind_r (is_round_complete (advance_to_next_player g2)) (\<lambda>complete.
                   if complete then next_phase n (advance_to_next_player g2)
                   else ask_current_player n (advance_to_next_player g2)))"
  by (auto simp: apply_action_def get_player_def note_action_def Let_def
      split: option.splits sum.splits)

lemma send_error_wf: "table_wf g \<Longrightarrow> table_wf (send_error p c g) \<and> same_seats g (send_error p c g)"
  unfolding send_error_def using wf_money_step money_step_send money_step_same by blast

lemma apply_action_sound:
  assumes wf: "table_wf g" and ne: "g_players g \<noteq> []"
  shows "sound g (apply_action n c a amt g)"
proof (cases "g_connection_map g c")
  case (Some p)
  show ?thesis
  proof (cases "g_players g ! g_current g = p \<and> (\<exists>g1. play_action p a amt g = Inr g1)")
    case True
    then obtain g1 where g1: "play_action p a amt g = Inr g1" by blast
    note fr = play_action_frame [OF g1]
    let ?g2 = "note_action p a amt g1"
    let ?g3 = "advance_to_next_player ?g2"
    have wf2: "table_wf ?g2" using fr(5) [OF wf] money_step_note by (rule wf_money_step)
    have same: "same_seats g ?g2" using money_step_same [OF money_step_note] fr(1-3)
      by (simp add: same_seats_def)
    have ne2: "g_players ?g2 \<noteq> []" using same ne by (simp add: same_seats_def)
    note adv = advance_wf [OF wf2 ne2]
    have ne3: "g_players ?g3 \<noteq> []" using adv(2) ne2 by (simp add: same_seats_def)
    have eq: "apply_action n c a amt g = (if count_active_players ?g2 = 1 then handle_single_winner n ?g2
        else if round_complete ?g3 then next_phase n ?g3 else ask_current_player n ?g3)"
      unfolding apply_action_unfold using Some True g1 is_round_complete_wf [OF adv(1)]
      by (simp add: Let_def)
    have "sound ?g3 (next_phase n ?g3)" "sound ?g3 (ask_current_player n ?g3)"
      "sound ?g2 (handle_single_winner n ?g2)"
      using hand_sound(2,3,5) adv(1) ne3 wf2 ne2 by blast+
    then show ?thesis unfolding eq
      using sound_same [OF _ same] sound_same [OF _ same_seats_trans [OF same adv(2)]] by presburger
  next
    case False
    then show ?thesis
      unfolding apply_action_unfold using Some send_error_wf [OF wf]
      by (cases "play_action p a amt g") auto
  qed
qed (use wf in \<open>simp add: apply_action_unfold\<close>)

lemma wf_folded [simp]: "table_wf (g\<lparr>g_folded := F\<rparr>) = table_wf g"
  by (simp add: table_wf_def seated_def cards_ok_def cards_in_play_def seats_ok_def)

lemma same_folded [simp]: "same_seats g (g\<lparr>g_folded := F\<rparr>)"
  by (simp add: same_seats_def)

text \<open>The seat of \<open>p\<close> is given up: \<open>erase_player_state\<close>, the erased seat, the fixed indices.\<close>

definition give_up_seat :: "pid \<Rightarrow> cid \<Rightarrow> nat \<Rightarrow> game \<Rightarrow> game" where
  "give_up_seat p c i g =
     (let g = erase_player_state p c g
      in fix_indices_after_removal i (g\<lparr>g_players := remove1 p (g_players g)\<rparr>))"

lemma fix_index_less: "seats > 0 \<Longrightarrow> fix_index seats r i < seats"
  by (auto simp: fix_index_def)

lemma hand_cards_remove1:
  "p \<in> set ps \<Longrightarrow> hand_cards h ps = mset (getd [] h p) + hand_cards h (remove1 p ps)"
  by (induction ps) (auto simp: ac_simps)

lemma give_up_seat_fields:
  "g_players (give_up_seat p c i g) = remove1 p (g_players g)"
  "g_connection_map (give_up_seat p c i g) = (g_connection_map g)(c := None)"
  "g_name (give_up_seat p c i g) = g_name g"
  "g_hands (give_up_seat p c i g) = (g_hands g)(p := None)"
  "g_chips (give_up_seat p c i g) = (g_chips g)(p := None)"
  "g_round_bets (give_up_seat p c i g) = (g_round_bets g)(p := None)"
  "g_contributed (give_up_seat p c i g) = (g_contributed g)(p := None)"
  "g_deck (give_up_seat p c i g) = g_deck g"
  "g_community (give_up_seat p c i g) = g_community g"
  "g_phase (give_up_seat p c i g) = g_phase g"
  "g_pot (give_up_seat p c i g) = g_pot g"
  "g_folded (give_up_seat p c i g) = g_folded g - {p}"
  "g_dealer (give_up_seat p c i g) = fix_index (length (remove1 p (g_players g))) i (g_dealer g)"
  "g_current (give_up_seat p c i g) = fix_index (length (remove1 p (g_players g))) i (g_current g)"
proof -
  obtain b r where "persist_player_chips p g = g\<lparr>g_bankrolls := b, g_repo := r\<rparr>"
    using persist_player_eq by blast
  then have eq: "give_up_seat p c i g = fix_indices_after_removal i (g\<lparr>g_bankrolls := b, g_repo := r,
      g_hands := (g_hands g)(p := None), g_chips := (g_chips g)(p := None),
      g_round_bets := (g_round_bets g)(p := None), g_contributed := (g_contributed g)(p := None),
      g_folded := g_folded g - {p}, g_all_in := g_all_in g - {p}, g_acted := g_acted g - {p},
      g_connection_map := (g_connection_map g)(c := None), g_players := remove1 p (g_players g)\<rparr>)"
    by (simp add: give_up_seat_def erase_player_state_def Let_def)
  show "g_players (give_up_seat p c i g) = remove1 p (g_players g)"
    "g_connection_map (give_up_seat p c i g) = (g_connection_map g)(c := None)"
    "g_name (give_up_seat p c i g) = g_name g"
    "g_hands (give_up_seat p c i g) = (g_hands g)(p := None)"
    "g_chips (give_up_seat p c i g) = (g_chips g)(p := None)"
    "g_round_bets (give_up_seat p c i g) = (g_round_bets g)(p := None)"
    "g_contributed (give_up_seat p c i g) = (g_contributed g)(p := None)"
    "g_deck (give_up_seat p c i g) = g_deck g"
    "g_community (give_up_seat p c i g) = g_community g"
    "g_phase (give_up_seat p c i g) = g_phase g"
    "g_pot (give_up_seat p c i g) = g_pot g"
    "g_folded (give_up_seat p c i g) = g_folded g - {p}"
    "g_dealer (give_up_seat p c i g) = fix_index (length (remove1 p (g_players g))) i (g_dealer g)"
    "g_current (give_up_seat p c i g) = fix_index (length (remove1 p (g_players g))) i (g_current g)"
    unfolding eq by (simp_all add: fix_indices_after_removal_def)
qed

lemma give_up_seat_wf:
  assumes wf: "table_wf g" and c: "g_connection_map g c = Some p"
  shows "table_wf (give_up_seat p c i g)"
proof -
  let ?g = "give_up_seat p c i g"
  have seated: "distinct (g_players g)" "length (g_players g) \<le> max_seats"
      "ran (g_connection_map g) \<subseteq> set (g_players g)"
      "inj_on (g_connection_map g) (dom (g_connection_map g))"
    using wf by (simp_all add: table_wf_def seated_def)
  have p: "p \<in> set (g_players g)" using seated(3) c by (auto simp: ran_def)
  have set: "set (remove1 p (g_players g)) = set (g_players g) - {p}" using seated(1) by simp
  have "q \<noteq> p" if "g_connection_map g c' = Some q" "c' \<noteq> c" for c' q
    using inj_onD [OF seated(4), of c' c] that c by auto
  then have "ran ((g_connection_map g)(c := None)) \<subseteq> set (g_players g) - {p}"
    using seated(3) by (auto simp: ran_def split: if_splits)
  moreover have "inj_on ((g_connection_map g)(c := None)) (dom ((g_connection_map g)(c := None)))"
    using seated(4) by (auto simp: inj_on_def)
  moreover have "length (remove1 p (g_players g)) \<le> max_seats"
    using seated(2) length_remove1 [of p "g_players g"] p by simp
  ultimately have "seated ?g"
    using seated(1) fix_index_less by (simp add: seated_def give_up_seat_fields set)
  moreover have "hand_cards ((g_hands g)(p := None)) (remove1 p (g_players g))
      = hand_cards (g_hands g) (remove1 p (g_players g))"
    by (rule hand_cards_cong) (simp add: set)
  then have "cards_in_play ?g \<subseteq># cards_in_play g"
    by (simp add: cards_in_play_def give_up_seat_fields hand_cards_remove1 [OF p])
  then have "cards_ok ?g"
    using wf by (auto simp: table_wf_def cards_ok_def give_up_seat_fields intro: subset_mset.order_trans)
  moreover have "seats_ok ?g"
    using wf by (auto simp: table_wf_def seats_ok_def give_up_seat_fields set)
  ultimately show ?thesis
    by (simp add: table_wf_def give_up_seat_fields fix_index_less)
qed

lemma seat_of_Some:
  assumes "p \<in> set (g_players g)"
  obtains i where "seat_of g p = Some i" "i < length (g_players g)" "g_players g ! i = p"
proof -
  obtain i where "i < length (g_players g)" "g_players g ! i = p"
    using assms by (auto simp: in_set_conv_nth)
  then have "seat_of g p \<noteq> None" by (auto simp: seat_of_def find_None_iff)
  then obtain i where "seat_of g p = Some i" by blast
  moreover from this have "i < length (g_players g)" "g_players g ! i = p"
    by (auto simp: seat_of_def find_Some_iff)
  ultimately show ?thesis by (rule that)
qed

lemma continue_after_player_left_sound:
  assumes "table_wf g" "g_players g \<noteq> []"
  shows "sound g (continue_after_player_left n w g)"
  using assms hand_sound(2,3) [OF assms] wf_money_step [OF assms(1) money_step_send_all]
    money_step_same [OF money_step_send_all]
  by (simp add: continue_after_player_left_def is_round_complete_wf broadcast_state_wf)

text \<open>What \<open>remove_player\<close> does once the player has been found: fold, award the pot if one player is
  left in the hand, give up the seat, go on.\<close>

definition fold_leaver :: "pid \<Rightarrow> game \<Rightarrow> game" where
  "fold_leaver p g = g\<lparr>g_folded := insert p (g_folded g)\<rparr>"

lemma remove_player_eq:
  assumes wf: "table_wf g" and c: "g_connection_map g c = Some p"
  obtains i g2 where "seat_of g p = Some i" "i < length (g_players g)" "g_players g ! i = p"
    "(if count_active_players (fold_leaver p g) = 1 then award_all_pots (fold_leaver p g)
      else Ret (fold_leaver p g)) = Ret g2"
    "money_step (fold_leaver p g) g2" "table_wf g2"
    "\<And>n. remove_player n c g =
      (let g3 = give_up_seat p c i g2 in
       if remove1 p (g_players g) = []
       then Ret ((erase_player_state p c g2)\<lparr>g_players := []\<rparr>)
       else if \<not> has_enough_players g3 then Ret g3
       else if count_active_players g3 = 1 then try_start_new_hand n g3
       else continue_after_player_left n (g_players g ! g_current g = p) g3)"
proof -
  have p: "p \<in> set (g_players g)" using wf c by (auto simp: table_wf_def seated_def ran_def)
  then obtain i where i: "seat_of g p = Some i" "i < length (g_players g)" "g_players g ! i = p"
    by (rule seat_of_Some)
  let ?f = "fold_leaver p g"
  have f: "(if p \<notin> g_folded g then g\<lparr>g_folded := insert p (g_folded g)\<rparr> else g) = ?f"
    by (simp add: fold_leaver_def insert_absorb)
  have wf1: "table_wf ?f" using wf by (simp add: fold_leaver_def)
  have "\<exists>g2. (if count_active_players ?f = 1 then award_all_pots ?f else Ret ?f) = Ret g2
      \<and> money_step ?f g2"
    using award_all_pots_wf [OF wf1] by (metis money_step_refl)
  then obtain g2 where g2: "(if count_active_players ?f = 1 then award_all_pots ?f else Ret ?f) = Ret g2"
      "money_step ?f g2" by blast
  obtain b r where "persist_player_chips p g2 = g2\<lparr>g_bankrolls := b, g_repo := r\<rparr>"
    using persist_player_eq by blast
  then have pl: "g_players (erase_player_state p c g2) = g_players g"
    using g2(2) by (simp add: erase_player_state_def Let_def money_step_def fold_leaver_def)
  have "remove_player n c g =
      (let g3 = give_up_seat p c i g2 in
       if remove1 p (g_players g) = []
       then Ret ((erase_player_state p c g2)\<lparr>g_players := []\<rparr>)
       else if \<not> has_enough_players g3 then Ret g3
       else if count_active_players g3 = 1 then try_start_new_hand n g3
       else continue_after_player_left n (g_players g ! g_current g = p) g3)" for n
    unfolding remove_player_def get_player_def c option.case i(1) Let_def f g2(1) bind_r.simps
      give_up_seat_def pl by simp
  then show ?thesis using that i g2 wf_money_step [OF wf1 g2(2)] by blast
qed

lemma erase_last_seat:
  assumes "remove1 p (g_players g) = []"
  shows "(erase_player_state p c g)\<lparr>g_players := []\<rparr>
    = (give_up_seat p c i g)\<lparr>g_dealer := g_dealer g, g_current := g_current g\<rparr>"
proof -
  obtain b r where "persist_player_chips p g = g\<lparr>g_bankrolls := b, g_repo := r\<rparr>"
    using persist_player_eq by blast
  then show ?thesis using assms
    by (simp add: give_up_seat_def fix_indices_after_removal_def erase_player_state_def Let_def)
qed

lemma remove_player_sound:
  assumes wf: "table_wf g"
  shows "case g_connection_map g c of
      None \<Rightarrow> remove_player n c g = Ret g
    | Some p \<Rightarrow>
        (case remove_player n c g of
           Ret g' \<Rightarrow> table_wf g' \<and> g_players g' = remove1 p (g_players g)
             \<and> g_connection_map g' = (g_connection_map g)(c := None) \<and> g_name g' = g_name g
         | Exn e \<Rightarrow> False | NoFuel \<Rightarrow> True)"
proof (cases "g_connection_map g c")
  case (Some p)
  from remove_player_eq [OF wf Some]
  obtain i g2 where g2: "money_step (fold_leaver p g) g2" "table_wf g2" and
    eq: "\<And>n. remove_player n c g =
      (let g3 = give_up_seat p c i g2 in
       if remove1 p (g_players g) = []
       then Ret ((erase_player_state p c g2)\<lparr>g_players := []\<rparr>)
       else if \<not> has_enough_players g3 then Ret g3
       else if count_active_players g3 = 1 then try_start_new_hand n g3
       else continue_after_player_left n (g_players g ! g_current g = p) g3)" by metis
  let ?g3 = "give_up_seat p c i g2"
  let ?e = "(erase_player_state p c g2)\<lparr>g_players := []\<rparr>"
  have c2: "g_connection_map g2 c = Some p" "g_players g2 = g_players g"
    "g_connection_map g2 = g_connection_map g" "g_name g2 = g_name g"
    using g2(1) Some by (simp_all add: money_step_def fold_leaver_def)
  have wf3: "table_wf ?g3" using g2(2) c2(1) by (rule give_up_seat_wf)
  have "sound ?g3 (try_start_new_hand n ?g3)" using wf3 by (rule hand_sound(6))
  moreover have "sound ?g3 (continue_after_player_left n w ?g3)" if "remove1 p (g_players g) \<noteq> []" for w
    using wf3 that by (intro continue_after_player_left_sound) (simp_all add: give_up_seat_fields c2)
  moreover have "sound ?g3 (Ret ?g3)" using wf3 by simp
  moreover have "sound ?g3 (Ret ?e)" if "remove1 p (g_players g) = []"
  proof -
    have "?e = ?g3\<lparr>g_dealer := g_dealer g2, g_current := g_current g2\<rparr>"
      using erase_last_seat that c2 by metis
    moreover have "g_players ?g3 = []" using that by (simp add: give_up_seat_fields c2)
    ultimately show ?thesis
      using wf3 by (simp add: same_seats_def table_wf_def seated_def cards_ok_def cards_in_play_def seats_ok_def)
  qed
  ultimately have "sound ?g3 (remove_player n c g)" unfolding eq Let_def by presburger
  then show ?thesis
    using Some c2 by (auto simp: sound_def same_seats_def give_up_seat_fields split: result.splits)
qed (simp add: remove_player_def get_player_def)

end
