(* ===== verification/SampleTable.thy ===== *)
theory SampleTable
  imports GameInvariant
begin

text \<open>
  A concrete table in the middle of a hand, at which the lemmas on the game are applied: two players
  before the flop, the blinds posted, player 0 on the button and in turn. The deck holds only the
  cards that the hand can still need.
\<close>

definition sample_deck :: "card list" where
  "sample_deck =
     [\<lparr>c_suit = Clubs, c_rank = Two\<rparr>, \<lparr>c_suit = Hearts, c_rank = Seven\<rparr>,
      \<lparr>c_suit = Spades, c_rank = Nine\<rparr>, \<lparr>c_suit = Clubs, c_rank = Jack\<rparr>,
      \<lparr>c_suit = Diamonds, c_rank = Four\<rparr>]"

definition sample_hand :: "pid \<Rightarrow> card list" where
  "sample_hand p =
     (if p = 0 then [\<lparr>c_suit = Hearts, c_rank = Ace\<rparr>, \<lparr>c_suit = Spades, c_rank = Ace\<rparr>]
      else [\<lparr>c_suit = Hearts, c_rank = King\<rparr>, \<lparr>c_suit = Spades, c_rank = King\<rparr>])"

definition sample_name :: "pid \<Rightarrow> string" where
  "sample_name p = (if p = 0 then ''ann'' else ''bob'')"

definition sample_table :: game where
  "sample_table =
     \<lparr>g_repo = None, g_bankrolls = [''ann'' \<mapsto> 990, ''bob'' \<mapsto> 980], g_players = [0, 1],
      g_connection_map = [0 \<mapsto> 0, 1 \<mapsto> 1],
      g_hands = [0 \<mapsto> sample_hand 0, 1 \<mapsto> sample_hand 1], g_folded = {}, g_all_in = {},
      g_acted = {}, g_deck = \<lparr>m_cards = sample_deck\<rparr>, g_community = [], g_phase = PreFlop,
      g_dealer = 0, g_current = 0, g_pot = 30, g_current_bet = 20, g_last_raise = 20,
      g_chips = [0 \<mapsto> 990, 1 \<mapsto> 980], g_round_bets = [0 \<mapsto> 10, 1 \<mapsto> 20],
      g_contributed = [0 \<mapsto> 10, 1 \<mapsto> 20], g_name = sample_name, g_shuffles = (\<lambda>_. []),
      g_shuffle_count = 1, g_outbox = []\<rparr>"

lemma distinct_subset_new_deck: "distinct cs \<Longrightarrow> mset cs \<subseteq># mset (m_cards new_deck)"
proof -
  assume "distinct cs"
  then have "mset_set (set cs) \<subseteq># mset_set (set (m_cards new_deck))"
    by (intro subset_imp_msubset_mset_set finite_set) (simp only: set_new_deck subset_UNIV)
  then show ?thesis using \<open>distinct cs\<close> distinct_new_deck mset_set_set by metis
qed

lemma sample_wf: "table_wf sample_table"
proof -
  have "cards_in_play sample_table = mset (sample_deck @ sample_hand 0 @ sample_hand 1)"
    by (simp add: cards_in_play_def sample_table_def getd_def)
  moreover have "distinct (sample_deck @ sample_hand 0 @ sample_hand 1)"
    by (simp add: sample_deck_def sample_hand_def)
  ultimately have "cards_in_play sample_table \<subseteq># mset (m_cards new_deck)"
    using distinct_subset_new_deck by presburger
  then have "cards_ok sample_table"
    by (simp add: cards_ok_def) (simp add: sample_table_def sample_deck_def)
  moreover have "seats_ok sample_table"
    by (simp add: seats_ok_def sample_table_def sample_hand_def)
  moreover have "seated sample_table"
    by (auto simp: seated_def sample_table_def max_seats_def ran_def inj_on_def split: if_splits)
  ultimately show ?thesis by (simp add: table_wf_def) (simp add: sample_table_def)
qed

lemma sample_players: "g_players sample_table = [0, 1]"
  by (simp add: sample_table_def)

end
