(* ===== verification/GameSessions.thy ===== *)
theory GameSessions
  imports SampleTable
begin

text \<open>
  The states of a table between the calls of the room: after \<open>start\<close>, any sequence of \<open>apply_action\<close>
  and \<open>remove_player\<close>, from any connection and with any arguments. The locale \<open>table_invariant\<close> is
  the interface of an invariant of the game: it says what the steps of which the member functions are
  made have to keep, and concludes that every member function, and so every session, keeps it.
\<close>

section \<open>Sessions\<close>

inductive session :: "game \<Rightarrow> game \<Rightarrow> bool" for g0 :: game where
  session_start: "start n g0 = Ret g \<Longrightarrow> session g0 g"
| session_action: "session g0 g \<Longrightarrow> apply_action n c a amt g = Ret g' \<Longrightarrow> session g0 g'"
| session_leave: "session g0 g \<Longrightarrow> remove_player n c g = Ret g' \<Longrightarrow> session g0 g'"

inductive_cases session_cases: "session g0 g"

text \<open>The seats with which a room starts a game.\<close>

definition valid_seating :: "pid list \<Rightarrow> (cid \<rightharpoonup> pid) \<Rightarrow> bool" where
  "valid_seating players connection_map \<longleftrightarrow>
     distinct players \<and> 2 \<le> length players \<and> length players \<le> max_seats
     \<and> ran connection_map \<subseteq> set players \<and> inj_on connection_map (dom connection_map)"

lemma seated_new_game:
  "valid_seating ps cm \<Longrightarrow> seated (new_game ps cm repo bank name draws)"
  "valid_seating ps cm \<Longrightarrow> g_players (new_game ps cm repo bank name draws) \<noteq> []"
  by (auto simp: valid_seating_def seated_def new_game_def)

lemma wf_no_seats: "table_wf g \<Longrightarrow> g_players g = [] \<Longrightarrow> g_connection_map g c = None"
  by (auto simp: table_wf_def seated_def ran_def) (metis not_Some_eq)

lemma apply_action_result:
  assumes "table_wf g"
  shows "(\<forall>g'. apply_action n c a amt g = Ret g' \<longrightarrow> table_wf g' \<and> same_seats g g')
    \<and> (\<forall>e. apply_action n c a amt g \<noteq> Exn e)"
proof (cases "g_players g = []")
  case True
  then show ?thesis using wf_no_seats [OF assms True, of c] assms by (simp add: apply_action_unfold)
next
  case False
  show ?thesis using apply_action_sound [OF assms False, of n c a amt] by (auto simp: sound_def)
qed

lemma remove_player_result:
  assumes "table_wf g"
  shows "(\<forall>g'. remove_player n c g = Ret g' \<longrightarrow> table_wf g')
    \<and> (\<forall>e. remove_player n c g \<noteq> Exn e)"
  using remove_player_sound [OF assms, where c = c and n = n] assms
  by (auto split: option.splits result.splits)

lemma session_wf:
  assumes "session g0 g" "seated g0" "g_players g0 \<noteq> []"
  shows "table_wf g"
  using assms
proof (induction rule: session.induct)
  case (session_start n g)
  then show ?case using hand_sound(1) [of g0 n] by simp
qed (use apply_action_result remove_player_result in blast)+

section \<open>Invariants of a table\<close>

locale table_invariant =
  fixes I :: "game \<Rightarrow> bool"
  assumes ask: "table_wf g \<Longrightarrow> I g \<Longrightarrow> I (send_message (g_players g ! g_current g)
      (SYourTurn (your_turn_message g (g_players g ! g_current g))) g)"
    and error: "table_wf g \<Longrightarrow> I g \<Longrightarrow> I (send_error p code g)"
    and broadcast: "table_wf g \<Longrightarrow> I g \<Longrightarrow> I (send_all (\<lambda>p. SGameStateUpdate (state_update g p)) g)"
    and advance: "table_wf g \<Longrightarrow> I g \<Longrightarrow> I (advance_to_next_player g)"
    and reset: "table_wf g \<Longrightarrow> I g \<Longrightarrow> I (reset_bets g)"
    and next_street: "table_wf g \<Longrightarrow> I g \<Longrightarrow> street (g_phase g) = Some (k, ph) \<Longrightarrow>
      deal k (g_deck g) = Ret (cs, d) \<Longrightarrow>
      I (with_board cs d ph g)"
    and showdown: "table_wf g \<Longrightarrow> I g \<Longrightarrow> g_phase g = River \<Longrightarrow> I (g\<lparr>g_phase := Showdown\<rparr>)"
    and award: "table_wf g \<Longrightarrow> I g \<Longrightarrow> award_all_pots g = Ret g' \<Longrightarrow> I g'"
    and new_hand: "table_wf g \<Longrightarrow> I g \<Longrightarrow> g_players g \<noteq> [] \<Longrightarrow> dealt (advance_dealer g) h \<Longrightarrow>
      I (open_betting h)"
    and play: "table_wf g \<Longrightarrow> I g \<Longrightarrow> g_players g \<noteq> [] \<Longrightarrow>
      play_action (g_players g ! g_current g) a amt g = Inr g' \<Longrightarrow>
      I (note_action (g_players g ! g_current g) a amt g')"
    and fold_leaver: "table_wf g \<Longrightarrow> I g \<Longrightarrow> I (fold_leaver p g)"
    and leave: "table_wf g \<Longrightarrow> I g \<Longrightarrow> g_connection_map g c = Some p \<Longrightarrow> I (give_up_seat p c i g)"
    and no_seats: "table_wf g \<Longrightarrow> I g \<Longrightarrow> g_players g = [] \<Longrightarrow> I (g\<lparr>g_dealer := i, g_current := j\<rparr>)"

lemmas table_laws = table_invariant.ask table_invariant.error table_invariant.broadcast table_invariant.advance
  table_invariant.reset table_invariant.next_street table_invariant.showdown table_invariant.award
  table_invariant.new_hand table_invariant.play table_invariant.fold_leaver table_invariant.leave
  table_invariant.no_seats

lemma table_invariant_conj:
  assumes "table_invariant I" "table_invariant J"
  shows "table_invariant (\<lambda>g. I g \<and> J g)"
  by (unfold_locales; blast intro: table_laws [OF assms(1)] table_laws [OF assms(2)])

context table_invariant
begin

lemma street_keeps:
  assumes wf: "table_wf g" "I g" "g_players g \<noteq> []" and st: "street (g_phase g) = Some (k, ph)"
    and eq: "deal_street k ph g = Ret g'"
  shows "I g'"
proof -
  obtain cs d where d: "deal k (g_deck g) = Ret (cs, d)" "table_wf (with_board cs d ph g)" and
    eq': "deal_street k ph g = Ret (send_all (\<lambda>p. SGameStateUpdate (state_update (with_board cs d ph g) p))
        (with_board cs d ph g))"
    using deal_street_eq [OF wf(1,3) st] by metis
  show ?thesis
    using eq eq' broadcast [OF d(2)] next_street [OF wf(1,2) st d(1)] by simp
qed

lemma hand_keeps:
  shows "seated g \<Longrightarrow> g_players g \<noteq> [] \<Longrightarrow> (\<And>h. dealt g h \<Longrightarrow> I (open_betting h)) \<Longrightarrow> keeps I (start n g)"
    and "table_wf g \<Longrightarrow> I g \<Longrightarrow> g_players g \<noteq> [] \<Longrightarrow> keeps I (ask_current_player n g)"
    and "table_wf g \<Longrightarrow> I g \<Longrightarrow> g_players g \<noteq> [] \<Longrightarrow> keeps I (next_phase n g)"
    and "table_wf g \<Longrightarrow> I g \<Longrightarrow> g_players g \<noteq> [] \<Longrightarrow> g_phase g = River \<Longrightarrow> keeps I (do_showdown n g)"
    and "table_wf g \<Longrightarrow> I g \<Longrightarrow> g_players g \<noteq> [] \<Longrightarrow> keeps I (handle_single_winner n g)"
    and "table_wf g \<Longrightarrow> I g \<Longrightarrow> keeps I (try_start_new_hand n g)"
    and "table_wf g \<Longrightarrow> I g \<Longrightarrow> g_players g \<noteq> [] \<Longrightarrow> keeps I (start_new_hand n g)"
proof (induction n arbitrary: g)
  case (Suc n)
  {
    case 1
    obtain d where d: "dealt g d" "start (Suc n) g = ask_current_player n (sent_states (open_betting d))"
      "table_wf (open_betting d)" "same_seats g (open_betting d)"
      using start_call [OF 1(1,2)] by metis
    then show ?case
      using Suc(2) [OF sent_states_wf(1) [OF d(3)] broadcast [OF d(3) 1(3) [OF d(1)]]] same_players [OF d(4)] 1(2)
      by (simp add: send_all_eq)
  next
    case 2
    note adv = advance_wf(1) [OF 2(1,3)] advance [OF 2(1,2)]
    have "g_players (advance_to_next_player g) \<noteq> []" using same_players [OF advance_wf(2) [OF 2(1,3)]] 2(3) by simp
    from Suc(2,3) [OF adv this] show ?case
      by (cases rule: ask_call [OF 2(1,3), of n]) (simp_all add: ask 2)
  next
    case 3
    note rb = reset_bets_wf(1) [OF 3(1)] reset [OF 3(1,2)]
    have ne: "g_players (reset_bets g) \<noteq> []" and ph: "g_phase (reset_bets g) = g_phase g"
      using 3(3) by (simp_all add: reset_bets_def)
    from 3(1,3) show ?case
    proof (cases rule: next_phase_call [where n = n])
      case (street k phase g')
      then have "I g'" using street_keeps [OF rb ne _ street(2)] ph by simp
      then show ?thesis using Suc(2) [OF street(3)] same_players [OF street(4)] street(6) 3(3) by simp
    qed (use Suc(4,5) 3 rb ne ph in simp_all)
  next
    case 4
    let ?g = "sent_states (g\<lparr>g_phase := Showdown\<rparr>)"
    have wf: "table_wf ?g" using sent_states_wf(1) [OF showdown_wf(1) [OF 4(1,4)]] .
    have I: "I ?g" using broadcast [OF showdown_wf(1) [OF 4(1,4)] showdown [OF 4(1,2,4)]] .
    have ne: "g_players ?g \<noteq> []" using 4(3) by (simp add: send_all_eq)
    from 4(1,4) show ?case
    proof (cases rule: showdown_call [where n = n])
      case (paid g')
      then show ?thesis using Suc(6) [OF wf_money_step [OF wf paid(2)] award [OF wf I paid(1)]] by simp
    qed (use Suc(5,6) [OF wf I] ne in simp_all)
  next
    case 5
    obtain g' where g': "award_all_pots g = Ret g'" "money_step g g'" "handle_single_winner (Suc n) g = try_start_new_hand n g'"
      using single_call [OF 5(1)] by metis
    then show ?case using Suc(6) [OF wf_money_step [OF 5(1) g'(2)] award [OF 5(1,2) g'(1)]] by simp
  next
    case 6
    then show ?case using Suc(7) [of g] by (cases rule: try_call [of n g]) simp_all
  next
    case 7
    have "seated g" using 7(1) by (simp add: table_wf_def)
    then show ?case using Suc(1) [OF new_hand_seated(1,2) [OF _ 7(3)]] new_hand [OF 7] by simp
  }
qed simp_all

lemma apply_action_keeps:
  assumes wf: "table_wf g" "I g"
  shows "keeps I (apply_action n c a amt g)"
proof (cases "g_connection_map g c")
  case None
  then show ?thesis using wf by (simp add: apply_action_unfold)
next
  case (Some p)
  then have ne: "g_players g \<noteq> []" using wf_no_seats [OF wf(1)] by auto
  show ?thesis
  proof (cases "g_players g ! g_current g = p \<and> (\<exists>g1. play_action p a amt g = Inr g1)")
    case True
    then obtain g1 where g1: "play_action p a amt g = Inr g1" by blast
    let ?g2 = "note_action p a amt g1"
    let ?g3 = "advance_to_next_player ?g2"
    have wf2: "table_wf ?g2" using play_action_frame(5) [OF g1 wf(1)] money_step_note by (rule wf_money_step)
    have I2: "I ?g2" using play [OF wf ne, of a amt g1] True g1 by simp
    have ne2: "g_players ?g2 \<noteq> []"
      using play_action_frame(1) [OF g1] money_step_same [OF money_step_note] ne by (simp add: same_seats_def)
    note adv = advance_wf [OF wf2 ne2] advance [OF wf2 I2]
    have ne3: "g_players ?g3 \<noteq> []" using adv(2) ne2 by (simp add: same_seats_def)
    have eq: "apply_action n c a amt g = (if count_active_players ?g2 = 1 then handle_single_winner n ?g2
        else if round_complete ?g3 then next_phase n ?g3 else ask_current_player n ?g3)"
      unfolding apply_action_unfold using Some True g1 is_round_complete_wf [OF adv(1)]
      by (simp add: Let_def)
    show ?thesis unfolding eq
      using hand_keeps(2,3) [OF adv(1,3) ne3] hand_keeps(5) [OF wf2 I2 ne2] by presburger
  next
    case False
    then show ?thesis
      unfolding apply_action_unfold using Some error [OF wf]
      by (cases "play_action p a amt g") auto
  qed
qed

lemma remove_player_keeps:
  assumes wf: "table_wf g" "I g"
  shows "keeps I (remove_player n c g)"
proof (cases "g_connection_map g c")
  case (Some p)
  from remove_player_eq [OF wf(1) Some]
  obtain i g2 where award2: "(if count_active_players (fold_leaver p g) = 1
        then award_all_pots (fold_leaver p g) else Ret (fold_leaver p g)) = Ret g2" and
    g2: "money_step (fold_leaver p g) g2" "table_wf g2" and
    eq: "\<And>n. remove_player n c g =
      (let g3 = give_up_seat p c i g2 in
       if remove1 p (g_players g) = []
       then Ret ((erase_player_state p c g2)\<lparr>g_players := []\<rparr>)
       else if \<not> has_enough_players g3 then Ret g3
       else if count_active_players g3 = 1 then try_start_new_hand n g3
       else continue_after_player_left n (g_players g ! g_current g = p) g3)" by metis
  let ?g3 = "give_up_seat p c i g2"
  have c2: "g_connection_map g2 c = Some p" "g_players g2 = g_players g"
    using g2(1) Some by (simp_all add: money_step_def fold_leaver_def)
  have wf1: "table_wf (fold_leaver p g)" using wf by (simp add: fold_leaver_def)
  have I2: "I g2" using award2 fold_leaver [OF wf] award [OF wf1] by (auto split: if_splits)
  have wf3: "table_wf ?g3" using g2(2) c2(1) by (rule give_up_seat_wf)
  have I3: "I ?g3" using g2(2) I2 c2(1) by (rule leave)
  have "keeps I (continue_after_player_left n w ?g3)" if "remove1 p (g_players g) \<noteq> []" for w
  proof -
    have "g_players ?g3 \<noteq> []" using that by (simp add: give_up_seat_fields c2)
    then show ?thesis
      using hand_keeps(2,3) [OF wf3 I3] broadcast [OF wf3 I3]
      by (simp add: continue_after_player_left_def is_round_complete_wf [OF wf3] broadcast_state_wf [OF wf3])
  qed
  moreover have "I ((erase_player_state p c g2)\<lparr>g_players := []\<rparr>)" if "remove1 p (g_players g) = []"
  proof -
    have "g_players ?g3 = []" using that by (simp add: give_up_seat_fields c2)
    moreover have "(erase_player_state p c g2)\<lparr>g_players := []\<rparr>
        = ?g3\<lparr>g_dealer := g_dealer g2, g_current := g_current g2\<rparr>"
      by (rule erase_last_seat) (use that c2 in simp)
    ultimately show ?thesis using no_seats [OF wf3 I3] by simp
  qed
  moreover have "keeps I (try_start_new_hand n ?g3)" using wf3 I3 by (rule hand_keeps(6))
  ultimately show ?thesis unfolding eq Let_def using I3 by auto
qed (use wf in \<open>simp add: remove_player_def get_player_def\<close>)

lemma session_keeps:
  assumes "session g0 g" "seated g0" "g_players g0 \<noteq> []" "\<And>h. dealt g0 h \<Longrightarrow> I (open_betting h)"
  shows "I g"
proof -
  from assms(1) have "table_wf g \<and> I g"
  proof (induction rule: session.induct)
    case (session_start n g)
    then show ?case
      using hand_sound(1) [OF assms(2,3), of n] hand_keeps(1) [OF assms(2-4), of n]
      by simp
  next
    case (session_action g n c a amt g')
    then show ?case
      using apply_action_result [of g n c a amt] apply_action_keeps [of g n c a amt] by simp
  next
    case (session_leave g n c g')
    then show ?case
      using remove_player_result [of g n c] remove_player_keeps [of g n c] by simp
  qed
  then show ?thesis by simp
qed

end

end
