(* ===== verification/GameTurns.thy ===== *)
theory GameTurns
  imports SampleTable
begin

text \<open>
  Whose turn it is, and that a hand goes on. The two searches around the table find the first seat
  that can act. A call that continues a hand needs a bounded amount of fuel before it waits for a
  player or the hand is over, and a new hand asks a player for an action as soon as one seat has
  more chips than the big blind; these are the facts behind the fuel argument of the model.
\<close>

section \<open>The searches around the table\<close>

definition seat_at :: "game \<Rightarrow> nat \<Rightarrow> pid" where
  "seat_at g i = g_players g ! (i mod length (g_players g))"

definition acts :: "game \<Rightarrow> nat \<Rightarrow> bool" where
  "acts g i = can_player_act g (seat_at g i)"

lemma next_active_loop_spec:
  assumes "g_current g < length (g_players g)" "1 \<le> d" "d \<le> length (g_players g)"
    and "length (g_players g) - d \<le> k"
  shows "\<exists>e. d \<le> e \<and> e \<le> length (g_players g)
    \<and> next_active_loop k g ((g_current g + d) mod length (g_players g))
        = (g_current g + e) mod length (g_players g)
    \<and> (\<forall>j. d \<le> j \<and> j < e \<longrightarrow> \<not> acts g (g_current g + j))
    \<and> (acts g (g_current g + e) \<or> e = length (g_players g))"
  using assms
proof (induction k arbitrary: d)
  case 0
  then show ?case by (intro exI [of _ d]) auto
next
  case (Suc k)
  let ?n = "length (g_players g)" and ?i = "(g_current g + d) mod length (g_players g)"
  have at: "can_player_act g (g_players g ! ?i) = acts g (g_current g + d)"
    by (simp add: acts_def seat_at_def)
  show ?case
  proof (cases "acts g (g_current g + d) \<or> d = ?n")
    case True
    have "?i = g_current g" if "d = ?n" using that Suc.prems(1) by simp
    then show ?thesis using True at Suc.prems by (intro exI [of _ d]) auto
  next
    case False
    then have d: "d < ?n" and k: "?n - Suc d \<le> k" using Suc.prems by simp_all
    have ne: "?i \<noteq> g_current g"
    proof
      assume "?i = g_current g"
      then have "(g_current g + d) mod ?n = g_current g mod ?n" using Suc.prems(1) by simp
      then have "?n dvd d" by (metis add_diff_cancel_left' le_add1 mod_eq_dvd_iff_nat)
      then show False using d Suc.prems(2) by (auto dest: dvd_imp_le)
    qed
    have "(?i + 1) mod ?n = (g_current g + Suc d) mod ?n" by (simp add: mod_Suc_eq)
    then have "next_active_loop (Suc k) g ?i = next_active_loop k g ((g_current g + Suc d) mod ?n)"
      using False at ne by simp
    moreover obtain e where "Suc d \<le> e" "e \<le> ?n"
        "next_active_loop k g ((g_current g + Suc d) mod ?n) = (g_current g + e) mod ?n"
        "\<forall>j. Suc d \<le> j \<and> j < e \<longrightarrow> \<not> acts g (g_current g + j)"
        "acts g (g_current g + e) \<or> e = ?n"
      using Suc.IH [OF Suc.prems(1) _ _ k] d by (metis Suc_leI le_add1 plus_1_eq_Suc)
    moreover have "\<forall>j. d \<le> j \<and> j < e \<longrightarrow> \<not> acts g (g_current g + j)"
      using False calculation(5) by (metis Suc_leI le_neq_implies_less)
    ultimately show ?thesis using Suc_leD by (intro exI [of _ e]) auto
  qed
qed

lemma find_next_spec:
  assumes "g_current g < length (g_players g)"
  shows "\<exists>e. 1 \<le> e \<and> e \<le> length (g_players g)
    \<and> find_next_active_player g = (g_current g + e) mod length (g_players g)
    \<and> (\<forall>j. 1 \<le> j \<and> j < e \<longrightarrow> \<not> acts g (g_current g + j))
    \<and> (acts g (g_current g + e) \<or> e = length (g_players g))"
proof -
  have "g_players g \<noteq> []" using assms by auto
  then show ?thesis
    using next_active_loop_spec [of g 1 "length (g_players g)"] assms
    by (auto simp: find_next_active_player_def Suc_le_eq)
qed

lemma seat_at_ex:
  assumes "p \<in> set (g_players g)"
  obtains d where "1 \<le> d" "d \<le> length (g_players g)" "seat_at g (i + d) = p"
proof -
  let ?n = "length (g_players g)"
  obtain k where k: "k < ?n" "g_players g ! k = p" using assms by (auto simp: in_set_conv_nth)
  let ?r = "(k + ?n - i mod ?n) mod ?n"
  have im: "i mod ?n < ?n" using k by (intro mod_less_divisor) linarith
  have "(i + ?r) mod ?n = (i mod ?n + (k + ?n - i mod ?n)) mod ?n" by (simp add: mod_simps)
  also have "\<dots> = k" using im k by simp
  finally have r: "seat_at g (i + ?r) = p" using k by (simp add: seat_at_def)
  have rn: "?r < ?n" using k by (intro mod_less_divisor) linarith
  show thesis
  proof (cases "?r = 0")
    case True
    then have "seat_at g (i + ?n) = p" using r by (simp add: seat_at_def)
    then show thesis using that [of ?n] k by simp
  next
    case False
    then show thesis using that [of ?r] r rn by simp
  qed
qed

lemma find_next_can_act:
  assumes "g_current g < length (g_players g)" "p \<in> set (g_players g)" "can_player_act g p"
  shows "can_player_act g (g_players g ! find_next_active_player g)"
proof -
  obtain e where e: "1 \<le> e" "e \<le> length (g_players g)"
      "find_next_active_player g = (g_current g + e) mod length (g_players g)"
      "\<forall>j. 1 \<le> j \<and> j < e \<longrightarrow> \<not> acts g (g_current g + j)"
      "acts g (g_current g + e) \<or> e = length (g_players g)"
    using find_next_spec [OF assms(1)] by blast
  obtain d where d: "1 \<le> d" "d \<le> length (g_players g)" "seat_at g (g_current g + d) = p"
    using seat_at_ex [OF assms(2)] by blast
  have "acts g (g_current g + d)" using d(3) assms(3) by (simp add: acts_def)
  then have "acts g (g_current g + e)"
    using e(2,4,5) d(1,2) by (metis le_neq_implies_less)
  then show ?thesis by (simp add: acts_def seat_at_def e(3))
qed

lemma postflop_loop_spec:
  assumes "g_players g \<noteq> []" "d < length (g_players g)" "length (g_players g) - d \<le> k"
  shows "\<exists>e. d \<le> e \<and> e \<le> length (g_players g)
    \<and> postflop_loop k g (s mod length (g_players g)) ((s + d) mod length (g_players g))
        = (if e = length (g_players g) then g_dealer g else (s + e) mod length (g_players g))
    \<and> (\<forall>j. d \<le> j \<and> j < e \<longrightarrow> \<not> acts g (s + j))
    \<and> (acts g (s + e) \<or> e = length (g_players g))"
  using assms
proof (induction k arbitrary: d)
  case (Suc k)
  let ?n = "length (g_players g)" and ?i = "(s + d) mod length (g_players g)"
  have at: "can_player_act g (g_players g ! ?i) = acts g (s + d)"
    by (simp add: acts_def seat_at_def)
  have next_i: "(?i + 1) mod ?n = (s + Suc d) mod ?n" by (simp add: mod_Suc_eq)
  show ?case
  proof (cases "acts g (s + d)")
    case True
    then show ?thesis using at Suc.prems by (intro exI [of _ d]) auto
  next
    case False
    show ?thesis
    proof (cases "Suc d = ?n")
      case True
      have "(s + Suc d) mod ?n = s mod ?n" unfolding True by simp
      then have "postflop_loop (Suc k) g (s mod ?n) ?i = g_dealer g"
        using False at next_i by (simp add: Let_def)
      moreover have "\<forall>j. d \<le> j \<and> j < ?n \<longrightarrow> \<not> acts g (s + j)"
        using False True by (metis Suc_leI le_antisym not_less_eq_eq)
      ultimately show ?thesis using Suc.prems by (intro exI [of _ ?n]) auto
    next
      case neq: False
      then have d: "Suc d < ?n" and k: "?n - Suc d \<le> k" using Suc.prems(2,3) by simp_all
      have "(s + Suc d) mod ?n \<noteq> s mod ?n"
      proof
        assume "(s + Suc d) mod ?n = s mod ?n"
        then have "?n dvd Suc d" by (metis add_diff_cancel_left' le_add1 mod_eq_dvd_iff_nat)
        then show False using d by (auto dest: dvd_imp_le)
      qed
      then have "postflop_loop (Suc k) g (s mod ?n) ?i = postflop_loop k g (s mod ?n) ((s + Suc d) mod ?n)"
        using False at next_i by (simp add: Let_def)
      moreover obtain e where "Suc d \<le> e" "e \<le> ?n"
          "postflop_loop k g (s mod ?n) ((s + Suc d) mod ?n)
            = (if e = ?n then g_dealer g else (s + e) mod ?n)"
          "\<forall>j. Suc d \<le> j \<and> j < e \<longrightarrow> \<not> acts g (s + j)" "acts g (s + e) \<or> e = ?n"
        using Suc.IH [OF Suc.prems(1) d k] by blast
      moreover have "\<forall>j. d \<le> j \<and> j < e \<longrightarrow> \<not> acts g (s + j)"
        using False calculation(5) by (metis Suc_leI le_neq_implies_less)
      ultimately show ?thesis using Suc_leD by (intro exI [of _ e]) auto
    qed
  qed
qed simp

text \<open>
  C12. Turn order: after the current seat it is the turn of the first seat clockwise that has
  neither folded nor gone all in, or of the current seat again when there is no other; after the
  flop the search starts left of the dealer, and names the dealer when nobody can act. Seats are
  counted around the table (\<open>seat_at\<close>).
\<close>

theorem turn_order:
  assumes "g_current g < length (g_players g)"
  shows "(\<exists>e. 1 \<le> e \<and> e \<le> length (g_players g)
      \<and> find_next_active_player g = (g_current g + e) mod length (g_players g)
      \<and> (\<forall>j. 1 \<le> j \<and> j < e \<longrightarrow> \<not> acts g (g_current g + j))
      \<and> (acts g (g_current g + e) \<or> e = length (g_players g)))
    \<and> (\<exists>e. e \<le> length (g_players g)
      \<and> first_to_act_postflop g
          = (if e = length (g_players g) then g_dealer g else (g_dealer g + 1 + e) mod length (g_players g))
      \<and> (\<forall>j < e. \<not> acts g (g_dealer g + 1 + j))
      \<and> (acts g (g_dealer g + 1 + e) \<or> e = length (g_players g)))"
proof (rule conjI)
  have ne: "g_players g \<noteq> []" using assms by auto
  then have "0 < length (g_players g)" by simp
  from postflop_loop_spec [OF ne this, of "length (g_players g)" "g_dealer g + 1"]
  show "\<exists>e. e \<le> length (g_players g)
      \<and> first_to_act_postflop g
          = (if e = length (g_players g) then g_dealer g else (g_dealer g + 1 + e) mod length (g_players g))
      \<and> (\<forall>j < e. \<not> acts g (g_dealer g + 1 + j))
      \<and> (acts g (g_dealer g + 1 + e) \<or> e = length (g_players g))"
    by (auto simp: first_to_act_postflop_def Let_def)
qed (rule find_next_spec [OF assms])

theorem turn_order_witness:
  "find_next_active_player sample_table = 1 \<and> first_to_act_postflop sample_table = 1
    \<and> (\<exists>e. 1 \<le> e \<and> e \<le> 2 \<and> 1 = (0 + e) mod (2 :: nat))"
proof -
  have "g_current sample_table < length (g_players sample_table)" by (simp add: sample_table_def)
  from turn_order [OF this]
  have ex: "\<exists>e. 1 \<le> e \<and> e \<le> length (g_players sample_table)
      \<and> find_next_active_player sample_table = (g_current sample_table + e) mod length (g_players sample_table)"
    by blast
  have next_seat: "find_next_active_player sample_table = 1" "first_to_act_postflop sample_table = 1"
    by (simp_all add: find_next_active_player_def first_to_act_postflop_def sample_table_def
        can_player_act_def numeral_2_eq_2 Let_def)
  moreover have "length (g_players sample_table) = 2" "g_current sample_table = 0"
    by (simp_all add: sample_table_def)
  ultimately show ?thesis using ex by simp
qed

section \<open>Asking for an action\<close>

text \<open>The call ended by asking the player in the current seat, who can act.\<close>

definition waits :: "game \<Rightarrow> bool" where
  "waits g \<longleftrightarrow> (\<exists>h q. g = send_message q (SYourTurn (your_turn_message h q)) h
     \<and> q = g_players h ! g_current h \<and> can_player_act h q)"

lemma ask_waits:
  "can_player_act g (g_players g ! g_current g) \<Longrightarrow> \<exists>g'. ask_current_player (Suc n) g = Ret g' \<and> waits g'"
  by (auto simp: waits_def Let_def)

lemma not_complete_acts:
  "\<not> round_complete g \<Longrightarrow> \<exists>p \<in> set (g_players g). can_player_act g p"
  by (auto simp: round_complete_def can_player_act_def)

lemma advance_fields [simp]:
  "g_players (advance_to_next_player g) = g_players g"
  "can_player_act (advance_to_next_player g) p = can_player_act g p"
  "g_current (advance_to_next_player g) = find_next_active_player g"
  "g_phase (advance_to_next_player g) = g_phase g"
  "count_active_players (advance_to_next_player g) = count_active_players g"
  by (simp_all add: advance_to_next_player_def can_player_act_def count_active_players_def)

lemma advanced_waits:
  assumes "table_wf g" "g_players g \<noteq> []" "\<not> round_complete (advance_to_next_player g)"
  shows "\<exists>g'. ask_current_player (Suc n) (advance_to_next_player g) = Ret g' \<and> waits g'"
proof (rule ask_waits)
  obtain p where "p \<in> set (g_players g)" "can_player_act g p"
    using not_complete_acts [OF assms(3)] by auto
  moreover have "g_current g < length (g_players g)" using assms by (simp add: table_wf_def)
  ultimately show "can_player_act (advance_to_next_player g)
      (g_players (advance_to_next_player g) ! g_current (advance_to_next_player g))"
    using find_next_can_act by simp
qed

lemma ask_step:
  assumes wf: "table_wf g" and ne: "g_players g \<noteq> []"
  shows "(\<exists>g'. ask_current_player (Suc (Suc n)) g = Ret g' \<and> waits g')
    \<or> ask_current_player (Suc (Suc n)) g = next_phase (Suc n) (advance_to_next_player g)"
proof (cases "can_player_act g (g_players g ! g_current g)")
  case True
  then show ?thesis using ask_waits by blast
next
  case False
  then have "ask_current_player (Suc (Suc n)) g = (if round_complete (advance_to_next_player g)
      then next_phase (Suc n) (advance_to_next_player g)
      else ask_current_player (Suc n) (advance_to_next_player g))"
    using is_round_complete_wf [OF advance_wf(1) [OF wf ne]]
    by (simp only: ask_current_player.simps Let_def if_True simp_thms bind_r.simps)
  then show ?thesis using advanced_waits [OF wf ne] by auto
qed

section \<open>A hand ends in a bounded number of calls\<close>

text \<open>
  \<open>goes_on n r\<close>: the call has asked a player, or has stopped for good, or is about to decide on a
  new hand with at least \<open>n\<close> fuel left.
\<close>

definition goes_on :: "nat \<Rightarrow> game result \<Rightarrow> bool" where
  "goes_on n r \<longleftrightarrow> (\<exists>g. r = Ret g) \<or> (\<exists>m g. m \<ge> n \<and> r = try_start_new_hand m g)"

lemma goes_on_mono: "goes_on n r \<Longrightarrow> m \<le> n \<Longrightarrow> goes_on m r"
  unfolding goes_on_def using le_trans by blast

lemma goes_on_if: "goes_on n a \<Longrightarrow> goes_on n b \<Longrightarrow> goes_on n (if c then a else b)"
  by simp

lemma goes_on_Ret: "goes_on n (Ret g)"
  unfolding goes_on_def by blast

lemma goes_on_try: "n \<le> m \<Longrightarrow> goes_on n (try_start_new_hand m g)"
  unfolding goes_on_def by blast

lemma single_goes_on:
  assumes "table_wf g"
  shows "goes_on n (handle_single_winner (Suc n) g)"
  by (rule single_call [OF assms, of n]) (simp only: goes_on_try [OF order_refl])

lemma showdown_goes_on:
  assumes "table_wf g" "g_phase g = River"
  shows "goes_on n (do_showdown (Suc (Suc n)) g)"
  using assms
proof (cases rule: showdown_call [where n = "Suc n"])
  case one
  then show ?thesis using single_goes_on [OF sent_states_wf(1) [OF showdown_wf(1) [OF assms]]] by simp
qed (simp_all only: goes_on_try [of n "Suc n"])

text \<open>The calls that are needed until the hand is over: two per street still to come.\<close>

fun calls_left :: "game_phase \<Rightarrow> nat" where
  "calls_left PreFlop = 9"
| "calls_left Flop = 7"
| "calls_left Turn = 5"
| "calls_left River = 3"
| "calls_left Showdown = 2"

lemma next_phase_goes_on:
  "table_wf g \<Longrightarrow> g_players g \<noteq> [] \<Longrightarrow> goes_on n (next_phase (n + calls_left (g_phase g)) g)"
proof (induction "calls_left (g_phase g)" arbitrary: g rule: less_induct)
  case less
  note wf = less.prems(1) and ne = less.prems(2)
  obtain k where k: "n + calls_left (g_phase g) = Suc (Suc (n + k))"
    "calls_left (g_phase g) = Suc (Suc k)"
    by (cases "g_phase g") (simp_all add: numeral_eq_Suc)
  from wf ne have "goes_on n (next_phase (Suc (Suc (n + k))) g)"
  proof (cases rule: next_phase_call [where n = "Suc (n + k)"])
    case single
    then show ?thesis using single_goes_on [OF wf, of "n + k"] goes_on_mono by fastforce
  next
    case over
    then show ?thesis by (simp only: goes_on_Ret)
  next
    case river
    moreover have "k = 1" using k(2) river(1) by simp
    ultimately show ?thesis using showdown_goes_on [OF reset_bets_wf(1) [OF wf], of n] by (simp add: reset_bets_def)
  next
    case (street c phase g')
    have ne': "g_players g' \<noteq> []" using same_players [OF street(4)] ne by simp
    have calls: "calls_left (g_phase g) = calls_left phase + 2" "calls_left phase \<ge> 2"
      using street(1) by (cases "g_phase g"; auto)+
    then obtain j where j: "calls_left phase = Suc j" by (cases "calls_left phase") auto
    have "goes_on n (next_phase (Suc (n + j)) (advance_to_next_player g'))"
      using less.hyps [of "advance_to_next_player g'"] advance_wf(1) [OF street(3) ne'] ne' street(5) calls j by simp
    then have "goes_on n (ask_current_player (Suc (Suc (n + j))) g')"
      using ask_step [OF street(3) ne', of "n + j"] goes_on_Ret by metis
    moreover have "k = Suc j" using k(2) calls(1) j by simp
    ultimately show ?thesis using street(6) by simp
  qed
  then show ?case using k(1) by simp
qed

lemma next_phase_goes_on':
  assumes "table_wf g" "g_players g \<noteq> []" "n + 9 \<le> m"
  shows "goes_on n (next_phase m g)"
proof -
  have le: "calls_left (g_phase g) \<le> 9" by (cases "g_phase g") simp_all
  have m: "m - calls_left (g_phase g) + calls_left (g_phase g) = m" using le assms(3) by linarith
  have "goes_on (m - calls_left (g_phase g)) (next_phase (m - calls_left (g_phase g) + calls_left (g_phase g)) g)"
    using assms(1,2) by (rule next_phase_goes_on)
  then have "goes_on (m - calls_left (g_phase g)) (next_phase m g)" unfolding m .
  then show ?thesis using le assms(3) by (elim goes_on_mono) linarith
qed

lemma ask_goes_on:
  assumes "table_wf g" "g_players g \<noteq> []" "n + 10 \<le> m"
  shows "goes_on n (ask_current_player m g)"
proof -
  define k where "k = m - 2"
  have m: "m = Suc (Suc k)" using assms(3) by (simp add: k_def)
  have "goes_on n (next_phase (Suc k) (advance_to_next_player g))"
    using advance_wf(1) [OF assms(1,2)] assms(2,3) m by (intro next_phase_goes_on') simp_all
  then show ?thesis
    unfolding m using ask_step [OF assms(1,2), of k] goes_on_Ret by metis
qed

lemma single_goes_on':
  assumes "table_wf g" "n + 1 \<le> m"
  shows "goes_on n (handle_single_winner m g)"
proof -
  obtain k where "m = Suc k" "n \<le> k" using assms(2) by (cases m) simp_all
  then show ?thesis using single_goes_on [OF assms(1)] goes_on_mono by blast
qed

lemma apply_action_goes_on:
  assumes wf: "table_wf g" and ne: "g_players g \<noteq> []" and m: "n + 10 \<le> m"
  shows "goes_on n (apply_action m c a amt g)"
proof -
  have "goes_on n (if count_active_players g2 = 1 then handle_single_winner m g2
      else bind_r (is_round_complete (advance_to_next_player g2)) (\<lambda>complete.
        if complete then next_phase m (advance_to_next_player g2)
        else ask_current_player m (advance_to_next_player g2)))"
    if "play_action p a amt g = Inr g1" and g2: "g2 = note_action p a amt g1" for p g1 g2
  proof -
    note fr = play_action_frame [OF that(1)]
    have wf2: "table_wf g2" unfolding g2 using fr(5) [OF wf] money_step_note by (rule wf_money_step)
    have ne2: "g_players g2 \<noteq> []" unfolding g2
      using money_step_same [OF money_step_note] fr(1) ne by (simp add: same_seats_def)
    note adv = advance_wf(1) [OF wf2 ne2]
    show ?thesis
      unfolding is_round_complete_wf [OF adv] bind_r.simps
      by (intro goes_on_if single_goes_on' next_phase_goes_on' ask_goes_on)
        (use wf2 adv ne2 m in simp_all)
  qed
  then show ?thesis
    unfolding apply_action_unfold Let_def
    by (simp add: goes_on_Ret split: option.split sum.split)
qed

lemma remove_player_goes_on:
  assumes wf: "table_wf g" and m: "n + 10 \<le> m"
  shows "goes_on n (remove_player m c g)"
proof (cases "g_connection_map g c")
  case (Some p)
  from remove_player_eq [OF wf Some]
  obtain i g2 where g2: "money_step (fold_leaver p g) g2" "table_wf g2" and
    eq: "\<And>n. remove_player n c g =
      (let g3 = give_up_seat p c i g2 in
       if remove1 p (g_players g) = []
       then Ret ((erase_player_state p c g2)\<lparr>g_players := []\<rparr>)
       else if \<not> has_enough_players g3 then Ret g3
       else if count_active_players g3 = 1 then try_start_new_hand n g3
       else continue_after_player_left n (g_players g ! g_current g = p) g3)" by metis
  let ?g3 = "give_up_seat p c i g2"
  have c2: "g_connection_map g2 c = Some p" "g_players g2 = g_players g"
    using g2(1) Some by (simp_all add: money_step_def fold_leaver_def)
  have wf3: "table_wf ?g3" using g2(2) c2(1) by (rule give_up_seat_wf)
  have "goes_on n (continue_after_player_left m w ?g3)" if "remove1 p (g_players g) \<noteq> []" for w
  proof -
    have ne: "g_players ?g3 \<noteq> []" using that by (simp add: give_up_seat_fields c2)
    show ?thesis
      unfolding continue_after_player_left_def is_round_complete_wf [OF wf3] bind_r.simps
        broadcast_state_wf [OF wf3]
      by (intro goes_on_if next_phase_goes_on' ask_goes_on goes_on_Ret) (use wf3 ne m in simp_all)
  qed
  moreover have "goes_on n (try_start_new_hand m ?g3)" using m by (intro goes_on_try) simp
  ultimately show ?thesis unfolding eq Let_def using goes_on_Ret by presburger
qed (simp add: remove_player_def get_player_def goes_on_Ret)

section \<open>A new hand asks a player\<close>

lemma contribute_fields:
  "chips_of (contribute p amt g) q
    = (if q = p then chips_of g p - min amt (chips_of g p) else chips_of g q)"
  "bet_of (contribute p amt g) q
    = (if q = p then bet_of g p + min amt (chips_of g p) else bet_of g q)"
  "contributed_of (contribute p amt g) q
    = (if q = p then contributed_of g p + min amt (chips_of g p) else contributed_of g q)"
  "g_pot (contribute p amt g) = g_pot g + min amt (chips_of g p)"
  "g_folded (contribute p amt g) = g_folded g" "g_players (contribute p amt g) = g_players g"
  "g_all_in (contribute p amt g) =
    (if chips_of g p \<le> amt then insert p (g_all_in g) else g_all_in g)"
  "g_current_bet (contribute p amt g) = g_current_bet g" "g_dealer (contribute p amt g) = g_dealer g"
proof -
  have "chips_of g p - min amt (chips_of g p) = 0 \<longleftrightarrow> chips_of g p \<le> amt"
    by (auto simp: min_def)
  then show "g_all_in (contribute p amt g) =
    (if chips_of g p \<le> amt then insert p (g_all_in g) else g_all_in g)"
    by (simp add: contribute_def mark_all_in_if_needed_def Let_def)
qed (simp_all add: contribute_def mark_all_in_if_needed_def Let_def)

lemma mod_Suc_neq: "2 \<le> n \<Longrightarrow> (a + 1) mod n \<noteq> a mod n" for a n :: nat
  by (metis Suc_eq_plus1 One_nat_def Suc_1 Suc_n_not_le_n dvd_1_left le_refl mod_Suc n_not_Suc_n
      nat_dvd_1_iff_1 old.nat.distinct(2) zero_neq_one)

lemma blinds_differ:
  assumes "seated g" "2 \<le> length (g_players g)"
  shows "g_players g ! sb_index g \<noteq> g_players g ! bb_index g"
proof -
  have ne: "g_players g \<noteq> []" and d: "distinct (g_players g)" "g_dealer g < length (g_players g)"
    using assms by (auto simp: seated_def)
  have "sb_index g \<noteq> bb_index g"
    using mod_Suc_neq [OF assms(2), of "g_dealer g"] mod_Suc_neq [OF assms(2), of "g_dealer g + 1"] d(2)
    by (auto simp: sb_index_def bb_index_def)
  then show ?thesis
    using index_bounds(1,2) [OF ne] d nth_eq_iff_index_eq by blast
qed

text \<open>The stack with which a seat enters the hand.\<close>

definition stack_at_deal :: "game \<Rightarrow> pid \<Rightarrow> u32" where
  "stack_at_deal g p = (if g_chips g p = None then initial_chips g p else chips_of g p)"

lemma dealt_stack: "dealt g d \<Longrightarrow> p \<in> set (g_players g) \<Longrightarrow> chips_of d p = stack_at_deal g p"
  by (simp add: dealt_fields(9) seated_chips_def stack_at_deal_def getd_def)

lemma persist_all_fields [simp]:
  "can_player_act (persist_all_chips g) p = can_player_act g p"
  "g_folded (persist_all_chips g) = g_folded g" "g_acted (persist_all_chips g) = g_acted g"
  "g_players (persist_all_chips g) = g_players g" "g_all_in (persist_all_chips g) = g_all_in g"
  "g_chips (persist_all_chips g) = g_chips g" "g_pot (persist_all_chips g) = g_pot g"
  "g_contributed (persist_all_chips g) = g_contributed g"
  "g_round_bets (persist_all_chips g) = g_round_bets g"
  "g_current_bet (persist_all_chips g) = g_current_bet g"
  "g_hands (persist_all_chips g) = g_hands g" "g_phase (persist_all_chips g) = g_phase g"
  "g_current (persist_all_chips g) = g_current g" "g_outbox (persist_all_chips g) = g_outbox g"
proof -
  obtain b r where "persist_all_chips g = g\<lparr>g_bankrolls := b, g_repo := r\<rparr>"
    using persist_all_eq by blast
  then show "can_player_act (persist_all_chips g) p = can_player_act g p"
  "g_folded (persist_all_chips g) = g_folded g" "g_acted (persist_all_chips g) = g_acted g"
  "g_players (persist_all_chips g) = g_players g" "g_all_in (persist_all_chips g) = g_all_in g"
  "g_chips (persist_all_chips g) = g_chips g" "g_pot (persist_all_chips g) = g_pot g"
  "g_contributed (persist_all_chips g) = g_contributed g"
  "g_round_bets (persist_all_chips g) = g_round_bets g"
  "g_current_bet (persist_all_chips g) = g_current_bet g"
  "g_hands (persist_all_chips g) = g_hands g" "g_phase (persist_all_chips g) = g_phase g"
  "g_current (persist_all_chips g) = g_current g" "g_outbox (persist_all_chips g) = g_outbox g"
    by (simp_all add: can_player_act_def)
qed

lemma open_betting_acts:
  assumes "dealt g d" "seated g" "2 \<le> length (g_players g)"
    and p: "p \<in> set (g_players g)" "stack_at_deal g p > BIG_BLIND"
  shows "can_player_act (open_betting d) p" "g_folded (open_betting d) = {}"
    "g_acted (open_betting d) = {}"
proof -
  have fd: "g_folded d = {}" "g_all_in d = {}" "g_players d = g_players g"
    using dealt_fields [OF assms(1)] by simp_all
  have big: "chips_of d p > BIG_BLIND" "chips_of d p > SMALL_BLIND"
    using dealt_stack [OF assms(1) p(1)] p(2) by (simp_all add: BIG_BLIND_def SMALL_BLIND_def word_less_nat_alt)
  have idx: "sb_index d = sb_index g" "bb_index d = bb_index g"
    using dealt_fields [OF assms(1)] by (simp_all add: sb_index_def bb_index_def)
  have ne: "g_players d ! sb_index d \<noteq> g_players d ! bb_index d"
    using blinds_differ [OF assms(2,3)] idx fd(3) by simp
  have idx': "bb_index (contribute q a d) = bb_index d" for q a
    by (simp add: bb_index_def contribute_fields)
  have "p \<notin> g_all_in (post_blinds d)"
    using big ne by (auto simp: post_blinds_def contribute_fields Let_def fd idx' split: if_splits)
  moreover have "g_folded (post_blinds d) = {}"
    by (simp add: post_blinds_def contribute_fields Let_def fd)
  ultimately show "can_player_act (open_betting d) p" "g_folded (open_betting d) = {}"
      "g_acted (open_betting d) = {}"
    by (simp_all add: open_betting_def begin_betting_round_def Let_def can_player_act_def)
qed

lemma start_waits:
  assumes wf: "seated g" "2 \<le> length (g_players g)"
    and p: "p \<in> set (g_players g)" "stack_at_deal g p > BIG_BLIND"
  shows "\<exists>g'. start (n + 3) g = Ret g' \<and> waits g'"
proof -
  have "g_players g \<noteq> []" using wf(2) by auto
  from start_hand_wf [OF wf(1) this] obtain d where d: "dealt g d" and st: "start_hand g
      = Ret (send_all (\<lambda>p. SGameStateUpdate (state_update (open_betting d) p)) (open_betting d))"
    and ob: "table_wf (open_betting d)" "same_seats g (open_betting d)" by blast
  let ?g = "send_all (\<lambda>p. SGameStateUpdate (state_update (open_betting d) p)) (open_betting d)"
  note acts = open_betting_acts [OF d wf p]
  have pl: "g_players ?g = g_players g" using ob(2) by (simp add: send_all_eq same_seats_def)
  have wf': "table_wf ?g" using ob(1) money_step_send_all by (rule wf_money_step)
  have "\<not> round_complete (advance_to_next_player ?g)"
  proof -
    have "count_active_players (advance_to_next_player ?g) = length (g_players g)"
      using acts(2) pl by (simp add: count_active_players_def send_all_eq advance_to_next_player_def)
    moreover have "p \<notin> g_folded ?g" "p \<notin> g_all_in ?g" "p \<notin> g_acted ?g"
      using acts by (simp_all add: can_player_act_def send_all_eq)
    ultimately show ?thesis using wf(2) p(1) pl
      by (auto simp: round_complete_def advance_to_next_player_def)
  qed
  then have "\<exists>g'. ask_current_player (Suc n) (advance_to_next_player ?g) = Ret g' \<and> waits g'"
    using advanced_waits [OF wf'] pl \<open>g_players g \<noteq> []\<close> by simp
  moreover have "ask_current_player (Suc (Suc n)) ?g = ask_current_player (Suc n) (advance_to_next_player ?g)"
    if "\<not> can_player_act ?g (g_players ?g ! g_current ?g)"
  proof -
    have "table_wf (advance_to_next_player ?g)" using advance_wf(1) [OF wf'] pl \<open>g_players g \<noteq> []\<close> by simp
    from is_round_complete_wf [OF this] show ?thesis
      using that \<open>\<not> round_complete _\<close>
      by (simp only: ask_current_player.simps Let_def if_True if_False simp_thms bind_r.simps)
  qed
  ultimately have "\<exists>g'. ask_current_player (Suc (Suc n)) ?g = Ret g' \<and> waits g'"
    using ask_waits by metis
  moreover have "start (n + 3) g = ask_current_player (Suc (Suc n)) ?g"
    using st by (simp add: numeral_eq_Suc)
  ultimately show ?thesis by simp
qed

section \<open>Claims\<close>



end
