(* ===== verification/GameChips.thy ===== *)
theory GameChips
  imports GameSessions GameTurns
begin

text \<open>
  The money of a table: what an action does to the stack, the bet and the pot, in numbers without
  wrap-around; that betting keeps the chips on the table; what the award of the pots does to the
  stacks; and that a session never creates chips.
\<close>

section \<open>Chips on the table\<close>

definition table_chips :: "game \<Rightarrow> nat" where
  "table_chips g = nsum (chips_of g) (g_players g) + unat (g_pot g)"

definition in_pot :: "game \<Rightarrow> nat" where
  "in_pot g = nsum (contributed_of g) (g_players g)"

lemma nsum_update:
  assumes "distinct ps" "p \<in> set ps" "\<And>q. q \<noteq> p \<Longrightarrow> f' q = f q"
  shows "nsum f' ps + unat (f p) = nsum f ps + unat (f' p)"
  using assms(1,2)
proof (induction ps)
  case (Cons q ps)
  show ?case
  proof (cases "q = p")
    case True
    then have "nsum f' ps = nsum f ps" 
      by (intro nsum_cong assms(3)) (use Cons.prems(1) True in auto)
    then show ?thesis using True by simp
  next
    case False
    then show ?thesis using Cons assms(3) by simp
  qed
qed simp

lemma contribute_chips:
  assumes "distinct (g_players g)" "p \<in> set (g_players g)" "table_chips g < 2 ^ 32"
    and "in_pot g \<le> unat (g_pot g)"
  shows "table_chips (contribute p a g) = table_chips g"
    "unat (g_pot (contribute p a g)) = unat (g_pot g) + unat (min a (chips_of g p))"
    "in_pot (contribute p a g) = in_pot g + unat (min a (chips_of g p))"
    "unat (chips_of (contribute p a g) p) = unat (chips_of g p) - unat (min a (chips_of g p))"
proof -
  let ?g = "contribute p a g" and ?a = "min a (chips_of g p)"
  have pl: "g_players ?g = g_players g" by (simp add: contribute_fields)
  have le: "?a \<le> chips_of g p" by simp
  have stack: "unat (chips_of g p) \<le> nsum (chips_of g) (g_players g)" using assms(2) by (rule nsum_member)
  have leu: "unat ?a \<le> unat (chips_of g p)" using le word_le_nat_alt by blast
  then have "unat (g_pot g) + unat ?a < 2 ^ 32"
    using stack assms(3) unfolding table_chips_def by linarith
  then show pot: "unat (g_pot ?g) = unat (g_pot g) + unat ?a"
    by (simp add: contribute_fields unat_plus_le)
  show chips: "unat (chips_of ?g p) = unat (chips_of g p) - unat ?a"
    using le by (simp add: contribute_fields unat_minus_le)
  have "nsum (chips_of ?g) (g_players g) + unat (chips_of g p)
      = nsum (chips_of g) (g_players g) + unat (chips_of ?g p)"
    using assms(1,2) by (rule nsum_update) (simp add: contribute_fields)
  then show "table_chips ?g = table_chips g"
    unfolding table_chips_def pl pot chips using leu stack by linarith
  have put_in: "unat (contributed_of g p) \<le> in_pot g" unfolding in_pot_def using assms(2) by (rule nsum_member)
  then have "unat (contributed_of g p) + unat ?a < 2 ^ 32"
    using assms(3,4) leu stack unfolding table_chips_def by linarith
  then have "unat (contributed_of ?g p) = unat (contributed_of g p) + unat ?a"
    by (simp add: contribute_fields unat_plus_le)
  moreover have "nsum (contributed_of ?g) (g_players g) + unat (contributed_of g p)
      = nsum (contributed_of g) (g_players g) + unat (contributed_of ?g p)"
    using assms(1,2) by (rule nsum_update) (simp add: contribute_fields)
  ultimately show "in_pot ?g = in_pot g + unat ?a"
    unfolding in_pot_def pl by linarith
qed

text \<open>The chips of a table that hold at most \<open>T\<close> chips, with the pot covering what was put in.\<close>

definition chips_within :: "nat \<Rightarrow> game \<Rightarrow> bool" where
  "chips_within T g \<longleftrightarrow> table_chips g \<le> T \<and> in_pot g \<le> unat (g_pot g)"

lemma contribute_within:
  assumes "chips_within T g" "T < 2 ^ 32" "distinct (g_players g)" "p \<in> set (g_players g)"
  shows "chips_within T (contribute p a g)"
  using contribute_chips [OF assms(3,4), of a] assms(1,2) by (simp add: chips_within_def)

lemma within_cong:
  "g_players g' = g_players g \<Longrightarrow> g_chips g' = g_chips g \<Longrightarrow> g_contributed g' = g_contributed g \<Longrightarrow>
    g_pot g' = g_pot g \<Longrightarrow> chips_within T g' = chips_within T g"
  by (simp add: chips_within_def table_chips_def in_pot_def)

section \<open>Awarding the pots\<close>

lemma psum_credit:
  assumes "distinct ps" "p \<in> set ps" "nsum (getd 0 ch) ps + unat a < 2 ^ 32"
  shows "nsum (getd 0 (credit a p ch)) ps = nsum (getd 0 ch) ps + unat a"
proof -
  have "unat (getd 0 ch p) \<le> nsum (getd 0 ch) ps" using assms(2) by (rule nsum_member)
  then have "unat (getd 0 (credit a p ch) p) = unat (getd 0 ch p) + unat a"
    using assms(3) by (simp add: credit_def unat_plus_le)
  moreover have "nsum (getd 0 (credit a p ch)) ps + unat (getd 0 ch p)
      = nsum (getd 0 ch) ps + unat (getd 0 (credit a p ch) p)"
    using assms(1,2) by (rule nsum_update) (simp add: credit_def)
  ultimately show ?thesis by linarith
qed

lemma psum_credits:
  "distinct ps \<Longrightarrow> set ws \<subseteq> set ps \<Longrightarrow> nsum (getd 0 ch) ps + length ws * unat a < 2 ^ 32 \<Longrightarrow>
    nsum (getd 0 (fold (credit a) ws ch)) ps = nsum (getd 0 ch) ps + length ws * unat a"
proof (induction ws arbitrary: ch)
  case (Cons w ws)
  have "nsum (getd 0 (credit a w ch)) ps = nsum (getd 0 ch) ps + unat a"
    using Cons.prems by (intro psum_credit) simp_all
  then show ?case using Cons by simp
qed simp

subsection \<open>Who is paid what\<close>

lemma credit_stack:
  assumes "w \<in> set ps" "nsum (getd 0 ch) ps + unat a < 2 ^ 32"
  shows "unat (getd 0 (credit a w ch) p) = unat (getd 0 ch p) + (if p = w then unat a else 0)"
proof -
  have "unat (getd 0 ch w) \<le> nsum (getd 0 ch) ps" using assms(1) by (rule nsum_member)
  then have "unat (getd 0 ch w + a) = unat (getd 0 ch w) + unat a"
    using assms(2) by (simp add: unat_plus_le)
  then show ?thesis by (simp add: credit_def)
qed

lemma credits_stack:
  "distinct ps \<Longrightarrow> distinct ws \<Longrightarrow> set ws \<subseteq> set ps \<Longrightarrow>
    nsum (getd 0 ch) ps + length ws * unat a < 2 ^ 32 \<Longrightarrow>
    unat (getd 0 (fold (credit a) ws ch) p) = unat (getd 0 ch p) + (if p \<in> set ws then unat a else 0)"
proof (induction ws arbitrary: ch)
  case (Cons w ws)
  have "nsum (getd 0 (credit a w ch)) ps = nsum (getd 0 ch) ps + unat a"
    using Cons.prems by (intro psum_credit) simp_all
  moreover have "unat (getd 0 (credit a w ch) p) = unat (getd 0 ch p) + (if p = w then unat a else 0)"
    using Cons.prems by (intro credit_stack [of _ ps]) simp_all
  ultimately show ?case using Cons by auto
qed simp

text \<open>The players who win a pot, and what one of them gets of it.\<close>

definition pot_winners :: "game \<Rightarrow> side_pot \<Rightarrow> pid list" where
  "pot_winners g pot = best_hands g (map ((!) (g_players g)) (eligible_player_indices pot))"

definition pot_share :: "game \<Rightarrow> side_pot \<Rightarrow> pid \<Rightarrow> nat" where
  "pot_share g pot p =
     (let ws = pot_winners g pot in
      (if p \<in> set ws then unat (amount pot) div length ws else 0)
      + (if p = hd ws then unat (amount pot) mod length ws else 0))"

definition pots_in_range :: "game \<Rightarrow> side_pot list \<Rightarrow> bool" where
  "pots_in_range g pots \<longleftrightarrow> (\<forall>pot \<in> set pots. eligible_player_indices pot \<noteq> []
     \<and> distinct (eligible_player_indices pot)
     \<and> (\<forall>i \<in> set (eligible_player_indices pot). i < length (g_players g)))"

lemma pots_of_table_in_range: "pots_in_range g (compute_side_pots (pot_states g))"
  using side_pot_eligible [of _ "pot_states g"] by (auto simp: pots_in_range_def pot_states_def)

lemma pot_winners_wf:
  assumes wf: "table_wf g" and el: "pots_in_range g [pot]"
  shows "pot_winners g pot \<noteq> []" "distinct (pot_winners g pot)" "set (pot_winners g pot) \<subseteq> set (g_players g)"
    "unat (word_of_nat (length (pot_winners g pot)) :: u32) = length (pot_winners g pot)"
proof -
  let ?cs = "map ((!) (g_players g)) (eligible_player_indices pot)"
  have dist: "distinct (g_players g)" using wf by (simp add: table_wf_def seated_def)
  have cs: "set ?cs \<subseteq> set (g_players g)" "?cs \<noteq> []" "distinct ?cs"
    using el dist by (auto simp: pots_in_range_def distinct_map inj_on_def nth_eq_iff_index_eq)
  then show ws: "pot_winners g pot \<noteq> []" "distinct (pot_winners g pot)"
      "set (pot_winners g pot) \<subseteq> set (g_players g)"
    using best_hands_nonempty [OF cs(2)] set_best_hands [of g ?cs]
    by (auto simp: pot_winners_def best_hands_def)
  have "length (pot_winners g pot) \<le> length (g_players g)"
    using ws(2,3) dist by (metis card_mono distinct_card finite_set)
  then show "unat (word_of_nat (length (pot_winners g pot)) :: u32) = length (pot_winners g pot)"
    using wf by (simp add: table_wf_def seated_def max_seats_def unsigned_of_nat take_bit_nat_eq_self)
qed

lemma pay_pot_stacks:
  assumes wf: "table_wf g" and el: "pots_in_range g [pot]"
    and small: "nsum (getd 0 ch) (g_players g) + unat (amount pot) < 2 ^ 32"
  shows "nsum (getd 0 (pay_pot g pot ch)) (g_players g)
      = nsum (getd 0 ch) (g_players g) + unat (amount pot)"
    "unat (getd 0 (pay_pot g pot ch) p) = unat (getd 0 ch p) + pot_share g pot p"
proof -
  let ?ws = "pot_winners g pot" and ?a = "amount pot"
  let ?n = "length ?ws"
  let ?share = "?a div word_of_nat ?n" and ?rest = "?a mod word_of_nat ?n"
  let ?ch = "fold (credit ?share) ?ws ch"
  note ws = pot_winners_wf [OF wf el]
  have dist: "distinct (g_players g)" using wf by (simp add: table_wf_def seated_def)
  have dm: "unat ?share = unat ?a div ?n" "unat ?rest = unat ?a mod ?n"
    by (simp_all add: unat_div unat_mod ws(4))
  have total: "?n * (unat ?a div ?n) + unat ?a mod ?n = unat ?a" by simp
  have hd: "hd ?ws \<in> set (g_players g)" using ws(1,3) hd_in_set by blast
  have small1: "nsum (getd 0 ch) (g_players g) + ?n * unat ?share < 2 ^ 32"
    unfolding dm using total small by linarith
  have sum1: "nsum (getd 0 ?ch) (g_players g) = nsum (getd 0 ch) (g_players g) + ?n * unat ?share"
    using dist ws(3) small1 by (rule psum_credits)
  have small2: "nsum (getd 0 ?ch) (g_players g) + unat ?rest < 2 ^ 32"
    unfolding sum1 unfolding dm using total small by linarith
  have pay: "pay_pot g pot ch = (if ?a = 0 then ch else credit ?rest (hd ?ws) ?ch)"
    by (simp add: pay_pot_def pot_winners_def Let_def)
  show "nsum (getd 0 (pay_pot g pot ch)) (g_players g) = nsum (getd 0 ch) (g_players g) + unat ?a"
  proof (cases "?a = 0")
    case False
    have "nsum (getd 0 (credit ?rest (hd ?ws) ?ch)) (g_players g)
        = nsum (getd 0 ch) (g_players g) + (?n * (unat ?a div ?n) + unat ?a mod ?n)"
      unfolding psum_credit [OF dist hd small2] sum1 dm by simp
    then show ?thesis using False total by (simp only: pay if_False)
  qed (simp add: pay)
  show "unat (getd 0 (pay_pot g pot ch) p) = unat (getd 0 ch p) + pot_share g pot p"
    using credit_stack [OF hd small2, of p] credits_stack [OF dist ws(2,3) small1, of p]
    unfolding pay dm by (cases "?a = 0") (simp_all add: pot_share_def Let_def)
qed

lemma pay_pots_stacks:
  assumes wf: "table_wf g"
  shows "pots_in_range g pots \<Longrightarrow>
      nsum (getd 0 ch) (g_players g) + sum_list (map (\<lambda>sp. unat (amount sp)) pots) < 2 ^ 32 \<Longrightarrow>
    nsum (getd 0 (fold (pay_pot g) pots ch)) (g_players g)
      = nsum (getd 0 ch) (g_players g) + sum_list (map (\<lambda>sp. unat (amount sp)) pots)
    \<and> unat (getd 0 (fold (pay_pot g) pots ch) p)
      = unat (getd 0 ch p) + sum_list (map (\<lambda>sp. pot_share g sp p) pots)"
proof (induction pots arbitrary: ch)
  case (Cons pot pots)
  have el: "pots_in_range g [pot]" "pots_in_range g pots"
    using Cons.prems(1) by (simp_all add: pots_in_range_def)
  have "nsum (getd 0 ch) (g_players g) + unat (amount pot) < 2 ^ 32" using Cons.prems(2) by simp
  note pay = pay_pot_stacks(1) [OF wf el(1) this] pay_pot_stacks(2) [OF wf el(1) this, where p = p]
  show ?case using Cons.IH [OF el(2), of "pay_pot g pot ch"] Cons.prems(2) pay by simp
qed simp

subsection \<open>The sum of the stacks\<close>

lemma contributions_pot_states:
  "contributions (pot_states g) = map (\<lambda>p. unat (contributed_of g p)) (g_players g)"
  by (simp add: contributions_def pot_states_def)

lemma pots_paid:
  assumes "in_pot g < 2 ^ 32 - 1"
  shows "sum_list (map (\<lambda>sp. unat (amount sp)) (compute_side_pots (pot_states g)))
    = sum_list (map (\<lambda>p. min (unat (contributed_of g p)) (top_live (pot_states g))) (g_players g))"
  using total_min [of "pot_states g"] assms
  by (simp add: contributions_pot_states in_pot_def nsum_def comp_def)

lemma stacks_after_award_sum:
  assumes "table_wf g" "chips_within T g" "T < 2 ^ 32 - 1"
  shows "nsum (getd 0 (stacks_after_award g)) (g_players g) = nsum (chips_of g) (g_players g)
    + sum_list (map (\<lambda>p. min (unat (contributed_of g p)) (top_live (pot_states g))) (g_players g))"
proof -
  have "in_pot g \<le> unat (g_pot g)" "in_pot g < 2 ^ 32 - 1"
    and small: "nsum (chips_of g) (g_players g) + in_pot g < 2 ^ 32"
    using assms(2,3) by (simp_all add: chips_within_def table_chips_def)
  note paid = pots_paid [OF this(2)]
  have "sum_list (map (\<lambda>p. min (unat (contributed_of g p)) (top_live (pot_states g))) (g_players g))
      \<le> in_pot g"
    unfolding in_pot_def nsum_def by (rule sum_list_mono) simp
  then show ?thesis
    unfolding stacks_after_award_def
    using small paid pay_pots_stacks [OF assms(1) pots_of_table_in_range, of "g_chips g"] by simp
qed

lemma award_result:
  assumes "table_wf g" "award_all_pots g = Ret g'"
  shows "g_pot g' = 0" "g_players g' = g_players g"
    "g_chips g' = (if g_pot g = 0 then g_chips g else stacks_after_award g)"
    "g_contributed g' = (if g_pot g = 0 then g_contributed g else Map.empty)"
proof -
  have "g_pot g' = 0 \<and> g_players g' = g_players g
    \<and> g_chips g' = (if g_pot g = 0 then g_chips g else stacks_after_award g)
    \<and> g_contributed g' = (if g_pot g = 0 then g_contributed g else Map.empty)"
  proof (cases "g_pot g = 0")
    case True
    then show ?thesis using assms(2) by (simp add: award_all_pots_def)
  next
    case False
    then show ?thesis using award_all_pots_eq [OF assms(1) False] assms(2) by auto
  qed
  then show "g_pot g' = 0" "g_players g' = g_players g"
    "g_chips g' = (if g_pot g = 0 then g_chips g else stacks_after_award g)"
    "g_contributed g' = (if g_pot g = 0 then g_contributed g else Map.empty)" by blast+
qed

lemma award_within:
  assumes "table_wf g" "chips_within T g" "T < 2 ^ 32 - 1" "award_all_pots g = Ret g'"
  shows "chips_within T g'"
proof (cases "g_pot g = 0")
  case True
  then show ?thesis using assms(2,4) by (simp add: award_all_pots_def)
next
  case False
  note aw = award_result [OF assms(1,4)]
  have "sum_list (map (\<lambda>p. min (unat (contributed_of g p)) (top_live (pot_states g))) (g_players g))
      \<le> in_pot g"
    unfolding in_pot_def nsum_def by (rule sum_list_mono) simp
  moreover have "in_pot g' = 0" using False aw by (simp add: in_pot_def nsum_def)
  ultimately show ?thesis
    using stacks_after_award_sum [OF assms(1-3)] aw False assms(2)
    by (simp add: chips_within_def table_chips_def)
qed

section \<open>The other steps\<close>

lemma note_action_fields:
  "g_players (note_action p a amt g) = g_players g" "g_chips (note_action p a amt g) = g_chips g"
  "g_contributed (note_action p a amt g) = g_contributed g" "g_pot (note_action p a amt g) = g_pot g"
  by (simp_all add: note_action_def broadcast_action_event_def record_player_action_def send_all_eq Let_def)

lemma play_within:
  assumes "play_action p a amt g = Inr g'" "chips_within T g" "T < 2 ^ 32" "distinct (g_players g)"
    "p \<in> set (g_players g)"
  shows "chips_within T g'"
proof -
  have c: "chips_within T (contribute p b g)" for b using assms(2-5) by (rule contribute_within)
  then have "chips_within T ((contribute p b g)\<lparr>g_last_raise := x, g_current_bet := y\<rparr>)" for b x y
    by (subst within_cong [of _ "contribute p b g"]) simp_all
  moreover have "chips_within T (g\<lparr>g_folded := F\<rparr>)" for F
    using assms(2) by (subst within_cong [of _ g]) simp_all
  ultimately show ?thesis
    using assms(1,2) c by (auto simp: play_action_def Let_def split: action.splits if_splits option.splits)
qed

lemma nsum_remove1: "p \<in> set ps \<Longrightarrow> nsum f ps = unat (f p) + nsum f (remove1 p ps)"
  by (induction ps) auto

lemma leave_within:
  assumes "chips_within T g" "distinct (g_players g)" "p \<in> set (g_players g)"
  shows "chips_within T (give_up_seat p c i g)"
proof -
  have "nsum (getd 0 (m(p := None))) (remove1 p (g_players g)) = nsum (getd 0 m) (remove1 p (g_players g))"
    for m :: "pid \<rightharpoonup> u32"
    by (rule nsum_cong) (use assms(2) in auto)
  then show ?thesis
    using assms(1) nsum_remove1 [OF assms(3)]
    by (simp add: chips_within_def table_chips_def in_pot_def give_up_seat_fields del: getd_upd_None)
qed

lemma open_betting_within:
  assumes d: "dealt g d" and "seated g" "g_players g \<noteq> []" and T: "T < 2 ^ 32"
    and chips: "nsum (stack_at_deal g) (g_players g) \<le> T"
  shows "chips_within T (open_betting d)"
proof -
  note f = dealt_fields [OF d]
  have dist: "distinct (g_players g)" using assms(2) by (simp add: seated_def)
  have "nsum (chips_of d) (g_players g) = nsum (stack_at_deal g) (g_players g)"
    by (rule nsum_cong) (rule dealt_stack [OF d])
  moreover have "in_pot d = 0"
    using d by (auto simp: in_pot_def dealt_def zero_at_def getd_def nsum_def reset_table_def)
  ultimately have w: "chips_within T d" using chips f by (simp add: chips_within_def table_chips_def)
  have idx: "sb_index d < length (g_players d)" "bb_index (contribute q a d) < length (g_players d)" for q a
    using index_bounds(1,2) [of d] assms(2,3) f(1,4)
    by (simp_all add: seated_def bb_index_def contribute_fields)
  have c1: "chips_within T (contribute (g_players d ! sb_index d) SMALL_BLIND d)"
    using w T dist f(1) idx by (intro contribute_within) simp_all
  have "chips_within T (contribute (g_players d ! bb_index d) BIG_BLIND
      (contribute (g_players d ! sb_index d) SMALL_BLIND d))"
    by (rule contribute_within [OF c1 T])
      (use dist f(1) index_bounds(2) [of d] assms(3) in \<open>simp_all add: contribute_fields\<close>)
  moreover have "bb_index (contribute q a d) = bb_index d" for q a
    by (simp add: bb_index_def contribute_fields)
  ultimately have "chips_within T (post_blinds d)"
    by (subst within_cong [of _ "contribute (g_players d ! bb_index d) BIG_BLIND
      (contribute (g_players d ! sb_index d) SMALL_BLIND d)"]) (simp_all add: post_blinds_def Let_def)
  then show ?thesis
    by (subst within_cong [of _ "post_blinds d"])
      (simp_all add: open_betting_def begin_betting_round_def Let_def)
qed

section \<open>Sessions do not create chips\<close>

text \<open>What the ten steps of \<open>table_invariant\<close> do to the money, as one lemma each, is above.\<close>

lemma within_send [simp]:
  "chips_within T (send_message p m g) = chips_within T g"
  "chips_within T (send_all msg g) = chips_within T g"
  "chips_within T (send_error p code g) = chips_within T g"
  by (rule within_cong; simp add: send_message_def send_all_eq send_error_def)+

lemma within_steps [simp]:
  "chips_within T (advance_to_next_player g) = chips_within T g"
  "chips_within T (reset_bets g) = chips_within T g"
  "chips_within T (with_board cs d ph g) = chips_within T g"
  "chips_within T (g\<lparr>g_phase := ph\<rparr>) = chips_within T g"
  "chips_within T (fold_leaver p g) = chips_within T g"
  "chips_within T (g\<lparr>g_dealer := i, g_current := j\<rparr>) = chips_within T g"
  "chips_within T (note_action p a amt g) = chips_within T g"
  by (rule within_cong; simp add: advance_to_next_player_def reset_bets_def with_board_def
      begin_betting_round_def fold_leaver_def note_action_fields Let_def)+

lemma new_hand_within:
  assumes wf: "table_wf g" and w: "chips_within T g" and ne: "g_players g \<noteq> []"
    and d: "dealt (advance_dealer g) d" and T: "T < 2 ^ 32"
  shows "chips_within T (open_betting d)"
proof -
  have adv: "g_players (advance_dealer g) = g_players g" "g_chips (advance_dealer g) = g_chips g"
    by (simp_all add: advance_dealer_def)
  have "nsum (stack_at_deal (advance_dealer g)) (g_players g) = nsum (chips_of g) (g_players g)"
    by (rule nsum_cong) (use wf adv in \<open>auto simp: table_wf_def seats_ok_def stack_at_deal_def\<close>)
  then have "nsum (stack_at_deal (advance_dealer g)) (g_players (advance_dealer g)) \<le> T"
    using w adv by (simp add: chips_within_def table_chips_def)
  moreover have "seated (advance_dealer g)" using wf ne by (intro seated_advance_dealer) (simp_all add: table_wf_def)
  moreover have "g_players (advance_dealer g) \<noteq> []" using ne adv by simp
  ultimately show ?thesis using open_betting_within [OF d _ _ T] by blast
qed

lemma wf_current: "table_wf g \<Longrightarrow> g_players g \<noteq> [] \<Longrightarrow> g_players g ! g_current g \<in> set (g_players g)"
  by (simp add: table_wf_def)

lemma wf_distinct: "table_wf g \<Longrightarrow> distinct (g_players g)"
  by (simp add: table_wf_def seated_def)

lemma wf_connection: "table_wf g \<Longrightarrow> g_connection_map g c = Some p \<Longrightarrow> p \<in> set (g_players g)"
  by (auto simp: table_wf_def seated_def ran_def)

interpretation chip_count: table_invariant "\<lambda>g. T < 2 ^ 32 - 1 \<longrightarrow> chips_within T g" for T
proof (unfold_locales, goal_cases)
  case (8 g g')
  then show ?case using award_within by blast
next
  case (9 g h)
  then show ?case using new_hand_within [of g T h] by simp
next
  case (10 g a amt g')
  then show ?case using play_within [OF 10(4), of T] wf_current wf_distinct by simp
next
  case (12 g c p i)
  then show ?case using leave_within wf_distinct wf_connection by blast
qed simp_all

definition initial_stack :: "(string \<rightharpoonup> u32) \<Rightarrow> (pid \<Rightarrow> string) \<Rightarrow> pid \<Rightarrow> u32" where
  "initial_stack bankrolls name p = getd STARTING_CHIPS bankrolls (name p)"

text \<open>
  C2. No chips are created: at every moment of a session, whatever actions are sent and whoever
  leaves, the stacks of the seated players and the pot together are at most what the players sat
  down with, and the pot holds at least what the seated players have put into it; so no 32-bit
  counter of the table ever wraps.
\<close>

theorem no_chips_created:
  assumes "session (new_game ps cm repo bankrolls name draws) g" "valid_seating ps cm"
    and "nsum (initial_stack bankrolls name) ps < 2 ^ 32 - 1"
  shows "table_chips g \<le> nsum (initial_stack bankrolls name) ps \<and> in_pot g \<le> unat (g_pot g)"
proof -
  let ?T = "nsum (initial_stack bankrolls name) ps" and ?g0 = "new_game ps cm repo bankrolls name draws"
  note seats = seated_new_game [OF assms(2), of repo bankrolls name draws]
  have "stack_at_deal ?g0 = initial_stack bankrolls name"
    by (rule ext) (simp add: stack_at_deal_def initial_chips_def initial_stack_def new_game_def)
  then have "nsum (stack_at_deal ?g0) (g_players ?g0) = ?T" by (simp add: new_game_def)
  then have "chips_within ?T (open_betting h)" if "dealt ?g0 h" for h
    using open_betting_within [OF that seats] assms(3) by simp
  then have "?T < 2 ^ 32 - 1 \<longrightarrow> chips_within ?T g"
    using chip_count.session_keeps [OF assms(1) seats, of ?T] by blast
  then show ?thesis using assms(3) by (simp add: chips_within_def)
qed

abbreviation sample_game :: game where
  "sample_game \<equiv> new_game [0, 1] [0 \<mapsto> 0, 1 \<mapsto> 1] None Map.empty sample_name (\<lambda>_. [])"

lemma sample_seating: "valid_seating [0, 1] [0 \<mapsto> 0, 1 \<mapsto> 1]"
  by (auto simp: valid_seating_def max_seats_def ran_def inj_on_def split: if_splits)

lemma sample_session: "\<exists>g. session sample_game g \<and> waits g"
proof -
  have "seated sample_game" using sample_seating by (rule seated_new_game)
  moreover have "2 \<le> length (g_players sample_game)" "0 \<in> set (g_players sample_game)"
      "stack_at_deal sample_game 0 > BIG_BLIND"
    by (simp_all add: new_game_def stack_at_deal_def initial_chips_def BIG_BLIND_def STARTING_CHIPS_def)
  ultimately have "\<exists>g. start (0 + 3) sample_game = Ret g \<and> waits g" by (rule start_waits)
  then show ?thesis using session_start by blast
qed

theorem no_chips_created_witness:
  "\<exists>g. session sample_game g \<and> table_chips g \<le> 2000 \<and> in_pot g \<le> unat (g_pot g)"
proof -
  obtain g where g: "session sample_game g" using sample_session by blast
  have "nsum (initial_stack Map.empty sample_name) [0, 1] = 2000"
    by (simp add: initial_stack_def STARTING_CHIPS_def)
  then show ?thesis using no_chips_created [OF g sample_seating] g by auto
qed

section \<open>The betting rules\<close>

text \<open>\<open>a\<close> chips go from the stack of \<open>p\<close> into the pot, and nothing else happens to stacks and bets.\<close>

definition moves_chips :: "pid \<Rightarrow> nat \<Rightarrow> game \<Rightarrow> game \<Rightarrow> bool" where
  "moves_chips p a g g' \<longleftrightarrow> a \<le> unat (chips_of g p)
     \<and> unat (chips_of g' p) = unat (chips_of g p) - a
     \<and> unat (bet_of g' p) = unat (bet_of g p) + a
     \<and> unat (g_pot g') = unat (g_pot g) + a
     \<and> (\<forall>q. q \<noteq> p \<longrightarrow> chips_of g' q = chips_of g q \<and> bet_of g' q = bet_of g q)
     \<and> (0 < a \<longrightarrow> (p \<in> g_all_in g' \<longleftrightarrow> p \<in> g_all_in g \<or> chips_of g' p = 0))
     \<and> g_folded g' = g_folded g"

definition bets_in_range :: "game \<Rightarrow> pid \<Rightarrow> bool" where
  "bets_in_range g p \<longleftrightarrow> bet_of g p \<le> g_current_bet g
     \<and> unat (g_current_bet g) + unat (g_last_raise g) < 2 ^ 32
     \<and> unat (bet_of g p) + unat (chips_of g p) < 2 ^ 32
     \<and> unat (g_pot g) + unat (chips_of g p) < 2 ^ 32"

definition legal_raise :: "game \<Rightarrow> pid \<Rightarrow> u32 \<Rightarrow> bool" where
  "legal_raise g p v \<longleftrightarrow> g_current_bet g < v
     \<and> unat v \<le> unat (bet_of g p) + unat (chips_of g p)
     \<and> (unat (g_current_bet g) + unat (g_last_raise g) \<le> unat v
        \<or> unat v = unat (bet_of g p) + unat (chips_of g p))"

lemma contribute_moves:
  assumes "bets_in_range g p"
  shows "moves_chips p (unat (min a (chips_of g p))) g (contribute p a g)"
proof -
  let ?a = "min a (chips_of g p)"
  have le: "?a \<le> chips_of g p" by simp
  then have leu: "unat ?a \<le> unat (chips_of g p)" using word_le_nat_alt by blast
  then have "unat (bet_of g p + ?a) = unat (bet_of g p) + unat ?a"
      "unat (g_pot g + ?a) = unat (g_pot g) + unat ?a"
    using assms unfolding bets_in_range_def by (intro unat_plus_le; simp)+
  moreover have "unat (chips_of g p - ?a) = unat (chips_of g p) - unat ?a" using le by (rule unat_minus_le)
  moreover have "chips_of g p - ?a = 0 \<longleftrightarrow> chips_of g p \<le> a" by (auto simp: min_def)
  ultimately show ?thesis using leu by (auto simp: moves_chips_def contribute_fields)
qed

lemma moves_bets: "moves_chips p a g (h\<lparr>g_last_raise := x, g_current_bet := y\<rparr>) = moves_chips p a g h"
  by (simp add: moves_chips_def)

lemma play_call:
  assumes "bets_in_range g p"
  shows "\<exists>g'. play_action p Call amt g = Inr g'
    \<and> moves_chips p (min (unat (g_current_bet g) - unat (bet_of g p)) (unat (chips_of g p))) g g'
    \<and> g_current_bet g' = g_current_bet g"
proof -
  let ?c = "g_current_bet g - bet_of g p"
  have u: "unat ?c = unat (g_current_bet g) - unat (bet_of g p)"
    using assms by (intro unat_minus_le) (simp add: bets_in_range_def)
  have amt: "min (unat (g_current_bet g) - unat (bet_of g p)) (unat (chips_of g p))
      = unat (min ?c (chips_of g p))" by (simp add: u unat_min)
  have "moves_chips p (unat (min ?c (chips_of g p))) g g" if "?c = 0"
    using that by (simp add: moves_chips_def)
  then show ?thesis
    using contribute_moves [OF assms, of ?c] unfolding amt
    by (cases "?c = 0") (simp_all add: play_action_def Let_def contribute_fields word_gt_0)
qed

lemma play_raise:
  assumes r: "bets_in_range g p"
  shows "case play_action p Raise (Some v) g of
      Inl code \<Rightarrow> \<not> legal_raise g p v \<and>
        code = (if v \<le> g_current_bet g
            \<or> unat v < unat (g_current_bet g) + unat (g_last_raise g)
              \<and> unat v < unat (bet_of g p) + unat (chips_of g p)
          then InvalidRaise else NotEnoughChips)
    | Inr g' \<Rightarrow> legal_raise g p v \<and> moves_chips p (unat v - unat (bet_of g p)) g g'
        \<and> g_current_bet g' = v \<and> unat (g_last_raise g') = unat v - unat (g_current_bet g)"
proof -
  let ?bet = "bet_of g p" and ?chips = "chips_of g p" and ?cur = "g_current_bet g"
  have u: "unat (?cur + g_last_raise g) = unat ?cur + unat (g_last_raise g)"
      "unat (?bet + ?chips) = unat ?bet + unat ?chips" and le: "?bet \<le> ?cur"
    using r by (simp_all add: bets_in_range_def unat_plus_le)
  consider (low) "v \<le> ?cur" | (short) "?cur < v" "v < ?cur + g_last_raise g \<and> v < ?bet + ?chips"
    | (ok) "?cur < v" "\<not> (v < ?cur + g_last_raise g \<and> v < ?bet + ?chips)" by fastforce
  then show ?thesis
  proof cases
    case low
    then show ?thesis by (simp add: play_action_def Let_def legal_raise_def not_less)
  next
    case short
    then show ?thesis using le
      by (simp add: play_action_def Let_def legal_raise_def not_le)
        (simp add: word_less_nat_alt u)
  next
    case ok
    then have bv: "?bet < v" using le by simp
    have put: "unat (v - ?bet) = unat v - unat ?bet" using bv by (intro unat_minus_le) simp
    have fits: "v - ?bet \<le> ?chips \<longleftrightarrow> unat v \<le> unat ?bet + unat ?chips"
      unfolding word_le_nat_alt put by linarith
    have nlow: "\<not> (unat v < unat ?cur + unat (g_last_raise g) \<and> unat v < unat ?bet + unat ?chips)"
      using ok(2) by (simp add: word_less_nat_alt u)
    show ?thesis
    proof (cases "v - ?bet \<le> ?chips")
      case False
      then show ?thesis using ok bv nlow fits
        by (simp add: play_action_def Let_def legal_raise_def not_le not_less)
    next
      case True
      let ?g = "contribute p (v - ?bet) g"
      have bet': "bet_of ?g p = v" using True by (simp add: contribute_fields min_def)
      have mv: "moves_chips p (unat v - unat ?bet) g ?g"
        using contribute_moves [OF r, of "v - ?bet"] True put by (simp add: min_def)
      have "play_action p Raise (Some v) g = Inr (?g\<lparr>g_last_raise := v - ?cur, g_current_bet := v\<rparr>)"
        using ok bv True bet'
        by (simp add: play_action_def Let_def not_le contribute_fields del: not_less)
      moreover have "legal_raise g p v" using ok(1) nlow fits True by (auto simp: legal_raise_def)
      moreover have "unat (v - ?cur) = unat v - unat ?cur" using ok(1) by (intro unat_minus_le) simp
      ultimately show ?thesis using mv by (simp add: moves_bets)
    qed
  qed
qed

text \<open>
  C4. Betting rules, in numbers without wrap-around. A fold only marks the player; a check needs a
  matched bet; a call puts in what is missing, or the whole stack; a raise to \<open>v\<close> must be above the
  current bet, at least the minimum raise unless it is exactly all in, and within the stack, and
  then moves \<open>v - bet\<close> chips to the pot, with \<open>v\<close> the new bet to match and \<open>v - current_bet\<close> the new
  raise increment. Everything else is refused with the error code of the code.
\<close>

theorem betting_rules:
  assumes "bets_in_range g p"
  shows "play_action p Fold amt g = Inr (g\<lparr>g_folded := insert p (g_folded g)\<rparr>)
    \<and> play_action p Check amt g = (if g_current_bet g = bet_of g p then Inr g else Inl CannotCheck)
    \<and> (\<exists>g'. play_action p Call amt g = Inr g'
        \<and> moves_chips p (min (unat (g_current_bet g) - unat (bet_of g p)) (unat (chips_of g p))) g g'
        \<and> g_current_bet g' = g_current_bet g)
    \<and> play_action p Raise None g = Inl InvalidRaise
    \<and> (case play_action p Raise (Some v) g of
        Inl code \<Rightarrow> \<not> legal_raise g p v \<and>
          code = (if v \<le> g_current_bet g
              \<or> unat v < unat (g_current_bet g) + unat (g_last_raise g)
                \<and> unat v < unat (bet_of g p) + unat (chips_of g p)
            then InvalidRaise else NotEnoughChips)
      | Inr g' \<Rightarrow> legal_raise g p v \<and> moves_chips p (unat v - unat (bet_of g p)) g g'
          \<and> g_current_bet g' = v \<and> unat (g_last_raise g') = unat v - unat (g_current_bet g))"
  by (intro conjI play_call [OF assms] play_raise [OF assms]) (simp_all add: play_action_def Let_def)

text \<open>At the sample table a raise to 60 is legal for player 0, and puts 50 chips in.\<close>

theorem betting_rules_witness:
  "\<exists>g'. play_action 0 Raise (Some 60) sample_table = Inr g' \<and> moves_chips 0 50 sample_table g'
    \<and> g_current_bet g' = 60 \<and> unat (g_last_raise g') = 40"
proof -
  have s: "bet_of sample_table 0 = 10" "chips_of sample_table 0 = 990" "g_current_bet sample_table = 20"
    "g_last_raise sample_table = 20" "g_pot sample_table = 30"
    by (simp_all add: sample_table_def getd_def)
  have "bets_in_range sample_table 0" by (simp add: bets_in_range_def s)
  from betting_rules [OF this, of None 60] show ?thesis
    by (auto simp: legal_raise_def s split: sum.splits)
qed

section \<open>The award\<close>

text \<open>
  C6. The award of the pots: every side pot is divided equally among the players with the best
  hand (the maximum of \<open>evaluate_best\<close> over hole cards and board) of those who may win it, all of
  them players who have not folded, and the first of them in seat order gets the odd chips. All
  stacks together grow by every contribution, capped at the largest contribution of a player still in
  the hand, the pot is emptied, and nothing wraps.
\<close>

theorem award_pays:
  assumes wf: "table_wf g" and pot: "g_pot g \<noteq> 0"
    and chips: "table_chips g < 2 ^ 32 - 1" "in_pot g \<le> unat (g_pot g)"
  shows "\<exists>g'. award_all_pots g = Ret g' \<and> g_pot g' = 0 \<and> g_contributed g' = Map.empty
    \<and> (\<forall>p. unat (chips_of g' p) = unat (chips_of g p)
        + (\<Sum>pot \<leftarrow> compute_side_pots (pot_states g). pot_share g pot p))
    \<and> (\<forall>pot \<in> set (compute_side_pots (pot_states g)). \<forall>w \<in> set (pot_winners g pot).
        w \<in> set (g_players g) \<and> w \<notin> g_folded g
        \<and> (\<forall>i \<in> set (eligible_player_indices pot). hand_value_of g (g_players g ! i) \<le> hand_value_of g w))
    \<and> nsum (chips_of g') (g_players g) = nsum (chips_of g) (g_players g)
        + (\<Sum>p \<leftarrow> g_players g. min (unat (contributed_of g p)) (top_live (pot_states g)))"
proof -
  let ?pots = "compute_side_pots (pot_states g)"
  obtain g' where aw: "award_all_pots g = Ret g'" using award_all_pots_wf [OF wf] by metis
  note res = award_result [OF wf aw]
  have w: "chips_within (table_chips g) g" using chips(2) by (simp add: chips_within_def)
  note total = stacks_after_award_sum [OF wf w chips(1)]
  have "in_pot g < 2 ^ 32 - 1" using chips by (simp add: table_chips_def)
  from pots_paid [OF this] have "sum_list (map (\<lambda>sp. unat (amount sp)) ?pots) \<le> in_pot g"
    unfolding in_pot_def nsum_def by (simp only:) (rule sum_list_mono, simp)
  then have "nsum (chips_of g) (g_players g) + sum_list (map (\<lambda>sp. unat (amount sp)) ?pots) < 2 ^ 32"
    using chips by (simp add: table_chips_def)
  note stacks = pay_pots_stacks [OF wf pots_of_table_in_range this]
  have "w \<in> set (g_players g) \<and> w \<notin> g_folded g
      \<and> (\<forall>i \<in> set (eligible_player_indices pot). hand_value_of g (g_players g ! i) \<le> hand_value_of g w)"
    if "pot \<in> set ?pots" "w \<in> set (pot_winners g pot)" for pot w
    using side_pot_eligible(3) [OF that(1)] that(2)
    by (auto simp: pot_winners_def best_hands_def pot_states_def)
  then show ?thesis
    using aw res(1,3,4) pot stacks total by (auto simp: stacks_after_award_def)
qed

text \<open>The sample table at the showdown: the aces win the main pot of 40.\<close>

definition sample_river :: game where
  "sample_river = sample_table\<lparr>g_deck := \<lparr>m_cards = []\<rparr>, g_community := sample_deck, g_phase := River,
     g_pot := 40, g_contributed := [0 \<mapsto> 20, 1 \<mapsto> 20], g_chips := [0 \<mapsto> 980, 1 \<mapsto> 980]\<rparr>"

lemma sample_river_wf: "table_wf sample_river"
proof -
  have "cards_in_play sample_river = cards_in_play sample_table"
    by (simp add: cards_in_play_def sample_river_def) (simp add: sample_table_def)
  then show ?thesis
    using sample_wf
    by (simp add: table_wf_def cards_ok_def seated_def seats_ok_def)
      (simp add: sample_river_def sample_table_def sample_deck_def)
qed

theorem award_pays_witness:
  "\<exists>g'. award_all_pots sample_river = Ret g' \<and> g_pot g' = 0
    \<and> nsum (chips_of g') [0, 1] = 2000"
proof -
  have s: "g_players sample_river = [0, 1]" "g_pot sample_river = 40"
      "chips_of sample_river = (\<lambda>p. if p = 0 \<or> p = 1 then 980 else 0)"
      "contributed_of sample_river = (\<lambda>p. if p = 0 \<or> p = 1 then 20 else 0)"
      "g_folded sample_river = {}"
    by (auto simp: sample_river_def sample_table_def getd_def fun_eq_iff)
  have "top_live (pot_states sample_river) = 20"
    by (simp add: top_live_def live_def contributions_def pot_states_def s upt_rec)
  then show ?thesis
    using award_pays [OF sample_river_wf] by (auto simp: s table_chips_def in_pot_def)
qed

end
