(* ===== verification/GameSafety.thy ===== *)
theory GameSafety
  imports GameChips
begin

text \<open>
  What holds at every moment of a session of a table: the table is well-formed and no call throws, no
  card is in two places, nobody is shown hole cards before the showdown, an action out of turn or
  against the rules has no effect but an error message, and the fuel of the model does not matter once
  it suffices.
\<close>

section \<open>Safety of sessions\<close>

text \<open>
  C1. Safety: in every session of at most 23 players, whatever actions come from whatever connection
  and whoever leaves, the table stays well-formed and no call ever throws: no \<open>at\<close> on a missing
  key, no deal from a short deck, and the indices of the dealer and the current player are seats.
\<close>

theorem session_safe:
  assumes "session (new_game ps cm repo bankrolls name draws) g" "valid_seating ps cm"
  shows "table_wf g \<and> apply_action n c a amt g \<noteq> Exn e \<and> remove_player n c g \<noteq> Exn e
    \<and> (g_players g \<noteq> [] \<longrightarrow> g_current g < length (g_players g) \<and> g_dealer g < length (g_players g))"
proof -
  have wf: "table_wf g"
    using session_wf [OF assms(1) seated_new_game [OF assms(2)]] .
  then show ?thesis
    using apply_action_result [OF wf] remove_player_result [OF wf]
    by (simp add: table_wf_def seated_def)
qed

theorem session_safe_witness:
  "\<exists>g. session sample_game g \<and> table_wf g \<and> apply_action 20 0 Call None g \<noteq> Exn OutOfRange"
proof -
  obtain g where "session sample_game g" using sample_session by blast
  then show ?thesis using session_safe [OF _ sample_seating] by blast
qed

lemma distinct_submset:
  assumes "mset xs \<subseteq># mset ys" "distinct ys"
  shows "distinct xs"
proof -
  obtain zs where "mset zs = mset ys - mset xs" using ex_mset by blast
  then have "mset (xs @ zs) = mset ys" using assms(1) by simp
  then have "distinct (xs @ zs)" using assms(2) mset_eq_imp_distinct_iff by blast
  then show ?thesis by simp
qed

text \<open>
  C9. No card is in two places: at every moment of a session the cards of the board, of all hands at
  the table and of the rest of the deck are pairwise different cards, every seat holds two, and the
  board has 0, 3, 4 or 5 cards according to the phase.
\<close>

theorem cards_disjoint:
  assumes "session (new_game ps cm repo bankrolls name draws) g" "valid_seating ps cm"
  shows "distinct (m_cards (g_deck g) @ g_community g @ concat (map (getd [] (g_hands g)) (g_players g)))
    \<and> (\<forall>p \<in> set (g_players g). length (getd [] (g_hands g) p) = 2)
    \<and> length (g_community g) = board_size (g_phase g)"
proof -
  have wf: "table_wf g"
    using session_wf [OF assms(1) seated_new_game [OF assms(2)]] .
  have "mset (concat (map (getd [] (g_hands g)) qs)) = hand_cards (g_hands g) qs" for qs
    by (induction qs) simp_all
  then have "cards_in_play g
      = mset (m_cards (g_deck g) @ g_community g @ concat (map (getd [] (g_hands g)) (g_players g)))"
    by (simp add: cards_in_play_def)
  then have "mset (m_cards (g_deck g) @ g_community g @ concat (map (getd [] (g_hands g)) (g_players g)))
      \<subseteq># mset (m_cards new_deck)"
    using wf by (simp add: table_wf_def cards_ok_def)
  then have "distinct (m_cards (g_deck g) @ g_community g @ concat (map (getd [] (g_hands g)) (g_players g)))"
    using distinct_new_deck by (rule distinct_submset)
  then show ?thesis
    using wf wfD(4) [OF wf] by (simp add: table_wf_def cards_ok_def)
qed

theorem cards_disjoint_witness:
  "\<exists>g. session sample_game g \<and> distinct (m_cards (g_deck g) @ g_community g)"
proof -
  obtain g where "session sample_game g" using sample_session by blast
  then show ?thesis using cards_disjoint [OF _ sample_seating] by fastforce
qed

section \<open>Hole cards\<close>

text \<open>A message shows hole cards of others only at the showdown and only of players in the hand.\<close>

definition discreet :: "server_message \<Rightarrow> bool" where
  "discreet m \<longleftrightarrow> (case m of
      SGameStateUpdate u \<Rightarrow> \<forall>ps \<in> set (gs_players u). ps_hole_cards ps \<noteq> [] \<longrightarrow>
        gs_phase u = Showdown \<and> \<not> ps_folded ps
    | _ \<Rightarrow> True)"

definition discreet_outbox :: "game \<Rightarrow> bool" where
  "discreet_outbox g \<longleftrightarrow> (\<forall>(p, m) \<in> set (g_outbox g). discreet m)"

lemma discreet_simps [simp]:
  "discreet (SGameStateUpdate (state_update g p))" "discreet (SError e)" "discreet (SYourTurn t)"
  "discreet (SHandResult r)" "discreet (SActionEvent ev)"
  by (auto simp: discreet_def state_update_def seat_state_def Let_def split: if_splits)

lemma discreet_award:
  assumes "table_wf g" "discreet_outbox g" "award_all_pots g = Ret g'"
  shows "discreet_outbox g'"
proof (cases "g_pot g = 0")
  case True
  then show ?thesis using assms by (simp add: award_all_pots_def)
next
  case False
  from award_all_pots_eq [OF assms(1) this] assms(3) obtain ob where
    ob: "g_outbox g' = g_outbox g @ ob"
      "\<forall>(q, m) \<in> set ob. (\<exists>h. m = SGameStateUpdate (state_update h q)) \<or> (\<exists>r. m = SHandResult r)"
    by auto
  then have "\<forall>(q, m) \<in> set ob. discreet m" by fastforce
  then show ?thesis using assms(2) ob(1) by (auto simp: discreet_outbox_def)
qed

lemma play_outbox: "play_action p a amt g = Inr g' \<Longrightarrow> g_outbox g' = g_outbox g"
  by (auto simp: play_action_def contribute_def mark_all_in_if_needed_def Let_def
      split: action.splits if_splits option.splits)

lemma give_up_seat_outbox: "g_outbox (give_up_seat p c i g) = g_outbox g"
proof -
  obtain b r where "persist_player_chips p g = g\<lparr>g_bankrolls := b, g_repo := r\<rparr>"
    using persist_player_eq by blast
  then show ?thesis
    by (simp add: give_up_seat_def erase_player_state_def fix_indices_after_removal_def Let_def)
qed

lemma open_betting_outbox: "dealt g h \<Longrightarrow> g_outbox (open_betting h) = g_outbox g"
proof -
  assume "dealt g h"
  then have "g_outbox h = g_outbox g" by (auto simp: dealt_def reset_table_def)
  moreover have "g_outbox (contribute p a k) = g_outbox k" for p a k
    by (simp add: contribute_def mark_all_in_if_needed_def Let_def)
  ultimately show ?thesis
    by (simp add: open_betting_def begin_betting_round_def post_blinds_def Let_def)
qed

interpretation secrecy: table_invariant discreet_outbox
proof (unfold_locales, goal_cases)
  case (8 g g')
  then show ?case by (rule discreet_award)
next
  case (9 g h)
  then show ?case using open_betting_outbox [of "advance_dealer g" h]
    by (simp add: discreet_outbox_def advance_dealer_def)
next
  case (10 g a amt g')
  then show ?case using play_outbox [OF 10(4)]
    by (auto simp: discreet_outbox_def note_action_def broadcast_action_event_def send_all_eq
        record_player_action_def Let_def)
qed (auto simp: discreet_outbox_def send_message_def send_error_def send_all_eq
    advance_to_next_player_def reset_bets_def with_board_def begin_betting_round_def fold_leaver_def
    give_up_seat_outbox Let_def)

lemma session_discreet:
  assumes "session (new_game ps cm repo bankrolls name draws) g" "valid_seating ps cm"
  shows "discreet_outbox g"
proof -
  have "discreet_outbox (open_betting h)" if "dealt (new_game ps cm repo bankrolls name draws) h" for h
    using open_betting_outbox [OF that] by (simp add: discreet_outbox_def new_game_def)
  then show ?thesis
    using secrecy.session_keeps [OF assms(1) seated_new_game [OF assms(2), of repo bankrolls name draws]] by blast
qed

text \<open>
  C8. Hole cards stay secret: no message that a session has sent shows a player's hole cards in the
  list of players unless the phase is the showdown and that player has not folded; and the state
  that is broadcast shows each player as his own cards exactly his own.
\<close>

theorem hole_cards_secret:
  assumes "session (new_game ps cm repo bankrolls name draws) g" "valid_seating ps cm"
  shows "(\<forall>p u. (p, SGameStateUpdate u) \<in> set (g_outbox g) \<longrightarrow>
      (\<forall>s \<in> set (gs_players u). ps_hole_cards s \<noteq> [] \<longrightarrow> gs_phase u = Showdown \<and> \<not> ps_folded s))
    \<and> (\<exists>g'. broadcast_state g = Ret g'
        \<and> (\<exists>us. g_outbox g' = g_outbox g @ map (\<lambda>p. (p, SGameStateUpdate (us p))) (g_players g)
            \<and> (\<forall>p. gs_your_cards (us p) = getd [] (g_hands g) p)))"
proof -
  note seats = seated_new_game [OF assms(2), of repo bankrolls name draws]
  have d: "discreet_outbox g" using session_discreet [OF assms] .
  have wf: "table_wf g" using session_wf [OF assms(1) seats] .
  have "(\<exists>us. g_outbox g' = g_outbox g @ map (\<lambda>p. (p, SGameStateUpdate (us p))) (g_players g)
      \<and> (\<forall>p. gs_your_cards (us p) = getd [] (g_hands g) p))"
    if "g' = send_all (\<lambda>p. SGameStateUpdate (state_update g p)) g" for g'
    using that by (intro exI [of _ "state_update g"]) (simp add: send_all_eq state_update_def)
  then show ?thesis
    using broadcast_state_wf [OF wf] d by (fastforce simp: discreet_outbox_def discreet_def)
qed

theorem hole_cards_secret_witness:
  "\<exists>g g'. session sample_game g \<and> broadcast_state g = Ret g'"
proof -
  obtain g where "session sample_game g" using sample_session by blast
  then show ?thesis using hole_cards_secret [OF _ sample_seating] by blast
qed

section \<open>What is refused\<close>


section \<open>The fuel does not matter\<close>

definition settled :: "game result \<Rightarrow> game result \<Rightarrow> bool" where
  "settled r r' \<longleftrightarrow> (r \<noteq> NoFuel \<longrightarrow> r' = r)"

lemma settled_simps [simp]: "settled NoFuel r" "settled r r"
  by (simp_all add: settled_def)

lemma settled_bind: "(\<And>x. m = Ret x \<Longrightarrow> settled (f x) (f' x)) \<Longrightarrow> settled (bind_r m f) (bind_r m f')"
  by (cases m) (auto simp: settled_def)

lemma settled_if: "(c \<Longrightarrow> settled a a') \<Longrightarrow> (\<not> c \<Longrightarrow> settled b b') \<Longrightarrow>
    settled (if c then a else b) (if c then a' else b')"
  by simp

lemma hand_fuel:
  shows "settled (start n g) (start (Suc n) g)"
    and "settled (ask_current_player n g) (ask_current_player (Suc n) g)"
    and "settled (next_phase n g) (next_phase (Suc n) g)"
    and "settled (do_showdown n g) (do_showdown (Suc n) g)"
    and "settled (handle_single_winner n g) (handle_single_winner (Suc n) g)"
    and "settled (try_start_new_hand n g) (try_start_new_hand (Suc n) g)"
    and "settled (start_new_hand n g) (start_new_hand (Suc n) g)"
proof (induction n arbitrary: g)
  case (Suc n)
  {
    case 1
    show ?case unfolding start.simps(2) [of n g] start.simps(2) [of "Suc n" g] by (intro settled_bind Suc)
  next
    case 2
    show ?case unfolding ask_current_player.simps(2) [of n g] ask_current_player.simps(2) [of "Suc n" g] Let_def
      by (intro settled_if settled_bind Suc settled_simps)
  next
    case 3
    show ?case unfolding next_phase.simps(2) [of n g] next_phase.simps(2) [of "Suc n" g] Let_def
    proof (rule settled_if)
      show "settled (handle_single_winner n g) (handle_single_winner (Suc n) g)" by (rule Suc)
      show "settled
          (case street (g_phase (reset_bets g)) of
             Some (cards, phase) \<Rightarrow> bind_r (deal_street cards phase (reset_bets g)) (ask_current_player n)
           | None \<Rightarrow> if g_phase (reset_bets g) = River then do_showdown n (reset_bets g)
                     else Ret (reset_bets g))
          (case street (g_phase (reset_bets g)) of
             Some (cards, phase) \<Rightarrow> bind_r (deal_street cards phase (reset_bets g)) (ask_current_player (Suc n))
           | None \<Rightarrow> if g_phase (reset_bets g) = River then do_showdown (Suc n) (reset_bets g)
                     else Ret (reset_bets g))"
      proof (cases "street (g_phase (reset_bets g))")
        case None
        then show ?thesis by (simp only: option.case) (intro settled_if settled_simps Suc)
      next
        case (Some st)
        then show ?thesis
          by (cases st) (simp only: option.case prod.case, intro settled_bind Suc)
      qed
    qed
  next
    case 4
    show ?case unfolding do_showdown.simps(2) [of n g] do_showdown.simps(2) [of "Suc n" g] Let_def
      by (intro settled_bind settled_if Suc)
  next
    case 5
    show ?case unfolding handle_single_winner.simps(2) [of n g] handle_single_winner.simps(2) [of "Suc n" g] by (intro settled_bind Suc)
  next
    case 6
    show ?case unfolding try_start_new_hand.simps(2) [of n g] try_start_new_hand.simps(2) [of "Suc n" g] by (intro settled_if Suc settled_simps)
  next
    case 7
    show ?case unfolding start_new_hand.simps(2) [of n g] start_new_hand.simps(2) [of "Suc n" g] by (rule Suc)
  }
qed simp_all

lemma settled_trans: "settled r r' \<Longrightarrow> settled r' r'' \<Longrightarrow> settled r r''"
  by (auto simp: settled_def)

lemma apply_action_fuel: "settled (apply_action n c a amt g) (apply_action (Suc n) c a amt g)"
proof (cases "g_connection_map g c")
  case (Some p)
  show ?thesis
    by (cases "play_action p a amt g"; simp only: apply_action_unfold Some option.case sum.case Let_def)
      (intro settled_if settled_bind settled_simps hand_fuel)+
qed (simp add: apply_action_unfold)

lemma remove_player_fuel: "settled (remove_player n c g) (remove_player (Suc n) c g)"
proof (cases "get_player g c")
  case (Some p)
  show ?thesis
    by (cases "seat_of g p"; simp only: remove_player_def continue_after_player_left_def Some option.case Let_def)
      (intro settled_if settled_bind settled_simps hand_fuel)+
qed (simp add: remove_player_def)

lemma settled_le:
  assumes "n \<le> m" "\<And>n. settled (f n) (f (Suc n))"
  shows "settled (f n) (f m)"
  using assms(1) by (induction rule: dec_induct) (use settled_trans assms(2) in auto)

text \<open>
  The fuel of the model is only a cut-off: once a call has a result, more fuel gives the same
  result; so the behaviour of a table is a function of its state and its inputs.
\<close>

theorem fuel_irrelevant:
  assumes "n \<le> m"
  shows "(start n g \<noteq> NoFuel \<longrightarrow> start m g = start n g)
    \<and> (apply_action n c a amt g \<noteq> NoFuel \<longrightarrow> apply_action m c a amt g = apply_action n c a amt g)
    \<and> (remove_player n c g \<noteq> NoFuel \<longrightarrow> remove_player m c g = remove_player n c g)"
proof -
  have "settled (start n g) (start m g)"
    using assms by (rule settled_le [where f = "\<lambda>n. start n g"]) (rule hand_fuel)
  moreover have "settled (apply_action n c a amt g) (apply_action m c a amt g)"
    using assms by (rule settled_le [where f = "\<lambda>n. apply_action n c a amt g"]) (rule apply_action_fuel)
  moreover have "settled (remove_player n c g) (remove_player m c g)"
    using assms by (rule settled_le [where f = "\<lambda>n. remove_player n c g"]) (rule remove_player_fuel)
  ultimately show ?thesis by (simp add: settled_def)
qed

theorem fuel_irrelevant_witness:
  "\<exists>g. start 3 sample_game = Ret g \<and> start 100 sample_game = Ret g"
proof -
  have "seated sample_game" using sample_seating by (rule seated_new_game)
  moreover have "2 \<le> length (g_players sample_game)" "0 \<in> set (g_players sample_game)"
      "stack_at_deal sample_game 0 > BIG_BLIND"
    by (simp_all add: new_game_def stack_at_deal_def initial_chips_def BIG_BLIND_def STARTING_CHIPS_def)
  ultimately have "\<exists>g. start (0 + 3) sample_game = Ret g \<and> waits g" by (rule start_waits)
  then obtain g where g: "start 3 sample_game = Ret g" by auto
  then have "start 100 sample_game = start 3 sample_game"
    using fuel_irrelevant [of 3 100 sample_game] by simp
  then show ?thesis using g by metis
qed

section \<open>The opening of a hand\<close>

definition blind_of :: "game \<Rightarrow> pid \<Rightarrow> u32" where
  "blind_of g p =
     (if p = g_players g ! sb_index g then min SMALL_BLIND (stack_at_deal g p)
      else if p = g_players g ! bb_index g then min BIG_BLIND (stack_at_deal g p) else 0)"

lemma dealt_money:
  assumes "dealt g d" "p \<in> set (g_players g)"
  shows "bet_of d p = 0" "contributed_of d p = 0" "g_pot d = 0" "g_all_in d = {}"
    "g_last_raise d = BIG_BLIND"
  using assms by (auto simp: dealt_def zero_at_def getd_def reset_table_def)

lemma open_betting_fields:
  "chips_of (open_betting d) p = chips_of (post_blinds d) p"
  "bet_of (open_betting d) p = bet_of (post_blinds d) p"
  "contributed_of (open_betting d) p = contributed_of (post_blinds d) p"
  "g_pot (open_betting d) = g_pot (post_blinds d)"
  "g_all_in (open_betting d) = g_all_in (post_blinds d)"
  "g_current_bet (open_betting d) = g_current_bet (post_blinds d)"
  "g_phase (open_betting d) = PreFlop" "g_acted (open_betting d) = {}"
  "g_current (open_betting d) = first_to_act_preflop (begin_betting_round (post_blinds d))"
  by (simp_all add: open_betting_def begin_betting_round_def Let_def)

text \<open>What \<open>start_hand\<close> leaves on the table, as \<open>hand_opening\<close> states it below.\<close>

lemma opening_of_hand:
  assumes "seated g" "2 \<le> length (g_players g)"
  shows "\<exists>g'. start_hand g = Ret g' \<and> g_phase g' = PreFlop \<and> g_community g' = []
    \<and> g_folded g' = {} \<and> g_acted g' = {}
    \<and> (\<forall>p \<in> set (g_players g). chips_of g' p = stack_at_deal g p - blind_of g p
        \<and> bet_of g' p = blind_of g p \<and> contributed_of g' p = blind_of g p
        \<and> (p \<in> g_all_in g' \<longleftrightarrow>
            p \<in> {g_players g ! sb_index g, g_players g ! bb_index g} \<and> stack_at_deal g p = blind_of g p))
    \<and> g_pot g' = blind_of g (g_players g ! sb_index g) + blind_of g (g_players g ! bb_index g)
    \<and> g_current_bet g' = blind_of g (g_players g ! bb_index g)
    \<and> g_current g' = (if length (g_players g) = 2 then g_dealer g
        else (bb_index g + 1) mod length (g_players g))"
proof -
  have ne: "g_players g \<noteq> []" using assms(2) by auto
  from start_hand_wf [OF assms(1) ne] obtain d where d: "dealt g d" and st: "start_hand g
      = Ret (send_all (\<lambda>p. SGameStateUpdate (state_update (open_betting d) p)) (open_betting d))"
    and wf: "table_wf (open_betting d)" by blast
  let ?o = "open_betting d"
  note f = dealt_fields [OF d] and m = dealt_money [OF d] and s = dealt_stack [OF d]
  have idx: "sb_index d = sb_index g" "bb_index d = bb_index g" "bb_index (contribute q a d) = bb_index g" for q a
    using f by (simp_all add: sb_index_def bb_index_def contribute_fields)
  note diff = blinds_differ [OF assms]
  have seats: "g_players g ! sb_index g \<in> set (g_players g)" "g_players g ! bb_index g \<in> set (g_players g)"
    using index_bounds(1,2) [OF ne] assms(1) ne by (simp_all add: seated_def)
  have le: "chips_of d q - min a (chips_of d q) = 0 \<longleftrightarrow> chips_of d q \<le> a" for q a by (auto simp: min_def)
  have money: "chips_of ?o p = stack_at_deal g p - blind_of g p \<and> bet_of ?o p = blind_of g p
      \<and> contributed_of ?o p = blind_of g p
      \<and> (p \<in> g_all_in ?o \<longleftrightarrow>
            p \<in> {g_players g ! sb_index g, g_players g ! bb_index g} \<and> stack_at_deal g p = blind_of g p)"
    if "p \<in> set (g_players g)" for p
    using diff s [OF that] m [OF that] s [OF seats(1)] s [OF seats(2)] f(1)
    by (auto simp: open_betting_fields post_blinds_def Let_def contribute_fields idx blind_of_def
        min_def not_le split: if_splits)
  have "g_pot ?o = blind_of g (g_players g ! sb_index g) + blind_of g (g_players g ! bb_index g)"
    "g_current_bet ?o = blind_of g (g_players g ! bb_index g)"
    using diff m [OF seats(1)] m [OF seats(2)] s [OF seats(1)] s [OF seats(2)] f(1)
    by (auto simp: open_betting_fields post_blinds_def Let_def contribute_fields idx blind_of_def)
  moreover have "g_current ?o = (if length (g_players g) = 2 then g_dealer g
        else (bb_index g + 1) mod length (g_players g))"
    using f(1,4)
    by (simp add: open_betting_fields first_to_act_preflop_def begin_betting_round_def post_blinds_def
        Let_def contribute_fields bb_index_def)
  moreover have "g_folded ?o = {}"
    using f(6) by (simp add: open_betting_def begin_betting_round_def post_blinds_def Let_def contribute_fields)
  moreover have "g_community ?o = []"
    using wf by (simp add: table_wf_def cards_ok_def open_betting_fields)
  ultimately show ?thesis
    unfolding st using money by (simp add: send_all_eq open_betting_fields)
qed



text \<open>
  C5. A short big blind: the bet to match is what the big blind could pay, so when the big blind has
  less than the small blind of 10 left, the player in the small blind has bet more than that; the
  amount to call, an unsigned difference, wraps around to almost 2^32, this is what \<open>your_turn\<close>
  announces, a check is refused, and a call puts the whole stack in.
\<close>

theorem short_big_blind:
  assumes "seated g" "2 \<le> length (g_players g)"
    and sb: "p = g_players g ! sb_index g" "10 < unat (stack_at_deal g p)"
    and bb: "unat (stack_at_deal g (g_players g ! bb_index g)) = b" "b < 10"
  shows "\<exists>g'. start_hand g = Ret g' \<and> unat (chips_of g' p) = unat (stack_at_deal g p) - 10
    \<and> unat (yt_to_call (your_turn_message g' p)) = 2 ^ 32 - (10 - b)
    \<and> play_action p Check amt g' = Inl CannotCheck
    \<and> (\<exists>g''. play_action p Call amt g' = Inr g'' \<and> chips_of g'' p = 0 \<and> p \<in> g_all_in g''
        \<and> bet_of g'' p = stack_at_deal g p)"
proof -
  let ?q = "g_players g ! bb_index g"
  have ne: "g_players g \<noteq> []" using assms(2) by auto
  have seats: "p \<in> set (g_players g)" "?q \<in> set (g_players g)"
    using index_bounds(1,2) [OF ne] assms(1) ne sb(1) by (simp_all add: seated_def)
  have diff: "p \<noteq> ?q" using blinds_differ [OF assms(1,2)] sb(1) by simp
  have big: "SMALL_BLIND \<le> stack_at_deal g p" "stack_at_deal g ?q \<le> BIG_BLIND"
    using sb(2) bb by (simp_all add: SMALL_BLIND_def BIG_BLIND_def word_le_nat_alt)
  have blinds: "blind_of g p = 10" "blind_of g ?q = stack_at_deal g ?q"
    using sb(1) diff big by (simp_all add: blind_of_def min_def SMALL_BLIND_def)
  obtain g' where st: "start_hand g = Ret g'"
    and chips: "chips_of g' p = stack_at_deal g p - 10" and bet: "bet_of g' p = 10"
    and cur: "g_current_bet g' = stack_at_deal g ?q"
    using opening_of_hand [OF assms(1,2)] seats blinds by metis
  let ?c = "g_current_bet g' - bet_of g' p"
  have short: "unat (g_current_bet g') < unat (bet_of g' p)" using cur bet bb by simp
  have call: "unat ?c = 2 ^ 32 - (10 - b)"
    using short cur bet bb unat_sub_if' [of "g_current_bet g'" "bet_of g' p"]
    by (simp add: word_le_nat_alt)
  have un: "unat (chips_of g' p) = unat (stack_at_deal g p) - 10"
    using sb(2) unfolding chips by (subst unat_minus_le) (simp_all add: word_le_nat_alt)
  then have fits: "chips_of g' p \<le> ?c"
    using call bb(2) u32_less_max [of "stack_at_deal g p"] unfolding word_le_nat_alt by simp
  have "?c > 0" using call bb(2) by (simp add: word_less_nat_alt)
  then have "play_action p Call amt g' = Inr (contribute p ?c g')" by (simp add: play_action_def Let_def)
  moreover have "chips_of (contribute p ?c g') p = 0" "p \<in> g_all_in (contribute p ?c g')"
      "bet_of (contribute p ?c g') p = stack_at_deal g p"
    using fits by (simp_all add: contribute_fields min_def bet chips)
  moreover have "play_action p Check amt g' = Inl CannotCheck"
    using short by (auto simp: play_action_def Let_def)
  moreover have "yt_to_call (your_turn_message g' p) = ?c" by (simp add: your_turn_message_def Let_def)
  ultimately show ?thesis using st un call by simp
qed

text \<open>Two players, the one on the big blind with 5 chips left: calling 4294967291 costs 990.\<close>

theorem short_big_blind_witness:
  "\<exists>g'. start_hand (sample_game\<lparr>g_chips := [0 \<mapsto> 1000, 1 \<mapsto> 5]\<rparr>) = Ret g'
    \<and> unat (chips_of g' 0) = 990 \<and> unat (yt_to_call (your_turn_message g' 0)) = 4294967291"
proof -
  define g where "g = sample_game\<lparr>g_chips := [0 \<mapsto> 1000, 1 \<mapsto> 5]\<rparr>"
  have s: "g_players g = [0, 1]" "sb_index g = 0" "bb_index g = 1"
    "stack_at_deal g 0 = 1000" "stack_at_deal g 1 = 5"
    by (simp_all add: g_def new_game_def sb_index_def bb_index_def stack_at_deal_def getd_def)
  have "seated sample_game" using sample_seating by (rule seated_new_game)
  then have "seated g" by (simp add: seated_def g_def)
  then show ?thesis
    using short_big_blind [of g 0 5] unfolding g_def [symmetric] by (simp add: s s [unfolded One_nat_def]) fast
qed

section \<open>Leaving\<close>

text \<open>
  Leaving: when the player behind a connection leaves, the other players keep their seats in the
  same order, the connection is forgotten, so whatever it sends later has no effect, and no other
  connection is touched; a connection without a seat changes nothing.
\<close>

theorem leaver_gone:
  assumes "table_wf g" "remove_player n c g = Ret g'"
  shows "case g_connection_map g c of
      None \<Rightarrow> g' = g
    | Some p \<Rightarrow> table_wf g' \<and> g_players g' = remove1 p (g_players g) \<and> p \<notin> set (g_players g')
        \<and> g_connection_map g' = (g_connection_map g)(c := None)
        \<and> (\<forall>m a amt. apply_action m c a amt g' = Ret g') \<and> (\<forall>m. remove_player m c g' = Ret g')"
  using remove_player_sound [OF assms(1), where c = c and n = n] assms wf_distinct [OF assms(1)]
  by (auto simp: apply_action_unfold remove_player_def get_player_def split: option.splits)

theorem leaver_gone_witness:
  "\<exists>g'. remove_player 20 1 sample_table = Ret g' \<and> g_players g' = [0]
    \<and> apply_action 20 1 Call None g' = Ret g'"
proof -
  have c: "g_connection_map sample_table 1 = Some 1" and pl: "remove1 1 (g_players sample_table) = [0]"
      "g_players sample_table = [0, 1]"
    by (simp_all add: sample_table_def)
  from remove_player_eq [OF sample_wf c] obtain i g2 where g2: "money_step (fold_leaver 1 sample_table) g2" and
    eq: "remove_player 20 1 sample_table = (let g3 = give_up_seat 1 1 i g2 in
       if remove1 1 (g_players sample_table) = []
       then Ret ((erase_player_state 1 1 g2)\<lparr>g_players := []\<rparr>)
       else if \<not> has_enough_players g3 then Ret g3
       else if count_active_players g3 = 1 then try_start_new_hand 20 g3
       else continue_after_player_left 20 (g_players sample_table ! g_current sample_table = 1) g3)"
    by metis
  have "g_players g2 = [0, 1]" using g2 pl by (simp add: money_step_def fold_leaver_def)
  then have "remove_player 20 1 sample_table = Ret (give_up_seat 1 1 i g2)"
    unfolding eq pl by (simp add: Let_def has_enough_players_def give_up_seat_fields)
  then show ?thesis using leaver_gone [OF sample_wf] c pl(1) by fastforce
qed

end
