(* ===== verification/Room.thy ===== *)
theory Room
  imports GameSafety
begin

text \<open>
  \<open>Room\<close> of \<open>server/include/game/room.h\<close> and \<open>server/src/game/room.cpp\<close>, and \<open>RemotePlayer\<close> of
  \<open>server/src/game/remote_player.cpp\<close>. A room has its players in the order in which they joined, a
  host, and a game while one is running. A connection (\<open>ConnectionPtr\<close>) is a natural number, and the
  \<open>RemotePlayer\<close> that \<open>start_game\<close> makes for a connection has the same number: a room never lists a
  connection twice (\<open>room_wf\<close>).

  What the rooms share with the rest of the server is the record \<open>world\<close>: the accounts database
  (\<open>user_repository_\<close>, \<open>None\<close> for the null pointer), what a connection answers to \<open>get_name\<close> and
  \<open>is_connected\<close>, the calls of \<open>IConnection::send\<close> so far, and the draws for the shuffles of the
  \<open>k\<close>-th game. A game works on the shared database, so a call hands it over and takes it back.
  Log lines are left out.
\<close>

section \<open>The database behind a game\<close>

definition repo_ok :: "database option \<Rightarrow> bool" where
  "repo_ok repo \<longleftrightarrow> (case repo of None \<Rightarrow> True | Some db \<Rightarrow> db_wf db)"

definition repo_keeps :: "database option \<Rightarrow> database option \<Rightarrow> bool" where
  "repo_keeps a b \<longleftrightarrow> (repo_ok a \<longrightarrow> repo_ok b) \<and> (a = None \<longleftrightarrow> b = None)"

lemma repo_keeps_refl [simp]: "repo_keeps a a"
  by (simp add: repo_keeps_def)

lemma repo_keeps_trans: "repo_keeps a b \<Longrightarrow> repo_keeps b c \<Longrightarrow> repo_keeps a c"
  by (auto simp: repo_keeps_def)

lemma repo_persist_player: "repo_keeps (g_repo g) (g_repo (persist_player_chips p g))"
  by (auto simp: persist_player_chips_def repo_keeps_def repo_ok_def update_wf split: option.splits)

lemma repo_persist_all: "repo_keeps (g_repo g) (g_repo (persist_all_chips g))"
proof -
  have "repo_keeps (g_repo g) (g_repo (fold persist_player_chips ps g))" for ps
  proof (induction ps arbitrary: g)
    case (Cons p ps)
    show ?case using repo_keeps_trans [OF repo_persist_player Cons] by simp
  qed simp
  then show ?thesis by (simp add: persist_all_chips_def)
qed

lemma repo_open_betting: "dealt g h \<Longrightarrow> repo_keeps (g_repo g) (g_repo (open_betting h))"
proof -
  assume "dealt g h"
  then have "g_repo h = g_repo g" by (auto simp: dealt_def reset_table_def)
  moreover have "g_repo (contribute p a k) = g_repo k" for p a k
    by (simp add: contribute_def mark_all_in_if_needed_def Let_def)
  moreover have "\<exists>k. open_betting h = persist_all_chips k \<and> g_repo k = g_repo (post_blinds h)"
    unfolding open_betting_def begin_betting_round_def Let_def by (rule exI, rule conjI, rule refl) simp
  ultimately obtain k where "open_betting h = persist_all_chips k" "g_repo k = g_repo g"
    by (auto simp: post_blinds_def Let_def)
  then show ?thesis using repo_persist_all [of k] by simp
qed

lemma repo_play: "play_action p a amt g = Inr g' \<Longrightarrow> g_repo g' = g_repo g"
  by (auto simp: play_action_def contribute_def mark_all_in_if_needed_def Let_def
      split: action.splits if_splits option.splits)

lemma repo_give_up: "g_repo (give_up_seat p c i g) = g_repo (persist_player_chips p g)"
  by (simp add: give_up_seat_def erase_player_state_def fix_indices_after_removal_def Let_def)

interpretation storage: table_invariant "\<lambda>g. repo_keeps a (g_repo g)" for a
proof (unfold_locales, goal_cases)
  case (8 g g')
  show ?case
  proof (cases "g_pot g = 0")
    case True
    then show ?thesis using 8 by (simp add: award_all_pots_def)
  next
    case False
    from award_all_pots_eq [OF 8(1) this] 8(3)
    have "g_repo g' \<in> {g_repo g, g_repo (persist_all_chips (g\<lparr>g_chips := stacks_after_award g\<rparr>))}" by auto
    then show ?thesis
      using 8(2) repo_keeps_trans [OF 8(2)] repo_persist_all [of "g\<lparr>g_chips := stacks_after_award g\<rparr>"] by auto
  qed
next
  case (9 g h)
  then show ?case using repo_open_betting [OF 9(4)] repo_keeps_trans by (simp add: advance_dealer_def)
next
  case (10 g aa amt g')
  then show ?case using repo_play [OF 10(4)]
    by (simp add: note_action_def broadcast_action_event_def send_all_eq record_player_action_def Let_def)
next
  case (12 g c p i)
  then show ?case using repo_keeps_trans [OF 12(2) repo_persist_player] by (simp add: repo_give_up)
qed (simp_all add: send_message_def send_error_def send_all_eq
    advance_to_next_player_def reset_bets_def with_board_def begin_betting_round_def fold_leaver_def Let_def)

text \<open>What a call may do: keep the database in order, and send no hole cards that must stay secret.\<close>

definition call_ok :: "database option \<Rightarrow> game \<Rightarrow> bool" where
  "call_ok a g \<longleftrightarrow> repo_keeps a (g_repo g) \<and> discreet_outbox g"

interpretation calls: table_invariant "call_ok a" for a
  unfolding call_ok_def by (rule table_invariant_conj) unfold_locales

section \<open>State\<close>

record world =
  w_repo :: "database option"
  w_name :: "cid \<Rightarrow> string"
  w_closed :: "cid set"
  w_registry :: "cid list option"
  w_draws :: "nat \<Rightarrow> nat \<Rightarrow> nat list"
  w_games :: nat
  w_outbox :: "(cid \<times> server_message) list"

record room =
  r_id :: u64
  r_name :: string
  r_max_players :: u8
  r_host :: cid
  r_players :: "cid list"
  r_game :: "game option"

definition new_room :: "u64 \<Rightarrow> string \<Rightarrow> u8 \<Rightarrow> cid \<Rightarrow> room" where
  "new_room room_id name max_players host =
     \<lparr>r_id = room_id, r_name = name, r_max_players = max_players, r_host = host, r_players = [],
      r_game = None\<rparr>"

text \<open>\<open>connection->send(msg)\<close>, and \<open>RemotePlayer::send_message\<close>, which asks \<open>is_connected\<close> first.\<close>

definition send_to :: "cid \<Rightarrow> server_message \<Rightarrow> world \<Rightarrow> world" where
  "send_to c msg w = w\<lparr>w_outbox := w_outbox w @ [(c, msg)]\<rparr>"

definition remote_player_send :: "pid \<times> server_message \<Rightarrow> world \<Rightarrow> world" where
  "remote_player_send pm w = (if fst pm \<notin> w_closed w then send_to (fst pm) (snd pm) w else w)"

text \<open>A call of a member function of the game: the database goes in and out, and the messages go to
  the connections behind the players.\<close>

definition game_call :: "(game \<Rightarrow> game result) \<Rightarrow> game \<Rightarrow> world \<Rightarrow> (game \<times> world) result" where
  "game_call f g w =
     map_r (\<lambda>g'. (g'\<lparr>g_outbox := []\<rparr>,
                   fold remote_player_send (g_outbox g') (w\<lparr>w_repo := g_repo g'\<rparr>)))
       (f (g\<lparr>g_repo := w_repo w, g_outbox := []\<rparr>))"

section \<open>Operations\<close>

fun bankrolls_loop :: "world \<Rightarrow> cid list \<Rightarrow> (string \<rightharpoonup> u32) \<Rightarrow> error_code + (string \<rightharpoonup> u32)" where
  "bankrolls_loop w [] bankrolls = Inr bankrolls"
| "bankrolls_loop w (c # cs) bankrolls =
     (let chips = (case w_repo w of
                     None \<Rightarrow> STARTING_CHIPS
                   | Some db \<Rightarrow> (case find_by_username db (w_name w c) of
                                    None \<Rightarrow> 0 | Some user \<Rightarrow> ur_chips user))
      in if chips < BIG_BLIND then Inl NotEnoughChips
         else bankrolls_loop w cs (bankrolls(w_name w c \<mapsto> chips)))"

definition load_player_bankrolls :: "room \<Rightarrow> world \<Rightarrow> error_code + (string \<rightharpoonup> u32)" where
  "load_player_bankrolls r w = bankrolls_loop w (r_players r) Map.empty"

definition get_all_players_names :: "room \<Rightarrow> world \<Rightarrow> string list" where
  "get_all_players_names r w = map (w_name w) (r_players r)"

definition is_game_started :: "room \<Rightarrow> bool" where
  "is_game_started r = (r_game r \<noteq> None)"

definition get_room_info :: "room \<Rightarrow> room_info" where
  "get_room_info r =
     \<lparr>ri_room_id = r_id r, ri_room_name = r_name r,
      ri_current_players = word_of_nat (length (r_players r)), ri_max_players = r_max_players r,
      ri_in_game = is_game_started r\<rparr>"

definition make_joined_room_message :: "room \<Rightarrow> world \<Rightarrow> joined_room" where
  "make_joined_room_message r w =
     \<lparr>jd_room_id = r_id r, jd_player_names = get_all_players_names r w,
      jd_host_name = w_name w (r_host r), jd_max_players = r_max_players r,
      jd_in_game = is_game_started r\<rparr>"

definition notify_all_about_joined :: "room \<Rightarrow> world \<Rightarrow> world" where
  "notify_all_about_joined r w =
     (let joined = make_joined_room_message r w
      in fold (\<lambda>c. send_to c (SJoinedRoom joined)) (r_players r) w)"

definition start_game :: "nat \<Rightarrow> room \<Rightarrow> world \<Rightarrow> (error_code option \<times> room \<times> world) result" where
  "start_game n r w =
     (if r_game r \<noteq> None then Ret (None, r, w)
      else case load_player_bankrolls r w of
        Inl error \<Rightarrow> Ret (Some error, r, w)
      | Inr bankrolls \<Rightarrow>
          let game_players = r_players r;
              connection_map = map_of (map (\<lambda>c. (c, c)) (r_players r));
              g = new_game game_players connection_map (w_repo w) bankrolls (w_name w)
                    (w_draws w (w_games w));
              w = w\<lparr>w_games := w_games w + 1\<rparr>
          in map_r (\<lambda>(g, w). (None, r\<lparr>r_game := Some g\<rparr>, w)) (game_call (start n) g w))"

definition try_start_game ::
  "nat \<Rightarrow> cid \<Rightarrow> room \<Rightarrow> world \<Rightarrow> (error_code option \<times> room \<times> world) result" where
  "try_start_game n requester r w =
     (if r_game r \<noteq> None then Ret (Some GameAlreadyStarted, r, w)
      else if requester \<noteq> r_host r then Ret (Some NotRoomHost, r, w)
      else if length (r_players r) < 2 then Ret (Some NotEnoughPlayers, r, w)
      else start_game n r w)"

definition room_add_player :: "nat \<Rightarrow> cid \<Rightarrow> room \<Rightarrow> world \<Rightarrow> (bool \<times> room \<times> world) result" where
  "room_add_player n c r w =
     (if r_game r \<noteq> None then Ret (False, r, w)
      else if length (r_players r) \<ge> unat (r_max_players r) then Ret (False, r, w)
      else
        let r = r\<lparr>r_players := r_players r @ [c]\<rparr>;
            w = notify_all_about_joined r w
        in if length (r_players r) = unat (r_max_players r)
           then map_r (\<lambda>(_, r, w). (True, r, w)) (start_game n r w)
           else Ret (True, r, w))"

text \<open>\<open>remove_player\<close>: the end of the function, after the game has been told, and the whole.\<close>

definition drop_player :: "cid \<Rightarrow> room \<Rightarrow> room" where
  "drop_player c r =
     (let r = r\<lparr>r_players := remove1 c (r_players r)\<rparr>
      in if c = r_host r \<and> r_players r \<noteq> [] then r\<lparr>r_host := hd (r_players r)\<rparr> else r)"

definition room_remove_player :: "nat \<Rightarrow> cid \<Rightarrow> room \<Rightarrow> world \<Rightarrow> (bool \<times> room \<times> world) result" where
  "room_remove_player n c r w =
     (if c \<notin> set (r_players r) then Ret (False, r, w)
      else
        bind_r (case r_game r of
                  None \<Rightarrow> Ret (r, w)
                | Some g \<Rightarrow>
                    map_r (\<lambda>(g, w). (r\<lparr>r_game := if has_enough_players g then Some g else None\<rparr>, w))
                      (game_call (remove_player n c) g w))
        (\<lambda>(r, w).
          let r = drop_player c r;
              w = (if r_players r \<noteq> [] then notify_all_about_joined r w else w)
          in Ret (True, r, w)))"

definition on_player_action ::
  "nat \<Rightarrow> cid \<Rightarrow> action \<Rightarrow> u32 option \<Rightarrow> room \<Rightarrow> world \<Rightarrow> (room \<times> world) result" where
  "on_player_action n c a amt r w =
     (case r_game r of
        None \<Rightarrow> Ret (r, w)
      | Some g \<Rightarrow>
          map_r (\<lambda>(g, w). (r\<lparr>r_game := Some g\<rparr>, w)) (game_call (apply_action n c a amt) g w))"

section \<open>The invariant\<close>

lemma same_room: "\<exists>g. r = r\<lparr>r_game := g\<rparr>"
  by (rule exI [of _ "r_game r"]) simp

text \<open>
  A game has exactly the players of the room, in the same order; nobody can be added while it runs.
  \<open>room_size_ok\<close> is what a room needs so that the deck suffices.
\<close>

definition game_of_room :: "room \<Rightarrow> game \<Rightarrow> bool" where
  "game_of_room r g \<longleftrightarrow> table_wf g \<and> g_players g = r_players r
     \<and> g_connection_map g = (\<lambda>c. if c \<in> set (r_players r) then Some c else None)
     \<and> 2 \<le> length (r_players r)"

definition room_wf :: "room \<Rightarrow> bool" where
  "room_wf r \<longleftrightarrow> distinct (r_players r) \<and> length (r_players r) \<le> unat (r_max_players r)
     \<and> (r_players r \<noteq> [] \<longrightarrow> r_host r \<in> set (r_players r))
     \<and> (case r_game r of None \<Rightarrow> True | Some g \<Rightarrow> game_of_room r g)"

definition room_size_ok :: "room \<Rightarrow> bool" where
  "room_size_ok r \<longleftrightarrow> unat (r_max_players r) \<le> max_seats"

lemma table_wf_repo [simp]: "table_wf (g\<lparr>g_repo := x, g_outbox := y\<rparr>) = table_wf g"
  "table_wf (g\<lparr>g_outbox := y\<rparr>) = table_wf g" "table_wf (g\<lparr>g_repo := x\<rparr>) = table_wf g"
  by (simp_all add: table_wf_def seated_def cards_ok_def cards_in_play_def seats_ok_def)

text \<open>What the calls leave alone in the world.\<close>

definition same_world :: "world \<Rightarrow> world \<Rightarrow> bool" where
  "same_world w w' \<longleftrightarrow> w_name w' = w_name w \<and> w_closed w' = w_closed w
     \<and> w_registry w' = w_registry w \<and> w_draws w' = w_draws w
     \<and> repo_keeps (w_repo w) (w_repo w')
     \<and> (\<exists>ms. w_outbox w' = w_outbox w @ ms \<and> (\<forall>cm \<in> set ms. discreet (snd cm)))"

lemma same_world_refl [simp]: "same_world w w"
  by (simp add: same_world_def)

lemma same_world_trans: "same_world w w' \<Longrightarrow> same_world w' w'' \<Longrightarrow> same_world w w''"
proof -
  assume a: "same_world w w'" and b: "same_world w' w''"
  obtain ms ns where "w_outbox w' = w_outbox w @ ms" "\<forall>cm \<in> set ms. discreet (snd cm)"
    "w_outbox w'' = w_outbox w' @ ns" "\<forall>cm \<in> set ns. discreet (snd cm)"
    using a b unfolding same_world_def by blast
  then have "w_outbox w'' = w_outbox w @ (ms @ ns)" "\<forall>cm \<in> set (ms @ ns). discreet (snd cm)" by (simp, force)
  moreover have "repo_keeps (w_repo w) (w_repo w'')" using a b repo_keeps_trans unfolding same_world_def by blast
  ultimately show ?thesis using a b unfolding same_world_def by (metis)
qed

lemma same_world_sends:
  assumes "\<And>x w. x \<in> set xs \<Longrightarrow> same_world w (f x w)"
  shows "same_world w (fold f xs w)"
  using assms
proof (induction xs arbitrary: w)
  case (Cons x xs)
  have "same_world (f x w) (fold f xs (f x w))" by (rule Cons.IH) (simp add: Cons.prems)
  moreover have "same_world w (f x w)" by (simp add: Cons.prems)
  ultimately show ?case using same_world_trans by simp
qed simp

lemma same_world_send: "discreet m \<Longrightarrow> same_world w (send_to c m w)"
  by (simp add: same_world_def send_to_def)

lemma discreet_other [simp]:
  "discreet (SJoinedRoom j)" "discreet (SRoomList l)" "discreet (SWelcome m)" "discreet (SLeftRoom lr)"
  by (simp_all add: discreet_def)

definition discreet_world :: "world \<Rightarrow> bool" where
  "discreet_world w \<longleftrightarrow> (\<forall>cm \<in> set (w_outbox w). discreet (snd cm))"

lemma same_world_discreet: "same_world w w' \<Longrightarrow> discreet_world w \<Longrightarrow> discreet_world w'"
  unfolding same_world_def discreet_world_def by (metis UnE set_append)

lemma discreet_world_simps [simp]:
  "discreet m \<Longrightarrow> discreet_world (send_to c m w) = discreet_world w"
  "discreet_world (w\<lparr>w_name := x1\<rparr>) = discreet_world w" "discreet_world (w\<lparr>w_registry := x2\<rparr>) = discreet_world w"
  "discreet_world (w\<lparr>w_closed := x3\<rparr>) = discreet_world w" "discreet_world (w\<lparr>w_repo := x4\<rparr>) = discreet_world w"
  "discreet_world (w\<lparr>w_closed := x3, w_registry := x2\<rparr>) = discreet_world w"
  "discreet_world (w\<lparr>w_name := x1, w_registry := x2\<rparr>) = discreet_world w"
  "discreet_world (w\<lparr>w_outbox := []\<rparr>)"
  by (auto simp: discreet_world_def send_to_def)

lemma same_world_remote: "discreet (snd pm) \<Longrightarrow> same_world w (remote_player_send pm w)"
  by (simp add: remote_player_send_def same_world_send)

lemma same_world_notify: "same_world w (notify_all_about_joined r w)"
  unfolding notify_all_about_joined_def Let_def by (rule same_world_sends) (simp add: same_world_send)

lemma notify_fields:
  "w_name (notify_all_about_joined r w) = w_name w" "w_repo (notify_all_about_joined r w) = w_repo w"
proof -
  have "w_name (fold (\<lambda>c. send_to c m) cs v) = w_name v \<and> w_repo (fold (\<lambda>c. send_to c m) cs v) = w_repo v"
    for m cs v by (induction cs arbitrary: v) (simp_all add: send_to_def)
  then show "w_name (notify_all_about_joined r w) = w_name w"
      "w_repo (notify_all_about_joined r w) = w_repo w"
    by (simp_all add: notify_all_about_joined_def Let_def)
qed

lemma same_world_fields: "repo_keeps (w_repo w) x \<Longrightarrow> same_world w (w\<lparr>w_repo := x\<rparr>)"
  "same_world w (w\<lparr>w_games := k\<rparr>)"
  by (simp_all add: same_world_def)

lemma game_call_Ret:
  assumes "game_call f g w = Ret (g', w')"
    and "keeps (call_ok (w_repo w)) (f (g\<lparr>g_repo := w_repo w, g_outbox := []\<rparr>))"
  shows "\<exists>h. f (g\<lparr>g_repo := w_repo w, g_outbox := []\<rparr>) = Ret h \<and> g' = h\<lparr>g_outbox := []\<rparr> \<and> same_world w w'"
proof -
  obtain h where h: "f (g\<lparr>g_repo := w_repo w, g_outbox := []\<rparr>) = Ret h" "g' = h\<lparr>g_outbox := []\<rparr>"
      "w' = fold remote_player_send (g_outbox h) (w\<lparr>w_repo := g_repo h\<rparr>)"
    using assms(1) unfolding game_call_def map_r_Ret_iff by auto
  have ok: "call_ok (w_repo w) h" using assms(2) unfolding h(1) by simp
  then have "same_world w (w\<lparr>w_repo := g_repo h\<rparr>)" using same_world_fields(1) by (simp add: call_ok_def)
  moreover have "same_world v (fold remote_player_send (g_outbox h) v)" for v
    by (rule same_world_sends, rule same_world_remote) (use ok in \<open>auto simp: call_ok_def discreet_outbox_def\<close>)
  ultimately have "same_world w w'" unfolding h(3) using same_world_trans by blast
  then show ?thesis using h by blast
qed

lemma game_call_Exn:
  "(\<And>e. f (g\<lparr>g_repo := w_repo w, g_outbox := []\<rparr>) \<noteq> Exn e) \<Longrightarrow> game_call f g w \<noteq> Exn e"
  by (cases "f (g\<lparr>g_repo := w_repo w, g_outbox := []\<rparr>)") (auto simp: game_call_def)

lemma connection_map_players: "map_of (map (\<lambda>c. (c, c)) cs) = (\<lambda>c. if c \<in> set cs then Some c else None)"
  by (induction cs) (auto simp: fun_eq_iff)

lemma room_seating:
  assumes "distinct cs" "2 \<le> length cs" "length cs \<le> max_seats"
  shows "valid_seating cs (map_of (map (\<lambda>c. (c, c)) cs))"
  using assms
  by (auto simp: valid_seating_def connection_map_players ran_def inj_on_def split: if_splits)

lemma start_game_cases:
  assumes "r_game r = None"
  obtains (refused) e where "start_game n r w = Ret (Some e, r, w)" "load_player_bankrolls r w = Inl e"
  | (played) b g where "load_player_bankrolls r w = Inr b"
      "g = new_game (r_players r) (map_of (map (\<lambda>c. (c, c)) (r_players r))) (w_repo w) b (w_name w)
         (w_draws w (w_games w))"
      "start_game n r w = map_r (\<lambda>(g, w). (None, r\<lparr>r_game := Some g\<rparr>, w))
         (game_call (start n) g (w\<lparr>w_games := w_games w + 1\<rparr>))"
  using assms by (cases "load_player_bankrolls r w") (auto simp: start_game_def Let_def)

text \<open>The games that a room can be running: those of a session of \<open>GameSessions\<close>.\<close>

lemma new_game_repo: "(new_game ps cm repo b nm ds)\<lparr>g_repo := x, g_outbox := []\<rparr> = new_game ps cm x b nm ds"
  by (simp add: new_game_def)

lemma start_game_wf:
  assumes wf: "room_wf r" "room_size_ok r" and n: "2 \<le> length (r_players r)"
  shows "(\<forall>e. start_game n r w \<noteq> Exn e)
    \<and> (\<forall>x r' w'. start_game n r w = Ret (x, r', w') \<longrightarrow>
        room_wf r' \<and> same_world w w' \<and> (\<exists>g. r' = r\<lparr>r_game := g\<rparr>))"
proof (cases "r_game r")
  case (Some g)
  then show ?thesis using wf same_room [of r] by (auto simp: start_game_def)
next
  case None
  note same = same_room [of r]
  show ?thesis
  proof (cases rule: start_game_cases [OF None, of n w])
    case (1 e)
    then show ?thesis using wf same by simp
  next
    case (2 b g)
    let ?w = "w\<lparr>w_games := w_games w + 1\<rparr>"
    let ?g = "g\<lparr>g_repo := w_repo ?w, g_outbox := []\<rparr>"
    have seating: "valid_seating (r_players r) (map_of (map (\<lambda>c. (c, c)) (r_players r)))"
      using wf n by (intro room_seating) (simp_all add: room_wf_def room_size_ok_def)
    have g: "seated ?g" "g_players ?g \<noteq> []" unfolding 2(2) new_game_repo using seated_new_game [OF seating] by simp_all
    have pl: "g_players ?g = r_players r"
        "g_connection_map ?g = (\<lambda>c. if c \<in> set (r_players r) then Some c else None)"
      by (simp_all add: 2(2) new_game_def connection_map_players)
    have sound: "sound ?g (start n ?g)" using g by (rule hand_sound(1))
    have repo: "keeps (call_ok (w_repo ?w)) (start n ?g)"
      using g by (rule calls.hand_keeps(1))
        (use repo_open_betting open_betting_outbox in \<open>fastforce simp: call_ok_def discreet_outbox_def\<close>)
    have "room_wf (r\<lparr>r_game := Some h\<rparr>)" if "start n ?g = Ret g'" "h = g'\<lparr>g_outbox := []\<rparr>" for g' h
      using sound that pl wf(1) n by (auto simp: room_wf_def game_of_room_def same_seats_def)
    moreover have "same_world w w'" if "same_world ?w w'" for w'
      using that same_world_fields(2) same_world_trans by blast
    moreover have "game_call (start n) g ?w \<noteq> Exn e" for e
      using sound by (intro game_call_Exn) (auto simp: sound_def)
    ultimately show ?thesis
      unfolding 2(3) using game_call_Ret [where f = "start n" and g = g and w = ?w, OF _ repo]
      by (cases "game_call (start n) g ?w") auto
  qed
qed

lemma try_start_game_wf:
  assumes wf: "room_wf r" "room_size_ok r"
  shows "(\<forall>e. try_start_game n c r w \<noteq> Exn e)
    \<and> (\<forall>x r' w'. try_start_game n c r w = Ret (x, r', w') \<longrightarrow>
        room_wf r' \<and> same_world w w' \<and> (\<exists>g. r' = r\<lparr>r_game := g\<rparr>))"
proof -
  note same = same_room [of r]
  show ?thesis
  proof (cases "r_game r = None \<and> c = r_host r \<and> 2 \<le> length (r_players r)")
    case True
    then have "try_start_game n c r w = start_game n r w" by (auto simp: try_start_game_def)
    then show ?thesis using start_game_wf [OF wf] True by simp
  next
    case False
    then have "\<exists>e. try_start_game n c r w = Ret (Some e, r, w)"
      by (auto simp: try_start_game_def not_le)
    then show ?thesis using wf same by auto
  qed
qed

lemma room_add_player_wf:
  assumes wf: "room_wf r" "room_size_ok r" "2 \<le> unat (r_max_players r)"
    and c: "c \<notin> set (r_players r)" "r_players r = [] \<Longrightarrow> c = r_host r"
  shows "(\<forall>e. room_add_player n c r w \<noteq> Exn e)
    \<and> (\<forall>x r' w'. room_add_player n c r w = Ret (x, r', w') \<longrightarrow>
        room_wf r' \<and> same_world w w' \<and> r_id r' = r_id r \<and> r_max_players r' = r_max_players r
        \<and> r_players r' = (if x then r_players r @ [c] else r_players r)
        \<and> (x \<longleftrightarrow> r_game r = None \<and> length (r_players r) < unat (r_max_players r)))"
proof (cases "r_game r = None \<and> length (r_players r) < unat (r_max_players r)")
  case False
  then show ?thesis using wf by (auto simp: room_add_player_def)
next
  case True
  let ?r = "r\<lparr>r_players := r_players r @ [c]\<rparr>"
  let ?w = "notify_all_about_joined ?r w"
  have wf': "room_wf ?r" "room_size_ok ?r"
    using wf c True by (auto simp: room_wf_def room_size_ok_def)
  have sw: "same_world w ?w" by (rule same_world_notify)
  show ?thesis
  proof (cases "length (r_players ?r) = unat (r_max_players r)")
    case full: True
    then have n: "2 \<le> length (r_players ?r)" using wf(3) by simp
    have eq: "room_add_player n c r w = map_r (\<lambda>(_, r, w). (True, r, w)) (start_game n ?r ?w)"
      using True full by (simp add: room_add_player_def Let_def)
    show ?thesis
      unfolding eq using start_game_wf [OF wf' n, of n ?w] same_world_trans [OF sw] True
      by (cases "start_game n ?r ?w") auto
  next
    case notfull: False
    have "room_add_player n c r w = Ret (True, ?r, ?w)"
      using True notfull by (simp add: room_add_player_def Let_def)
    then show ?thesis using wf' sw True by simp
  qed
qed

lemma drop_player_fields:
  "r_players (drop_player c r) = remove1 c (r_players r)" "r_id (drop_player c r) = r_id r"
  "r_max_players (drop_player c r) = r_max_players r" "r_game (drop_player c r) = r_game r"
  "r_host (drop_player c r) =
    (if c = r_host r \<and> remove1 c (r_players r) \<noteq> [] then hd (remove1 c (r_players r)) else r_host r)"
  by (auto simp: drop_player_def Let_def)

lemma drop_player_wf:
  assumes wf: "room_wf r" and "game_of_room (r\<lparr>r_players := remove1 c (r_players r)\<rparr>) g \<or> go = None"
    and "go = None \<or> go = Some g"
  shows "room_wf (drop_player c (r\<lparr>r_game := go\<rparr>))"
proof -
  let ?ps = "remove1 c (r_players r)"
  have "distinct ?ps" "length ?ps \<le> unat (r_max_players r)" "set ?ps = set (r_players r) - {c}"
    using wf by (auto simp: room_wf_def length_remove1)
  moreover have "r_host (drop_player c (r\<lparr>r_game := go\<rparr>)) \<in> set ?ps" if "?ps \<noteq> []"
  proof (cases "c = r_host r")
    case False
    then have "r_host r \<in> set ?ps" using wf that calculation(3) by (auto simp: room_wf_def)
    then show ?thesis using False by (simp add: drop_player_fields)
  qed (use that in \<open>simp add: drop_player_fields\<close>)
  moreover have "case go of None \<Rightarrow> True | Some g \<Rightarrow> game_of_room (r\<lparr>r_players := ?ps\<rparr>) g"
    using assms(2,3) by auto
  ultimately show ?thesis
    by (auto simp: room_wf_def drop_player_fields game_of_room_def split: option.splits)
qed

definition removal_ok :: "cid \<Rightarrow> room \<Rightarrow> world \<Rightarrow> bool \<times> room \<times> world \<Rightarrow> bool" where
  "removal_ok c r w res \<longleftrightarrow> (case res of (x, r', w') \<Rightarrow>
     room_wf r' \<and> same_world w w' \<and> r_id r' = r_id r \<and> r_max_players r' = r_max_players r
     \<and> r_players r' = remove1 c (r_players r) \<and> (x \<longleftrightarrow> c \<in> set (r_players r)))"

lemma removal_ok_drop:
  assumes "room_wf (drop_player c (r\<lparr>r_game := go\<rparr>))" "same_world w w1" "c \<in> set (r_players r)"
  shows "removal_ok c r w (True, drop_player c (r\<lparr>r_game := go\<rparr>),
    if r_players (drop_player c (r\<lparr>r_game := go\<rparr>)) \<noteq> []
    then notify_all_about_joined (drop_player c (r\<lparr>r_game := go\<rparr>)) w1 else w1)"
  using assms same_world_trans [OF assms(2) same_world_notify]
  by (simp add: removal_ok_def drop_player_fields)

text \<open>What the room keeps of a game that a player has left.\<close>

abbreviation game_left :: "room \<Rightarrow> game \<Rightarrow> room" where
  "game_left r g \<equiv> r\<lparr>r_game := if has_enough_players g then Some g else None\<rparr>"

lemma room_remove_playing:
  assumes "c \<in> set (r_players r)" "r_game r = Some g"
  shows "room_remove_player n c r w = map_r (\<lambda>(g, w). (True, drop_player c (game_left r g),
     if r_players (drop_player c (game_left r g)) \<noteq> [] then notify_all_about_joined (drop_player c (game_left r g)) w else w))
       (game_call (remove_player n c) g w)"
  using assms by (cases "game_call (remove_player n c) g w") (simp_all add: room_remove_player_def Let_def split: prod.split)

lemma game_after_leaving:
  assumes wf: "room_wf r" and c: "c \<in> set (r_players r)" and g: "r_game r = Some g"
  shows "game_call (remove_player n c) g w \<noteq> Exn e"
    "game_call (remove_player n c) g w = Ret (g1, w1) \<Longrightarrow> same_world w w1 \<and> room_wf (drop_player c (game_left r g1))"
proof -
  have gr: "game_of_room r g" using wf g by (simp add: room_wf_def)
  let ?g = "g\<lparr>g_repo := w_repo w, g_outbox := []\<rparr>"
  have conn: "g_connection_map ?g c = Some c" using gr c by (simp add: game_of_room_def)
  have wfg: "table_wf ?g" using gr by (simp add: game_of_room_def)
  have set: "set (remove1 c (r_players r)) = set (r_players r) - {c}" using wf by (simp add: room_wf_def)
  have res: "case remove_player n c ?g of
         Ret g' \<Rightarrow> table_wf g' \<and> g_players g' = remove1 c (r_players r)
           \<and> g_connection_map g' = (\<lambda>d. if d \<in> set (remove1 c (r_players r)) then Some d else None)
       | Exn e \<Rightarrow> False | NoFuel \<Rightarrow> True"
    using remove_player_sound [OF wfg, where c = c and n = n] conn gr set
    by (auto simp: game_of_room_def fun_eq_iff split: result.splits)
  then show "game_call (remove_player n c) g w \<noteq> Exn e" by (intro game_call_Exn) (auto split: result.splits)
  assume call: "game_call (remove_player n c) g w = Ret (g1, w1)"
  have "keeps (call_ok (w_repo w)) (remove_player n c ?g)"
    using wfg by (rule calls.remove_player_keeps) (simp add: call_ok_def discreet_outbox_def)
  from game_call_Ret [where f = "remove_player n c" and g = g and w = w, OF call this]
  obtain h where h: "remove_player n c ?g = Ret h" "g1 = h\<lparr>g_outbox := []\<rparr>" "same_world w w1" by blast
  have "room_wf (drop_player c (game_left r g1))"
    by (rule drop_player_wf [OF wf, of c g1]) (use res h in \<open>auto simp: has_enough_players_def game_of_room_def\<close>)
  with h(3) show "same_world w w1 \<and> room_wf (drop_player c (game_left r g1))" ..
qed

lemma room_remove_player_wf:
  assumes wf: "room_wf r"
  shows "(\<forall>e. room_remove_player n c r w \<noteq> Exn e)
    \<and> (\<forall>res. room_remove_player n c r w = Ret res \<longrightarrow> removal_ok c r w res)"
proof (cases "c \<in> set (r_players r)")
  case False
  then show ?thesis using wf by (auto simp: room_remove_player_def removal_ok_def remove1_idem)
next
  case True
  show ?thesis
  proof (cases "r_game r")
    case None
    have r: "r\<lparr>r_game := None\<rparr> = r" using None by simp
    have "room_remove_player n c r w = Ret (True, drop_player c r,
        if r_players (drop_player c r) \<noteq> [] then notify_all_about_joined (drop_player c r) w else w)"
      using True None by (simp add: room_remove_player_def Let_def)
    then show ?thesis
      using removal_ok_drop [where c = c and r = r and go = None and w = w and ?w1.0 = w, unfolded r]
        drop_player_wf [OF wf, where c = c and go = None, unfolded r] True
      by simp
  next
    case (Some g)
    note eq = room_remove_playing [OF True Some] and left = game_after_leaving [OF wf True Some]
    show ?thesis
    proof (cases "game_call (remove_player n c) g w")
      case (Ret gw)
      obtain g1 w1 where gw: "gw = (g1, w1)" by (cases gw)
      have "room_wf (drop_player c (game_left r g1))" "same_world w w1" using left(2) Ret gw by blast+
      then show ?thesis using removal_ok_drop [OF _ _ True] unfolding eq Ret gw by simp
    qed (use left(1) eq in auto)
  qed
qed

lemma on_player_action_wf:
  assumes wf: "room_wf r"
  shows "(\<forall>e. on_player_action n c a amt r w \<noteq> Exn e)
    \<and> (\<forall>r' w'. on_player_action n c a amt r w = Ret (r', w') \<longrightarrow>
        room_wf r' \<and> same_world w w' \<and> (\<exists>g. r' = r\<lparr>r_game := g\<rparr>))"
proof (cases "r_game r")
  case None
  then show ?thesis using wf same_room [of r] by (auto simp: on_player_action_def)
next
  case (Some g)
  then have g: "game_of_room r g" using wf by (simp add: room_wf_def)
  let ?g = "g\<lparr>g_repo := w_repo w, g_outbox := []\<rparr>"
  have wfg: "table_wf ?g" using g by (simp add: game_of_room_def)
  note res = apply_action_result [OF wfg, of n c a amt]
  have repo: "keeps (call_ok (w_repo w)) (apply_action n c a amt ?g)"
    using wfg by (rule calls.apply_action_keeps) (simp add: call_ok_def discreet_outbox_def)
  have "room_wf (r\<lparr>r_game := Some (h\<lparr>g_outbox := []\<rparr>)\<rparr>)" if "apply_action n c a amt ?g = Ret h" for h
    using res that g wf by (auto simp: room_wf_def game_of_room_def same_seats_def)
  moreover have "game_call (apply_action n c a amt) g w \<noteq> Exn e" for e
    using res by (intro game_call_Exn) simp
  ultimately show ?thesis
    using Some game_call_Ret [where f = "apply_action n c a amt" and g = g and w = w, OF _ repo]
    by (cases "game_call (apply_action n c a amt) g w") (auto simp: on_player_action_def)
qed

section \<open>Claims\<close>

text \<open>
  C16. The room invariant: joining, leaving, the host's start and the players' actions keep a room
  consistent: no player twice, never more players than its size, the host is one of them, and a
  running game has exactly the room's players in the same order, each connection playing for
  itself. With at most 23 places no call throws, whatever is sent; leaving removes the player and
  nobody else, and joining succeeds exactly while no game runs and a place is free.
\<close>

theorem room_invariant:
  assumes "room_wf r" "room_size_ok r" "2 \<le> unat (r_max_players r)"
    and "c \<notin> set (r_players r)" "r_players r = [] \<longrightarrow> c = r_host r"
  shows "(case room_add_player n c r w of
        Ret (joined, r', w') \<Rightarrow> room_wf r' \<and> (joined \<longleftrightarrow> r_game r = None \<and> length (r_players r) < unat (r_max_players r))
          \<and> r_players r' = (if joined then r_players r @ [c] else r_players r)
      | Exn e \<Rightarrow> False | NoFuel \<Rightarrow> True)
    \<and> (case room_remove_player n d r w of
        Ret (left, r', w') \<Rightarrow> room_wf r' \<and> (left \<longleftrightarrow> d \<in> set (r_players r)) \<and> r_players r' = remove1 d (r_players r)
      | Exn e \<Rightarrow> False | NoFuel \<Rightarrow> True)
    \<and> (case try_start_game n d r w of
        Ret (err, r', w') \<Rightarrow> room_wf r' \<and> r_players r' = r_players r | Exn e \<Rightarrow> False | NoFuel \<Rightarrow> True)
    \<and> (case on_player_action n d a amt r w of
        Ret (r', w') \<Rightarrow> room_wf r' \<and> r_players r' = r_players r | Exn e \<Rightarrow> False | NoFuel \<Rightarrow> True)"
proof (intro conjI)
  have add: "(\<forall>e. room_add_player n c r w \<noteq> Exn e)
    \<and> (\<forall>x r' w'. room_add_player n c r w = Ret (x, r', w') \<longrightarrow>
        room_wf r' \<and> same_world w w' \<and> r_id r' = r_id r \<and> r_max_players r' = r_max_players r
        \<and> r_players r' = (if x then r_players r @ [c] else r_players r)
        \<and> (x \<longleftrightarrow> r_game r = None \<and> length (r_players r) < unat (r_max_players r)))"
    by (rule room_add_player_wf [OF assms(1-4)]) (use assms(5) in blast)
  show "case room_add_player n c r w of
        Ret (joined, r', w') \<Rightarrow> room_wf r' \<and> (joined \<longleftrightarrow> r_game r = None \<and> length (r_players r) < unat (r_max_players r))
          \<and> r_players r' = (if joined then r_players r @ [c] else r_players r)
      | Exn e \<Rightarrow> False | NoFuel \<Rightarrow> True"
  proof (rule result_case)
    fix res assume "room_add_player n c r w = Ret res"
    then show "case res of (joined, r', w') \<Rightarrow> room_wf r'
        \<and> (joined \<longleftrightarrow> r_game r = None \<and> length (r_players r) < unat (r_max_players r))
        \<and> r_players r' = (if joined then r_players r @ [c] else r_players r)"
      using add by (cases res) blast
  qed (use add in blast)
  show "case room_remove_player n d r w of
        Ret (left, r', w') \<Rightarrow> room_wf r' \<and> (left \<longleftrightarrow> d \<in> set (r_players r)) \<and> r_players r' = remove1 d (r_players r)
      | Exn e \<Rightarrow> False | NoFuel \<Rightarrow> True"
    by (rule result_case) (use room_remove_player_wf [OF assms(1), of n d w] in \<open>auto simp: removal_ok_def\<close>)
  show "case try_start_game n d r w of
        Ret (err, r', w') \<Rightarrow> room_wf r' \<and> r_players r' = r_players r | Exn e \<Rightarrow> False | NoFuel \<Rightarrow> True"
    by (rule result_case) (use try_start_game_wf [OF assms(1,2), of n d w] in fastforce)+
  show "case on_player_action n d a amt r w of
        Ret (r', w') \<Rightarrow> room_wf r' \<and> r_players r' = r_players r | Exn e \<Rightarrow> False | NoFuel \<Rightarrow> True"
    by (rule result_case) (use on_player_action_wf [OF assms(1), of n d a amt w] in fastforce)+
qed

definition sample_world :: world where
  "sample_world = \<lparr>w_repo = None, w_name = sample_name, w_closed = {}, w_registry = Some [0, 1],
     w_draws = (\<lambda>_ _. []), w_games = 0, w_outbox = []\<rparr>"

theorem room_invariant_witness:
  "case room_add_player 20 1 ((new_room 7 ''table'' 6 0)\<lparr>r_players := [0]\<rparr>) sample_world of
     Ret (joined, r, w) \<Rightarrow> joined \<and> room_wf r \<and> r_players r = [0, 1] | _ \<Rightarrow> False"
proof -
  define r where "r = (new_room 7 ''table'' 6 0)\<lparr>r_players := [0]\<rparr>"
  have r: "r_players r = [0]" "r_max_players r = 6" "r_host r = 0" "r_game r = None"
    by (simp_all add: r_def new_room_def)
  have "room_wf r" "room_size_ok r" by (simp_all add: room_wf_def room_size_ok_def r max_seats_def)
  moreover have "room_add_player 20 1 r sample_world \<noteq> NoFuel"
    by (simp add: room_add_player_def r Let_def)
  ultimately show ?thesis
    using room_invariant [of r 1 20 sample_world 0 Call None] unfolding r_def [symmetric]
    by (auto simp: r split: result.splits)
qed

text \<open>The chips with which a player sits down: the balance of the account, 0 without one.\<close>

definition account_chips :: "world \<Rightarrow> string \<Rightarrow> u32" where
  "account_chips w name = (case w_repo w of
     None \<Rightarrow> STARTING_CHIPS
   | Some db \<Rightarrow> (case find_by_username db name of None \<Rightarrow> 0 | Some user \<Rightarrow> ur_chips user))"

lemma bankrolls_loop_eq:
  "bankrolls_loop w cs b =
     (if \<exists>c \<in> set cs. account_chips w (w_name w c) < BIG_BLIND then Inl NotEnoughChips
      else Inr (\<lambda>nm. if nm \<in> w_name w ` set cs then Some (account_chips w nm) else b nm))"
proof (induction cs arbitrary: b)
  case (Cons c cs)
  show ?case
    by (simp add: Cons.IH Let_def account_chips_def [symmetric]) (auto simp: fun_eq_iff)
qed simp

text \<open>
  Starting a game: it takes the host, at least two players, no running game, and for every player
  an account with at least the big blind; otherwise the answer is the error of the first rule broken
  and nothing changes. A game that starts has every player of the room at the table, and each one
  sits down with the balance of the account.
\<close>

lemma start_rules:
  "try_start_game n c r w =
     (if r_game r \<noteq> None then Ret (Some GameAlreadyStarted, r, w)
      else if c \<noteq> r_host r then Ret (Some NotRoomHost, r, w)
      else if length (r_players r) < 2 then Ret (Some NotEnoughPlayers, r, w)
      else if \<exists>p \<in> set (r_players r). account_chips w (w_name w p) < BIG_BLIND
      then Ret (Some NotEnoughChips, r, w)
      else
        map_r (\<lambda>(g, w). (None, r\<lparr>r_game := Some g\<rparr>, w))
          (game_call (start n)
            (new_game (r_players r) (\<lambda>p. if p \<in> set (r_players r) then Some p else None) (w_repo w)
               (\<lambda>nm. if nm \<in> w_name w ` set (r_players r) then Some (account_chips w nm) else None)
               (w_name w) (w_draws w (w_games w)))
            (w\<lparr>w_games := w_games w + 1\<rparr>)))
    \<and> (\<forall>p \<in> set (r_players r). initial_stack
          (\<lambda>nm. if nm \<in> w_name w ` set (r_players r) then Some (account_chips w nm) else None) (w_name w) p
        = account_chips w (w_name w p))"
  by (simp add: try_start_game_def start_game_def load_player_bankrolls_def bankrolls_loop_eq
      connection_map_players initial_stack_def getd_def Let_def)

lemma deal_hands_exhausted:
  "length (m_cards (g_deck g)) < 2 * length ps \<Longrightarrow> deal_hands ps g = Exn OutOfRange"
proof (induction ps arbitrary: g)
  case (Cons p ps)
  show ?case
  proof (cases "2 \<le> length (m_cards (g_deck g))")
    case True
    then obtain hand d where d: "deal 2 (g_deck g) = Ret (hand, d)" using deal_Ex by blast
    have "length (m_cards d) + 2 = length (m_cards (g_deck g))" using deal_lengths [OF d] True by simp
    then show ?thesis using Cons d by (simp add: seat_player_eq)
  next
    case False
    then show ?thesis by (simp add: deal_def deck_size_def)
  qed
qed simp

lemma start_exhausted:
  assumes "27 \<le> length (g_players g)"
  shows "start (Suc n) g = Exn OutOfRange"
proof -
  have "length (m_cards (g_deck (reset_table g))) = 52"
    by (simp add: reset_table_def shuffle_def length_new_deck)
  then have "deal_hands (g_players g) (reset_table g) = Exn OutOfRange"
    using assms by (intro deal_hands_exhausted) simp
  then show ?thesis by (simp add: start_hand_def)
qed

text \<open>
  C23. A room too large for the deck: the size of a room has no upper bound in the code, so when a room
  of 27 or more places fills up, the automatic start deals from an empty deck and throws, out of every
  handler of the server.
\<close>

theorem oversized_room_throws:
  assumes "27 \<le> unat (r_max_players r)" "Suc (length (r_players r)) = unat (r_max_players r)"
    and "r_game r = None" "\<forall>p \<in> set (c # r_players r). account_chips w (w_name w p) \<ge> BIG_BLIND"
  shows "room_add_player (Suc n) c r w = Exn OutOfRange"
proof -
  let ?r = "r\<lparr>r_players := r_players r @ [c]\<rparr>"
  let ?w = "notify_all_about_joined ?r w"
  have w: "w_name ?w = w_name w" "w_repo ?w = w_repo w" by (rule notify_fields)+
  have eq: "room_add_player (Suc n) c r w = map_r (\<lambda>(_, r, w). (True, r, w)) (start_game (Suc n) ?r ?w)"
    using assms(2,3) by (simp add: room_add_player_def Let_def)
  have "\<exists>b. load_player_bankrolls ?r ?w = Inr b"
    using assms(4) by (auto simp: load_player_bankrolls_def bankrolls_loop_eq w account_chips_def not_less)
  then obtain b where b: "load_player_bankrolls ?r ?w = Inr b" by blast
  let ?g = "new_game (r_players ?r) (map_of (map (\<lambda>c. (c, c)) (r_players ?r))) (w_repo ?w) b (w_name ?w)
         (w_draws ?w (w_games ?w))"
  have "start (Suc n) (?g\<lparr>g_repo := x, g_outbox := []\<rparr>) = Exn OutOfRange" for x
    unfolding new_game_repo using assms(1,2) by (intro start_exhausted) (simp add: new_game_def)
  then have "start_game (Suc n) ?r ?w = Exn OutOfRange"
    using assms(3) b by (simp add: start_game_def game_call_def Let_def del: start.simps)
  then show ?thesis by (simp add: eq)
qed

theorem oversized_room_throws_witness:
  "room_add_player 1 26 ((new_room 7 ''big'' 27 0)\<lparr>r_players := [0..<26]\<rparr>) sample_world = Exn OutOfRange"
  using oversized_room_throws [of "(new_room 7 ''big'' 27 0)\<lparr>r_players := [0..<26]\<rparr>" 26 sample_world 0]
  by (simp add: new_room_def account_chips_def sample_world_def STARTING_CHIPS_def BIG_BLIND_def del: upt_Suc)

end
