(* ===== verification/GameBooks.thy ===== *)
theory GameBooks
  imports Room
begin

text \<open>
  The books behind a table: what the accounts database says about the players and about everybody else
  while a game writes stacks to it. The accounts hold the chips of those who do not sit at the table; what
  the table holds and what the accounts of its players say are both within what the players brought. So
  whatever is stored when, the balances of all accounts together never grow.
\<close>

section \<open>The sum of the accounts\<close>

definition banked :: "database \<Rightarrow> string \<Rightarrow> u32" where
  "banked d n = getd 0 (balance d) n"

text \<open>All accounts but those whose name, in lower case, is in \<open>K\<close>.\<close>

definition account_sum :: "string set \<Rightarrow> database \<Rightarrow> nat" where
  "account_sum K d = nsum (banked d) (filter (\<lambda>n. nocase n \<notin> K) (account_names d))"

lemma balance_nocase: "nocase n = nocase m \<Longrightarrow> balance d n = balance d m"
proof -
  assume "nocase n = nocase m"
  then have "select_user d n = select_user d m"
    by (cases "users_of d") (simp_all add: select_user_def nocase_eq_def)
  then show ?thesis by (simp add: balance_def find_by_username_def)
qed

lemma banked_nocase: "nocase n = nocase m \<Longrightarrow> banked d n = banked d m"
  using balance_nocase [of n m d] by (simp add: banked_def getd_def)

lemma balance_None: "db_wf d \<Longrightarrow> balance d n = None \<longleftrightarrow> nocase n \<notin> nocase ` set (account_names d)"
proof -
  assume "db_wf d"
  then obtain us where us: "db_users d = Some us" "users_of d = Some us" by (elim db_wfE)
  then have "balance d n = None \<longleftrightarrow> List.find (\<lambda>r. nocase_eq (u_username r) n) us = None"
    by (simp add: balance_def find_by_username_def select_user_def split: option.split)
  also have "\<dots> \<longleftrightarrow> nocase n \<notin> nocase ` set (account_names d)"
    using us(1) by (simp add: find_None_iff nocase_eq_def account_names_def image_image) (metis image_iff)
  finally show ?thesis .
qed

lemma distinct_accounts: "db_wf d \<Longrightarrow> distinct (map nocase (account_names d))"
  by (elim db_wfE) (simp add: account_names_def rows_ok_def comp_def)

lemma account_names_create:
  assumes "db_wf d" "create_user pbkdf2 rnd d n p c = Ret (d', Created)"
  shows "account_names d' = account_names d @ [n]"
  using assms by (elim db_wfE) (auto simp: create_user_def bind_r_Ret_iff account_names_def split: if_splits)

lemma nsum_insert_key:
  assumes "distinct (map nocase ns)" "nocase n \<notin> K" "\<And>m. nocase m = nocase n \<Longrightarrow> f m = f n"
  shows "nsum f (filter (\<lambda>m. nocase m \<notin> K) ns)
    = nsum f (filter (\<lambda>m. nocase m \<notin> insert (nocase n) K) ns) + (if nocase n \<in> nocase ` set ns then unat (f n) else 0)"
  using assms(1)
proof (induction ns)
  case (Cons m ns)
  show ?case
  proof (cases "nocase m = nocase n")
    case True
    then have "nocase n \<notin> nocase ` set ns" using Cons.prems by auto
    then show ?thesis using Cons True assms(2) assms(3) [OF True] by simp
  next
    case False
    then have "nocase n \<noteq> nocase m" by simp
    then show ?thesis using Cons False by simp
  qed
qed simp

lemma account_sum_insert:
  assumes "db_wf d" "nocase n \<notin> K"
  shows "account_sum K d = account_sum (insert (nocase n) K) d + unat (banked d n)"
proof -
  have *: "banked d n = 0" if "nocase n \<notin> nocase ` set (account_names d)"
    using that balance_None [OF assms(1), of n] by (simp add: banked_def getd_def)
  then show ?thesis
    unfolding account_sum_def using *
    by (subst nsum_insert_key [OF distinct_accounts [OF assms(1)] assms(2)])
      (erule banked_nocase, simp)
qed

lemma account_sum_names:
  assumes "db_wf d"
  shows "distinct (map nocase ns) \<Longrightarrow> nocase ` set ns \<inter> K = {} \<Longrightarrow>
    account_sum K d = account_sum (nocase ` set ns \<union> K) d + nsum (banked d) ns"
proof (induction ns)
  case (Cons n ns)
  have "account_sum (nocase ` set ns \<union> K) d = account_sum (insert (nocase n) (nocase ` set ns \<union> K)) d + unat (banked d n)"
    using Cons.prems by (intro account_sum_insert [OF assms]) auto
  then show ?case using Cons by simp
qed simp

text \<open>A change of the balances of the accounts in \<open>K\<close> only.\<close>

definition same_accounts :: "string set \<Rightarrow> database \<Rightarrow> database \<Rightarrow> bool" where
  "same_accounts K d d' \<longleftrightarrow> db_wf d' \<and> account_names d' = account_names d
     \<and> (\<forall>n. nocase n \<notin> K \<longrightarrow> banked d' n = banked d n)"

lemma same_accounts_refl [simp]: "same_accounts K d d = db_wf d"
  by (simp add: same_accounts_def)

lemma same_accounts_trans: "same_accounts K a b \<Longrightarrow> same_accounts K b c \<Longrightarrow> same_accounts K a c"
  by (simp add: same_accounts_def)

lemma same_accounts_mono: "same_accounts K a b \<Longrightarrow> K \<subseteq> L \<Longrightarrow> same_accounts L a b"
  by (auto simp: same_accounts_def)

lemma same_accounts_sum:
  assumes "same_accounts K d d'" "K \<subseteq> S"
  shows "account_sum S d' = account_sum S d"
proof -
  have "account_names d' = account_names d" using assms(1) by (simp add: same_accounts_def)
  moreover have "nsum (banked d') (filter (\<lambda>n. nocase n \<notin> S) ns) = nsum (banked d) (filter (\<lambda>n. nocase n \<notin> S) ns)" for ns
    using assms by (intro nsum_cong) (auto simp: same_accounts_def)
  ultimately show ?thesis by (simp add: account_sum_def)
qed

lemma same_accounts_balance:
  assumes "same_accounts K d d'" "db_wf d"
  shows "balance d' n = None \<longleftrightarrow> balance d n = None"
  using assms balance_None by (auto simp: same_accounts_def)

section \<open>Storing the stacks\<close>

lemma persist_stores:
  assumes "g_repo g = Some d" "\<forall>p \<in> set ps. g_chips g p \<noteq> None"
  shows "g_repo (fold persist_player_chips ps g)
    = Some (accounts.store_all (map (\<lambda>p. (g_name g p, chips_of g p)) ps) d)"
  using assms
proof (induction ps arbitrary: g d)
  case (Cons p ps)
  obtain c where c: "g_chips g p = Some c" using Cons.prems(2) by auto
  let ?g = "persist_player_chips p g" and ?d = "fst (update_chips d (g_name g p) c)"
  have g: "g_repo ?g = Some ?d" "g_chips ?g = g_chips g" "g_name ?g = g_name g"
    using Cons.prems(1) c by (simp_all add: persist_player_chips_def)
  show ?case using Cons.IH [OF g(1)] Cons.prems(2) g c by (simp add: accounts.store_all_def getd_def)
qed (simp add: accounts.store_all_def)

lemma store_all_accounts:
  assumes "db_wf d" "nocase ` fst ` set ncs \<subseteq> K"
  shows "same_accounts K d (accounts.store_all ncs d)"
  using assms
proof (induction ncs arbitrary: d)
  case (Cons nc ncs)
  obtain n c where nc: "nc = (n, c)" by (cases nc)
  let ?d = "fst (update_chips d n c)"
  have "same_accounts K d ?d"
    using Cons.prems nc
    by (auto simp: same_accounts_def update_wf account_names_update banked_def getd_def balance_update nocase_eq_def)
  moreover have "same_accounts K ?d (accounts.store_all ncs ?d)"
    using Cons.prems nc by (intro Cons.IH update_wf) auto
  ultimately show ?case using same_accounts_trans nc by (simp add: accounts.store_all_def)
qed (simp add: accounts.store_all_def)

abbreviation seat_keys :: "game \<Rightarrow> string set" where
  "seat_keys g \<equiv> (\<lambda>p. nocase (g_name g p)) ` set (g_players g)"

text \<open>Different players have different accounts, and each has one.\<close>

definition own_accounts :: "database \<Rightarrow> game \<Rightarrow> bool" where
  "own_accounts d g \<longleftrightarrow> inj_on (\<lambda>p. nocase (g_name g p)) (set (g_players g))
     \<and> (\<forall>p \<in> set (g_players g). balance d (g_name g p) \<noteq> None)"

lemma persist_books:
  assumes d: "g_repo g = Some d" "db_wf d" and own: "own_accounts d g"
    and ps: "set ps \<subseteq> set (g_players g)" "\<forall>p \<in> set ps. g_chips g p \<noteq> None"
  shows "\<exists>d'. g_repo (fold persist_player_chips ps g) = Some d'
    \<and> same_accounts ((\<lambda>p. nocase (g_name g p)) ` set ps) d d'
    \<and> (\<forall>p \<in> set ps. banked d' (g_name g p) = chips_of g p)"
proof -
  let ?ncs = "map (\<lambda>p. (g_name g p, chips_of g p)) ps"
  have "banked (accounts.store_all ?ncs d) (g_name g p) = chips_of g p" if p: "p \<in> set ps" for p
  proof -
    have "balance (accounts.store_all ?ncs d) (g_name g p) = Some (chips_of g p)"
    proof (rule accounts.lookup_store_all [OF d(2)])
      show "(g_name g p, chips_of g p) \<in> set ?ncs" using p by auto
      show "nocase_eq (g_name g p) (g_name g p)" by (simp add: nocase_eq_def)
      show "balance d (g_name g p) \<noteq> None" using own p ps(1) by (auto simp: own_accounts_def)
      have "q = p" if "q \<in> set ps" "nocase (g_name g q) = nocase (g_name g p)" for q
        using own ps(1) p that unfolding own_accounts_def inj_on_def by blast
      then show "\<forall>(n', c') \<in> set ?ncs. nocase_eq n' (g_name g p) \<longrightarrow> c' = chips_of g p"
        by (auto simp: nocase_eq_def)
    qed
    then show ?thesis by (simp add: banked_def getd_def)
  qed
  then show ?thesis
    using persist_stores [OF d(1) ps(2)] store_all_accounts [OF d(2), of ?ncs "(\<lambda>p. nocase (g_name g p)) ` set ps"]
    by (auto simp: image_image)
qed

section \<open>The books of a table\<close>

text \<open>\<open>T\<close> is what the players of a table brought and have not taken away: neither the chips on the table nor the
  accounts of its players are more than that. No stack is above the account behind it.\<close>

definition table_books :: "database \<Rightarrow> nat \<Rightarrow> game \<Rightarrow> bool" where
  "table_books d T g \<longleftrightarrow> own_accounts d g \<and> chips_within T g
     \<and> nsum (\<lambda>p. banked d (g_name g p)) (g_players g) \<le> T
     \<and> (\<forall>p \<in> set (g_players g). chips_of g p \<le> banked d (g_name g p))"

text \<open>A call of the game started with the accounts \<open>d0\<close>; it may change those in \<open>K\<close>, and those in \<open>B\<close> are counted
  elsewhere. All other accounts and the table together hold at most \<open>C\<close>.\<close>

definition kept_books :: "string set \<Rightarrow> string set \<Rightarrow> database \<Rightarrow> nat \<Rightarrow> game \<Rightarrow> bool" where
  "kept_books B K d0 C g \<longleftrightarrow> db_wf d0 \<and> C < 2 ^ 32 - 1 \<and> B \<inter> K = {} \<and> seat_keys g \<subseteq> K
     \<and> (\<exists>d T. g_repo g = Some d \<and> same_accounts K d0 d \<and> table_books d T g
          \<and> account_sum (seat_keys g \<union> B) d + T \<le> C)"

lemma kept_booksE:
  assumes "kept_books B K d0 C g"
  obtains d T where "g_repo g = Some d" "same_accounts K d0 d" "db_wf d" "own_accounts d g" "chips_within T g"
    "nsum (\<lambda>p. banked d (g_name g p)) (g_players g) \<le> T"
    "\<forall>p \<in> set (g_players g). chips_of g p \<le> banked d (g_name g p)"
    "account_sum (seat_keys g \<union> B) d + T \<le> C" "T < 2 ^ 32 - 1" "B \<inter> seat_keys g = {}"
proof -
  obtain d T where d: "g_repo g = Some d" "same_accounts K d0 d" "table_books d T g"
    and sum: "account_sum (seat_keys g \<union> B) d + T \<le> C" and K: "C < 2 ^ 32 - 1" "B \<inter> K = {}" "seat_keys g \<subseteq> K"
    using assms unfolding kept_books_def by blast
  have "db_wf d" using d(2) by (simp add: same_accounts_def)
  moreover have "T < 2 ^ 32 - 1" "B \<inter> seat_keys g = {}" using sum K by auto
  ultimately show ?thesis using that [OF d(1,2), of T] d(3) sum unfolding table_books_def by blast
qed

lemma kept_books_less:
  assumes k: "kept_books B K d0 C g" and same: "g_repo g' = g_repo g" "g_name g' = g_name g" "g_players g' = g_players g"
    and chips: "\<And>T. T < 2 ^ 32 - 1 \<Longrightarrow> chips_within T g \<Longrightarrow> chips_within T g'"
    and less: "\<And>p. p \<in> set (g_players g) \<Longrightarrow> chips_of g' p \<le> chips_of g p"
  shows "kept_books B K d0 C g'"
proof -
  obtain d T where b: "g_repo g = Some d" "same_accounts K d0 d" "db_wf d" "own_accounts d g" "chips_within T g"
    "nsum (\<lambda>p. banked d (g_name g p)) (g_players g) \<le> T"
    "\<forall>p \<in> set (g_players g). chips_of g p \<le> banked d (g_name g p)"
    "account_sum (seat_keys g \<union> B) d + T \<le> C" "T < 2 ^ 32 - 1"
    using k by (rule kept_booksE)
  have "\<forall>p \<in> set (g_players g). chips_of g' p \<le> banked d (g_name g p)" using b(7) less order_trans by blast
  then have "table_books d T g'"
    using b(4,6) chips [OF b(9,5)] by (simp add: table_books_def own_accounts_def same)
  then show ?thesis using k b(1,2,8) unfolding kept_books_def same by blast
qed

lemma kept_books_cong:
  assumes "g_repo g' = g_repo g" "g_name g' = g_name g" "g_players g' = g_players g" "g_chips g' = g_chips g"
    "g_contributed g' = g_contributed g" "g_pot g' = g_pot g"
  shows "kept_books B K d0 C g \<Longrightarrow> kept_books B K d0 C g'"
  by (erule kept_books_less) (use assms within_cong [of g' g] in simp_all)

text \<open>All stacks are stored: the accounts of the players say what the table holds.\<close>

lemma kept_books_stored:
  assumes d: "g_repo g = Some d" "same_accounts K d0 d" "own_accounts d g" "db_wf d0"
    and seats: "\<forall>p \<in> set (g_players g). g_chips g p \<noteq> None"
    and chips: "chips_within T g" "account_sum (seat_keys g \<union> B) d + T \<le> C"
    and K: "C < 2 ^ 32 - 1" "B \<inter> K = {}" "seat_keys g \<subseteq> K"
  shows "kept_books B K d0 C (persist_all_chips g)"
proof -
  let ?g = "persist_all_chips g"
  have wf: "db_wf d" using d(2) by (simp add: same_accounts_def)
  obtain d' where d': "g_repo ?g = Some d'" "same_accounts (seat_keys g) d d'"
    "\<forall>p \<in> set (g_players g). banked d' (g_name g p) = chips_of g p"
    using persist_books [OF d(1) wf d(3) _ seats] unfolding persist_all_chips_def by blast
  obtain b r where "?g = g\<lparr>g_bankrolls := b, g_repo := r\<rparr>" using persist_all_eq by blast
  then have f: "g_players ?g = g_players g" "g_name ?g = g_name g" "g_chips ?g = g_chips g"
    "g_contributed ?g = g_contributed g" "g_pot ?g = g_pot g" by simp_all
  have "nsum (\<lambda>p. banked d' (g_name g p)) (g_players g) = nsum (chips_of g) (g_players g)"
    using d'(3) by (intro nsum_cong) blast
  then have "nsum (\<lambda>p. banked d' (g_name g p)) (g_players g) \<le> T"
    using chips(1) by (simp add: chips_within_def table_chips_def)
  moreover have "own_accounts d' g" using d(3) same_accounts_balance [OF d'(2) wf] by (simp add: own_accounts_def)
  ultimately have "table_books d' T ?g"
    using d'(3) chips(1) within_cong [of ?g g] f by (simp add: table_books_def own_accounts_def)
  moreover have "account_sum (seat_keys g \<union> B) d' = account_sum (seat_keys g \<union> B) d"
    using d'(2) by (rule same_accounts_sum) blast
  moreover have "same_accounts K d0 d'" using d(2) same_accounts_mono [OF d'(2) K(3)] same_accounts_trans by blast
  ultimately show ?thesis using d'(1) chips(2) K d(4) unfolding kept_books_def f by auto
qed

subsection \<open>The steps\<close>

lemma award_pot_unpaid:
  assumes "award_pot pot aw = Ret aw'" "aw_names aw' = []"
  shows "aw' = aw"
proof -
  have one: "aw_names b \<noteq> []" if "pay_share a w aw = Ret b" for a w aw b
    using that by (auto simp: pay_share_def Let_def map_r_Ret_iff split: if_splits)
  have more: "aw_names b \<noteq> []" if "pay_shares a ws aw = Ret b" "ws \<noteq> [] \<or> aw_names aw \<noteq> []" for a ws aw b
    using that by (induction ws arbitrary: aw) (auto simp: bind_r_Ret_iff dest: one)
  obtain ws where ws: "find_winners_among (aw_game aw) (map (\<lambda>i. g_players (aw_game aw) ! i) (eligible_player_indices pot)) = Ret ws"
    using assms(1) by (auto simp: award_pot_def Let_def bind_r_Ret_iff)
  show ?thesis
  proof (cases "ws = [] \<or> amount pot = 0")
    case True
    then show ?thesis using assms(1) ws by (simp add: award_pot_def Let_def)
  next
    case False
    then obtain aw1 where "pay_shares (amount pot div word_of_nat (length ws)) ws aw = Ret aw1" "aw_names aw' = aw_names aw1"
      using assms(1) ws by (auto simp: award_pot_def Let_def bind_r_Ret_iff)
    then show ?thesis using more False assms(2) by metis
  qed
qed

lemma award_pots_unpaid: "award_pots pots aw = Ret aw' \<Longrightarrow> aw_names aw' = [] \<Longrightarrow> aw' = aw"
proof (induction pots arbitrary: aw)
  case (Cons pot pots)
  then obtain aw1 where 1: "award_pot pot aw = Ret aw1" "award_pots pots aw1 = Ret aw'"
    by (auto simp: bind_r_Ret_iff)
  have "aw' = aw1" using Cons.IH [OF 1(2) Cons.prems(2)] .
  then show ?case using award_pot_unpaid [OF 1(1)] Cons.prems(2) by simp
qed simp

lemma award_stored:
  assumes wf: "table_wf g" and pot: "g_pot g \<noteq> 0" and eq: "award_all_pots g = Ret g'"
  shows "g_repo g' = g_repo (persist_all_chips (g\<lparr>g_chips := stacks_after_award g\<rparr>))
    \<or> g' = g\<lparr>g_pot := 0, g_contributed := Map.empty\<rparr>"
proof -
  let ?aw = "\<lparr>aw_game = g, aw_names = [], aw_labels = [], aw_total = 0\<rparr>" and ?g = "g\<lparr>g_chips := stacks_after_award g\<rparr>"
  have "\<forall>pot \<in> set (compute_side_pots (pot_states g)). eligible_player_indices pot \<noteq> []
       \<and> (\<forall>i \<in> set (eligible_player_indices pot). i < length (g_players g))"
    using pots_of_table_in_range [of g] by (auto simp: pots_in_range_def)
  then obtain aw where aw: "award_pots (compute_side_pots (pot_states g)) ?aw = Ret aw" "aw_game aw = ?g"
    using award_pots_wf [of ?aw] wf unfolding stacks_after_award_def by fastforce
  show ?thesis
  proof (cases "aw_names aw = []")
    case True
    then have "aw = ?aw" using award_pots_unpaid [OF aw(1)] by simp
    then show ?thesis using eq pot aw(1) by (simp add: award_all_pots_def)
  next
    case False
    have "table_wf (persist_all_chips ?g)"
      using wf_money_step [OF wf_chips [OF wf dom_stacks_after_award]] persist_all_eq [of ?g]
      by (metis money_step_persist_all)
    from broadcast_state_wf [OF this] show ?thesis
      using eq pot aw False by (auto simp: award_all_pots_def broadcast_hand_result_def send_all_eq)
  qed
qed

lemma award_books:
  assumes wf: "table_wf g" and k: "kept_books B K d0 C g" and eq: "award_all_pots g = Ret g'"
  shows "kept_books B K d0 C g'"
proof (cases "g_pot g = 0")
  case True
  then show ?thesis using k eq by (simp add: award_all_pots_def)
next
  case pot: False
  from award_stored [OF wf pot eq] show ?thesis
  proof
    assume "g' = g\<lparr>g_pot := 0, g_contributed := Map.empty\<rparr>"
    then show ?thesis
      by (intro kept_books_less [OF k]) (simp_all add: chips_within_def table_chips_def in_pot_def nsum_def)
  next
    let ?ch = "stacks_after_award g"
    let ?g = "g\<lparr>g_chips := ?ch, g_pot := 0, g_contributed := Map.empty\<rparr>"
    assume repo: "g_repo g' = g_repo (persist_all_chips (g\<lparr>g_chips := ?ch\<rparr>))"
    obtain d T where b: "g_repo g = Some d" "same_accounts K d0 d" "own_accounts d g" "chips_within T g"
      "account_sum (seat_keys g \<union> B) d + T \<le> C" "T < 2 ^ 32 - 1"
      using k by (rule kept_booksE)
    note aw = award_result [OF wf eq]
    have seats: "\<forall>p \<in> set (g_players g). ?ch p \<noteq> None"
      using wf dom_stacks_after_award [of g] by (force simp: table_wf_def seats_ok_def)
    have "chips_within T ?g"
      using award_within [OF wf b(4,6) eq] aw pot by (subst within_cong [of _ g']) simp_all
    moreover have "own_accounts d ?g" using b(3) by (simp add: own_accounts_def)
    ultimately have "kept_books B K d0 C (persist_all_chips ?g)"
      using b k seats by (intro kept_books_stored [where d = d and T = T]) (simp_all add: kept_books_def)
    moreover have "g_repo g' = g_repo (persist_all_chips ?g)"
      unfolding repo persist_all_chips_def using seats b(1) by (simp add: persist_stores)
    moreover have "g_name g' = g_name g" using award_all_pots_eq [OF wf pot] eq by auto
    moreover have "g_name (persist_all_chips ?g) = g_name ?g" using persist_all_eq [of ?g] by fastforce
    ultimately show ?thesis by (elim kept_books_cong [rotated -1]) (use aw pot in simp_all)
  qed
qed

lemma open_books:
  assumes d: "dealt g h" and g: "seated g" "g_players g \<noteq> []"
    and b: "g_repo g = Some d" "same_accounts K d0 d" "own_accounts d g" "db_wf d0"
    and chips: "nsum (stack_at_deal g) (g_players g) \<le> T" "account_sum (seat_keys g \<union> B) d + T \<le> C"
    and K: "C < 2 ^ 32 - 1" "B \<inter> K = {}" "seat_keys g \<subseteq> K"
  shows "kept_books B K d0 C (open_betting h)"
proof -
  let ?b = "begin_betting_round (post_blinds h)"
  let ?k = "?b\<lparr>g_current := first_to_act_preflop ?b, g_phase := PreFlop\<rparr>"
  have ob: "open_betting h = persist_all_chips ?k" by (simp add: open_betting_def Let_def)
  have T: "T < 2 ^ 32" using chips(2) K(1) by linarith
  have "g_repo (contribute p a k) = g_repo k" "g_name (contribute p a k) = g_name k" for p a k
    by (simp_all add: contribute_def mark_all_in_if_needed_def Let_def)
  then have f: "g_repo ?k = g_repo g" "g_name ?k = g_name g" "g_players ?k = g_players g"
    using d by (auto simp: begin_betting_round_def post_blinds_def contribute_fields dealt_def reset_table_def Let_def)
  have "chips_within T (persist_all_chips ?k)"
    using open_betting_within [OF d g T chips(1)] unfolding ob .
  then have "chips_within T ?k" by (subst within_cong [of _ "persist_all_chips ?k"]) simp_all
  moreover have "\<forall>p \<in> set (g_players g). g_chips ?k p \<noteq> None"
    using open_betting_wf(1) [OF d g] f(3) unfolding ob by (auto simp: table_wf_def seats_ok_def)
  moreover have "own_accounts d ?k" using b(3) f by (simp add: own_accounts_def)
  ultimately show ?thesis
    unfolding ob using f b chips(2) K by (intro kept_books_stored [where d = d and T = T]) simp_all
qed

lemma leave_books:
  assumes wf: "table_wf g" and k: "kept_books B K d0 C g" and p: "p \<in> set (g_players g)"
  shows "kept_books B K d0 C (give_up_seat p c i g)"
proof -
  let ?g = "give_up_seat p c i g" and ?ps = "remove1 p (g_players g)" and ?n = "g_name g p"
  obtain d T where b: "g_repo g = Some d" "same_accounts K d0 d" "db_wf d" "own_accounts d g" "chips_within T g"
    "nsum (\<lambda>p. banked d (g_name g p)) (g_players g) \<le> T"
    "\<forall>p \<in> set (g_players g). chips_of g p \<le> banked d (g_name g p)"
    "account_sum (seat_keys g \<union> B) d + T \<le> C" "B \<inter> seat_keys g = {}"
    using k by (rule kept_booksE)
  have dist: "distinct (g_players g)" using wf by (rule wf_distinct)
  obtain d' where "g_repo (fold persist_player_chips [p] g) = Some d'" and d': "same_accounts {nocase ?n} d d'"
    "banked d' ?n = chips_of g p"
    using persist_books [OF b(1,3,4), of "[p]"] p wf by (auto simp: table_wf_def seats_ok_def)
  then have repo: "g_repo ?g = Some d'" by (simp add: repo_give_up)
  note f = give_up_seat_fields [of p c i g]
  have other: "nocase (g_name g q) \<noteq> nocase ?n" if "q \<in> set ?ps" for q
    using that p dist b(4) by (auto simp: own_accounts_def inj_on_def)
  then have same: "banked d' (g_name g q) = banked d (g_name g q)" if "q \<in> set ?ps" for q
    using that d'(1) by (simp add: same_accounts_def)
  have "set (g_players g) = insert p (set ?ps)" using p dist by auto
  then have keys: "seat_keys g = insert (nocase ?n) (seat_keys ?g)" unfolding f by (simp only: image_insert)
  have "nocase ?n \<notin> B" using p b(9) by blast
  moreover have "nocase ?n \<notin> seat_keys ?g" using other unfolding f by (metis imageE)
  ultimately have new: "nocase ?n \<notin> seat_keys ?g \<union> B" by blast
  have le: "unat (chips_of g p) \<le> unat (banked d ?n)" using b(7) p by (simp add: word_le_nat_alt)
  have stack: "unat (chips_of g p) \<le> T"
    using nsum_member [OF p, of "chips_of g"] b(5) by (simp add: chips_within_def table_chips_def)
  let ?T = "T - unat (chips_of g p)"
  have "account_sum (seat_keys ?g \<union> B) d' = account_sum (insert (nocase ?n) (seat_keys ?g \<union> B)) d' + unat (chips_of g p)"
    using account_sum_insert [OF _ new, of d'] d' by (simp add: same_accounts_def)
  also have "account_sum (insert (nocase ?n) (seat_keys ?g \<union> B)) d' = account_sum (seat_keys g \<union> B) d"
    unfolding keys by (subst same_accounts_sum [OF d'(1)]) auto
  finally have "account_sum (seat_keys ?g \<union> B) d' + ?T \<le> C" using b(8) stack by linarith
  moreover have "table_books d' ?T ?g"
  proof -
    have "own_accounts d' ?g"
      using b(4) same_accounts_balance [OF d'(1) b(3)] dist unfolding own_accounts_def f
      by (auto intro: inj_on_subset)
    moreover have "chips_within ?T ?g"
    proof -
      have "nsum (getd 0 (m(p := None))) ?ps = nsum (getd 0 m) ?ps" for m :: "pid \<rightharpoonup> u32"
        by (rule nsum_cong) (use dist in auto)
      then show ?thesis
        using b(5) nsum_remove1 [OF p] by (simp add: chips_within_def table_chips_def in_pot_def f del: getd_upd_None) linarith
    qed
    moreover have "nsum (\<lambda>q. banked d' (g_name g q)) ?ps \<le> ?T"
    proof -
      have "nsum (\<lambda>q. banked d' (g_name g q)) ?ps = nsum (\<lambda>q. banked d (g_name g q)) ?ps" by (rule nsum_cong) (rule same)
      then show ?thesis using b(6) nsum_remove1 [OF p, of "\<lambda>q. banked d (g_name g q)"] le by simp
    qed
    ultimately show ?thesis using b(7) same dist unfolding table_books_def f by auto
  qed
  moreover have "{nocase ?n} \<subseteq> K" using k p unfolding kept_books_def by blast
  then have "same_accounts K d0 d'"
    using same_accounts_trans [OF b(2) same_accounts_mono [OF d'(1)]] by blast
  ultimately show ?thesis using repo k f(1,3) dist unfolding kept_books_def by (auto dest: notin_set_remove1)
qed

lemma new_hand_books:
  assumes wf: "table_wf g" and k: "kept_books B K d0 C g" and ne: "g_players g \<noteq> []"
    and h: "dealt (advance_dealer g) h"
  shows "kept_books B K d0 C (open_betting h)"
proof -
  have adv: "g_players (advance_dealer g) = g_players g" "g_chips (advance_dealer g) = g_chips g"
    "g_repo (advance_dealer g) = g_repo g" "g_name (advance_dealer g) = g_name g"
    by (simp_all add: advance_dealer_def)
  obtain d T where b: "g_repo g = Some d" "same_accounts K d0 d" "own_accounts d g" "chips_within T g"
    "account_sum (seat_keys g \<union> B) d + T \<le> C"
    using k by (rule kept_booksE)
  have "nsum (stack_at_deal (advance_dealer g)) (g_players g) = nsum (chips_of g) (g_players g)"
    by (rule nsum_cong) (use wf adv in \<open>auto simp: table_wf_def seats_ok_def stack_at_deal_def\<close>)
  then have "nsum (stack_at_deal (advance_dealer g)) (g_players (advance_dealer g)) \<le> T"
    using b(4) adv by (simp add: chips_within_def table_chips_def)
  moreover have "seated (advance_dealer g)" using wf ne by (intro seated_advance_dealer) (simp_all add: table_wf_def)
  ultimately show ?thesis
    using b k ne adv by (intro open_books [OF h, where d = d and T = T]) (simp_all add: kept_books_def own_accounts_def)
qed

lemma play_less:
  assumes "play_action p a amt g = Inr g'"
  shows "chips_of g' q \<le> chips_of g q"
proof -
  have c: "chips_of (contribute p b g) q \<le> chips_of g q" for b
    by (simp add: contribute_fields word_le_nat_alt unat_minus_le min_def)
  then show ?thesis
    using assms by (auto simp: play_action_def Let_def split: action.splits if_splits option.splits)
qed

interpretation books: table_invariant "kept_books B K d0 C" for B K d0 C
proof (unfold_locales, goal_cases)
  case (8 g g')
  then show ?case by (rule award_books)
next
  case (9 g h)
  then show ?case by (rule new_hand_books)
next
  case (10 g a amt g')
  have "kept_books B K d0 C g'"
    by (rule kept_books_less [OF 10(2) repo_play [OF 10(4)] play_action_frame(3,1) [OF 10(4)]])
      (use play_less [OF 10(4)] play_within [OF 10(4)] wf_current [OF 10(1,3)] wf_distinct [OF 10(1)] in \<open>simp_all\<close>)
  then show ?case
    by (rule kept_books_cong [rotated -1])
      (simp_all add: note_action_def broadcast_action_event_def record_player_action_def send_all_eq Let_def)
next
  case (12 g c p i)
  then show ?case using leave_books wf_connection by blast
qed (erule kept_books_cong [rotated -1]; simp add: send_message_def send_error_def send_all_eq
    advance_to_next_player_def reset_bets_def with_board_def begin_betting_round_def fold_leaver_def Let_def)+

end
