(* ===== verification/Lobby.thy ===== *)
theory Lobby
  imports Room
begin

text \<open>
  \<open>Lobby\<close> of \<open>server/include/game/lobby.h\<close> and \<open>server/src/game/lobby.cpp\<close>. Rooms are shared objects
  (\<open>shared_ptr<Room>\<close>): \<open>rooms_\<close> and \<open>player_rooms_\<close> hold pointers to them. The model keeps the objects
  in a store, \<open>l_store\<close>, from pointers to rooms; a pointer is the number of rooms made before. So
  \<open>player_rooms_\<close> could point to a room that is no longer listed; the invariant \<open>lobby_wf\<close> shows that
  it never does.
\<close>

section \<open>State\<close>

type_synonym room_ptr = nat

record lobby =
  l_store :: "room_ptr \<rightharpoonup> room"
  l_fresh :: room_ptr
  l_rooms :: "room_ptr list"
  l_player_rooms :: "cid \<rightharpoonup> room_ptr"
  l_next_room_id :: u64

definition new_lobby :: lobby where
  "new_lobby = \<lparr>l_store = Map.empty, l_fresh = 0, l_rooms = [], l_player_rooms = Map.empty,
     l_next_room_id = 1\<rparr>"

text \<open>The room behind a pointer; every pointer that is followed has an object (\<open>lobby_wf\<close>).\<close>

definition room_at :: "lobby \<Rightarrow> room_ptr \<Rightarrow> room" where
  "room_at l rp = the (l_store l rp)"

definition set_room :: "room_ptr \<Rightarrow> room \<Rightarrow> lobby \<Rightarrow> lobby" where
  "set_room rp r l = l\<lparr>l_store := (l_store l)(rp \<mapsto> r)\<rparr>"

section \<open>Operations\<close>

text \<open>\<open>ConnectionRegistry::broadcast\<close>: the set is listed in some order.\<close>

definition broadcast :: "server_message \<Rightarrow> cid list \<Rightarrow> world \<Rightarrow> world" where
  "broadcast msg connections w = fold (\<lambda>c. send_to c msg) connections w"

definition check_player_bankroll :: "cid \<Rightarrow> world \<Rightarrow> error_code option" where
  "check_player_bankroll c w =
     (case w_repo w of
        None \<Rightarrow> None
      | Some db \<Rightarrow>
          let chips = (case find_by_username db (w_name w c) of None \<Rightarrow> 0 | Some user \<Rightarrow> ur_chips user)
          in if chips < BIG_BLIND then Some NotEnoughChips else None)"

definition get_room_list :: "lobby \<Rightarrow> room_list" where
  "get_room_list l = \<lparr>rl_rooms = map (\<lambda>rp. get_room_info (room_at l rp)) (l_rooms l)\<rparr>"

definition get_room :: "lobby \<Rightarrow> u64 \<Rightarrow> room_ptr option" where
  "get_room l room_id = List.find (\<lambda>rp. r_id (room_at l rp) = room_id) (l_rooms l)"

definition find_room_by_player :: "lobby \<Rightarrow> cid \<Rightarrow> room_ptr option" where
  "find_room_by_player l c = l_player_rooms l c"

definition broadcast_room_list :: "lobby \<Rightarrow> world \<Rightarrow> world" where
  "broadcast_room_list l w =
     (case w_registry w of
        None \<Rightarrow> w
      | Some connections \<Rightarrow> broadcast (SRoomList (get_room_list l)) connections w)"

definition leave_room :: "nat \<Rightarrow> cid \<Rightarrow> lobby \<Rightarrow> world \<Rightarrow> (lobby \<times> world) result" where
  "leave_room n c l w =
     (case l_player_rooms l c of
        None \<Rightarrow> Ret (l, w)
      | Some rp \<Rightarrow>
          bind_r (room_remove_player n c (room_at l rp) w) (\<lambda>(_, r, w).
            let l = set_room rp r l;
                l = l\<lparr>l_player_rooms := (l_player_rooms l)(c := None)\<rparr>;
                l = (if r_players r = [] then l\<lparr>l_rooms := filter (\<lambda>x. x \<noteq> rp) (l_rooms l)\<rparr> else l)
            in Ret (l, broadcast_room_list l w)))"

text \<open>\<open>create_room\<close> after the checks and after the creator has left the old room.\<close>

definition make_room ::
  "nat \<Rightarrow> string \<Rightarrow> u8 \<Rightarrow> cid \<Rightarrow> lobby \<Rightarrow> world \<Rightarrow> (room_ptr option \<times> lobby \<times> world) result" where
  "make_room n name max_players creator l w =
     (let rp = l_fresh l;
          room = new_room (l_next_room_id l) name max_players creator;
          l = l\<lparr>l_fresh := rp + 1, l_next_room_id := l_next_room_id l + 1, l_rooms := l_rooms l @ [rp]\<rparr>
      in bind_r (room_add_player n creator room w) (\<lambda>(_, room, w).
           let l = set_room rp room l;
               l = (if l_player_rooms l creator = None
                    then l\<lparr>l_player_rooms := (l_player_rooms l)(creator \<mapsto> rp)\<rparr> else l)
           in Ret (Some rp, l, broadcast_room_list l w)))"

definition create_room ::
  "nat \<Rightarrow> string \<Rightarrow> u8 \<Rightarrow> cid \<Rightarrow> lobby \<Rightarrow> world \<Rightarrow> (room_ptr option \<times> lobby \<times> world) result" where
  "create_room n name max_players creator l w =
     (if max_players < 2 then Ret (None, l, w)
      else if check_player_bankroll creator w \<noteq> None then Ret (None, l, w)
      else bind_r (if l_player_rooms l creator \<noteq> None then leave_room n creator l w else Ret (l, w))
        (\<lambda>(l, w). make_room n name max_players creator l w))"

text \<open>\<open>join_room\<close> after the player has left the old room.\<close>

definition enter_room ::
  "nat \<Rightarrow> u64 \<Rightarrow> cid \<Rightarrow> lobby \<Rightarrow> world \<Rightarrow> (error_code option \<times> lobby \<times> world) result" where
  "enter_room n room_id c l w =
     (case get_room l room_id of
        None \<Rightarrow> Ret (Some JoinFailed, l, w)
      | Some rp \<Rightarrow>
          let room = room_at l rp in
          if is_game_started room then Ret (Some GameAlreadyStarted, l, w)
          else if length (r_players room) \<ge> unat (ri_max_players (get_room_info room))
          then Ret (Some RoomFull, l, w)
          else bind_r (room_add_player n c room w) (\<lambda>(player_added, room, w).
            let l = set_room rp room l
            in if player_added
               then let l = (if l_player_rooms l c = None
                             then l\<lparr>l_player_rooms := (l_player_rooms l)(c \<mapsto> rp)\<rparr> else l)
                    in Ret (None, l, broadcast_room_list l w)
               else Ret (Some JoinFailed, l, w)))"

definition join_room ::
  "nat \<Rightarrow> u64 \<Rightarrow> cid \<Rightarrow> lobby \<Rightarrow> world \<Rightarrow> (error_code option \<times> lobby \<times> world) result" where
  "join_room n room_id c l w =
     (case check_player_bankroll c w of
        Some bankroll_error \<Rightarrow> Ret (Some bankroll_error, l, w)
      | None \<Rightarrow>
          if (case l_player_rooms l c of None \<Rightarrow> False | Some rp \<Rightarrow> r_id (room_at l rp) = room_id)
          then Ret (None, l, w)
          else bind_r (if l_player_rooms l c \<noteq> None then leave_room n c l w else Ret (l, w))
            (\<lambda>(l, w). enter_room n room_id c l w))"

definition account_chips_for :: "string \<Rightarrow> world \<Rightarrow> u32 option" where
  "account_chips_for username w =
     (case w_repo w of
        None \<Rightarrow> None
      | Some db \<Rightarrow> map_option ur_chips (find_by_username db username))"

definition lobby_start_game :: "nat \<Rightarrow> cid \<Rightarrow> lobby \<Rightarrow> world \<Rightarrow> (error_code option \<times> lobby \<times> world) result" where
  "lobby_start_game n c l w =
     (case find_room_by_player l c of
        None \<Rightarrow> Ret (Some NotInRoom, l, w)
      | Some rp \<Rightarrow>
          bind_r (try_start_game n c (room_at l rp) w) (\<lambda>(error, room, w).
            let l = set_room rp room l
            in case error of
                 Some e \<Rightarrow> Ret (Some e, l, w)
               | None \<Rightarrow> Ret (None, l, broadcast_room_list l w)))"

text \<open>\<open>room->on_player_action(...)\<close> on the room that \<open>find_room_by_player\<close> returned.\<close>

definition room_action ::
  "nat \<Rightarrow> room_ptr \<Rightarrow> cid \<Rightarrow> action \<Rightarrow> u32 option \<Rightarrow> lobby \<Rightarrow> world \<Rightarrow> (lobby \<times> world) result" where
  "room_action n rp c a amt l w =
     map_r (\<lambda>(room, w). (set_room rp room l, w)) (on_player_action n c a amt (room_at l rp) w)"

section \<open>The invariant\<close>

definition listed_room_ok :: "room \<Rightarrow> bool" where
  "listed_room_ok r \<longleftrightarrow> room_wf r \<and> r_players r \<noteq> [] \<and> 2 \<le> unat (r_max_players r)"

definition rooms_fit :: "lobby \<Rightarrow> bool" where
  "rooms_fit l \<longleftrightarrow> (\<forall>rp \<in> set (l_rooms l). room_size_ok (room_at l rp))"

definition lobby_wf :: "lobby \<Rightarrow> bool" where
  "lobby_wf l \<longleftrightarrow> distinct (l_rooms l)
     \<and> (\<forall>rp \<in> set (l_rooms l). rp < l_fresh l \<and> listed_room_ok (room_at l rp)
          \<and> r_id (room_at l rp) = word_of_nat (Suc rp))
     \<and> l_next_room_id l = word_of_nat (Suc (l_fresh l))
     \<and> (\<forall>c rp. l_player_rooms l c = Some rp \<longleftrightarrow>
          rp \<in> set (l_rooms l) \<and> c \<in> set (r_players (room_at l rp)))"

lemma room_at_set [simp]: "room_at (set_room rp r l) rp' = (if rp' = rp then r else room_at l rp')"
  by (simp add: room_at_def set_room_def)

lemma set_room_fields [simp]:
  "l_rooms (set_room rp r l) = l_rooms l" "l_fresh (set_room rp r l) = l_fresh l"
  "l_player_rooms (set_room rp r l) = l_player_rooms l" "l_next_room_id (set_room rp r l) = l_next_room_id l"
  by (simp_all add: set_room_def)

lemma room_at_more [simp]:
  "room_at (l\<lparr>l_rooms := a\<rparr>) = room_at l" "room_at (l\<lparr>l_player_rooms := b\<rparr>) = room_at l"
  "room_at (l\<lparr>l_fresh := k\<rparr>) = room_at l" "room_at (l\<lparr>l_next_room_id := i\<rparr>) = room_at l"
  by (simp_all add: room_at_def fun_eq_iff)

lemma same_world_broadcast:
  assumes "discreet m"
  shows "same_world w (broadcast m cs w)"
  unfolding broadcast_def using assms by (intro same_world_sends same_world_send)

lemma same_world_room_list [simp]: "same_world w (broadcast_room_list l w)"
  by (simp add: broadcast_room_list_def same_world_broadcast split: option.split)

lemma room_list_fields:
  "w_repo (broadcast_room_list l w) = w_repo w" "w_name (broadcast_room_list l w) = w_name w"
  "w_closed (broadcast_room_list l w) = w_closed w"
proof -
  have "w_repo (fold (\<lambda>c. send_to c m) cs v) = w_repo v" for m cs v
    by (induction cs arbitrary: v) (simp_all add: send_to_def)
  then show "w_repo (broadcast_room_list l w) = w_repo w"
    by (simp add: broadcast_room_list_def broadcast_def split: option.split)
  show "w_name (broadcast_room_list l w) = w_name w" "w_closed (broadcast_room_list l w) = w_closed w"
    using same_world_room_list [of w l] unfolding same_world_def by blast+
qed

lemma wf_room:
  assumes "lobby_wf l" "l_player_rooms l c = Some rp"
  shows "rp \<in> set (l_rooms l)" "c \<in> set (r_players (room_at l rp))" "listed_room_ok (room_at l rp)"
    "room_wf (room_at l rp)"
  using assms unfolding lobby_wf_def listed_room_ok_def by blast+

lemma lobby_wf_set_room:
  assumes wf: "lobby_wf l" "rp \<in> set (l_rooms l)" and r: "room_wf r" "r_players r = r_players (room_at l rp)"
    "r_id r = r_id (room_at l rp)" "r_max_players r = r_max_players (room_at l rp)"
  shows "lobby_wf (set_room rp r l)"
proof -
  have "listed_room_ok r" using wf r unfolding lobby_wf_def listed_room_ok_def by metis
  then show ?thesis using wf r unfolding lobby_wf_def by simp
qed

text \<open>A player has left the room behind \<open>rp\<close>, and the room is unlisted if that emptied it.\<close>

definition after_leave :: "cid \<Rightarrow> room_ptr \<Rightarrow> room \<Rightarrow> lobby \<Rightarrow> lobby" where
  "after_leave c rp r l =
     (let l = set_room rp r l;
          l = l\<lparr>l_player_rooms := (l_player_rooms l)(c := None)\<rparr>
      in if r_players r = [] then l\<lparr>l_rooms := filter (\<lambda>x. x \<noteq> rp) (l_rooms l)\<rparr> else l)"

lemma after_leave_fields:
  "l_rooms (after_leave c rp r l) = (if r_players r = [] then filter (\<lambda>x. x \<noteq> rp) (l_rooms l) else l_rooms l)"
  "l_player_rooms (after_leave c rp r l) = (l_player_rooms l)(c := None)"
  "l_fresh (after_leave c rp r l) = l_fresh l" "l_next_room_id (after_leave c rp r l) = l_next_room_id l"
  "room_at (after_leave c rp r l) rp' = (if rp' = rp then r else room_at l rp')"
  by (simp_all add: after_leave_def Let_def)

lemma leave_room_eq:
  "leave_room n c l w = (case l_player_rooms l c of
      None \<Rightarrow> Ret (l, w)
    | Some rp \<Rightarrow> bind_r (room_remove_player n c (room_at l rp) w)
        (\<lambda>(_, r, w). Ret (after_leave c rp r l, broadcast_room_list (after_leave c rp r l) w)))"
  unfolding leave_room_def after_leave_def Let_def by (rule refl)

lemma after_leave_wf:
  assumes wf: "lobby_wf l" and c: "l_player_rooms l c = Some rp"
    and r: "removal_ok c (room_at l rp) w (x, r, w')"
  shows "lobby_wf (after_leave c rp r l)"
proof -
  have rw: "room_wf r" "r_id r = r_id (room_at l rp)" "r_max_players r = r_max_players (room_at l rp)"
      "r_players r = remove1 c (r_players (room_at l rp))"
    using r by (simp_all add: removal_ok_def)
  note room = wf_room [OF wf c]
  have "distinct (r_players (room_at l rp))" using room(4) by (simp add: room_wf_def)
  then have set: "set (r_players r) = set (r_players (room_at l rp)) - {c}" by (simp add: rw(4))
  have ok: "listed_room_ok r" if "r_players r \<noteq> []"
    using room(3) rw that by (simp add: listed_room_ok_def)
  have uniq: "rp' = rp" if "rp' \<in> set (l_rooms l)" "c \<in> set (r_players (room_at l rp'))" for rp'
    using wf c that unfolding lobby_wf_def by (metis option.inject)
  have l1: "distinct (l_rooms (after_leave c rp r l))"
    using wf by (simp add: lobby_wf_def after_leave_fields)
  have l2: "\<forall>rp' \<in> set (l_rooms (after_leave c rp r l)). rp' < l_fresh l
      \<and> listed_room_ok (room_at (after_leave c rp r l) rp')
      \<and> r_id (room_at (after_leave c rp r l) rp') = word_of_nat (Suc rp')"
    using wf ok rw(2) unfolding lobby_wf_def by (auto simp: after_leave_fields)
  have l3: "l_player_rooms (after_leave c rp r l) d = Some rp' \<longleftrightarrow>
      rp' \<in> set (l_rooms (after_leave c rp r l))
      \<and> d \<in> set (r_players (room_at (after_leave c rp r l) rp'))" for d rp'
  proof (cases "d = c")
    case True
    then show ?thesis using uniq set by (auto simp: after_leave_fields split: if_splits)
  next
    case False
    have old: "l_player_rooms l d = Some rp' \<longleftrightarrow> rp' \<in> set (l_rooms l) \<and> d \<in> set (r_players (room_at l rp'))"
      using wf unfolding lobby_wf_def by blast
    have "d \<in> set (r_players r) \<longleftrightarrow> d \<in> set (r_players (room_at l rp))" using set False by simp
    then show ?thesis using False old by (auto simp: after_leave_fields)
  qed
  show ?thesis
    unfolding lobby_wf_def using l1 l2 l3 wf by (simp add: after_leave_fields lobby_wf_def)
qed

definition leaves :: "cid \<Rightarrow> lobby \<Rightarrow> world \<Rightarrow> lobby \<times> world \<Rightarrow> bool" where
  "leaves c l w res \<longleftrightarrow> (case res of (l', w') \<Rightarrow>
     lobby_wf l' \<and> same_world w w' \<and> l_player_rooms l' = (l_player_rooms l)(c := None)
     \<and> (rooms_fit l \<longrightarrow> rooms_fit l') \<and> l_fresh l' = l_fresh l)"

lemma leave_room_wf:
  assumes wf: "lobby_wf l"
  shows "(\<forall>e. leave_room n c l w \<noteq> Exn e) \<and> (\<forall>res. leave_room n c l w = Ret res \<longrightarrow> leaves c l w res)"
proof (cases "l_player_rooms l c")
  case None
  then have "(l_player_rooms l)(c := None) = l_player_rooms l" by (simp add: fun_upd_idem)
  then show ?thesis using None wf by (simp add: leave_room_eq leaves_def)
next
  case (Some rp)
  note rm = room_remove_player_wf [OF wf_room(4) [OF wf Some], of n c w]
  have "leaves c l w (after_leave c rp r l, broadcast_room_list (after_leave c rp r l) w1)"
    if "removal_ok c (room_at l rp) w (x, r, w1)" for x r w1
  proof -
    have "same_world w w1" "r_max_players r = r_max_players (room_at l rp)" using that by (simp_all add: removal_ok_def)
    then show ?thesis
      using after_leave_wf [OF wf Some that] same_world_trans [OF _ same_world_room_list] wf_room(1) [OF wf Some]
      by (auto simp: leaves_def after_leave_fields rooms_fit_def room_size_ok_def)
  qed
  then show ?thesis
    using rm Some by (cases "room_remove_player n c (room_at l rp) w") (auto simp: leave_room_eq)
qed

text \<open>A player who is in no room has come into the room behind \<open>rp\<close>.\<close>

lemma player_enters_wf:
  assumes wf: "lobby_wf l" "rp \<in> set (l_rooms l)" and c: "l_player_rooms l c = None"
    and r: "room_wf r" "r_players r = r_players (room_at l rp) @ [c]"
      "r_id r = r_id (room_at l rp)" "r_max_players r = r_max_players (room_at l rp)"
  shows "lobby_wf ((set_room rp r l)\<lparr>l_player_rooms := (l_player_rooms l)(c \<mapsto> rp)\<rparr>)" (is "lobby_wf ?l")
proof -
  have none: "c \<notin> set (r_players (room_at l rp'))" if "rp' \<in> set (l_rooms l)" for rp'
    using wf(1) c that unfolding lobby_wf_def by (metis option.distinct(1))
  have "listed_room_ok r" using wf r unfolding lobby_wf_def listed_room_ok_def by (metis snoc_eq_iff_butlast)
  then have l2: "\<forall>rp' \<in> set (l_rooms l). rp' < l_fresh l \<and> listed_room_ok (room_at ?l rp')
      \<and> r_id (room_at ?l rp') = word_of_nat (Suc rp')"
    using wf r(3) unfolding lobby_wf_def by simp
  have l3: "l_player_rooms ?l d = Some rp' \<longleftrightarrow> rp' \<in> set (l_rooms ?l) \<and> d \<in> set (r_players (room_at ?l rp'))" for d rp'
  proof (cases "d = c")
    case True
    then show ?thesis using none r(2) wf(2) by auto
  next
    case False
    have "l_player_rooms l d = Some rp' \<longleftrightarrow> rp' \<in> set (l_rooms l) \<and> d \<in> set (r_players (room_at l rp'))"
      using wf(1) unfolding lobby_wf_def by blast
    then show ?thesis using False r(2) by auto
  qed
  show ?thesis unfolding lobby_wf_def using l2 l3 wf(1) by (simp add: lobby_wf_def)
qed

lemma get_room_Some: "get_room l i = Some rp \<Longrightarrow> rp \<in> set (l_rooms l) \<and> r_id (room_at l rp) = i"
  by (auto simp: get_room_def find_Some_iff in_set_conv_nth)

definition stays_wf :: "lobby \<Rightarrow> world \<Rightarrow> 'a \<times> lobby \<times> world \<Rightarrow> bool" where
  "stays_wf l w res \<longleftrightarrow> (case res of (x, l', w') \<Rightarrow>
     lobby_wf l' \<and> same_world w w' \<and> (rooms_fit l \<longrightarrow> rooms_fit l'))"

lemma rooms_fit_set_room:
  "rooms_fit l \<Longrightarrow> r_max_players r = r_max_players (room_at l rp) \<Longrightarrow> rooms_fit (set_room rp r l)"
  by (auto simp: rooms_fit_def room_size_ok_def)

lemma rooms_fit_player_rooms [simp]: "rooms_fit (l\<lparr>l_player_rooms := m\<rparr>) = rooms_fit l"
  by (simp add: rooms_fit_def)

lemma enter_room_wf:
  assumes wf: "lobby_wf l" "rooms_fit l" and c: "l_player_rooms l c = None"
  shows "(\<forall>e. enter_room n i c l w \<noteq> Exn e)
    \<and> (\<forall>err l' w'. enter_room n i c l w = Ret (err, l', w') \<longrightarrow> stays_wf l w (err, l', w')
        \<and> (case err of None \<Rightarrow> \<exists>rp. get_room l i = Some rp \<and> l_player_rooms l' = (l_player_rooms l)(c \<mapsto> rp)
             \<and> r_game (room_at l rp) = None
             \<and> length (r_players (room_at l rp)) < unat (r_max_players (room_at l rp))
           | Some e \<Rightarrow> l' = l \<and> w' = w \<and> e = (case get_room l i of None \<Rightarrow> JoinFailed
               | Some rp \<Rightarrow> if r_game (room_at l rp) \<noteq> None then GameAlreadyStarted else RoomFull)))"
proof (cases "get_room l i")
  case None
  then show ?thesis using wf by (simp add: enter_room_def stays_wf_def)
next
  case (Some rp)
  note rp = get_room_Some [OF Some, THEN conjunct1]
  let ?r = "room_at l rp"
  have r: "room_wf ?r" "room_size_ok ?r" "2 \<le> unat (r_max_players ?r)" "r_players ?r \<noteq> []"
    using wf rp unfolding lobby_wf_def rooms_fit_def listed_room_ok_def by blast+
  have notin: "c \<notin> set (r_players ?r)" using wf(1) c rp unfolding lobby_wf_def by (metis option.distinct(1))
  show ?thesis
  proof (cases "r_game ?r = None \<and> length (r_players ?r) < unat (r_max_players ?r)")
    case False
    then show ?thesis using Some wf
      by (auto simp: enter_room_def is_game_started_def get_room_info_def Let_def stays_wf_def)
  next
    case True
    have add: "(\<forall>e. room_add_player n c ?r w \<noteq> Exn e)
      \<and> (\<forall>x r' w'. room_add_player n c ?r w = Ret (x, r', w') \<longrightarrow>
        room_wf r' \<and> same_world w w' \<and> r_id r' = r_id ?r \<and> r_max_players r' = r_max_players ?r
        \<and> r_players r' = (if x then r_players ?r @ [c] else r_players ?r)
        \<and> (x \<longleftrightarrow> r_game ?r = None \<and> length (r_players ?r) < unat (r_max_players ?r)))"
      by (rule room_add_player_wf [OF r(1-3) notin]) (use r(4) in simp)
    have eq: "enter_room n i c l w = bind_r (room_add_player n c ?r w) (\<lambda>(player_added, room, w).
            if player_added
            then Ret (None, (set_room rp room l)\<lparr>l_player_rooms := (l_player_rooms l)(c \<mapsto> rp)\<rparr>,
              broadcast_room_list ((set_room rp room l)\<lparr>l_player_rooms := (l_player_rooms l)(c \<mapsto> rp)\<rparr>) w)
            else Ret (Some JoinFailed, set_room rp room l, w))"
      using True Some c
      by (cases "room_add_player n c ?r w")
        (auto simp: enter_room_def is_game_started_def get_room_info_def Let_def not_le)
    show ?thesis
    proof (cases "room_add_player n c ?r w")
      case (Ret xrw)
      obtain x r' w' where xrw: "xrw = (x, r', w')" by (cases xrw) blast
      have a: "room_wf r'" "same_world w w'" "r_id r' = r_id ?r" "r_max_players r' = r_max_players ?r"
          "r_players r' = r_players ?r @ [c]" "x"
        using add Ret xrw True by auto
      have "lobby_wf ((set_room rp r' l)\<lparr>l_player_rooms := (l_player_rooms l)(c \<mapsto> rp)\<rparr>)"
        using wf(1) rp c a(1,5,3,4) by (rule player_enters_wf)
      then show ?thesis
        unfolding eq Ret xrw using a(4,6) Some True same_world_trans [OF a(2) same_world_room_list] wf(2)
          rooms_fit_set_room [OF wf(2) a(4)]
        by (simp add: stays_wf_def)
    qed (use add eq in auto)
  qed
qed

lemma new_room_wf:
  "room_wf ((new_room i nm mx c)\<lparr>r_players := [c]\<rparr>) \<longleftrightarrow> 1 \<le> unat mx"
  by (simp add: room_wf_def new_room_def)

lemma make_room_eq:
  assumes "2 \<le> unat max_players" "l_player_rooms l c = None"
  shows "\<exists>w'. same_world w w' \<and> make_room n name max_players c l w = Ret (Some (l_fresh l),
      l\<lparr>l_store := (l_store l)(l_fresh l \<mapsto> (new_room (l_next_room_id l) name max_players c)\<lparr>r_players := [c]\<rparr>),
        l_fresh := l_fresh l + 1, l_next_room_id := l_next_room_id l + 1, l_rooms := l_rooms l @ [l_fresh l],
        l_player_rooms := (l_player_rooms l)(c \<mapsto> l_fresh l)\<rparr>, w')"
proof -
  let ?r = "(new_room (l_next_room_id l) name max_players c)\<lparr>r_players := [c]\<rparr>"
  have "room_add_player n c (new_room (l_next_room_id l) name max_players c) w
      = Ret (True, ?r, notify_all_about_joined ?r w)"
    using assms(1) by (simp add: room_add_player_def new_room_def Let_def)
  then show ?thesis
    using assms(2) same_world_trans [OF same_world_notify same_world_room_list]
    by (simp add: make_room_def set_room_def Let_def)
qed

lemma make_room_wf:
  assumes wf: "lobby_wf l" and mx: "2 \<le> unat max_players" and c: "l_player_rooms l c = None"
  shows "\<exists>l' w'. make_room n name max_players c l w = Ret (Some (l_fresh l), l', w') \<and> same_world w w'
    \<and> lobby_wf l' \<and> (rooms_fit l \<and> unat max_players \<le> max_seats \<longrightarrow> rooms_fit l')
    \<and> l_player_rooms l' = (l_player_rooms l)(c \<mapsto> l_fresh l)"
proof -
  let ?r = "(new_room (l_next_room_id l) name max_players c)\<lparr>r_players := [c]\<rparr>"
  let ?l = "l\<lparr>l_store := (l_store l)(l_fresh l \<mapsto> ?r),
        l_fresh := l_fresh l + 1, l_next_room_id := l_next_room_id l + 1, l_rooms := l_rooms l @ [l_fresh l],
        l_player_rooms := (l_player_rooms l)(c \<mapsto> l_fresh l)\<rparr>"
  have at: "room_at ?l rp = (if rp = l_fresh l then ?r else room_at l rp)" for rp
    by (simp add: room_at_def)
  have old: "\<forall>rp \<in> set (l_rooms l). rp < l_fresh l \<and> listed_room_ok (room_at l rp)
      \<and> r_id (room_at l rp) = word_of_nat (Suc rp)" using wf unfolding lobby_wf_def by blast
  then have fresh: "l_fresh l \<notin> set (l_rooms l)" by auto
  have none: "c \<notin> set (r_players (room_at l rp'))" if "rp' \<in> set (l_rooms l)" for rp'
    using wf c that unfolding lobby_wf_def by (metis option.distinct(1))
  have r: "listed_room_ok ?r" "r_id ?r = word_of_nat (Suc (l_fresh l))"
    using mx wf new_room_wf by (simp_all add: listed_room_ok_def new_room_def lobby_wf_def)
  have l3: "l_player_rooms ?l d = Some rp' \<longleftrightarrow> rp' \<in> set (l_rooms ?l) \<and> d \<in> set (r_players (room_at ?l rp'))" for d rp'
  proof (cases "d = c")
    case True
    then show ?thesis using none at by auto
  next
    case False
    have "l_player_rooms l d = Some rp' \<longleftrightarrow> rp' \<in> set (l_rooms l) \<and> d \<in> set (r_players (room_at l rp'))"
      using wf unfolding lobby_wf_def by blast
    then show ?thesis using False at fresh by auto
  qed
  have "l_next_room_id ?l = word_of_nat (Suc (l_fresh ?l))"
    using wf by (simp add: lobby_wf_def)
  moreover have "distinct (l_rooms ?l)" using wf fresh by (simp add: lobby_wf_def)
  moreover have "\<forall>rp \<in> set (l_rooms ?l). rp < l_fresh ?l \<and> listed_room_ok (room_at ?l rp)
      \<and> r_id (room_at ?l rp) = word_of_nat (Suc rp)"
    using old r at by auto
  ultimately have wf': "lobby_wf ?l" unfolding lobby_wf_def using l3 by blast
  have fit: "rooms_fit ?l" if "rooms_fit l" "unat max_players \<le> max_seats"
    using that at by (auto simp: rooms_fit_def room_size_ok_def new_room_def)
  obtain w' where "same_world w w'" "make_room n name max_players c l w = Ret (Some (l_fresh l), ?l, w')"
    using make_room_eq [of max_players l c w n name] mx c by blast
  then show ?thesis using wf' fit by auto
qed

lemma leave_first_wf:
  assumes "lobby_wf l"
  shows "(\<forall>e. (if l_player_rooms l c \<noteq> None then leave_room n c l w else Ret (l, w)) \<noteq> Exn e)
    \<and> (\<forall>res. (if l_player_rooms l c \<noteq> None then leave_room n c l w else Ret (l, w)) = Ret res \<longrightarrow> leaves c l w res)"
proof (cases "l_player_rooms l c")
  case None
  then have "(l_player_rooms l)(c := None) = l_player_rooms l" by (simp add: fun_upd_idem)
  then show ?thesis using assms None by (simp add: leaves_def)
qed (use leave_room_wf [OF assms] in simp)

lemma create_room_wf:
  assumes wf: "lobby_wf l"
  shows "(\<forall>e. create_room n name max_players c l w \<noteq> Exn e)
    \<and> (\<forall>res. create_room n name max_players c l w = Ret res \<longrightarrow> (case res of (made, l', w') \<Rightarrow>
        lobby_wf l' \<and> same_world w w' \<and> (rooms_fit l \<and> unat max_players \<le> max_seats \<longrightarrow> rooms_fit l')
        \<and> (case made of
            None \<Rightarrow> (max_players < 2 \<or> check_player_bankroll c w \<noteq> None) \<and> l' = l \<and> w' = w
          | Some rp \<Rightarrow> max_players \<ge> 2 \<and> check_player_bankroll c w = None
              \<and> l_player_rooms l' = (l_player_rooms l)(c \<mapsto> rp) \<and> rp = l_fresh l)))"
proof (cases "max_players < 2 \<or> check_player_bankroll c w \<noteq> None")
  case True
  then show ?thesis using wf by (auto simp: create_room_def)
next
  case False
  have mx: "2 \<le> unat max_players" using False by (simp add: word_less_nat_alt)
  have eq: "create_room n name max_players c l w
      = bind_r (if l_player_rooms l c \<noteq> None then leave_room n c l w else Ret (l, w))
        (\<lambda>(l, w). make_room n name max_players c l w)"
    using False by (simp add: create_room_def)
  show ?thesis
    unfolding eq
  proof (rule bind_r_cases, goal_cases)
    case (2 lw)
    obtain l1 w1 where lw: "lw = (l1, w1)" by (cases lw)
    have "leaves c l w lw" using leave_first_wf [OF wf, of c n w] 2 by blast
    then have l1: "lobby_wf l1" "same_world w w1" "l_player_rooms l1 = (l_player_rooms l)(c := None)"
        "rooms_fit l \<longrightarrow> rooms_fit l1" "l_fresh l1 = l_fresh l"
      by (simp_all add: leaves_def lw)
    obtain l' w' where mk: "make_room n name max_players c l1 w1 = Ret (Some (l_fresh l1), l', w')"
        "same_world w1 w'" "lobby_wf l'" "rooms_fit l1 \<and> unat max_players \<le> max_seats \<longrightarrow> rooms_fit l'"
        "l_player_rooms l' = (l_player_rooms l1)(c \<mapsto> l_fresh l1)"
      using make_room_wf [OF l1(1) mx, of c n name w1] l1(3) by auto
    show ?case
      using mk l1 same_world_trans [OF l1(2) mk(2)] False by (simp add: lw not_less)
  qed (use leave_first_wf [OF wf, of c n w] in blast)
qed

text \<open>What \<open>join_room\<close> does: nothing on an error of the first two checks; otherwise the player has left
  the old room in any case, and is in the new one exactly if there is no error.\<close>

definition joins :: "cid \<Rightarrow> u64 \<Rightarrow> lobby \<Rightarrow> lobby \<times> error_code option \<Rightarrow> bool" where
  "joins c i l res \<longleftrightarrow> (case res of
      (l', None) \<Rightarrow> (\<exists>rp. rp \<in> set (l_rooms l') \<and> r_id (room_at l' rp) = i
         \<and> l_player_rooms l' = (l_player_rooms l)(c \<mapsto> rp))
    | (l', Some e) \<Rightarrow> l_player_rooms l' = (l_player_rooms l)(c := None) \<and>
        e \<in> {JoinFailed, GameAlreadyStarted, RoomFull} \<or> l' = l \<and> e = NotEnoughChips)"

lemma join_room_wf:
  assumes wf: "lobby_wf l" "rooms_fit l"
  shows "(\<forall>e. join_room n i c l w \<noteq> Exn e)
    \<and> (\<forall>res. join_room n i c l w = Ret res \<longrightarrow> stays_wf l w res \<and> (case res of (err, l', w') \<Rightarrow> joins c i l (l', err)))"
proof (cases "check_player_bankroll c w")
  case (Some e)
  then have "e = NotEnoughChips" by (auto simp: check_player_bankroll_def Let_def split: option.splits if_splits)
  then show ?thesis using Some wf by (simp add: join_room_def stays_wf_def joins_def)
next
  case None
  show ?thesis
  proof (cases "case l_player_rooms l c of None \<Rightarrow> False | Some rp \<Rightarrow> r_id (room_at l rp) = i")
    case True
    then obtain rp where rp: "l_player_rooms l c = Some rp" "r_id (room_at l rp) = i"
      by (auto split: option.splits)
    moreover have "l_player_rooms l = (l_player_rooms l)(c \<mapsto> rp)" using rp(1) by (simp add: fun_upd_idem)
    ultimately show ?thesis
      using None True wf wf_room(1) [OF wf(1) rp(1)] by (auto simp: join_room_def stays_wf_def joins_def)
  next
    case False
    have eq: "join_room n i c l w = bind_r (if l_player_rooms l c \<noteq> None then leave_room n c l w else Ret (l, w))
            (\<lambda>(l, w). enter_room n i c l w)"
      using None False by (simp add: join_room_def)
    show ?thesis
      unfolding eq
    proof (rule bind_r_cases, goal_cases)
      case (2 lw)
      obtain l1 w1 where lw: "lw = (l1, w1)" by (cases lw)
      have "leaves c l w lw" using leave_first_wf [OF wf(1), of c n w] 2 by blast
      then have l1: "lobby_wf l1" "same_world w w1" "l_player_rooms l1 = (l_player_rooms l)(c := None)"
          "rooms_fit l1" using wf(2) by (simp_all add: leaves_def lw)
      then have c1: "l_player_rooms l1 c = None" by simp
      note en = enter_room_wf [OF l1(1,4) c1, of n i w1]
      have "stays_wf l w (err, l', w') \<and> joins c i l (l', err)" if r: "enter_room n i c l1 w1 = Ret (err, l', w')" for err l' w'
      proof (cases err)
        case (Some e)
        have "l' = l1 \<and> w' = w1 \<and> e \<in> {JoinFailed, GameAlreadyStarted, RoomFull}"
          using en r Some by (auto split: option.splits if_splits)
        then show ?thesis using l1 Some wf by (auto simp: stays_wf_def joins_def)
      next
        case None
        have st: "stays_wf l1 w1 (err, l', w')"
          and "\<exists>rp. get_room l1 i = Some rp \<and> l_player_rooms l' = (l_player_rooms l1)(c \<mapsto> rp)"
          using en r None by (fastforce split: option.splits)+
        then obtain rp where rp: "get_room l1 i = Some rp" "l_player_rooms l' = (l_player_rooms l1)(c \<mapsto> rp)" by blast
        have lw': "lobby_wf l'" "same_world w w'" "rooms_fit l'"
          using st l1 same_world_trans by (auto simp: stays_wf_def)
        have mem: "rp \<in> set (l_rooms l1)" "r_id (room_at l1 rp) = i" using get_room_Some [OF rp(1)] by auto
        have mem': "rp \<in> set (l_rooms l')" using lw'(1) rp(2) wf_room(1) [of l' c rp] by simp
        then have "r_id (room_at l' rp) = word_of_nat (Suc rp)" "r_id (room_at l1 rp) = word_of_nat (Suc rp)"
          using lw'(1) l1(1) mem(1) unfolding lobby_wf_def by blast+
        then show ?thesis
          using None lw' mem mem' rp(2) l1(3) wf by (auto simp: stays_wf_def joins_def)
      qed
      then show ?case using en by (auto simp: lw)
    qed (use leave_first_wf [OF wf(1), of c n w] in blast)
  qed
qed

lemma set_room_same_wf:
  assumes "lobby_wf l" "rp \<in> set (l_rooms l)" "room_wf r" "r = (room_at l rp)\<lparr>r_game := g\<rparr>"
  shows "lobby_wf (set_room rp r l)" "rooms_fit l \<Longrightarrow> rooms_fit (set_room rp r l)"
  using assms by (auto intro: lobby_wf_set_room rooms_fit_set_room)

lemma lobby_start_game_wf:
  assumes wf: "lobby_wf l" "rooms_fit l"
  shows "(\<forall>e. lobby_start_game n c l w \<noteq> Exn e)
    \<and> (\<forall>res. lobby_start_game n c l w = Ret res \<longrightarrow> stays_wf l w res
        \<and> l_player_rooms (fst (snd res)) = l_player_rooms l)"
proof (cases "l_player_rooms l c")
  case None
  then show ?thesis using wf by (simp add: lobby_start_game_def find_room_by_player_def stays_wf_def)
next
  case (Some rp)
  note room = wf_room [OF wf(1) Some]
  have eq: "lobby_start_game n c l w = bind_r (try_start_game n c (room_at l rp) w) (\<lambda>(error, room, w).
            let l = set_room rp room l
            in case error of
                 Some e \<Rightarrow> Ret (Some e, l, w)
               | None \<Rightarrow> Ret (None, l, broadcast_room_list l w))"
    using Some by (simp add: lobby_start_game_def find_room_by_player_def)
  have fit: "room_size_ok (room_at l rp)" using wf(2) room(1) by (simp add: rooms_fit_def)
  note ts = try_start_game_wf [OF room(4) fit, of n c w]
  show ?thesis
    unfolding eq
  proof (rule bind_r_cases, goal_cases)
    case (2 x)
    obtain err r w1 where x: "x = (err, r, w1)" by (cases x) blast
    obtain g where r: "room_wf r" "same_world w w1" "r = (room_at l rp)\<lparr>r_game := g\<rparr>"
      using ts 2 x by blast
    note sw = set_room_same_wf [OF wf(1) room(1) r(1,3)]
    show ?case
      using sw wf(2) r(2) same_world_trans [OF r(2) same_world_room_list]
      by (cases err) (simp_all add: x Let_def stays_wf_def)
  qed (use ts in blast)
qed

lemma room_action_wf:
  assumes wf: "lobby_wf l" and c: "l_player_rooms l c = Some rp"
  shows "(\<forall>e. room_action n rp c a amt l w \<noteq> Exn e)
    \<and> (\<forall>l' w'. room_action n rp c a amt l w = Ret (l', w') \<longrightarrow> stays_wf l w ((), l', w')
        \<and> l_player_rooms l' = l_player_rooms l)"
proof -
  note room = wf_room [OF wf c]
  note pa = on_player_action_wf [OF room(4), of n c a amt w]
  have "stays_wf l w ((), set_room rp r l, w') \<and> l_player_rooms (set_room rp r l) = l_player_rooms l"
    if eq: "on_player_action n c a amt (room_at l rp) w = Ret (r, w')" for r w'
  proof -
    obtain g where r: "room_wf r" "same_world w w'" "r = (room_at l rp)\<lparr>r_game := g\<rparr>"
      using pa eq by blast
    show ?thesis using set_room_same_wf [OF wf room(1) r(1,3)] r(2) by (simp add: stays_wf_def)
  qed
  then show ?thesis
    using pa by (cases "on_player_action n c a amt (room_at l rp) w") (auto simp: room_action_def)
qed

section \<open>Claims\<close>

lemma new_lobby_wf: "lobby_wf new_lobby" "rooms_fit new_lobby"
  by (simp_all add: lobby_wf_def rooms_fit_def new_lobby_def)

text \<open>
  C15. The lobby invariant: \<open>player_rooms_\<close> says that a connection is in a room exactly if that room is
  listed and lists the connection, so nobody is in two rooms; no listed room is empty; every room
  is consistent (\<open>room_wf\<close>). Creating, joining, leaving, starting and playing keep this, and while all
  rooms fit the deck none of them throws. After a creation the creator is in the new room and in
  no other, after leaving the player is in no room, and nobody else moves; joining is \<open>joins\<close>: a
  failed attempt may cost the place in the old room.
\<close>

theorem lobby_invariant:
  assumes "lobby_wf l" "rooms_fit l"
  shows "(case create_room n name mx c l w of
        Ret (made, l', w') \<Rightarrow> lobby_wf l' \<and> (unat mx \<le> max_seats \<longrightarrow> rooms_fit l')
          \<and> (case made of
               None \<Rightarrow> l' = l \<and> (mx < 2 \<or> check_player_bankroll c w \<noteq> None)
             | Some rp \<Rightarrow> l_player_rooms l' = (l_player_rooms l)(c \<mapsto> rp))
      | Exn e \<Rightarrow> False | NoFuel \<Rightarrow> True)
    \<and> (case join_room n i c l w of
        Ret (err, l', w') \<Rightarrow> lobby_wf l' \<and> rooms_fit l' \<and> joins c i l (l', err)
      | Exn e \<Rightarrow> False | NoFuel \<Rightarrow> True)
    \<and> (case leave_room n c l w of
        Ret (l', w') \<Rightarrow> lobby_wf l' \<and> rooms_fit l' \<and> l_player_rooms l' = (l_player_rooms l)(c := None)
      | Exn e \<Rightarrow> False | NoFuel \<Rightarrow> True)
    \<and> (case lobby_start_game n c l w of
        Ret (err, l', w') \<Rightarrow> lobby_wf l' \<and> rooms_fit l' \<and> l_player_rooms l' = l_player_rooms l
      | Exn e \<Rightarrow> False | NoFuel \<Rightarrow> True)
    \<and> (\<forall>rp. find_room_by_player l c = Some rp \<longrightarrow>
        (case room_action n rp c a amt l w of
           Ret (l', w') \<Rightarrow> lobby_wf l' \<and> rooms_fit l' \<and> l_player_rooms l' = l_player_rooms l
         | Exn e \<Rightarrow> False | NoFuel \<Rightarrow> True))"
proof (intro conjI allI impI)
  show "case create_room n name mx c l w of
        Ret (made, l', w') \<Rightarrow> lobby_wf l' \<and> (unat mx \<le> max_seats \<longrightarrow> rooms_fit l')
          \<and> (case made of
               None \<Rightarrow> l' = l \<and> (mx < 2 \<or> check_player_bankroll c w \<noteq> None)
             | Some rp \<Rightarrow> l_player_rooms l' = (l_player_rooms l)(c \<mapsto> rp))
      | Exn e \<Rightarrow> False | NoFuel \<Rightarrow> True"
  proof (rule result_case)
    fix res assume "create_room n name mx c l w = Ret res"
    then have "case res of (made, l', w') \<Rightarrow>
        lobby_wf l' \<and> same_world w w' \<and> (rooms_fit l \<and> unat mx \<le> max_seats \<longrightarrow> rooms_fit l')
        \<and> (case made of
            None \<Rightarrow> (mx < 2 \<or> check_player_bankroll c w \<noteq> None) \<and> l' = l \<and> w' = w
          | Some rp \<Rightarrow> mx \<ge> 2 \<and> check_player_bankroll c w = None
              \<and> l_player_rooms l' = (l_player_rooms l)(c \<mapsto> rp) \<and> rp = l_fresh l)"
      using create_room_wf [OF assms(1), of n name mx c w] by blast
    then show "case res of (made, l', w') \<Rightarrow> lobby_wf l' \<and> (unat mx \<le> max_seats \<longrightarrow> rooms_fit l')
          \<and> (case made of
               None \<Rightarrow> l' = l \<and> (mx < 2 \<or> check_player_bankroll c w \<noteq> None)
             | Some rp \<Rightarrow> l_player_rooms l' = (l_player_rooms l)(c \<mapsto> rp))"
      using assms(2) by (cases res; cases "fst res") simp_all
  qed (use create_room_wf [OF assms(1), of n name mx c w] in blast)
  show "case join_room n i c l w of
        Ret (err, l', w') \<Rightarrow> lobby_wf l' \<and> rooms_fit l' \<and> joins c i l (l', err)
      | Exn e \<Rightarrow> False | NoFuel \<Rightarrow> True"
    by (rule result_case) (use join_room_wf [OF assms, of n i c w] assms(2) in \<open>simp_all add: stays_wf_def split_beta\<close>)
  show "case leave_room n c l w of
        Ret (l', w') \<Rightarrow> lobby_wf l' \<and> rooms_fit l' \<and> l_player_rooms l' = (l_player_rooms l)(c := None)
      | Exn e \<Rightarrow> False | NoFuel \<Rightarrow> True"
    by (rule result_case) (use leave_room_wf [OF assms(1), of n c w] assms(2) in \<open>simp_all add: leaves_def split_beta\<close>)
  show "case lobby_start_game n c l w of
        Ret (err, l', w') \<Rightarrow> lobby_wf l' \<and> rooms_fit l' \<and> l_player_rooms l' = l_player_rooms l
      | Exn e \<Rightarrow> False | NoFuel \<Rightarrow> True"
    by (rule result_case) (use lobby_start_game_wf [OF assms, of n c w] assms(2) in \<open>simp_all add: stays_wf_def split_beta\<close>)
  fix rp assume "find_room_by_player l c = Some rp"
  then have c: "l_player_rooms l c = Some rp" by (simp add: find_room_by_player_def)
  show "case room_action n rp c a amt l w of
           Ret (l', w') \<Rightarrow> lobby_wf l' \<and> rooms_fit l' \<and> l_player_rooms l' = l_player_rooms l
         | Exn e \<Rightarrow> False | NoFuel \<Rightarrow> True"
    by (rule result_case) (use room_action_wf [OF assms(1) c, of n a amt w] assms(2) in \<open>auto simp: stays_wf_def split_beta\<close>)
qed

theorem lobby_invariant_witness:
  "\<exists>l w. create_room 20 ''table'' 6 0 new_lobby sample_world = Ret (Some 0, l, w) \<and> lobby_wf l
    \<and> l_player_rooms l = [0 \<mapsto> 0]"
proof -
  have c: "check_player_bankroll 0 sample_world = None"
    by (simp add: check_player_bankroll_def sample_world_def)
  have none: "l_player_rooms new_lobby = Map.empty" by (simp add: new_lobby_def)
  have "(2 :: nat) \<le> unat (6 :: u8)" by simp
  from make_room_eq [OF this, where l = new_lobby and c = 0 and w = sample_world and n = 20 and name = "''table''"] none
  obtain l w where mk: "make_room 20 ''table'' 6 0 new_lobby sample_world = Ret (Some (l_fresh new_lobby), l, w)"
    by auto
  then have "create_room 20 ''table'' 6 0 new_lobby sample_world = Ret (Some 0, l, w)"
    using c none by (simp add: create_room_def new_lobby_def)
  then show ?thesis
    using lobby_invariant [OF new_lobby_wf, where n = 20 and name = "''table''" and mx = 6 and c = 0 and w = sample_world] none by simp
qed

text \<open>
  Room ids: as long as fewer than 2^64 - 1 rooms have been made, no two listed rooms have the same
  id, so \<open>get_room\<close> on a room's id finds this room, and an id that no listed room has finds none.
\<close>

theorem room_ids_unique:
  assumes "lobby_wf l" "l_fresh l < 2 ^ 64 - 1"
  shows "(\<forall>rp \<in> set (l_rooms l). get_room l (r_id (room_at l rp)) = Some rp)
    \<and> (get_room l i = None \<longleftrightarrow> i \<notin> (\<lambda>rp. r_id (room_at l rp)) ` set (l_rooms l))"
proof (intro conjI ballI)
  fix rp assume rp: "rp \<in> set (l_rooms l)"
  have r_id: "r_id (room_at l x) = word_of_nat (Suc x)" "Suc x < 2 ^ 64" if "x \<in> set (l_rooms l)" for x
    using assms that unfolding lobby_wf_def by force+
  have "r_id (room_at l x) = r_id (room_at l y) \<Longrightarrow> x = y" if "x \<in> set (l_rooms l)" "y \<in> set (l_rooms l)" for x y
  proof -
    assume "r_id (room_at l x) = r_id (room_at l y)"
    then have "unat (word_of_nat (Suc x) :: u64) = unat (word_of_nat (Suc y) :: u64)" using r_id that by simp
    then show "x = y" using r_id(2) [OF that(1)] r_id(2) [OF that(2)]
      by (simp add: unsigned_of_nat take_bit_nat_eq_self del: of_nat_Suc)
  qed
  moreover have "get_room l (r_id (room_at l rp)) \<noteq> None" using rp by (auto simp: get_room_def find_None_iff)
  ultimately show "get_room l (r_id (room_at l rp)) = Some rp"
    using rp get_room_Some by fastforce
next
  show "get_room l i = None \<longleftrightarrow> i \<notin> (\<lambda>rp. r_id (room_at l rp)) ` set (l_rooms l)"
    by (auto simp: get_room_def find_None_iff)
qed

theorem room_ids_unique_witness: "get_room new_lobby 1 = None"
  using room_ids_unique [OF new_lobby_wf(1), of 1] by (simp add: new_lobby_def)

end
