(* ===== verification/RoomBooks.thy ===== *)
theory RoomBooks
  imports GameBooks Lobby
begin

text \<open>
  The books of the rooms: a room whose players are the only ones that its calls touch, and all rooms of
  the lobby together. A call works on one room while the accounts of the players in other rooms stay as
  they are, so the books of the lobby follow from those of the room.
\<close>

section \<open>One room\<close>

definition room_keys :: "(cid \<Rightarrow> string) \<Rightarrow> room \<Rightarrow> string set" where
  "room_keys nm r = (case r_game r of None \<Rightarrow> {} | Some g \<Rightarrow> (\<lambda>c. nocase (nm c)) ` set (r_players r))"

definition room_books :: "(cid \<Rightarrow> string) \<Rightarrow> database \<Rightarrow> nat \<Rightarrow> room \<Rightarrow> bool" where
  "room_books nm d T r \<longleftrightarrow> (case r_game r of None \<Rightarrow> True
     | Some g \<Rightarrow> g_players g = r_players r \<and> (\<forall>c \<in> set (r_players r). g_name g c = nm c) \<and> table_books d T g)"

text \<open>The accounts \<open>N\<close>, without those in \<open>B\<close>, and the table of the room hold at most \<open>C\<close>.\<close>

definition room_state :: "(cid \<Rightarrow> string) \<Rightarrow> string list \<Rightarrow> string set \<Rightarrow> nat \<Rightarrow> room \<Rightarrow> world \<Rightarrow> bool" where
  "room_state nm N B C r w \<longleftrightarrow> w_name w = nm \<and> (\<exists>d T. w_repo w = Some d \<and> db_wf d \<and> account_names d = N
     \<and> account_sum (room_keys nm r \<union> B) d + T \<le> C \<and> room_books nm d T r)"

text \<open>The room and the world after a call that may change the accounts in \<open>K\<close>.\<close>

definition room_moves ::
  "(cid \<Rightarrow> string) \<Rightarrow> string list \<Rightarrow> string set \<Rightarrow> string set \<Rightarrow> nat \<Rightarrow> world \<Rightarrow> room \<Rightarrow> world \<Rightarrow> bool" where
  "room_moves nm N B K C w r' w' \<longleftrightarrow> room_state nm N B C r' w'
     \<and> (\<forall>d. w_repo w = Some d \<longrightarrow> (\<exists>d'. w_repo w' = Some d' \<and> same_accounts K d d'))"

lemma room_state_world:
  "w_repo w' = w_repo w \<Longrightarrow> w_name w' = w_name w \<Longrightarrow> room_state nm N B C r w' = room_state nm N B C r w"
  by (simp add: room_state_def)

lemma room_moves_refl: "room_state nm N B C r w \<Longrightarrow> room_moves nm N B K C w r w"
  by (auto simp: room_moves_def room_state_def)

lemma room_moves_world:
  assumes "w_repo w1 = w_repo w" "w_repo w2 = w_repo w'" "w_name w2 = w_name w'"
  shows "room_moves nm N B K C w1 r w2 = room_moves nm N B K C w r w'"
  by (simp add: room_moves_def assms room_state_world [OF assms(2,3)])

lemma room_state_cong:
  assumes "r_game r' = r_game r" "r_game r = None \<or> r_players r' = r_players r"
  shows "room_state nm N B C r' w = room_state nm N B C r w"
  using assms by (auto simp: room_state_def room_keys_def room_books_def split: option.split)

lemma notify_world [simp]:
  "room_state nm N B C r (notify_all_about_joined r' w) = room_state nm N B C r w"
  "room_moves nm N B K C w r (notify_all_about_joined r' w') = room_moves nm N B K C w r w'"
  by (simp_all add: room_state_def room_moves_def notify_fields)

text \<open>A call of the game.\<close>

lemma game_call_books:
  assumes "game_call f g w = Ret (g', w')"
    and "keeps (kept_books B K d C) (f (g\<lparr>g_repo := w_repo w, g_outbox := []\<rparr>))"
  shows "\<exists>h. f (g\<lparr>g_repo := w_repo w, g_outbox := []\<rparr>) = Ret h \<and> g' = h\<lparr>g_outbox := []\<rparr>
    \<and> kept_books B K d C g' \<and> w_repo w' = g_repo g' \<and> w_name w' = w_name w"
proof -
  obtain h where h: "f (g\<lparr>g_repo := w_repo w, g_outbox := []\<rparr>) = Ret h" "g' = h\<lparr>g_outbox := []\<rparr>"
      "w' = fold remote_player_send (g_outbox h) (w\<lparr>w_repo := g_repo h\<rparr>)"
    using assms(1) unfolding game_call_def map_r_Ret_iff by auto
  have "w_repo (fold remote_player_send ms v) = w_repo v \<and> w_name (fold remote_player_send ms v) = w_name v" for ms v
    by (induction ms arbitrary: v) (simp_all add: remote_player_send_def send_to_def)
  moreover have "kept_books B K d C h" using assms(2) h(1) by simp
  then have "kept_books B K d C g'" by (rule kept_books_cong [rotated -1]) (simp_all add: h(2))
  ultimately show ?thesis using h by simp
qed

lemma kept_books_room:
  assumes k: "kept_books B K d C g" and names: "account_names d = N" "w_name w' = nm" "w_repo w' = g_repo g"
    and pl: "g_players g = r_players r" "\<forall>c \<in> set (r_players r). g_name g c = nm c"
  shows "room_state nm N B C (r\<lparr>r_game := Some g\<rparr>) w'" "\<exists>d'. w_repo w' = Some d' \<and> same_accounts K d d'"
proof -
  obtain d' T where d': "g_repo g = Some d'" "same_accounts K d d'" "table_books d' T g"
    "account_sum (seat_keys g \<union> B) d' + T \<le> C"
    using k unfolding kept_books_def by blast
  have "room_keys nm (r\<lparr>r_game := Some g\<rparr>) = seat_keys g" using pl by (simp add: room_keys_def)
  moreover have "room_books nm d' T (r\<lparr>r_game := Some g\<rparr>)" using pl d'(3) by (simp add: room_books_def)
  moreover have "db_wf d'" "account_names d' = N" using d'(2) names(1) by (simp_all add: same_accounts_def)
  ultimately show "room_state nm N B C (r\<lparr>r_game := Some g\<rparr>) w'"
    using d' names unfolding room_state_def by auto
  show "\<exists>d'. w_repo w' = Some d' \<and> same_accounts K d d'" using d' names(3) by simp
qed

lemma room_kept_books:
  assumes st: "room_state nm N B C r w" and g: "r_game r = Some g" "g_players g = r_players r"
    and K: "C < 2 ^ 32 - 1" "B \<inter> K = {}" "(\<lambda>c. nocase (nm c)) ` set (r_players r) \<subseteq> K"
  shows "\<exists>d. w_repo w = Some d \<and> account_names d = N \<and> kept_books B K d C (g\<lparr>g_repo := w_repo w, g_outbox := []\<rparr>)"
proof -
  let ?g = "g\<lparr>g_repo := w_repo w, g_outbox := []\<rparr>"
  obtain d T where d: "w_repo w = Some d" "db_wf d" "account_names d = N"
    "account_sum (room_keys nm r \<union> B) d + T \<le> C" "room_books nm d T r"
    using st by (auto simp: room_state_def)
  have b: "\<forall>c \<in> set (r_players r). g_name g c = nm c" "table_books d T g" using d(5) g(1) by (simp_all add: room_books_def)
  have "room_keys nm r = seat_keys ?g" using g b(1) by (simp add: room_keys_def)
  moreover have "table_books d T ?g" using b(2) within_cong [of ?g g T] by (simp add: table_books_def own_accounts_def)
  ultimately show ?thesis using d K g b(1) unfolding kept_books_def by auto
qed

subsection \<open>Its operations\<close>

text \<open>The players of the room, and who joins, have accounts of their own, and those are in \<open>K\<close>.\<close>

definition apart :: "(cid \<Rightarrow> string) \<Rightarrow> string set \<Rightarrow> string set \<Rightarrow> cid set \<Rightarrow> bool" where
  "apart nm B K A \<longleftrightarrow> inj_on (\<lambda>c. nocase (nm c)) A \<and> B \<inter> K = {} \<and> (\<lambda>c. nocase (nm c)) ` A \<subseteq> K"

lemma apart_mono: "apart nm B K A \<Longrightarrow> A' \<subseteq> A \<Longrightarrow> apart nm B K A'"
  unfolding apart_def using inj_on_subset by blast

lemma account_chips_banked:
  assumes "w_repo w = Some d" "BIG_BLIND \<le> account_chips w n"
  shows "balance d n \<noteq> None" "account_chips w n = banked d n"
  using assms by (auto simp: account_chips_def banked_def balance_def getd_def BIG_BLIND_def split: option.splits)

lemma start_game_books:
  assumes wf: "room_wf r" "room_size_ok r" "2 \<le> length (r_players r)"
    and st: "room_state nm N B C r w" "C < 2 ^ 32 - 1" "apart nm B K (set (r_players r))"
    and eq: "start_game n r w = Ret (x, r', w')"
  shows "room_moves nm N B K C w r' w'"
proof (cases "r_game r")
  case (Some g)
  then show ?thesis using eq room_moves_refl [OF st(1)] by (simp add: start_game_def)
next
  case None
  show ?thesis
  proof (cases rule: start_game_cases [OF None, of n w])
    case (1 e)
    then show ?thesis using eq room_moves_refl [OF st(1)] by simp
  next
    case (2 b g)
    let ?w = "w\<lparr>w_games := w_games w + 1\<rparr>" and ?ps = "r_players r"
    let ?g = "g\<lparr>g_repo := w_repo ?w, g_outbox := []\<rparr>"
    obtain d T where d: "w_repo w = Some d" "db_wf d" "account_names d = N" "account_sum B d + T \<le> C" "w_name w = nm"
      using st(1) None by (auto simp: room_state_def room_keys_def)
    have dist: "distinct ?ps" using wf(1) by (simp add: room_wf_def)
    have inj: "inj_on (\<lambda>c. nocase (nm c)) (set ?ps)" "B \<inter> K = {}" "(\<lambda>c. nocase (nm c)) ` set ?ps \<subseteq> K"
      using st(3) by (simp_all add: apart_def)
    have big: "\<And>p. p \<in> set ?ps \<Longrightarrow> \<not> account_chips w (nm p) < BIG_BLIND"
      and b: "b = (\<lambda>n. if n \<in> nm ` set ?ps then Some (account_chips w n) else None)"
      using 2(1) d(5) unfolding load_player_bankrolls_def bankrolls_loop_eq by (auto split: if_splits)
    have seating: "valid_seating ?ps (map_of (map (\<lambda>c. (c, c)) ?ps))"
      using wf dist by (intro room_seating) (simp_all add: room_size_ok_def room_wf_def)
    have g: "seated ?g" "g_players ?g \<noteq> []"
      unfolding 2(2) new_game_repo using seated_new_game [OF seating] by simp_all
    have f: "g_players ?g = ?ps" "g_name ?g = nm" "g_repo ?g = Some d" by (simp_all add: 2(2) new_game_def d)
    have own: "own_accounts d ?g"
      using inj(1) big account_chips_banked(1) [OF d(1)] f by (auto simp: own_accounts_def not_less)
    have "stack_at_deal ?g p = banked d (nm p)" if "p \<in> set ?ps" for p
      using that big [OF that] account_chips_banked(2) [OF d(1)] b d(5)
      by (simp add: 2(2) new_game_def stack_at_deal_def initial_chips_def getd_def not_less)
    then have stacks: "nsum (stack_at_deal ?g) ?ps = nsum (banked d) (map nm ?ps)"
      by (simp add: nsum_def comp_def cong: map_cong)
    have "account_sum B d = account_sum (nocase ` set (map nm ?ps) \<union> B) d + nsum (banked d) (map nm ?ps)"
      by (rule account_sum_names [OF d(2)])
        (use inj dist in \<open>auto simp: distinct_map inj_on_def image_image\<close>)
    then have "account_sum (seat_keys ?g \<union> B) d + nsum (stack_at_deal ?g) ?ps \<le> C"
      using d(4) unfolding stacks f by (simp add: image_image)
    then have "kept_books B K d C (open_betting h)" if "dealt ?g h" for h
      using open_books [OF that g f(3) _ own d(2), where T = "nsum (stack_at_deal ?g) ?ps"] d(2) st(2) inj f by simp
    then have keeps: "keeps (kept_books B K d C) (start n ?g)" by (intro books.hand_keeps(1) [OF g])
    have sound: "sound ?g (start n ?g)" using g by (rule hand_sound(1))
    obtain g1 where g1: "game_call (start n) g ?w = Ret (g1, w')" "r' = r\<lparr>r_game := Some g1\<rparr>"
      using eq unfolding 2(3) map_r_Ret_iff by auto
    obtain h where h: "start n ?g = Ret h" "g1 = h\<lparr>g_outbox := []\<rparr>" "kept_books B K d C g1" "w_repo w' = g_repo g1"
      "w_name w' = w_name ?w" using game_call_books [OF g1(1) keeps] by blast
    have pl: "g_players g1 = ?ps" "g_name g1 = nm" using sound h(1,2) f by (simp_all add: same_seats_def)
    show ?thesis
      using kept_books_room [OF h(3) d(3) _ h(4) pl(1)] pl(2) h(5) d(1,5) g1(2) by (simp add: room_moves_def)
  qed
qed

lemma action_books:
  assumes wf: "room_wf r" and st: "room_state nm N B C r w" "C < 2 ^ 32 - 1" "apart nm B K (set (r_players r))"
    and eq: "on_player_action n c a amt r w = Ret (r', w')"
  shows "room_moves nm N B K C w r' w'"
proof (cases "r_game r")
  case None
  then show ?thesis using eq room_moves_refl [OF st(1)] by (simp add: on_player_action_def)
next
  case (Some g)
  then have g: "table_wf g" "g_players g = r_players r" using wf by (simp_all add: room_wf_def game_of_room_def)
  let ?g = "g\<lparr>g_repo := w_repo w, g_outbox := []\<rparr>"
  obtain d where d: "w_repo w = Some d" "account_names d = N" "kept_books B K d C ?g"
    using room_kept_books [OF st(1) Some g(2) st(2)] st(3) unfolding apart_def by blast
  have wfg: "table_wf ?g" using g(1) by simp
  have keeps: "keeps (kept_books B K d C) (apply_action n c a amt ?g)" by (rule books.apply_action_keeps [OF wfg d(3)])
  obtain g1 where g1: "game_call (apply_action n c a amt) g w = Ret (g1, w')" "r' = r\<lparr>r_game := Some g1\<rparr>"
    using eq Some by (auto simp: on_player_action_def map_r_Ret_iff)
  obtain h where h: "apply_action n c a amt ?g = Ret h" "g1 = h\<lparr>g_outbox := []\<rparr>" "kept_books B K d C g1"
    "w_repo w' = g_repo g1" "w_name w' = w_name w" using game_call_books [OF g1(1) keeps] by blast
  have pl: "g_players g1 = r_players r" "g_name g1 = g_name g"
    using apply_action_result [OF wfg] h(1,2) g(2) by (auto simp: same_seats_def)
  have "\<forall>c \<in> set (r_players r). g_name g c = nm c" "w_name w = nm"
    using st(1) Some by (auto simp: room_state_def room_books_def)
  then show ?thesis
    using kept_books_room [OF h(3) d(2) _ h(4) pl(1)] pl(2) h(5) d(1) g1(2) by (simp add: room_moves_def)
qed

lemma try_start_books:
  assumes "room_wf r" "room_size_ok r" "room_state nm N B C r w" "C < 2 ^ 32 - 1" "apart nm B K (set (r_players r))"
    and "try_start_game n c r w = Ret (x, r', w')"
  shows "room_moves nm N B K C w r' w'"
proof (cases "r_game r = None \<and> c = r_host r \<and> 2 \<le> length (r_players r)")
  case True
  then have "start_game n r w = Ret (x, r', w')" using assms(6) by (auto simp: try_start_game_def)
  then show ?thesis using start_game_books [OF assms(1,2) _ assms(3-5)] True by blast
next
  case False
  then have "r' = r \<and> w' = w" using assms(6) by (auto simp: try_start_game_def not_le split: if_splits)
  then show ?thesis using room_moves_refl [OF assms(3)] by simp
qed

lemma add_player_books:
  assumes wf: "room_wf r" "room_size_ok r" "2 \<le> unat (r_max_players r)"
    and c: "c \<notin> set (r_players r)" "r_players r = [] \<Longrightarrow> c = r_host r"
    and st: "room_state nm N B C r w" "C < 2 ^ 32 - 1" "apart nm B K (insert c (set (r_players r)))"
    and eq: "room_add_player n c r w = Ret (x, r', w')"
  shows "room_moves nm N B K C w r' w'"
proof (cases "r_game r = None \<and> length (r_players r) < unat (r_max_players r)")
  case False
  then have "r' = r \<and> w' = w" using eq by (auto simp: room_add_player_def split: if_splits)
  then show ?thesis using room_moves_refl [OF st(1)] by simp
next
  case True
  let ?r = "r\<lparr>r_players := r_players r @ [c]\<rparr>"
  let ?w = "notify_all_about_joined ?r w"
  have wf': "room_wf ?r" "room_size_ok ?r" using wf c True by (auto simp: room_wf_def room_size_ok_def)
  have st': "room_state nm N B C ?r ?w" using st(1) True room_state_cong [of ?r r] by simp
  have moved: "room_moves nm N B K C ?w q v \<Longrightarrow> room_moves nm N B K C w q v" for q v
    by (simp add: room_moves_def notify_fields)
  show ?thesis
  proof (cases "length (r_players ?r) = unat (r_max_players r)")
    case full: True
    then have "\<exists>y. start_game n ?r ?w = Ret (y, r', w')"
      using eq True by (auto simp: room_add_player_def Let_def map_r_Ret_iff)
    then obtain y where y: "start_game n ?r ?w = Ret (y, r', w')" by blast
    have n: "2 \<le> length (r_players ?r)" using full wf(3) by simp
    have "apart nm B K (set (r_players ?r))" using st(3) by simp
    from start_game_books [OF wf' n st' st(2) this y] show ?thesis by (rule moved)
  next
    case False
    then have "r' = ?r" "w' = ?w" using eq True by (auto simp: room_add_player_def Let_def)
    then show ?thesis using moved [OF room_moves_refl [OF st']] by simp
  qed
qed

text \<open>A game ends: the accounts of its players hold at most what the table did.\<close>

lemma kept_books_closed:
  assumes k: "kept_books B K d C g" and dist: "distinct (g_players g)"
  shows "\<exists>d'. g_repo g = Some d' \<and> same_accounts K d d' \<and> account_sum B d' \<le> C"
proof -
  obtain d' T where d': "g_repo g = Some d'" "same_accounts K d d'" "db_wf d'" "own_accounts d' g"
    "nsum (\<lambda>p. banked d' (g_name g p)) (g_players g) \<le> T" "account_sum (seat_keys g \<union> B) d' + T \<le> C"
    "B \<inter> seat_keys g = {}"
    using k by (rule kept_booksE)
  let ?ns = "map (g_name g) (g_players g)"
  have "distinct (map nocase ?ns)" using d'(4) dist by (simp add: own_accounts_def distinct_map inj_on_def)
  then have "account_sum B d' = account_sum (nocase ` set ?ns \<union> B) d' + nsum (banked d') ?ns"
    by (rule account_sum_names [OF d'(3)]) (use d'(7) in \<open>auto simp: image_image\<close>)
  then have "account_sum B d' \<le> C" using d'(5,6) by (simp add: image_image nsum_def comp_def)
  then show ?thesis using d' by blast
qed

text \<open>The room after the game has let the player go: the game goes on, or it is closed and stores all stacks.\<close>

lemma game_left_books:
  assumes st: "room_state nm N B C r w" and g: "r_game r = Some g" "r_players r = g_players g" and d: "w_repo w = Some d" "account_names d = N"
    and k: "kept_books B K d C g1" "w_repo w1 = g_repo g1" "w_name w1 = w_name w"
    and pl: "g_players g1 = remove1 c (r_players r)" "g_name g1 = g_name g" "distinct (g_players g1)"
  shows "room_moves nm N B K C w (drop_player c (game_left r g1)) w1"
proof -
  let ?ps = "remove1 c (r_players r)" and ?r' = "drop_player c (game_left r g1)"
  have nm: "\<forall>c \<in> set (r_players r). g_name g c = nm c" "w_name w = nm"
    using st g(1) by (auto simp: room_state_def room_books_def)
  show ?thesis
  proof (cases "has_enough_players g1")
    case True
    let ?r = "(r\<lparr>r_players := ?ps\<rparr>)\<lparr>r_game := Some g1\<rparr>"
    have n1: "\<forall>d \<in> set (r_players (r\<lparr>r_players := ?ps\<rparr>)). g_name g1 d = nm d"
      using nm(1) pl(2) by (auto dest: notin_set_remove1)
    have "room_state nm N B C ?r w1" "\<exists>d'. w_repo w1 = Some d' \<and> same_accounts K d d'"
      by (rule kept_books_room [OF k(1) d(2) _ k(2) _ n1]; simp add: k(3) nm(2) pl(1))+
    moreover have "room_state nm N B C ?r' w1 = room_state nm N B C ?r w1"
      using True by (intro room_state_cong) (simp_all add: drop_player_fields)
    ultimately show ?thesis using d(1) by (simp add: room_moves_def)
  next
    case False
    obtain d' where d': "g_repo g1 = Some d'" "same_accounts K d d'" "account_sum B d' \<le> C"
      using kept_books_closed [OF k(1) pl(3)] by blast
    have "r_game ?r' = None" using False by (simp add: drop_player_fields)
    then have "room_state nm N B C ?r' w1"
      using d' k(2,3) d(2) nm(2)
      by (auto simp: room_state_def room_keys_def room_books_def same_accounts_def intro: exI [of _ 0])
    then show ?thesis using d' d(1) k(2) by (simp add: room_moves_def)
  qed
qed

lemma remove_player_books:
  assumes wf: "room_wf r" and st: "room_state nm N B C r w" "C < 2 ^ 32 - 1" "apart nm B K (set (r_players r))"
    and eq: "room_remove_player n c r w = Ret (x, r', w')"
  shows "room_moves nm N B K C w r' w'"
proof (cases "c \<in> set (r_players r)")
  case False
  then show ?thesis using eq room_moves_refl [OF st(1)] by (simp add: room_remove_player_def)
next
  case True
  show ?thesis
  proof (cases "r_game r")
    case None
    have "room_state nm N B C (drop_player c r) w"
      using st(1) None room_state_cong [of "drop_player c r" r] by (simp add: drop_player_fields)
    then have "room_moves nm N B K C w (drop_player c r) w" by (rule room_moves_refl)
    then show ?thesis using eq True None by (auto simp: room_remove_player_def Let_def split: if_splits)
  next
    case (Some g)
    then have g: "game_of_room r g" using wf by (simp add: room_wf_def)
    let ?g = "g\<lparr>g_repo := w_repo w, g_outbox := []\<rparr>"
    have wfg: "table_wf ?g" "g_players g = r_players r" "g_connection_map ?g c = Some c"
      using g True by (simp_all add: game_of_room_def)
    obtain d where d: "w_repo w = Some d" "account_names d = N" "kept_books B K d C ?g"
      using room_kept_books [OF st(1) Some wfg(2) st(2)] st(3) unfolding apart_def by blast
    have keeps: "keeps (kept_books B K d C) (remove_player n c ?g)" by (rule books.remove_player_keeps [OF wfg(1) d(3)])
    obtain gw where "game_call (remove_player n c) g w = Ret gw"
      using eq unfolding room_remove_playing [OF True Some] map_r_Ret_iff by blast
    then obtain g1 w1 where g1: "game_call (remove_player n c) g w = Ret (g1, w1)" by (cases gw) simp
    have r': "r' = drop_player c (game_left r g1)"
      and "w' = (if r_players r' \<noteq> [] then notify_all_about_joined r' w1 else w1)"
      using eq unfolding room_remove_playing [OF True Some] g1 map_r.simps prod.case result.inject prod.inject by blast+
    then have w': "w' = w1 \<or> w' = notify_all_about_joined r' w1" by presburger
    obtain h where h: "remove_player n c ?g = Ret h" "g1 = h\<lparr>g_outbox := []\<rparr>" "kept_books B K d C g1"
      "w_repo w1 = g_repo g1" "w_name w1 = w_name w" using game_call_books [OF g1 keeps] by blast
    have "g_players h = remove1 c (g_players ?g) \<and> g_name h = g_name ?g"
      using remove_player_sound [OF wfg(1), where c = c and n = n] unfolding wfg(3) h(1) by simp
    then have pl: "g_players g1 = remove1 c (r_players r)" "g_name g1 = g_name g" "distinct (g_players g1)"
      using wfg(2) h(2) wf by (simp_all add: room_wf_def)
    have "room_moves nm N B K C w r' w1"
      unfolding r' by (rule game_left_books [OF st(1) Some wfg(2) [symmetric] d(1,2) h(3-5) pl])
    then show ?thesis using w' by auto
  qed
qed

section \<open>All rooms\<close>

definition keys_of :: "(cid \<Rightarrow> string) \<Rightarrow> lobby \<Rightarrow> room_ptr set \<Rightarrow> string set" where
  "keys_of nm l rps = (\<Union>rp \<in> rps. room_keys nm (room_at l rp))"

definition lobby_books :: "(cid \<Rightarrow> string) \<Rightarrow> string list \<Rightarrow> nat \<Rightarrow> lobby \<Rightarrow> world \<Rightarrow> bool" where
  "lobby_books nm N C l w \<longleftrightarrow> w_name w = nm \<and> (\<exists>d T. w_repo w = Some d \<and> db_wf d \<and> account_names d = N
     \<and> account_sum (keys_of nm l (set (l_rooms l))) d + sum T (set (l_rooms l)) \<le> C
     \<and> (\<forall>rp \<in> set (l_rooms l). room_books nm d (T rp) (room_at l rp)))"

abbreviation other_keys :: "(cid \<Rightarrow> string) \<Rightarrow> lobby \<Rightarrow> room_ptr \<Rightarrow> string set" where
  "other_keys nm l rp \<equiv> keys_of nm l (set (l_rooms l) - {rp})"

lemma room_books_same:
  assumes "room_books nm d T r" "db_wf d" "same_accounts K d d'" "room_keys nm r \<inter> K = {}"
  shows "room_books nm d' T r"
proof (cases "r_game r")
  case (Some g)
  then have b: "g_players g = r_players r" "\<forall>c \<in> set (r_players r). g_name g c = nm c" "table_books d T g"
    using assms(1) by (simp_all add: room_books_def)
  have out: "nocase (g_name g c) \<notin> K" if "c \<in> set (g_players g)" for c
    using assms(4) b(1,2) that Some by (auto simp: room_keys_def)
  then have same: "banked d' (g_name g c) = banked d (g_name g c)" if "c \<in> set (g_players g)" for c
    using assms(3) that by (simp add: same_accounts_def)
  then have "nsum (\<lambda>p. banked d' (g_name g p)) (g_players g) = nsum (\<lambda>p. banked d (g_name g p)) (g_players g)"
    by (intro nsum_cong) blast
  then have "table_books d' T g"
    using b(3) same same_accounts_balance [OF assms(3,2)] by (simp add: table_books_def own_accounts_def)
  then show ?thesis using b Some by (simp add: room_books_def)
qed (simp add: room_books_def)

text \<open>A room in the lobby: its part of the books, and what a call on it makes of the whole.\<close>

lemma room_in_lobby:
  assumes books: "lobby_books nm N C l w" and rp: "rp \<in> set (l_rooms l)"
  shows "\<exists>C' \<le> C. room_state nm N (other_keys nm l rp) C' (room_at l rp) w
    \<and> (\<forall>K r' w'. room_moves nm N (other_keys nm l rp) K C' w r' w' \<longrightarrow> other_keys nm l rp \<inter> K = {}
         \<longrightarrow> lobby_books nm N C (set_room rp r' l) w')"
proof -
  let ?R = "set (l_rooms l)" and ?B = "other_keys nm l rp"
  obtain d T where d: "w_name w = nm" "w_repo w = Some d" "db_wf d" "account_names d = N"
    "account_sum (keys_of nm l ?R) d + sum T ?R \<le> C" "\<forall>rp \<in> ?R. room_books nm d (T rp) (room_at l rp)"
    using books by (auto simp: lobby_books_def)
  let ?C = "C - sum T (?R - {rp})"
  have keys: "keys_of nm l ?R = room_keys nm (room_at l rp) \<union> ?B" using rp by (auto simp: keys_of_def)
  have sum: "sum T ?R = T rp + sum T (?R - {rp})" using rp by (intro sum.remove) simp_all
  have "account_sum (room_keys nm (room_at l rp) \<union> ?B) d + T rp \<le> ?C" using d(5) keys sum by simp
  then have "room_state nm N ?B ?C (room_at l rp) w" using d rp by (auto simp: room_state_def)
  moreover have "lobby_books nm N C (set_room rp r' l) w'"
    if moves: "room_moves nm N ?B K ?C w r' w'" and out: "?B \<inter> K = {}" for K r' w'
  proof -
    obtain d' T' where d': "w_name w' = nm" "w_repo w' = Some d'" "db_wf d'" "account_names d' = N"
      "account_sum (room_keys nm r' \<union> ?B) d' + T' \<le> ?C" "room_books nm d' T' r'" "same_accounts K d d'"
      using moves d(2) by (auto simp: room_moves_def room_state_def)
    let ?l = "set_room rp r' l" and ?T = "T(rp := T')"
    have keys': "keys_of nm ?l ?R = room_keys nm r' \<union> ?B" using rp by (auto simp: keys_of_def split: if_splits)
    have "sum ?T ?R = T' + sum T (?R - {rp})" using rp by (subst sum.remove [of _ rp]) simp_all
    then have "account_sum (keys_of nm ?l ?R) d' + sum ?T ?R \<le> C" using d'(5) keys' d(5) sum by simp
    moreover have "room_books nm d' (?T q) (room_at ?l q)" if q: "q \<in> ?R" for q
    proof (cases "q = rp")
      case False
      then have "room_keys nm (room_at l q) \<inter> K = {}" using out q by (auto simp: keys_of_def)
      then show ?thesis using room_books_same [OF _ d(3) d'(7)] d(6) q False by simp
    qed (use d'(6) in simp)
    ultimately show ?thesis
      using d'(1-4) unfolding lobby_books_def set_room_fields by (intro conjI exI [of _ d'] exI [of _ ?T]) blast+
  qed
  ultimately show ?thesis by (intro exI [of _ ?C]) auto
qed

lemma lobby_books_world:
  "w_repo w' = w_repo w \<Longrightarrow> w_name w' = w_name w \<Longrightarrow> lobby_books nm N C l w' = lobby_books nm N C l w"
  by (simp add: lobby_books_def)

lemma lobby_books_rooms:
  assumes "lobby_books nm N C l w" "l_rooms l' = l_rooms l" "\<forall>rp \<in> set (l_rooms l). room_at l' rp = room_at l rp"
  shows "lobby_books nm N C l' w"
proof -
  have "keys_of nm l' (set (l_rooms l)) = keys_of nm l (set (l_rooms l))" using assms(3) by (simp add: keys_of_def)
  then show ?thesis using assms by (simp add: lobby_books_def)
qed

text \<open>A room without a table is listed or unlisted.\<close>

lemma lobby_books_unlist:
  assumes "lobby_books nm N C l w" "room_keys nm (room_at l rp) = {}"
  shows "lobby_books nm N C (l\<lparr>l_rooms := filter (\<lambda>x. x \<noteq> rp) (l_rooms l)\<rparr>) w"
proof -
  obtain d T where d: "w_name w = nm" "w_repo w = Some d" "db_wf d" "account_names d = N"
    "account_sum (keys_of nm l (set (l_rooms l))) d + sum T (set (l_rooms l)) \<le> C"
    "\<forall>rp \<in> set (l_rooms l). room_books nm d (T rp) (room_at l rp)"
    using assms(1) by (auto simp: lobby_books_def)
  let ?l = "l\<lparr>l_rooms := filter (\<lambda>x. x \<noteq> rp) (l_rooms l)\<rparr>"
  have "keys_of nm ?l (set (l_rooms ?l)) = keys_of nm l (set (l_rooms l))" using assms(2) by (auto simp: keys_of_def)
  moreover have "sum T (set (l_rooms ?l)) \<le> sum T (set (l_rooms l))" by (rule sum_mono2) auto
  ultimately have "account_sum (keys_of nm ?l (set (l_rooms ?l))) d + sum T (set (l_rooms ?l)) \<le> C" using d(5) by simp
  then show ?thesis using d unfolding lobby_books_def by (intro conjI exI [of _ d] exI [of _ T]) auto
qed

lemma lobby_books_list:
  assumes "lobby_books nm N C l w" "rp \<notin> set (l_rooms l)" "r_game r = None"
  shows "lobby_books nm N C (set_room rp r (l\<lparr>l_rooms := l_rooms l @ [rp]\<rparr>)) w"
proof -
  obtain d T where d: "w_name w = nm" "w_repo w = Some d" "db_wf d" "account_names d = N"
    "account_sum (keys_of nm l (set (l_rooms l))) d + sum T (set (l_rooms l)) \<le> C"
    "\<forall>rp \<in> set (l_rooms l). room_books nm d (T rp) (room_at l rp)"
    using assms(1) by (auto simp: lobby_books_def)
  let ?l = "set_room rp r (l\<lparr>l_rooms := l_rooms l @ [rp]\<rparr>)" and ?T = "T(rp := 0)"
  have at: "room_at ?l q = (if q = rp then r else room_at l q)" for q by (simp add: room_at_def set_room_def)
  have "room_keys nm r = {}" using assms(3) by (simp add: room_keys_def)
  then have "keys_of nm ?l (set (l_rooms ?l)) = keys_of nm l (set (l_rooms l))"
    using assms(2) by (auto simp: keys_of_def at split: if_splits)
  moreover have "sum ?T (set (l_rooms ?l)) = sum T (set (l_rooms l))"
  proof -
    have "sum ?T (insert rp (set (l_rooms l))) = sum ?T (set (l_rooms l))" using assms(2) by simp
    also have "\<dots> = sum T (set (l_rooms l))" using assms(2) by (intro sum.cong) auto
    finally show ?thesis by simp
  qed
  moreover have "room_books nm d (?T q) (room_at ?l q)" if "q \<in> set (l_rooms ?l)" for q
  proof (cases "q = rp")
    case True
    then show ?thesis using assms(3) by (simp add: room_books_def)
  next
    case False
    then show ?thesis using d(6) that by simp
  qed
  ultimately show ?thesis using d unfolding lobby_books_def by (intro conjI exI [of _ d] exI [of _ ?T]) auto
qed

subsection \<open>The operations of the lobby\<close>

text \<open>Who is in a room, and \<open>c\<close>, have accounts of their own.\<close>

definition own_names :: "(cid \<Rightarrow> string) \<Rightarrow> lobby \<Rightarrow> cid \<Rightarrow> bool" where
  "own_names nm l c \<longleftrightarrow> inj_on (\<lambda>c. nocase (nm c)) (insert c (dom (l_player_rooms l)))"

abbreviation player_keys :: "(cid \<Rightarrow> string) \<Rightarrow> cid set \<Rightarrow> string set" where
  "player_keys nm A \<equiv> (\<lambda>c. nocase (nm c)) ` A"

lemma room_apart:
  assumes wf: "lobby_wf l" and own: "own_names nm l c" and rp: "rp \<in> set (l_rooms l)"
    and c: "c' = c \<and> (l_player_rooms l c = None \<or> l_player_rooms l c = Some rp) \<or> c' \<in> set (r_players (room_at l rp))"
  shows "apart nm (other_keys nm l rp) (player_keys nm (insert c' (set (r_players (room_at l rp)))))
    (insert c' (set (r_players (room_at l rp))))"
proof -
  let ?A = "insert c' (set (r_players (room_at l rp)))"
  have mem: "l_player_rooms l d = Some q \<longleftrightarrow> q \<in> set (l_rooms l) \<and> d \<in> set (r_players (room_at l q))" for d q
    using wf unfolding lobby_wf_def by blast
  then have in_room: "l_player_rooms l d = None \<or> l_player_rooms l d = Some rp" if "d \<in> ?A" for d
    using that c rp by auto
  have sub: "?A \<subseteq> insert c (dom (l_player_rooms l))" using c mem rp by auto
  have "x \<notin> other_keys nm l rp" if x: "x \<in> player_keys nm ?A" for x
  proof
    assume "x \<in> other_keys nm l rp"
    then obtain q e where q: "q \<in> set (l_rooms l)" "q \<noteq> rp" "e \<in> set (r_players (room_at l q))" "x = nocase (nm e)"
      by (auto simp: keys_of_def room_keys_def split: option.splits)
    obtain d where d: "d \<in> ?A" "x = nocase (nm d)" using x by blast
    have e: "l_player_rooms l e = Some q" using mem q by blast
    then have "e \<in> insert c (dom (l_player_rooms l))" "d \<in> insert c (dom (l_player_rooms l))" using d(1) sub by auto
    then have "e = d" by (rule inj_onD [OF own [unfolded own_names_def], rotated]) (use d(2) q(4) in simp)
    then show False using e in_room [OF d(1)] q(2) by simp
  qed
  then show ?thesis
    using inj_on_subset [OF own [unfolded own_names_def] sub] unfolding apart_def by blast
qed

text \<open>A call on a room of the lobby.\<close>

lemma call_in_lobby:
  assumes wf: "lobby_wf l" and books: "lobby_books nm N C l w" "own_names nm l c" and rp: "rp \<in> set (l_rooms l)"
    and c: "c' = c \<and> (l_player_rooms l c = None \<or> l_player_rooms l c = Some rp) \<or> c' \<in> set (r_players (room_at l rp))"
    and call: "\<And>B K C'. C' \<le> C \<Longrightarrow> room_state nm N B C' (room_at l rp) w
      \<Longrightarrow> apart nm B K (insert c' (set (r_players (room_at l rp)))) \<Longrightarrow> room_moves nm N B K C' w r' w'"
  shows "lobby_books nm N C (set_room rp r' l) w'"
proof -
  let ?B = "other_keys nm l rp" and ?K = "player_keys nm (insert c' (set (r_players (room_at l rp))))"
  note apart = room_apart [OF wf books(2) rp c]
  obtain C' where C': "C' \<le> C" "room_state nm N ?B C' (room_at l rp) w"
    "room_moves nm N ?B ?K C' w r' w' \<Longrightarrow> ?B \<inter> ?K = {} \<Longrightarrow> lobby_books nm N C (set_room rp r' l) w'"
    using room_in_lobby [OF books(1) rp] by blast
  have "?B \<inter> ?K = {}" using apart unfolding apart_def by blast
  then show ?thesis using C'(3) call [OF C'(1,2) apart] by blast
qed

lemma room_list_books [simp]: "lobby_books nm N C l (broadcast_room_list l' w) = lobby_books nm N C l w"
  by (rule lobby_books_world) (simp_all add: room_list_fields)

lemma leave_room_books:
  assumes wf: "lobby_wf l" and books: "lobby_books nm N C l w" "own_names nm l c" and C: "C < 2 ^ 32 - 1"
    and eq: "leave_room n c l w = Ret (l', w')"
  shows "lobby_books nm N C l' w'"
proof (cases "l_player_rooms l c")
  case None
  then show ?thesis using eq books by (simp add: leave_room_eq)
next
  case (Some rp)
  note room = wf_room [OF wf Some]
  obtain x r w1 where r: "room_remove_player n c (room_at l rp) w = Ret (x, r, w1)"
    and l': "l' = after_leave c rp r l" "w' = broadcast_room_list l' w1"
    using eq Some by (auto simp: leave_room_eq bind_r_Ret_iff)
  have rm: "r_players r = remove1 c (r_players (room_at l rp))"
    using room_remove_player_wf [OF room(4), of n c w] r by (auto simp: removal_ok_def)
  have set: "insert c (set (r_players (room_at l rp))) = set (r_players (room_at l rp))" using room(2) by auto
  have "lobby_books nm N C (set_room rp r l) w1"
  proof (rule call_in_lobby [OF wf books room(1), where c' = c])
    fix B K C' assume "C' \<le> C" "room_state nm N B C' (room_at l rp) w"
      "apart nm B K (insert c (set (r_players (room_at l rp))))"
    then show "room_moves nm N B K C' w r w1"
      using C set by (intro remove_player_books [OF room(4) _ _ _ r]) simp_all
  qed (use Some in simp)
  then have b: "lobby_books nm N C ((set_room rp r l)\<lparr>l_player_rooms := m\<rparr>) w1" for m
    by (rule lobby_books_rooms) simp_all
  have "lobby_books nm N C (after_leave c rp r l) w1"
  proof (cases "r_players r = []")
    case True
    then have "room_keys nm (room_at ((set_room rp r l)\<lparr>l_player_rooms := m\<rparr>) rp) = {}" for m
      by (simp add: room_keys_def split: option.split)
    from lobby_books_unlist [OF b this] True show ?thesis by (simp add: after_leave_def Let_def)
  qed (use b in \<open>simp add: after_leave_def Let_def\<close>)
  then show ?thesis by (simp add: l')
qed

lemma add_in_lobby:
  assumes wf: "lobby_wf l" "rooms_fit l" and books: "lobby_books nm N C l w" "own_names nm l c" and C: "C < 2 ^ 32 - 1"
    and c: "l_player_rooms l c = None" and rp: "rp \<in> set (l_rooms l)"
    and eq: "room_add_player n c (room_at l rp) w = Ret (x, r, w')"
  shows "lobby_books nm N C (set_room rp r l) w'"
proof (rule call_in_lobby [OF wf(1) books rp, where c' = c])
  have r: "room_wf (room_at l rp)" "room_size_ok (room_at l rp)" "2 \<le> unat (r_max_players (room_at l rp))"
    "r_players (room_at l rp) \<noteq> []"
    using wf rp unfolding lobby_wf_def rooms_fit_def listed_room_ok_def by blast+
  have notin: "c \<notin> set (r_players (room_at l rp))" using wf(1) c rp unfolding lobby_wf_def by (metis option.distinct(1))
  fix B K C' assume "C' \<le> C" "room_state nm N B C' (room_at l rp) w"
    "apart nm B K (insert c (set (r_players (room_at l rp))))"
  then show "room_moves nm N B K C' w r w'"
    using C r(4) by (intro add_player_books [OF r(1-3) notin _ _ _ _ eq]) simp_all
qed (use c in simp)

lemma enter_room_books:
  assumes wf: "lobby_wf l" "rooms_fit l" and books: "lobby_books nm N C l w" "own_names nm l c" and C: "C < 2 ^ 32 - 1"
    and c: "l_player_rooms l c = None" and eq: "enter_room n i c l w = Ret (err, l', w')"
  shows "lobby_books nm N C l' w'"
proof (cases "get_room l i")
  case None
  then show ?thesis using eq books by (simp add: enter_room_def)
next
  case (Some rp)
  note rp = get_room_Some [OF Some, THEN conjunct1]
  show ?thesis
  proof (cases "\<not> is_game_started (room_at l rp)
      \<and> \<not> length (r_players (room_at l rp)) \<ge> unat (ri_max_players (get_room_info (room_at l rp)))")
    case False
    then have "l' = l \<and> w' = w" using eq Some by (auto simp: enter_room_def Let_def split: if_splits)
    then show ?thesis using books by simp
  next
    case True
    then obtain x r w1 where add: "room_add_player n c (room_at l rp) w = Ret (x, r, w1)"
      and l': "l' = (set_room rp r l)\<lparr>l_player_rooms := (l_player_rooms l)(c \<mapsto> rp)\<rparr> \<and> w' = broadcast_room_list l' w1
        \<or> l' = set_room rp r l \<and> w' = w1"
      using eq Some c by (auto simp: enter_room_def bind_r_Ret_iff Let_def split: if_splits)
    have "lobby_books nm N C (set_room rp r l) w1" by (rule add_in_lobby [OF wf books C c rp add])
    then have "lobby_books nm N C l' w1" using l' by (elim lobby_books_rooms) auto
    then show ?thesis using l' by auto
  qed
qed

lemma make_room_books:
  assumes wf: "lobby_wf l" and mx: "2 \<le> unat mx" and books: "lobby_books nm N C l w"
    and c: "l_player_rooms l c = None" and eq: "make_room n name mx c l w = Ret (made, l', w')"
  shows "lobby_books nm N C l' w'"
proof -
  let ?r = "(new_room (l_next_room_id l) name mx c)\<lparr>r_players := [c]\<rparr>" and ?rp = "l_fresh l"
  have "room_add_player n c (new_room (l_next_room_id l) name mx c) w = Ret (True, ?r, notify_all_about_joined ?r w)"
    using mx by (simp add: room_add_player_def new_room_def Let_def)
  then have l': "l_rooms l' = l_rooms l @ [?rp]" "room_at l' = room_at (set_room ?rp ?r (l\<lparr>l_rooms := l_rooms l @ [?rp]\<rparr>))"
    "w' = broadcast_room_list l' (notify_all_about_joined ?r w)"
    using eq c by (auto simp: make_room_def Let_def fun_eq_iff room_at_def set_room_def)
  have "?rp \<notin> set (l_rooms l)" using wf unfolding lobby_wf_def by auto
  from lobby_books_list [OF books this, of ?r] have "lobby_books nm N C l' w"
    by (rule lobby_books_rooms) (simp_all add: l' new_room_def)
  then show ?thesis by (simp add: l'(3) lobby_books_world [of "notify_all_about_joined ?r w" w] notify_fields)
qed

lemma leave_first_books:
  assumes wf: "lobby_wf l" and books: "lobby_books nm N C l w" "own_names nm l c" and C: "C < 2 ^ 32 - 1"
    and eq: "(if l_player_rooms l c \<noteq> None then leave_room n c l w else Ret (l, w)) = Ret (l', w')"
  shows "lobby_books nm N C l' w'" "own_names nm l' c" "leaves c l w (l', w')"
proof -
  show "lobby_books nm N C l' w'" using eq leave_room_books [OF assms(1-4)] books by (cases "l_player_rooms l c") simp_all
  show lv: "leaves c l w (l', w')" using leave_first_wf [OF wf, of c n w] eq by blast
  then have "insert c (dom (l_player_rooms l')) = insert c (dom (l_player_rooms l))" by (auto simp: leaves_def split: if_splits)
  then show "own_names nm l' c" using books(2) by (simp only: own_names_def)
qed

lemma create_room_books:
  assumes wf: "lobby_wf l" and books: "lobby_books nm N C l w" "own_names nm l c" and C: "C < 2 ^ 32 - 1"
    and eq: "create_room n name mx c l w = Ret (made, l', w')"
  shows "lobby_books nm N C l' w'"
proof (cases "mx < 2 \<or> check_player_bankroll c w \<noteq> None")
  case True
  then have "l' = l \<and> w' = w" using eq by (auto simp: create_room_def split: if_splits)
  then show ?thesis using books by simp
next
  case False
  then obtain l1 w1 where one: "(if l_player_rooms l c \<noteq> None then leave_room n c l w else Ret (l, w)) = Ret (l1, w1)"
    and two: "make_room n name mx c l1 w1 = Ret (made, l', w')"
    using eq by (auto simp: create_room_def bind_r_Ret_iff)
  note l1 = leave_first_books [OF wf books C one]
  have "lobby_wf l1" "l_player_rooms l1 c = None" using l1(3) by (simp_all add: leaves_def)
  moreover have "2 \<le> unat mx" using False by (simp add: word_less_nat_alt)
  ultimately show ?thesis using make_room_books [OF _ _ l1(1) _ two] by blast
qed

lemma join_room_books:
  assumes wf: "lobby_wf l" "rooms_fit l" and books: "lobby_books nm N C l w" "own_names nm l c" and C: "C < 2 ^ 32 - 1"
    and eq: "join_room n i c l w = Ret (err, l', w')"
  shows "lobby_books nm N C l' w'"
proof (cases "check_player_bankroll c w = None
    \<and> \<not> (case l_player_rooms l c of None \<Rightarrow> False | Some rp \<Rightarrow> r_id (room_at l rp) = i)")
  case False
  then have "l' = l \<and> w' = w" using eq by (auto simp: join_room_def split: option.splits)
  then show ?thesis using books by simp
next
  case True
  then obtain l1 w1 where one: "(if l_player_rooms l c \<noteq> None then leave_room n c l w else Ret (l, w)) = Ret (l1, w1)"
    and two: "enter_room n i c l1 w1 = Ret (err, l', w')"
    using eq by (auto simp: join_room_def bind_r_Ret_iff)
  note l1 = leave_first_books [OF wf(1) books C one]
  have "lobby_wf l1" "rooms_fit l1" "l_player_rooms l1 c = None" using l1(3) wf(2) by (simp_all add: leaves_def)
  then show ?thesis using enter_room_books [OF _ _ l1(1,2) C _ two] by blast
qed

lemma lobby_start_books:
  assumes wf: "lobby_wf l" "rooms_fit l" and books: "lobby_books nm N C l w" "own_names nm l c" and C: "C < 2 ^ 32 - 1"
    and eq: "lobby_start_game n c l w = Ret (err, l', w')"
  shows "lobby_books nm N C l' w'"
proof (cases "l_player_rooms l c")
  case None
  then show ?thesis using eq books by (simp add: lobby_start_game_def find_room_by_player_def)
next
  case (Some rp)
  note room = wf_room [OF wf(1) Some]
  obtain e r w1 where st: "try_start_game n c (room_at l rp) w = Ret (e, r, w1)"
    and l': "l' = set_room rp r l" "w' = w1 \<or> w' = broadcast_room_list l' w1"
    using eq Some by (auto simp: lobby_start_game_def find_room_by_player_def bind_r_Ret_iff Let_def split: option.splits)
  have fit: "room_size_ok (room_at l rp)" using wf(2) room(1) by (simp add: rooms_fit_def)
  have "lobby_books nm N C (set_room rp r l) w1"
  proof (rule call_in_lobby [OF wf(1) books room(1), where c' = c])
    fix B K C' assume "C' \<le> C" "room_state nm N B C' (room_at l rp) w"
      "apart nm B K (insert c (set (r_players (room_at l rp))))"
    then show "room_moves nm N B K C' w r w1"
      using C by (intro try_start_books [OF room(4) fit _ _ _ st]) (auto elim: apart_mono)
  qed (use Some in simp)
  then show ?thesis using l' by auto
qed

lemma room_action_books:
  assumes wf: "lobby_wf l" and books: "lobby_books nm N C l w" "own_names nm l c" and C: "C < 2 ^ 32 - 1"
    and c: "l_player_rooms l c = Some rp" and eq: "room_action n rp c a amt l w = Ret (l', w')"
  shows "lobby_books nm N C l' w'"
proof -
  note room = wf_room [OF wf c]
  obtain r where r: "on_player_action n c a amt (room_at l rp) w = Ret (r, w')" "l' = set_room rp r l"
    using eq by (auto simp: room_action_def map_r_Ret_iff)
  have "lobby_books nm N C (set_room rp r l) w'"
  proof (rule call_in_lobby [OF wf books room(1), where c' = c])
    fix B K C' assume "C' \<le> C" "room_state nm N B C' (room_at l rp) w"
      "apart nm B K (insert c (set (r_players (room_at l rp))))"
    then show "room_moves nm N B K C' w r w'"
      using C by (intro action_books [OF room(4) _ _ _ r(1)]) (auto elim: apart_mono)
  qed (use c in simp)
  then show ?thesis by (simp add: r(2))
qed

end
