(* ===== verification/Messaging.thy ===== *)
theory Messaging
  imports Lobby
begin

text \<open>
  The message processors of \<open>server/src/messaging\<close> and the two registries they use,
  \<open>server/src/network/player_name_registry.cpp\<close> and \<open>connection_registry.cpp\<close>: what the server does with
  a message of a client and with a lost connection. The state is that of the whole server: the lobby,
  the shared \<open>world\<close>, the registered names, and which connections are authenticated.

  Parameters are what the code takes from libraries: \<open>parse\<close> is \<open>nlohmann::json::parse\<close> (\<open>Inl\<close> the raw
  of a \<open>parse_error\<close>), \<open>what\<close> the raw of the exception with which a conversion of a JSON value ended,
  \<open>pbkdf2\<close> and \<open>rnd\<close> the functions of OpenSSL. \<open>user_repository_\<close> is not null in a server. Log lines are
  left out.
\<close>

section \<open>Registries\<close>

text \<open>\<open>names_.insert(name).second\<close>: the registry afterwards and whether the name was new.\<close>

definition try_register :: "string \<Rightarrow> string set \<Rightarrow> string set \<times> bool" where
  "try_register name names = (insert name names, name \<notin> names)"

definition unregister :: "string \<Rightarrow> string set \<Rightarrow> string set" where
  "unregister name names = names - {name}"

definition is_taken :: "string \<Rightarrow> string set \<Rightarrow> bool" where
  "is_taken name names = (name \<in> names)"

text \<open>The set of connections, listed in the order in which it is iterated.\<close>

definition registry_add :: "cid \<Rightarrow> cid list \<Rightarrow> cid list" where
  "registry_add c cs = (if c \<in> set cs then cs else cs @ [c])"

definition registry_remove :: "cid \<Rightarrow> cid list \<Rightarrow> cid list" where
  "registry_remove c cs = filter (\<lambda>d. d \<noteq> c) cs"

section \<open>The server\<close>

record server =
  sv_world :: world
  sv_lobby :: lobby
  sv_names :: "string set"
  sv_authenticated :: "cid set"

definition reply :: "cid \<Rightarrow> server_message \<Rightarrow> server \<Rightarrow> server" where
  "reply c msg sv = sv\<lparr>sv_world := send_to c msg (sv_world sv)\<rparr>"

definition reply_error :: "cid \<Rightarrow> error_code \<Rightarrow> string \<Rightarrow> server \<Rightarrow> server" where
  "reply_error c code detail sv = reply c (SError (make_error code detail)) sv"

text \<open>\<open>Session::set_player_name\<close>.\<close>

definition set_player_name :: "cid \<Rightarrow> string \<Rightarrow> server \<Rightarrow> server" where
  "set_player_name c name sv =
     sv\<lparr>sv_world := (sv_world sv)\<lparr>w_name := (w_name (sv_world sv))(c := name)\<rparr>,
        sv_authenticated := insert c (sv_authenticated sv)\<rparr>"

definition update_registry :: "(cid list \<Rightarrow> cid list) \<Rightarrow> server \<Rightarrow> server" where
  "update_registry f sv =
     sv\<lparr>sv_world := (sv_world sv)\<lparr>w_registry := map_option f (w_registry (sv_world sv))\<rparr>\<rparr>"

section \<open>HandshakeMessageProcessor: login\<close>

definition finish_authentication :: "string \<Rightarrow> cid \<Rightarrow> u32 \<Rightarrow> bool \<Rightarrow> server \<Rightarrow> server" where
  "finish_authentication name c chips is_new_account sv =
     (case try_register name (sv_names sv) of
        (names, registered) \<Rightarrow>
          let sv = sv\<lparr>sv_names := names\<rparr> in
          if \<not> registered then reply_error c AlreadyOnline [] sv
          else
            let sv = set_player_name c name sv;
                sv = update_registry (registry_add c) sv
            in reply c (SWelcome \<lparr>wl_player_name = name, wl_chips = chips,
                                  wl_is_new_account = is_new_account\<rparr>) sv)"

text \<open>The middle of \<open>handle_login\<close>: the database afterwards, and an error code, or whether the account is
  new and its record.\<close>

definition login_account ::
  "pbkdf2 \<Rightarrow> u8 list option \<Rightarrow> database \<Rightarrow> string \<Rightarrow> string
    \<Rightarrow> (database \<times> (error_code + bool \<times> user_record option)) result" where
  "login_account pbkdf2 rnd db username password =
     (let check = (\<lambda>db. map_r (\<lambda>ok.
            (db, if ok then Inr (False, find_by_username db username) else Inl WrongPassword))
            (verify_password pbkdf2 db username password))
      in if \<not> username_exists db username
         then bind_r (create_user pbkdf2 rnd db username password STARTING_CHIPS) (\<lambda>(db, created).
           if created = Created then Ret (db, Inr (True, find_by_username db username)) else check db)
         else check db)"

definition handle_login :: "pbkdf2 \<Rightarrow> u8 list option \<Rightarrow> login \<Rightarrow> cid \<Rightarrow> server \<Rightarrow> server result" where
  "handle_login pbkdf2 rnd lg c sv =
     (let username = trim_copy (lg_username lg);
          password = lg_password lg
      in if \<not> is_valid_username username then Ret (reply_error c InvalidPlayerName [] sv)
         else if \<not> is_valid_password password then Ret (reply_error c InvalidPassword [] sv)
         else bind_r (login_account pbkdf2 rnd (the (w_repo (sv_world sv))) username password)
           (\<lambda>(db, outcome).
             let sv = sv\<lparr>sv_world := (sv_world sv)\<lparr>w_repo := Some db\<rparr>\<rparr>
             in case outcome of
                  Inl code \<Rightarrow> Ret (reply_error c code [] sv)
                | Inr (is_new_account, None) \<Rightarrow>
                    Ret (reply_error c InvalidMessage ''User record missing after login'' sv)
                | Inr (is_new_account, Some user) \<Rightarrow>
                    Ret (finish_authentication username c (ur_chips user) is_new_account sv)))"

section \<open>LobbyMessageProcessor\<close>

text \<open>A call of the lobby, and the answer to its error.\<close>

definition lobby_call ::
  "(lobby \<Rightarrow> world \<Rightarrow> ('a \<times> lobby \<times> world) result) \<Rightarrow> ('a \<Rightarrow> server \<Rightarrow> server) \<Rightarrow> server \<Rightarrow> server result" where
  "lobby_call f k sv =
     map_r (\<lambda>(x, l, w). k x (sv\<lparr>sv_lobby := l, sv_world := w\<rparr>)) (f (sv_lobby sv) (sv_world sv))"

definition reply_if_error :: "cid \<Rightarrow> error_code option \<Rightarrow> server \<Rightarrow> server" where
  "reply_if_error c err sv = (case err of None \<Rightarrow> sv | Some code \<Rightarrow> reply_error c code [] sv)"

definition no_value :: "('b \<times> 'c) result \<Rightarrow> (unit \<times> 'b \<times> 'c) result" where
  "no_value r = map_r (\<lambda>(b, c). ((), b, c)) r"

definition left_room_message :: "u64 \<Rightarrow> u32 option \<Rightarrow> left_room" where
  "left_room_message room_id chips =
     (case chips of
        None \<Rightarrow> \<lparr>lr_room_id = room_id, lr_your_chips = 0, lr_has_your_chips = False\<rparr>
      | Some ch \<Rightarrow> \<lparr>lr_room_id = room_id, lr_your_chips = ch, lr_has_your_chips = True\<rparr>)"

fun process_client_message :: "nat \<Rightarrow> client_message \<Rightarrow> cid \<Rightarrow> server \<Rightarrow> server result" where
  "process_client_message n (CLogin m) c sv = Ret sv"
| "process_client_message n (CCreateRoom m) c sv =
     (if cr_max_players m < 2 then Ret (reply_error c InvalidMaxPlayers [] sv)
      else case check_player_bankroll c (sv_world sv) of
        Some code \<Rightarrow> Ret (reply_error c code [] sv)
      | None \<Rightarrow> lobby_call (create_room n (cr_room_name m) (cr_max_players m) c) (\<lambda>_ sv. sv) sv)"
| "process_client_message n (CJoinRoom m) c sv =
     lobby_call (join_room n (jr_room_id m) c) (reply_if_error c) sv"
| "process_client_message n CLeaveRoom c sv =
     (let room_id = (case find_room_by_player (sv_lobby sv) c of
                       None \<Rightarrow> 0 | Some rp \<Rightarrow> r_id (room_at (sv_lobby sv) rp))
      in lobby_call (\<lambda>l w. no_value (leave_room n c l w)) (\<lambda>_ sv.
           reply c (SLeftRoom (left_room_message room_id
             (account_chips_for (w_name (sv_world sv) c) (sv_world sv)))) sv) sv)"
| "process_client_message n CListRooms c sv = Ret (reply c (SRoomList (get_room_list (sv_lobby sv))) sv)"
| "process_client_message n CStartGame c sv = lobby_call (lobby_start_game n c) (reply_if_error c) sv"
| "process_client_message n (CPlayerAction m) c sv =
     (case find_room_by_player (sv_lobby sv) c of
        None \<Rightarrow> Ret (reply_error c NotInRoom [] sv)
      | Some rp \<Rightarrow>
          lobby_call (\<lambda>l w. no_value (room_action n rp c (pa_action m) (pa_amount m) l w)) (\<lambda>_ sv. sv) sv)"

definition lobby_on_disconnect :: "nat \<Rightarrow> cid \<Rightarrow> server \<Rightarrow> server result" where
  "lobby_on_disconnect n c sv = lobby_call (\<lambda>l w. no_value (leave_room n c l w)) (\<lambda>_ sv. sv) sv"

text \<open>\<open>LobbyMessageProcessor::process_message\<close>, for a connection without the handshake in front.\<close>

definition lobby_process_message ::
  "(string \<Rightarrow> string + json) \<Rightarrow> (json \<Rightarrow> string) \<Rightarrow> nat \<Rightarrow> string \<Rightarrow> cid \<Rightarrow> server \<Rightarrow> server result" where
  "lobby_process_message parse what n raw c sv =
     (case parse raw of
        Inl e \<Rightarrow> Ret (reply_error c InvalidJson e sv)
      | Inr data \<Rightarrow>
          (case from_json_client data of
             Ret msg \<Rightarrow> process_client_message n msg c sv
           | Exn e \<Rightarrow> Ret (reply_error c InvalidMessage (what data) sv)
           | NoFuel \<Rightarrow> NoFuel))"

section \<open>HandshakeMessageProcessor: messages and disconnects\<close>

definition process_message ::
  "(string \<Rightarrow> string + json) \<Rightarrow> (json \<Rightarrow> string) \<Rightarrow> pbkdf2 \<Rightarrow> u8 list option \<Rightarrow> nat \<Rightarrow> string \<Rightarrow> cid
    \<Rightarrow> server \<Rightarrow> server result" where
  "process_message parse what pbkdf2 rnd n raw c sv =
     (case parse raw of
        Inl e \<Rightarrow> Ret (reply_error c InvalidJson e sv)
      | Inr data \<Rightarrow>
          bind_r (get_at data ''type'' get_string) (\<lambda>type.
            if type = ''login''
            then if c \<in> sv_authenticated sv
                 then Ret (reply_error c InvalidMessage ''Already authenticated'' sv)
                 else (case get_at data ''data'' from_json_login of
                         Ret lg \<Rightarrow> handle_login pbkdf2 rnd lg c sv
                       | Exn e \<Rightarrow> Ret (reply_error c InvalidMessage (what data) sv)
                       | NoFuel \<Rightarrow> NoFuel)
            else if c \<notin> sv_authenticated sv then Ret (reply_error c NotAuthenticated [] sv)
            else (case from_json_client data of
                    Ret msg \<Rightarrow> process_client_message n msg c sv
                  | Exn e \<Rightarrow> Ret (reply_error c InvalidMessage (what data) sv)
                  | NoFuel \<Rightarrow> NoFuel)))"

definition on_disconnect :: "nat \<Rightarrow> cid \<Rightarrow> server \<Rightarrow> server result" where
  "on_disconnect n c sv =
     (let sv = (if c \<in> sv_authenticated sv
                then update_registry (registry_remove c)
                  (sv\<lparr>sv_names := unregister (w_name (sv_world sv) c) (sv_names sv)\<rparr>)
                else sv)
      in lobby_on_disconnect n c sv)"

text \<open>\<open>Session::close_session\<close> marks the connection as closed before it notifies the processor.\<close>

definition connection_lost :: "nat \<Rightarrow> cid \<Rightarrow> server \<Rightarrow> server result" where
  "connection_lost n c sv =
     on_disconnect n c (sv\<lparr>sv_world := (sv_world sv)\<lparr>w_closed := insert c (w_closed (sv_world sv))\<rparr>\<rparr>)"

definition new_server :: "database \<Rightarrow> (nat \<Rightarrow> nat \<Rightarrow> nat list) \<Rightarrow> server" where
  "new_server db draws =
     \<lparr>sv_world = \<lparr>w_repo = Some db, w_name = (\<lambda>_. []), w_closed = {}, w_registry = Some [],
        w_draws = draws, w_games = 0, w_outbox = []\<rparr>,
      sv_lobby = new_lobby, sv_names = {}, sv_authenticated = {}\<rparr>"

section \<open>The invariant of the server\<close>

definition online :: "server \<Rightarrow> cid set" where
  "online sv = sv_authenticated sv - w_closed (sv_world sv)"

definition server_wf :: "server \<Rightarrow> bool" where
  "server_wf sv \<longleftrightarrow> lobby_wf (sv_lobby sv) \<and> rooms_fit (sv_lobby sv)
     \<and> dom (l_player_rooms (sv_lobby sv)) \<subseteq> online sv
     \<and> (\<exists>cs. w_registry (sv_world sv) = Some cs \<and> distinct cs \<and> set cs = online sv)
     \<and> inj_on (w_name (sv_world sv)) (online sv)
     \<and> sv_names sv = w_name (sv_world sv) ` online sv
     \<and> (\<exists>db. w_repo (sv_world sv) = Some db \<and> db_wf db)
     \<and> discreet_world (sv_world sv)"

lemma new_server_wf: "db_wf db \<Longrightarrow> server_wf (new_server db draws)"
  by (simp add: server_wf_def new_server_def online_def new_lobby_wf) (simp add: new_lobby_def discreet_world_def)

lemma server_wf_step:
  assumes "server_wf sv" "same_world (sv_world sv) w" "lobby_wf l" "rooms_fit l"
    and "dom (l_player_rooms l) \<subseteq> online sv"
  shows "server_wf (sv\<lparr>sv_lobby := l, sv_world := w\<rparr>)"
  using assms same_world_discreet [OF assms(2)]
  by (auto simp: server_wf_def same_world_def online_def repo_keeps_def repo_ok_def split: option.splits)

lemma server_wf_reply [simp]: "discreet m \<Longrightarrow> server_wf (reply c m sv) = server_wf sv"
  by (simp add: server_wf_def online_def reply_def) (simp add: send_to_def)

lemma server_wf_reply_error [simp]:
  "server_wf (reply_error c code d sv) = server_wf sv" "server_wf (reply_if_error c err sv) = server_wf sv"
  by (simp_all add: reply_error_def reply_if_error_def split: option.split)

text \<open>The invariant together with the closed connections.\<close>

definition server_at :: "cid set \<Rightarrow> server \<Rightarrow> bool" where
  "server_at A sv \<longleftrightarrow> server_wf sv \<and> w_closed (sv_world sv) = A"

abbreviation server_kept :: "server \<Rightarrow> server \<Rightarrow> bool" where
  "server_kept sv \<equiv> server_at (w_closed (sv_world sv))"

lemma server_at_reply [simp]:
  "discreet m \<Longrightarrow> server_at A (reply c m sv) = server_at A sv" "server_at A (reply_error c code d sv) = server_at A sv"
  "server_at A (reply_if_error c err sv) = server_at A sv"
  by (simp_all add: server_at_def reply_error_def reply_if_error_def split: option.split)
    (simp_all add: reply_def send_to_def)

lemma server_atD: "server_at A sv \<Longrightarrow> server_wf sv" "server_at A sv \<Longrightarrow> w_closed (sv_world sv) = A"
  by (simp_all add: server_at_def)

lemma server_kept_refl [simp]: "server_kept sv sv = server_wf sv"
  by (simp add: server_at_def)

lemma lobby_call_wf:
  assumes wf: "server_wf sv" and k: "\<And>A x sv. server_at A (k x sv) = server_at A sv"
    and f: "\<And>x l w. f (sv_lobby sv) (sv_world sv) = Ret (x, l, w) \<Longrightarrow>
      same_world (sv_world sv) w \<and> lobby_wf l \<and> rooms_fit l \<and> dom (l_player_rooms l) \<subseteq> online sv"
  shows "keeps (server_kept sv) (lobby_call f k sv)"
proof (cases "f (sv_lobby sv) (sv_world sv)")
  case (Ret r)
  obtain x l w where r: "r = (x, l, w)" by (cases r) blast
  have "same_world (sv_world sv) w" using f Ret r by blast
  moreover have "server_wf (sv\<lparr>sv_lobby := l, sv_world := w\<rparr>)"
    using f Ret r by (intro server_wf_step [OF wf]) blast+
  ultimately have "server_kept sv (sv\<lparr>sv_lobby := l, sv_world := w\<rparr>)"
    by (simp add: server_at_def same_world_def)
  then show ?thesis by (simp add: lobby_call_def Ret r k)
qed (simp_all add: lobby_call_def keeps_def)

definition request_fits :: "client_message \<Rightarrow> bool" where
  "request_fits m \<longleftrightarrow> (case m of CCreateRoom cr \<Rightarrow> unat (cr_max_players cr) \<le> max_seats | _ \<Rightarrow> True)"

lemma no_value_Ret: "no_value r = Ret (x, b, c) \<longleftrightarrow> r = Ret (b, c)"
  by (cases r) (auto simp: no_value_def)

lemma server_wfD:
  assumes "server_wf sv"
  shows "lobby_wf (sv_lobby sv)" "rooms_fit (sv_lobby sv)" "dom (l_player_rooms (sv_lobby sv)) \<subseteq> online sv"
  using assms by (simp_all add: server_wf_def)

lemma joins_dom:
  assumes "joins c i l (l', err)" "dom (l_player_rooms l) \<subseteq> A" "c \<in> A"
  shows "dom (l_player_rooms l') \<subseteq> A"
proof (cases err)
  case None
  then obtain rp where "l_player_rooms l' = (l_player_rooms l)(c \<mapsto> rp)" using assms(1) by (auto simp: joins_def)
  then show ?thesis using assms(2,3) by auto
next
  case (Some e)
  then have "l_player_rooms l' = (l_player_rooms l)(c := None) \<or> l' = l" using assms(1) by (auto simp: joins_def)
  then have "dom (l_player_rooms l') \<subseteq> dom (l_player_rooms l)" by (auto split: if_splits)
  then show ?thesis using assms(2) by blast
qed

lemma leave_in_server:
  assumes "server_wf sv" "leave_room n c (sv_lobby sv) w0 = Ret (l, w)"
  shows "same_world w0 w \<and> lobby_wf l \<and> rooms_fit l
    \<and> l_player_rooms l = (l_player_rooms (sv_lobby sv))(c := None)"
  using leave_room_wf [OF server_wfD(1) [OF assms(1)], of n c w0] assms server_wfD(2) [OF assms(1)]
  by (auto simp: leaves_def)

text \<open>The calls of the lobby that the messages of a client make.\<close>

lemma create_room_served:
  assumes wf: "server_wf sv" and c: "c \<in> online sv" and fits: "unat mx \<le> max_seats"
  shows "keeps (server_kept sv) (lobby_call (create_room n name mx c) (\<lambda>_ sv. sv) sv)"
proof (rule lobby_call_wf [OF wf])
  fix x l w assume eq: "create_room n name mx c (sv_lobby sv) (sv_world sv) = Ret (x, l, w)"
  show "same_world (sv_world sv) w \<and> lobby_wf l \<and> rooms_fit l \<and> dom (l_player_rooms l) \<subseteq> online sv"
    using create_room_wf [OF server_wfD(1) [OF wf], of n name mx c "sv_world sv"] eq server_wfD [OF wf] c fits
    by (cases x) auto
qed simp

lemma join_room_served:
  assumes wf: "server_wf sv" and c: "c \<in> online sv"
  shows "keeps (server_kept sv) (lobby_call (join_room n i c) (reply_if_error c) sv)"
proof (rule lobby_call_wf [OF wf])
  fix x l w assume "join_room n i c (sv_lobby sv) (sv_world sv) = Ret (x, l, w)"
  then have "stays_wf (sv_lobby sv) (sv_world sv) (x, l, w) \<and> joins c i (sv_lobby sv) (l, x)"
    using join_room_wf [OF server_wfD(1,2) [OF wf], of n i c "sv_world sv"] by fastforce
  then show "same_world (sv_world sv) w \<and> lobby_wf l \<and> rooms_fit l \<and> dom (l_player_rooms l) \<subseteq> online sv"
    using server_wfD [OF wf] c joins_dom [of c i "sv_lobby sv" l x "online sv"] by (simp add: stays_wf_def)
qed simp

lemma leave_room_served:
  assumes wf: "server_wf sv" and k: "\<And>A x sv. server_at A (k x sv) = server_at A sv"
  shows "keeps (server_kept sv) (lobby_call (\<lambda>l w. no_value (leave_room n c l w)) k sv)"
proof (rule lobby_call_wf [OF wf k])
  fix x l w assume "no_value (leave_room n c (sv_lobby sv) (sv_world sv)) = Ret (x, l, w)"
  then have "leave_room n c (sv_lobby sv) (sv_world sv) = Ret (l, w)" by (simp add: no_value_Ret)
  note leave = leave_in_server [OF wf this]
  then have "dom (l_player_rooms l) \<subseteq> dom (l_player_rooms (sv_lobby sv))" by (auto split: if_splits)
  then show "same_world (sv_world sv) w \<and> lobby_wf l \<and> rooms_fit l \<and> dom (l_player_rooms l) \<subseteq> online sv"
    using leave server_wfD(3) [OF wf] by blast
qed

lemma start_game_served:
  assumes wf: "server_wf sv"
  shows "keeps (server_kept sv) (lobby_call (lobby_start_game n c) (reply_if_error c) sv)"
proof (rule lobby_call_wf [OF wf])
  fix x l w assume "lobby_start_game n c (sv_lobby sv) (sv_world sv) = Ret (x, l, w)"
  then have "stays_wf (sv_lobby sv) (sv_world sv) (x, l, w) \<and> l_player_rooms l = l_player_rooms (sv_lobby sv)"
    using lobby_start_game_wf [OF server_wfD(1,2) [OF wf], of n c "sv_world sv"] by fastforce
  then show "same_world (sv_world sv) w \<and> lobby_wf l \<and> rooms_fit l \<and> dom (l_player_rooms l) \<subseteq> online sv" using server_wfD [OF wf] by (simp add: stays_wf_def)
qed simp

lemma room_action_served:
  assumes wf: "server_wf sv" and rp: "l_player_rooms (sv_lobby sv) c = Some rp"
  shows "keeps (server_kept sv) (lobby_call (\<lambda>l w. no_value (room_action n rp c a amt l w)) (\<lambda>_ sv. sv) sv)"
proof (rule lobby_call_wf [OF wf])
  fix x l w assume "no_value (room_action n rp c a amt (sv_lobby sv) (sv_world sv)) = Ret (x, l, w)"
  then have "stays_wf (sv_lobby sv) (sv_world sv) ((), l, w) \<and> l_player_rooms l = l_player_rooms (sv_lobby sv)"
    using room_action_wf [OF server_wfD(1) [OF wf] rp] by (simp add: no_value_Ret)
  then show "same_world (sv_world sv) w \<and> lobby_wf l \<and> rooms_fit l \<and> dom (l_player_rooms l) \<subseteq> online sv" using server_wfD [OF wf] by (simp add: stays_wf_def)
qed simp

lemma process_client_message_wf:
  assumes wf: "server_wf sv" and c: "c \<in> online sv" and fits: "request_fits m"
  shows "keeps (server_kept sv) (process_client_message n m c sv)"
proof (cases m)
  case (CCreateRoom cr)
  then have "unat (cr_max_players cr) \<le> max_seats" using fits by (simp add: request_fits_def)
  then show ?thesis using CCreateRoom wf create_room_served [OF wf c] by (simp split: option.split)
next
  case (CJoinRoom jr)
  then show ?thesis using join_room_served [OF wf c] by simp
next
  case CLeaveRoom
  show ?thesis unfolding CLeaveRoom process_client_message.simps Let_def by (intro leave_room_served [OF wf]) simp
next
  case CStartGame
  then show ?thesis using start_game_served [OF wf] by simp
next
  case (CPlayerAction pa)
  then show ?thesis
    using wf room_action_served [OF wf] by (simp add: find_room_by_player_def split: option.split)
qed (use wf in simp_all)

subsection \<open>Login\<close>

lemma set_registry_add: "set (registry_add c cs) = insert c (set cs)" "distinct cs \<Longrightarrow> distinct (registry_add c cs)"
  by (auto simp: registry_add_def)

lemma online_finish:
  assumes "c \<notin> w_closed (sv_world sv)" "name \<notin> sv_names sv"
  shows "finish_authentication name c chips new sv =
      reply c (SWelcome \<lparr>wl_player_name = name, wl_chips = chips, wl_is_new_account = new\<rparr>)
        (sv\<lparr>sv_names := insert name (sv_names sv),
            sv_authenticated := insert c (sv_authenticated sv),
            sv_world := (sv_world sv)\<lparr>w_name := (w_name (sv_world sv))(c := name),
              w_registry := map_option (registry_add c) (w_registry (sv_world sv))\<rparr>\<rparr>)"
  using assms by (simp add: finish_authentication_def try_register_def set_player_name_def
      update_registry_def Let_def)

lemma finish_authentication_wf:
  assumes wf: "server_wf sv" and c: "c \<notin> w_closed (sv_world sv)" "c \<notin> sv_authenticated sv"
  shows "server_kept sv (finish_authentication name c chips new sv)"
proof (cases "name \<in> sv_names sv")
  case True
  then have "sv\<lparr>sv_names := insert name (sv_names sv)\<rparr> = sv" by (simp add: insert_absorb)
  then show ?thesis using True wf by (simp add: finish_authentication_def try_register_def)
next
  case False
  let ?sv = "sv\<lparr>sv_names := insert name (sv_names sv),
            sv_authenticated := insert c (sv_authenticated sv),
            sv_world := (sv_world sv)\<lparr>w_name := (w_name (sv_world sv))(c := name),
              w_registry := map_option (registry_add c) (w_registry (sv_world sv))\<rparr>\<rparr>"
  have on: "online ?sv = insert c (online sv)" "c \<notin> online sv" using c by (auto simp: online_def)
  obtain cs where cs: "w_registry (sv_world sv) = Some cs" "distinct cs" "set cs = online sv"
    using wf unfolding server_wf_def by blast
  have reg: "w_registry (sv_world ?sv) = Some (registry_add c cs)" "distinct (registry_add c cs)"
      "set (registry_add c cs) = online ?sv"
    using cs set_registry_add on by simp_all
  have "w_name (sv_world ?sv) ` online sv = w_name (sv_world sv) ` online sv" using on(2) by (auto simp: image_iff)
  then have names: "sv_names ?sv = w_name (sv_world ?sv) ` online ?sv"
    using wf on by (simp add: server_wf_def)
  have "inj_on (w_name (sv_world sv)) (online sv)" "name \<notin> w_name (sv_world sv) ` online sv"
    using wf False by (simp_all add: server_wf_def)
  then have inj: "inj_on (w_name (sv_world ?sv)) (online ?sv)" unfolding on(1) using on(2) by (auto simp: inj_on_def)
  have "server_wf ?sv"
  proof -
    have "lobby_wf (sv_lobby ?sv)" "rooms_fit (sv_lobby ?sv)" "discreet_world (sv_world ?sv)" "\<exists>db. w_repo (sv_world ?sv) = Some db \<and> db_wf db"
      using wf by (simp_all add: server_wf_def)
    moreover have "dom (l_player_rooms (sv_lobby ?sv)) \<subseteq> online ?sv"
      using server_wfD(3) [OF wf] unfolding on(1) by auto
    ultimately show ?thesis unfolding server_wf_def using names inj reg by blast
  qed
  then have "server_kept sv ?sv" by (simp add: server_at_def)
  then show ?thesis unfolding online_finish [OF c(1) False] by simp
qed

lemma login_account_wf:
  assumes "db_wf db" "is_valid_username u"
  shows "keeps (\<lambda>(db', outcome). db_wf db') (login_account pbkdf2 rnd db u p)"
proof -
  have check: "keeps (\<lambda>(db', outcome). db_wf db') (map_r (\<lambda>ok.
            (d, if ok then Inr (False, find_by_username d u) else Inl WrongPassword))
            (verify_password pbkdf2 d u p))" if "db_wf d" for d
    using that by (cases "verify_password pbkdf2 d u p") simp_all
  show ?thesis
  proof (cases "create_user pbkdf2 rnd db u p STARTING_CHIPS")
    case (Ret r)
    obtain d' created where r: "r = (d', created)" by (cases r)
    have "db_wf d'" using create_user_wf [OF assms, of pbkdf2 rnd p STARTING_CHIPS] Ret r by simp
    then show ?thesis using check assms Ret r by (simp add: login_account_def Let_def)
  qed (use check assms in \<open>simp_all add: login_account_def Let_def\<close>)
qed

lemma handle_login_wf:
  assumes wf: "server_wf sv" and c: "c \<notin> w_closed (sv_world sv)" "c \<notin> sv_authenticated sv"
  shows "keeps (server_kept sv) (handle_login pbkdf2 rnd lg c sv)"
proof (cases "is_valid_username (trim_copy (lg_username lg)) \<and> is_valid_password (lg_password lg)")
  case False
  then show ?thesis using wf by (auto simp: handle_login_def Let_def)
next
  case True
  obtain db where db: "w_repo (sv_world sv) = Some db" "db_wf db" using wf unfolding server_wf_def by blast
  let ?login = "login_account pbkdf2 rnd db (trim_copy (lg_username lg)) (lg_password lg)"
  have keep: "keeps (\<lambda>(db', outcome). db_wf db') ?login" using True by (intro login_account_wf [OF db(2)]) simp
  show ?thesis
  proof (cases ?login)
    case (Ret r)
    obtain db' outcome where r: "r = (db', outcome)" by (cases r)
    let ?sv = "sv\<lparr>sv_world := (sv_world sv)\<lparr>w_repo := Some db'\<rparr>\<rparr>"
    have "db_wf db'" using keep Ret r by simp
    then have wf': "server_wf ?sv" using wf by (simp add: server_wf_def online_def)
    then have kept: "server_kept sv ?sv" by (simp add: server_at_def)
    have fin: "server_kept sv (finish_authentication nm c chips new ?sv)" for nm chips new
      using finish_authentication_wf [OF wf', of c nm chips new] c by simp
    have "handle_login pbkdf2 rnd lg c sv = (case outcome of
                  Inl code \<Rightarrow> Ret (reply_error c code [] ?sv)
                | Inr (is_new_account, None) \<Rightarrow>
                    Ret (reply_error c InvalidMessage ''User record missing after login'' ?sv)
                | Inr (is_new_account, Some user) \<Rightarrow>
                    Ret (finish_authentication (trim_copy (lg_username lg)) c (ur_chips user) is_new_account ?sv))"
      using True db(1) Ret r by (simp add: handle_login_def Let_def)
    then show ?thesis using kept fin by (auto split: sum.split option.split)
  qed (use True db in \<open>simp_all add: handle_login_def Let_def\<close>)
qed

lemma process_message_wf:
  assumes wf: "server_wf sv" and c: "c \<notin> w_closed (sv_world sv)"
    and fits: "\<And>data m. parse raw = Inr data \<Longrightarrow> from_json_client data = Ret m \<Longrightarrow> request_fits m"
  shows "keeps (server_kept sv) (process_message parse what pbkdf2 rnd n raw c sv)"
proof (cases "parse raw")
  case (Inl e)
  then show ?thesis using wf by (simp add: process_message_def)
next
  case (Inr data)
  have login: "keeps (server_kept sv) (case get_at data ''data'' from_json_login of
                         Ret lg \<Rightarrow> handle_login pbkdf2 rnd lg c sv
                       | Exn e \<Rightarrow> Ret (reply_error c InvalidMessage (what data) sv)
                       | NoFuel \<Rightarrow> NoFuel)" if "c \<notin> sv_authenticated sv"
    using handle_login_wf [OF wf c that] wf by (simp split: result.split)
  have client: "keeps (server_kept sv) (case from_json_client data of
                    Ret msg \<Rightarrow> process_client_message n msg c sv
                  | Exn e \<Rightarrow> Ret (reply_error c InvalidMessage (what data) sv)
                  | NoFuel \<Rightarrow> NoFuel)" if "c \<in> sv_authenticated sv"
  proof -
    have "c \<in> online sv" using that c by (simp add: online_def)
    then show ?thesis using process_client_message_wf [OF wf] fits [OF Inr] wf by (simp split: result.split)
  qed
  show ?thesis
  proof (cases "get_at data ''type'' get_string")
    case (Ret type)
    then show ?thesis
      using Inr login client wf
      by (cases "c \<in> sv_authenticated sv"; cases "type = ''login''")
        (simp_all add: process_message_def del: keeps_simps, simp_all)
  qed (simp_all add: process_message_def Inr)
qed

subsection \<open>Disconnecting\<close>

text \<open>The server when a connection is closed, before the player leaves the room.\<close>

definition signed_off :: "cid \<Rightarrow> server \<Rightarrow> server" where
  "signed_off c sv =
     (let w = (sv_world sv)\<lparr>w_closed := insert c (w_closed (sv_world sv))\<rparr>
      in if c \<in> sv_authenticated sv
         then sv\<lparr>sv_names := sv_names sv - {w_name (sv_world sv) c},
                 sv_world := w\<lparr>w_registry := map_option (registry_remove c) (w_registry (sv_world sv))\<rparr>\<rparr>
         else sv\<lparr>sv_world := w\<rparr>)"

lemma connection_lost_signed_off: "connection_lost n c sv = lobby_on_disconnect n c (signed_off c sv)"
  by (simp add: connection_lost_def on_disconnect_def signed_off_def update_registry_def unregister_def Let_def)

lemma signed_off_fields [simp]:
  "sv_lobby (signed_off c sv) = sv_lobby sv" "w_repo (sv_world (signed_off c sv)) = w_repo (sv_world sv)"
  "w_name (sv_world (signed_off c sv)) = w_name (sv_world sv)"
  by (simp_all add: signed_off_def Let_def)

lemma signed_off_wf:
  assumes wf: "server_wf sv" and c: "c \<notin> w_closed (sv_world sv)"
  shows "online (signed_off c sv) = online sv - {c}"
    "w_closed (sv_world (signed_off c sv)) = insert c (w_closed (sv_world sv))"
    "sv_names (signed_off c sv) = w_name (sv_world sv) ` (online sv - {c})"
    "\<exists>cs. w_registry (sv_world (signed_off c sv)) = Some cs \<and> distinct cs \<and> set cs = online sv - {c}"
    "discreet_world (sv_world (signed_off c sv))"
proof -
  have inj: "inj_on (w_name (sv_world sv)) (online sv)" and
    names: "sv_names sv = w_name (sv_world sv) ` online sv" using wf by (simp_all add: server_wf_def)
  obtain cs where cs: "w_registry (sv_world sv) = Some cs" "distinct cs" "set cs = online sv"
    using wf unfolding server_wf_def by blast
  show "online (signed_off c sv) = online sv - {c}" using c by (auto simp: signed_off_def online_def Let_def)
  show "w_closed (sv_world (signed_off c sv)) = insert c (w_closed (sv_world sv))" by (simp add: signed_off_def Let_def)
  show "discreet_world (sv_world (signed_off c sv))" using wf by (simp add: signed_off_def server_wf_def Let_def)
  have off: "c \<notin> sv_authenticated sv \<Longrightarrow> online sv - {c} = online sv" by (auto simp: online_def)
  have "w_name (sv_world sv) ` (online sv - {c}) = w_name (sv_world sv) ` online sv - {w_name (sv_world sv) c}"
    if "c \<in> sv_authenticated sv"
    using that c inj by (auto simp: inj_on_def online_def)
  then show "sv_names (signed_off c sv) = w_name (sv_world sv) ` (online sv - {c})"
    using names off by (simp add: signed_off_def Let_def)
  show "\<exists>cs. w_registry (sv_world (signed_off c sv)) = Some cs \<and> distinct cs \<and> set cs = online sv - {c}"
    using cs off by (auto simp: signed_off_def registry_remove_def Let_def)
qed

lemma connection_lost_wf:
  assumes wf: "server_wf sv" and c: "c \<notin> w_closed (sv_world sv)"
  shows "keeps (server_at (insert c (w_closed (sv_world sv)))) (connection_lost n c sv)"
proof -
  let ?sv1 = "signed_off c sv"
  note off = signed_off_wf [OF wf c] and lobby = signed_off_fields [of c sv]
  have inj: "inj_on (w_name (sv_world sv)) (online sv)" using wf by (simp add: server_wf_def)
  show ?thesis
  proof (cases "leave_room n c (sv_lobby sv) (sv_world ?sv1)")
    case (Ret lw)
    obtain l w where lw: "lw = (l, w)" by (cases lw)
    have l: "same_world (sv_world ?sv1) w" "lobby_wf l" "rooms_fit l"
        "l_player_rooms l = (l_player_rooms (sv_lobby sv))(c := None)"
      using leave_in_server [OF wf Ret [unfolded lw]] by blast+
    have "dom (l_player_rooms l) \<subseteq> online sv - {c}" using server_wfD(3) [OF wf] l(4) by (auto split: if_splits)
    moreover have "inj_on (w_name (sv_world sv)) (online sv - {c})"
      by (rule inj_on_subset [OF inj]) blast
    moreover have on': "online (?sv1\<lparr>sv_lobby := l, sv_world := w\<rparr>) = online sv - {c}"
      using l(1) off(1) by (simp add: online_def same_world_def)
    ultimately have "server_wf (?sv1\<lparr>sv_lobby := l, sv_world := w\<rparr>)"
      unfolding server_wf_def on' using l wf off lobby same_world_discreet [OF l(1) off(5)]
      by (auto simp: server_wf_def same_world_def repo_keeps_def repo_ok_def split: option.splits)
    moreover have "w_closed w = insert c (w_closed (sv_world sv))" using l(1) by (simp add: same_world_def off(2))
    ultimately show ?thesis
      by (simp add: connection_lost_signed_off lobby_on_disconnect_def lobby_call_def lobby Ret lw no_value_def server_at_def)
  qed (simp_all add: connection_lost_signed_off lobby_on_disconnect_def lobby_call_def lobby no_value_def)
qed

section \<open>Runs of the server\<close>

text \<open>
  Messages arrive on connections that are not closed, in any order and with any content; a connection
  is lost once (\<open>Session\<close> sees to both). \<open>text_fits\<close> leaves out the requests for rooms that the deck
  cannot serve (\<open>Room.oversized_room_throws\<close>).
\<close>

definition text_fits :: "(string \<Rightarrow> string + json) \<Rightarrow> string \<Rightarrow> bool" where
  "text_fits parse raw \<longleftrightarrow> (case parse raw of
     Inl e \<Rightarrow> True
   | Inr data \<Rightarrow> (case from_json_client data of Ret m \<Rightarrow> request_fits m | _ \<Rightarrow> True))"

inductive server_run ::
  "(string \<Rightarrow> string + json) \<Rightarrow> (json \<Rightarrow> string) \<Rightarrow> pbkdf2 \<Rightarrow> server \<Rightarrow> server \<Rightarrow> bool"
  for parse what pbkdf2 sv0 where
  run_start: "server_run parse what pbkdf2 sv0 sv0"
| run_message: "server_run parse what pbkdf2 sv0 sv \<Longrightarrow> c \<notin> w_closed (sv_world sv) \<Longrightarrow> text_fits parse raw \<Longrightarrow>
    process_message parse what pbkdf2 rnd n raw c sv = Ret sv' \<Longrightarrow> server_run parse what pbkdf2 sv0 sv'"
| run_lost: "server_run parse what pbkdf2 sv0 sv \<Longrightarrow> c \<notin> w_closed (sv_world sv) \<Longrightarrow>
    connection_lost n c sv = Ret sv' \<Longrightarrow> server_run parse what pbkdf2 sv0 sv'"

lemma server_run_wf:
  assumes "server_run parse what pbkdf2 sv0 sv" "server_wf sv0"
  shows "server_wf sv"
  using assms
proof (induction rule: server_run.induct)
  case (run_message sv c raw rnd n sv')
  have "keeps (server_kept sv) (process_message parse what pbkdf2 rnd n raw c sv)"
    using run_message by (intro process_message_wf) (auto simp: text_fits_def)
  then show ?case using run_message by (simp add: server_at_def)
next
  case (run_lost sv c n sv')
  then show ?case using connection_lost_wf [of sv c n] by (simp add: server_at_def)
qed

text \<open>
  C13. The registries and the lobby agree in every run of the server: no two open, authenticated
  connections have the same name; a name is registered exactly while such a connection has it;
  broadcasts go to exactly these connections, each once; whoever is in a room is one of them and
  is listed by that room; and the accounts stay well-formed. So a lost connection leaves no
  player, name or registration behind.
\<close>

theorem server_consistent:
  assumes "server_run parse what pbkdf2 (new_server db draws) sv" "db_wf db"
  shows "inj_on (w_name (sv_world sv)) (online sv)
    \<and> sv_names sv = w_name (sv_world sv) ` online sv
    \<and> (\<exists>cs. w_registry (sv_world sv) = Some cs \<and> distinct cs \<and> set cs = online sv)
    \<and> (\<forall>c rp. find_room_by_player (sv_lobby sv) c = Some rp \<longrightarrow>
        c \<in> online sv \<and> rp \<in> set (l_rooms (sv_lobby sv)) \<and> c \<in> set (r_players (room_at (sv_lobby sv) rp)))
    \<and> (\<forall>rp \<in> set (l_rooms (sv_lobby sv)). room_wf (room_at (sv_lobby sv) rp))
    \<and> (\<exists>db'. w_repo (sv_world sv) = Some db' \<and> db_wf db')"
proof -
  have wf: "server_wf sv" using server_run_wf [OF assms(1) new_server_wf [OF assms(2)]] .
  have "room_wf (room_at (sv_lobby sv) rp)" if "rp \<in> set (l_rooms (sv_lobby sv))" for rp
    using server_wfD(1) [OF wf] that unfolding lobby_wf_def listed_room_ok_def by blast
  moreover have "c \<in> online sv \<and> rp \<in> set (l_rooms (sv_lobby sv)) \<and> c \<in> set (r_players (room_at (sv_lobby sv) rp))"
    if "find_room_by_player (sv_lobby sv) c = Some rp" for c rp
    using wf_room(1,2) [OF server_wfD(1) [OF wf]] server_wfD(3) [OF wf] that
    by (auto simp: find_room_by_player_def)
  ultimately show ?thesis using wf unfolding server_wf_def by blast
qed

theorem server_consistent_witness:
  "\<exists>sv. server_run (\<lambda>_. Inl ''bad'') (\<lambda>_. []) sample_pbkdf2 (new_server sample_db (\<lambda>_ _. [])) sv
    \<and> w_outbox (sv_world sv) \<noteq> [] \<and> inj_on (w_name (sv_world sv)) (online sv)"
proof -
  let ?s = "new_server sample_db (\<lambda>_ _. [])"
  let ?t = "reply_error 0 InvalidJson ''bad'' ?s"
  have start: "server_run (\<lambda>_. Inl ''bad'') (\<lambda>_. []) sample_pbkdf2 ?s ?s" by (rule run_start)
  have run: "server_run (\<lambda>_. Inl ''bad'') (\<lambda>_. []) sample_pbkdf2 ?s ?t"
  proof (rule run_message [OF start])
    show "0 \<notin> w_closed (sv_world ?s)" by (simp add: new_server_def)
    show "text_fits (\<lambda>_. Inl ''bad'') []" by (simp add: text_fits_def)
    show "process_message (\<lambda>_. Inl ''bad'') (\<lambda>_. []) sample_pbkdf2 None 0 [] 0 ?s = Ret ?t"
      by (simp add: process_message_def)
  qed
  then show ?thesis
    using server_consistent [OF run sample_db_wf]
    by (intro exI [of _ ?t]) (simp add: reply_error_def reply_def send_to_def)
qed



lemma repo_same: "w_repo (sv_world sv) = Some db \<Longrightarrow> sv\<lparr>sv_world := (sv_world sv)\<lparr>w_repo := Some db\<rparr>\<rparr> = sv"
  by simp



text \<open>
  C22. The same account can be online twice: accounts ignore the case of their names, the registry of
  names online does not. With the right password, a second connection logs in under another
  capitalisation of a name that is online, and both play on the same balance.
\<close>

theorem same_account_twice:
  assumes db: "w_repo (sv_world sv) = Some db" and c: "c \<notin> w_closed (sv_world sv)"
    and names: "nocase_eq u v" "u \<in> sv_names sv" "v \<notin> sv_names sv"
    and valid: "v = trim_copy (lg_username lg)" "is_valid_username v" "is_valid_password (lg_password lg)"
    and account: "balance db u \<noteq> None" "verify_password pbkdf2 db u (lg_password lg) = Ret True"
  shows "\<exists>sv'. handle_login pbkdf2 rnd lg c sv = Ret sv' \<and> c \<in> online sv' \<and> w_name (sv_world sv') c = v
    \<and> {u, v} \<subseteq> sv_names sv' \<and> balance db v = balance db u"
proof -
  have same: "select_user db v = select_user db u"
    using names(1) by (cases "users_of db") (simp_all add: select_user_def nocase_eq_def)
  then have b: "find_by_username db v = find_by_username db u" "verify_password pbkdf2 db v q = verify_password pbkdf2 db u q" for q
    by (simp_all add: find_by_username_def verify_password_def)
  obtain r where r: "find_by_username db u = Some r" using account(1) by (auto simp: balance_def)
  have "handle_login pbkdf2 rnd lg c sv = Ret (finish_authentication v c (ur_chips r) False sv)"
    using valid db account(2) r
    by (simp add: handle_login_def login_account_def Let_def username_exists_def repo_same [OF db] b [unfolded valid(1)])
  then show ?thesis
    using c names(2,3) by (simp add: online_finish online_def reply_def send_to_def balance_def b)
qed

theorem same_account_twice_witness:
  "\<exists>sv db. w_repo (sv_world sv) = Some db \<and> ''Alice'' \<in> sv_names sv \<and>
    (\<exists>sv'. handle_login sample_pbkdf2 None \<lparr>lg_username = ''ALICE'', lg_password = ''a1b2''\<rparr> 5 sv = Ret sv'
      \<and> {''Alice'', ''ALICE''} \<subseteq> sv_names sv')"
proof -
  have none: "balance sample_db ''Alice'' = None"
    by (simp add: balance_def find_by_username_def select_user_def users_of_def sample_db_def)
  obtain h where h: "hash sample_pbkdf2 (Some [1]) ''a1b2'' = Ret h"
    by (simp add: hash_def derive_key_def sample_pbkdf2_def)
  obtain d' where d': "select_user d' ''Alice'' = Some \<lparr>u_id = db_last_id sample_db + 1, u_username = ''Alice'',
      u_password_hash = h, u_chips = uint (1000 :: u32)\<rparr>"
    using select_create [OF sample_db_wf none h, of 1000 "''Alice''"] by (auto simp: nocase_eq_def)
  have key: "h = ''pbkdf2-sha256$'' @ ''100000'' @ ''$'' @ to_hex [1] @ ''$'' @ to_hex (replicate 32 1)"
    using h by (simp add: hash_def derive_key_def sample_pbkdf2_def)
  have "verify sample_pbkdf2 ''a1b2'' (c_string h) = Ret True"
    unfolding hash_c_string [OF h] unfolding key
    by (subst verify_stored) (simp_all add: sample_pbkdf2_def)
  then have ok: "verify_password sample_pbkdf2 d' ''Alice'' ''a1b2'' = Ret True" "balance d' ''Alice'' \<noteq> None"
    using d' by (simp_all add: verify_password_def balance_def find_by_username_def)
  define sv where "sv = (new_server d' (\<lambda>_ _. []))\<lparr>sv_names := {''Alice''}\<rparr>"
  have sv: "w_repo (sv_world sv) = Some d'" "5 \<notin> w_closed (sv_world sv)" "''Alice'' \<in> sv_names sv" "''ALICE'' \<notin> sv_names sv"
    by (simp_all add: sv_def new_server_def)
  have v: "nocase_eq ''Alice'' ''ALICE''" "''ALICE'' = trim_copy (lg_username \<lparr>lg_username = ''ALICE'', lg_password = ''a1b2''\<rparr>)"
      "is_valid_username ''ALICE''" "is_valid_password (lg_password \<lparr>lg_username = ''ALICE'', lg_password = ''a1b2''\<rparr>)"
    by code_simp+
  show ?thesis
    using same_account_twice [OF sv(1,2) v(1) sv(3,4) v(2,3,4) ok(2), where ?pbkdf2.0 = sample_pbkdf2 and rnd = None] ok(1) sv(1,3)
    by auto
qed

end
