(* ===== verification/PacketFraming.thy ===== *)
theory PacketFraming
  imports Prelude
begin

text \<open>
  The packet framing of \<open>common/include/poker/packet_framing.h\<close>,
  \<open>common/include/poker/network_limits.h\<close> and \<open>common/src/packet_framing.cpp\<close>: a packet is a
  four byte big-endian length followed by the JSON body. The code goes through a 32-bit word that
  it swaps and copies byte by byte, on the little-endian machines it is built for; the model keeps
  the swap and the copy. The lemmas show that what \<open>encode_packet\<close> writes is the big-endian number,
  that \<open>decode_packet_length\<close> reads it back, and which lengths it accepts.
\<close>

unbundle bit_operations_syntax

section \<open>Definitions\<close>

definition MAX_PACKET_SIZE :: u32 where
  "MAX_PACKET_SIZE = 1024 * 1024"

definition is_valid_packet_length :: "u32 \<Rightarrow> bool" where
  "is_valid_packet_length len \<longleftrightarrow> len > 0 \<and> len \<le> MAX_PACKET_SIZE"

definition to_big_endian :: "u32 \<Rightarrow> u32" where
  "to_big_endian v =
     (push_bit 24 (v AND 0x000000FF) OR push_bit 8 (v AND 0x0000FF00)
        OR drop_bit 8 (v AND 0x00FF0000) OR drop_bit 24 (v AND 0xFF000000))"

definition from_big_endian :: "u32 \<Rightarrow> u32" where
  "from_big_endian v = to_big_endian v"

text \<open>
  The object representation of a \<open>uint32_t\<close> on a little-endian machine (the cast to
  \<open>const uint8_t*\<close>), and the \<open>memcpy\<close> back.
\<close>

definition word_bytes :: "u32 \<Rightarrow> u8 list" where
  "word_bytes v = [ucast v, ucast (drop_bit 8 v), ucast (drop_bit 16 v), ucast (drop_bit 24 v)]"

definition word_of_bytes :: "u8 list \<Rightarrow> u32" where
  "word_of_bytes bs =
     (ucast (bs ! 0) OR push_bit 8 (ucast (bs ! 1)) OR push_bit 16 (ucast (bs ! 2))
        OR push_bit 24 (ucast (bs ! 3)))"

text \<open>A \<open>std::string\<close> as the bytes it holds, and a byte buffer as a string.\<close>

definition bytes_of_string :: "string \<Rightarrow> u8 list" where
  "bytes_of_string s = map of_char s"

definition string_of_bytes :: "u8 list \<Rightarrow> string" where
  "string_of_bytes bs = map (\<lambda>b. char_of (unat b)) bs"

definition encode_packet :: "string \<Rightarrow> u8 list result" where
  "encode_packet json_body =
     (if length json_body > unat MAX_PACKET_SIZE then Exn LengthError
      else let len = (word_of_nat (length json_body) :: u32);
               network_length = to_big_endian len
           in Ret (word_bytes network_length @ bytes_of_string json_body))"

text \<open>The value left in \<open>out_length\<close> and the value returned.\<close>

definition decode_packet_length :: "u8 list \<Rightarrow> u32 \<times> bool" where
  "decode_packet_length header_bytes =
     (let network_length = word_of_bytes header_bytes;
          out_length = from_big_endian network_length
      in (out_length, is_valid_packet_length out_length))"

section \<open>Byte order\<close>

lemma masks:
  "(0x000000FF :: u32) = mask 8" "(0x0000FF00 :: u32) = push_bit 8 (mask 8)"
  "(0x00FF0000 :: u32) = push_bit 16 (mask 8)" "(0xFF000000 :: u32) = push_bit 24 (mask 8)"
  by (simp_all add: mask_eq_exp_minus_1 push_bit_eq_mult)

lemma word_of_four_bytes:
  "word_of_bytes [a, b, c, d]
    = (ucast a OR push_bit 8 (ucast b) OR push_bit 16 (ucast c) OR push_bit 24 (ucast d))"
  by (simp add: word_of_bytes_def numeral_3_eq_3)

lemma word_of_bytes_inverse: "word_of_bytes (word_bytes v) = v"
  unfolding word_of_four_bytes word_bytes_def
proof (rule bit_word_eqI)
  fix n assume "n < LENGTH(32)"
  then consider "n < 8" | "8 \<le> n" "n < 16" | "16 \<le> n" "n < 24" | "24 \<le> n" "n < 32" by fastforce
  then show "bit (ucast (ucast v :: u8) OR push_bit 8 (ucast (ucast (drop_bit 8 v) :: u8))
      OR push_bit 16 (ucast (ucast (drop_bit 16 v) :: u8))
      OR push_bit 24 (ucast (ucast (drop_bit 24 v) :: u8)) :: u32) n = bit v n"
    by cases (simp_all add: bit_simps less_diff_conv2)
qed

lemma word_bytes_big_endian: "word_bytes (to_big_endian v) = rev (word_bytes v)"
  unfolding word_bytes_def to_big_endian_def masks
  by (auto intro!: bit_word_eqI simp: bit_simps)

lemma word_bytes_inject: "word_bytes v = word_bytes w \<longleftrightarrow> v = w"
  by (metis word_of_bytes_inverse)

lemma to_big_endian_involutive: "to_big_endian (to_big_endian v) = v"
  by (simp flip: word_bytes_inject add: word_bytes_big_endian)

lemma length_word_bytes [simp]: "length (word_bytes v) = 4"
  by (simp add: word_bytes_def)

lemma unat_of_char: "unat (of_char c :: u8) = of_char c"
proof -
  have "(of_char c :: u8) = word_of_nat (of_char c)" by (simp add: of_nat_of_char)
  then show ?thesis using nat_of_char_less_256 [of c] by (simp add: unat_of_nat)
qed

lemma string_of_bytes_inverse [simp]: "string_of_bytes (bytes_of_string s) = s"
  by (induction s) (simp_all add: string_of_bytes_def bytes_of_string_def unat_of_char)

lemma length_bytes_of_string [simp]: "length (bytes_of_string s) = length s"
  by (simp add: bytes_of_string_def)

section \<open>Round trip\<close>

lemma unat_byte: "unat (ucast (drop_bit k v) :: u8) = unat v div 2 ^ k mod 256" for v :: u32
  unfolding unsigned_ucast_eq unsigned_take_bit_eq unat_drop_bit_eq
  by (simp add: take_bit_eq_mod drop_bit_eq_div)

lemma base256:
  assumes "n < (4294967296::nat)"
  shows "((n div 16777216 mod 256 * 256 + n div 65536 mod 256) * 256 + n div 256 mod 256) * 256
      + n mod 256 = n"
proof -
  have divs: "n div 65536 = n div 256 div 256" "n div 16777216 = n div 256 div 256 div 256"
    by (simp_all add: div_mult2_eq [symmetric])
  have "n div 256 div 256 div 256 mod 256 = n div 256 div 256 div 256" using assms by simp
  moreover have "((c * 256 + b) * 256 + a) * 256 + r = m"
    if "q * 256 + r = m" "q' * 256 + a = q" "c * 256 + b = q'" for a b c r q q' m :: nat
    using that by simp
  ultimately show ?thesis
    unfolding divs by (metis div_mult_mod_eq)
qed

text \<open>The number a byte sequence writes, most significant byte first.\<close>

definition big_endian_value :: "u8 list \<Rightarrow> nat" where
  "big_endian_value bs = fold (\<lambda>b n. n * 256 + unat b) bs 0"

lemma big_endian_header: "big_endian_value (word_bytes (to_big_endian v)) = unat v"
proof -
  have "unat (ucast v :: u8) = unat v mod 256" using unat_byte [of 0 v] by simp
  then show ?thesis
    using base256 [OF u32_less_max, of v] unat_byte [of 8 v] unat_byte [of 16 v] unat_byte [of 24 v]
    unfolding word_bytes_big_endian by (simp add: word_bytes_def big_endian_value_def)
qed

lemma decode_header:
  "decode_packet_length (word_bytes (to_big_endian v)) = (v, 0 < v \<and> v \<le> MAX_PACKET_SIZE)"
  by (simp add: decode_packet_length_def word_of_bytes_inverse from_big_endian_def
      to_big_endian_involutive is_valid_packet_length_def)

lemma unat_max_packet: "unat MAX_PACKET_SIZE = 1048576"
  by (simp add: MAX_PACKET_SIZE_def)

lemma encode_small:
  assumes "length body \<le> 1048576"
  shows "encode_packet body
    = Ret (word_bytes (to_big_endian (word_of_nat (length body))) @ bytes_of_string body)"
  using assms by (simp add: encode_packet_def unat_max_packet Let_def)

text \<open>
  Framing round trip: a body of more than one MiB is refused; any other body is sent as four
  bytes that are its length in big-endian order, followed by the body, and the reader decodes
  those four bytes to that length. The reader accepts the length unless the body is empty: the
  writer can frame an empty body that the reader treats as a protocol violation.
\<close>

theorem packet_roundtrip:
  "if length body > 1048576 then encode_packet body = Exn LengthError
   else \<exists>header. encode_packet body = Ret (header @ bytes_of_string body)
     \<and> length header = 4 \<and> big_endian_value header = length body
     \<and> decode_packet_length header = (word_of_nat (length body), body \<noteq> [])
     \<and> string_of_bytes (bytes_of_string body) = body"
proof (cases "length body > 1048576")
  case False
  have un: "unat (word_of_nat (length body) :: u32) = length body"
    using False by (simp add: unat_of_nat)
  have "0 < (word_of_nat (length body) :: u32) \<longleftrightarrow> body \<noteq> []"
    "(word_of_nat (length body) :: u32) \<le> MAX_PACKET_SIZE"
    using False un by (simp_all add: word_less_nat_alt word_le_nat_alt unat_max_packet)
  then show ?thesis
    using False un by (auto simp: encode_small big_endian_header decode_header)
qed (simp add: encode_packet_def unat_max_packet)

end
