(* ===== verification/PacketStreams.thy ===== *)
theory PacketStreams
  imports PacketFraming
begin

text \<open>
  What both ends of a connection do with packets. \<open>Session\<close> on the server and \<open>NetworkClient\<close> on the client
  read a header, then a body, and start again; and they write the packets of a queue one after the
  other, the next when the last is done. The two locales are the interfaces of these state machines:
  \<open>packet_reader\<close> concludes that a stream of framed messages is handled message by message,
  \<open>packet_writer\<close> that a queue runs empty. They are interpreted in \<open>NetworkSession\<close> and \<open>NetworkClient\<close>.
\<close>

section \<open>Streams of packets\<close>

definition header :: "string \<Rightarrow> u8 list" where
  "header body = word_bytes (to_big_endian (word_of_nat (length body)))"

definition frame :: "string \<Rightarrow> u8 list" where
  "frame body = header body @ bytes_of_string body"

text \<open>The bodies that can be framed and are accepted by a reader.\<close>

definition packet_body :: "string \<Rightarrow> bool" where
  "packet_body body \<longleftrightarrow> body \<noteq> [] \<and> length body \<le> unat MAX_PACKET_SIZE"

lemma encode_frame: "length m \<le> unat MAX_PACKET_SIZE \<Longrightarrow> encode_packet m = Ret (frame m)"
  by (simp add: encode_small frame_def header_def unat_max_packet)

lemma packet_body_length:
  "packet_body body \<Longrightarrow> unat (word_of_nat (length body) :: u32) = length body"
  by (simp add: packet_body_def unat_max_packet unat_of_nat)

lemma decode_packet_header:
  assumes "packet_body body"
  shows "decode_packet_length (header body) = (word_of_nat (length body), True)"
proof -
  have "(0 :: u32) < word_of_nat (length body)" "(word_of_nat (length body) :: u32) \<le> MAX_PACKET_SIZE"
    using assms packet_body_length [OF assms]
    by (simp_all add: word_less_nat_alt word_le_nat_alt packet_body_def)
  then show ?thesis by (simp add: header_def decode_header)
qed

lemma length_header [simp]: "length (header body) = 4"
  by (simp add: header_def)

text \<open>
  A byte stream that arrives at a reader: a read completes as soon as all the bytes are there that it
  wants (\<open>wanted\<close>; nothing is read when it wants none), and \<open>feed\<close> is its completion.
\<close>

function feed_stream :: "('s \<Rightarrow> nat) \<Rightarrow> (u8 list \<Rightarrow> 's \<Rightarrow> 's) \<Rightarrow> u8 list \<Rightarrow> 's \<Rightarrow> 's" where
  "feed_stream wanted feed bytes s =
     (let k = wanted s in
      if k = 0 \<or> length bytes < k then s
      else feed_stream wanted feed (drop k bytes) (feed (take k bytes) s))"
  by pat_completeness auto

termination
  by (relation "measure (\<lambda>(wanted, feed, bytes, s). length bytes)") auto

declare feed_stream.simps [simp del]

lemma feed_stream_enough:
  assumes "length bs = wanted s" "bs \<noteq> []"
  shows "feed_stream wanted feed (bs @ rest) s = feed_stream wanted feed rest (feed bs s)"
  using assms by (subst feed_stream.simps) (auto simp: Let_def)

lemma feed_stream_short: "length bs < wanted s \<or> wanted s = 0 \<Longrightarrow> feed_stream wanted feed bs s = s"
  by (subst feed_stream.simps) (auto simp: Let_def)

section \<open>The interface of a reader\<close>

locale packet_reader =
  fixes wanted :: "'s \<Rightarrow> nat"
    and feed :: "u8 list \<Rightarrow> 's \<Rightarrow> 's"
    and ready :: "'s \<Rightarrow> bool"
    and handle :: "string \<Rightarrow> 's \<Rightarrow> 's"
  assumes wants_header: "ready s \<Longrightarrow> wanted s = 4"
    and wants_body: "ready s \<Longrightarrow> packet_body body \<Longrightarrow> wanted (feed (header body) s) = length body"
    and body_handled: "ready s \<Longrightarrow> packet_body body \<Longrightarrow>
      feed (bytes_of_string body) (feed (header body) s) = handle body s"
    and ready_again: "ready s \<Longrightarrow> packet_body body \<Longrightarrow> ready (handle body s)"

context packet_reader
begin

lemma feed_frame:
  assumes "ready s" "packet_body body"
  shows "feed_stream wanted feed (frame body @ rest) s = feed_stream wanted feed rest (handle body s)"
proof -
  have "header body \<noteq> []" "bytes_of_string body \<noteq> []"
    using assms(2) by (auto simp: packet_body_def bytes_of_string_def header_def word_bytes_def)
  then show ?thesis
    unfolding frame_def append_assoc using assms
    by (simp add: feed_stream_enough wants_header wants_body body_handled)
qed

lemma feed_frames:
  "ready s \<Longrightarrow> list_all packet_body bodies \<Longrightarrow>
    ready (fold handle bodies s)
    \<and> feed_stream wanted feed (concat (map frame bodies) @ rest) s
      = feed_stream wanted feed rest (fold handle bodies s)"
  by (induction bodies arbitrary: s) (simp_all add: feed_frame ready_again)

lemma feed_all:
  assumes "ready s" "list_all packet_body bodies"
  shows "ready (fold handle bodies s)"
    "feed_stream wanted feed (concat (map frame bodies)) s = fold handle bodies s"
proof -
  note f = feed_frames [OF assms]
  show r: "ready (fold handle bodies s)" using f by blast
  have "feed_stream wanted feed [] (fold handle bodies s) = fold handle bodies s"
    using wants_header [OF r] by (intro feed_stream_short) simp
  then show "feed_stream wanted feed (concat (map frame bodies)) s = fold handle bodies s"
    using f [of "[]"] by simp
qed

end

section \<open>The interface of a writer\<close>

locale packet_writer =
  fixes queue :: "'s \<Rightarrow> 'p list"
    and busy :: "'s \<Rightarrow> bool"
    and wire :: "'s \<Rightarrow> 'p list"
    and live :: "'s \<Rightarrow> bool"
    and written :: "'s \<Rightarrow> 's"
  assumes written_live: "live s \<Longrightarrow> busy s \<Longrightarrow> live (written s)"
    and written_queue: "live s \<Longrightarrow> busy s \<Longrightarrow> queue (written s) = tl (queue s)"
    and written_busy: "live s \<Longrightarrow> busy s \<Longrightarrow> busy (written s) \<longleftrightarrow> tl (queue s) \<noteq> []"
    and written_wire: "live s \<Longrightarrow> busy s \<Longrightarrow> wire (written s) = wire s @ take 1 (tl (queue s))"
    and busy_queue: "live s \<Longrightarrow> busy s \<longleftrightarrow> queue s \<noteq> []"

context packet_writer
begin

lemma drains:
  "live s \<Longrightarrow> live ((written ^^ length (queue s)) s) \<and> queue ((written ^^ length (queue s)) s) = []
    \<and> \<not> busy ((written ^^ length (queue s)) s) \<and> wire ((written ^^ length (queue s)) s) = wire s @ tl (queue s)"
proof (induction "length (queue s)" arbitrary: s)
  case 0
  then show ?case using busy_queue [of s] by simp
next
  case (Suc n)
  then obtain p q where q: "queue s = p # q" by (cases "queue s") auto
  then have b: "busy s" using busy_queue [OF Suc.prems] by simp
  note w = written_live [OF Suc.prems b] written_queue [OF Suc.prems b] written_wire [OF Suc.prems b]
  have n: "n = length (queue (written s))" using Suc.hyps(2) w(2) q by simp
  have "(written ^^ length (queue s)) s = (written ^^ length (queue (written s))) (written s)"
    using Suc.hyps(2) n by (metis comp_apply funpow_Suc_right)
  moreover have "take 1 q @ tl q = q" by (cases q) simp_all
  ultimately show ?case using Suc.hyps(1) [OF n w(1)] w q by simp
qed

text \<open>What every completed write keeps holds when the queue has run empty.\<close>

lemma drains_keeps:
  assumes "live s" "P s" "\<And>t. live t \<Longrightarrow> busy t \<Longrightarrow> P t \<Longrightarrow> P (written t)"
  shows "P ((written ^^ length (queue s)) s)"
proof -
  have "live ((written ^^ k) s) \<and> queue ((written ^^ k) s) = drop k (queue s) \<and> P ((written ^^ k) s)"
    if "k \<le> length (queue s)" for k
    using that
  proof (induction k)
    case (Suc k)
    let ?t = "(written ^^ k) s"
    have t: "live ?t" "queue ?t = drop k (queue s)" "P ?t" using Suc by simp_all
    then have "busy ?t" using busy_queue [OF t(1)] Suc.prems by simp
    then show ?case
      using written_live [OF t(1)] written_queue [OF t(1)] assms(3) [OF t(1)] t
      by (simp add: drop_Suc tl_drop)
  qed (use assms in simp)
  then show ?thesis by simp
qed

end

end
