(* ===== verification/NetworkSession.thy ===== *)
theory NetworkSession
  imports Protocol PacketStreams
begin

text \<open>
  \<open>Session\<close> of \<open>server/include/network/session.h\<close> and \<open>server/src/network/session.cpp\<close>: one TCP connection
  of the server. The member functions and the completion handlers given to asio are one definition
  each. The socket is seen through what the session asks of it: \<open>n_wire\<close> lists the packets handed to
  \<open>async_write\<close>, \<open>n_reading\<close> is the \<open>async_read\<close> that is outstanding. \<open>n_processed\<close> lists the bodies
  handed to \<open>process_message\<close>, \<open>n_disconnects\<close> counts the calls of \<open>on_disconnect\<close>; what the processor
  does is in \<open>Messaging\<close>, and what it sends on the same session is a later call of \<open>send\<close>. The text of
  a JSON value, \<open>dump\<close>, is a parameter; it may throw (the library refuses strings that are not UTF-8). Player name and authentication are in \<open>Messaging\<close> too
  (\<open>set_player_name\<close>). Log lines are left out.
\<close>

section \<open>State and member functions\<close>

datatype read_state = NoRead | ReadHeader | ReadBody u32

record net_session =
  n_closed :: bool
  n_disconnect_notified :: bool
  n_write_in_progress :: bool
  n_write_queue :: "u8 list list"
  n_wire :: "u8 list list"
  n_reading :: read_state
  n_processed :: "string list"
  n_disconnects :: nat
  n_socket_open :: bool

definition new_session :: net_session where
  "new_session = \<lparr>n_closed = False, n_disconnect_notified = False, n_write_in_progress = False,
     n_write_queue = [], n_wire = [], n_reading = NoRead, n_processed = [], n_disconnects = 0,
     n_socket_open = True\<rparr>"

definition close_session :: "net_session \<Rightarrow> net_session" where
  "close_session s =
     (if n_closed s then s
      else
        let s = s\<lparr>n_closed := True\<rparr>;
            s = (if \<not> n_disconnect_notified s
                 then s\<lparr>n_disconnect_notified := True, n_disconnects := n_disconnects s + 1\<rparr> else s)
        in if n_socket_open s then s\<lparr>n_socket_open := False\<rparr> else s)"

definition do_write :: "net_session \<Rightarrow> net_session" where
  "do_write s =
     (if n_closed s \<or> n_write_in_progress s \<or> n_write_queue s = [] then s
      else s\<lparr>n_write_in_progress := True, n_wire := n_wire s @ [hd (n_write_queue s)]\<rparr>)"

text \<open>The completion handler of \<open>async_write\<close>; \<open>ec\<close> tells whether there was an error.\<close>

definition write_done :: "bool \<Rightarrow> net_session \<Rightarrow> net_session" where
  "write_done ec s =
     (let s = s\<lparr>n_write_in_progress := False\<rparr> in
      if n_closed s then s
      else if \<not> ec
      then let s = (if n_write_queue s \<noteq> [] then s\<lparr>n_write_queue := tl (n_write_queue s)\<rparr> else s)
           in if n_write_queue s \<noteq> [] then do_write s else s
      else close_session s)"

definition send :: "(json \<Rightarrow> string result) \<Rightarrow> server_message \<Rightarrow> net_session \<Rightarrow> net_session result" where
  "send dump msg s =
     (if n_closed s then Ret s
      else bind_r (dump (to_json_server msg)) (\<lambda>json_str.
        if length json_str > unat MAX_PACKET_SIZE then Ret s
        else map_r (\<lambda>packet.
               let s = s\<lparr>n_write_queue := n_write_queue s @ [packet]\<rparr>
               in if \<not> n_write_in_progress s then do_write s else s)
             (encode_packet json_str)))"

definition do_read_header :: "net_session \<Rightarrow> net_session" where
  "do_read_header s = (if n_closed s then s else s\<lparr>n_reading := ReadHeader\<rparr>)"

definition do_read_body :: "u32 \<Rightarrow> net_session \<Rightarrow> net_session" where
  "do_read_body len s = (if n_closed s then s else s\<lparr>n_reading := ReadBody len\<rparr>)"

definition start_session :: "net_session \<Rightarrow> net_session" where
  "start_session s = do_read_header s"

definition on_message :: "string \<Rightarrow> net_session \<Rightarrow> net_session" where
  "on_message json s = s\<lparr>n_processed := n_processed s @ [json]\<rparr>"

text \<open>The completion handlers of the two reads: the error, and the bytes that were read.\<close>

definition header_read :: "bool \<Rightarrow> u8 list \<Rightarrow> net_session \<Rightarrow> net_session" where
  "header_read ec bytes s =
     (let s = s\<lparr>n_reading := NoRead\<rparr> in
      if n_closed s then s
      else if \<not> ec \<and> length bytes = 4
      then (case decode_packet_length bytes of
              (len, ok) \<Rightarrow> if \<not> ok then close_session s else do_read_body len s)
      else close_session s)"

definition body_read :: "bool \<Rightarrow> u8 list \<Rightarrow> net_session \<Rightarrow> net_session" where
  "body_read ec bytes s =
     (let s = s\<lparr>n_reading := NoRead\<rparr> in
      if n_closed s then s
      else if \<not> ec then do_read_header (on_message (string_of_bytes bytes) s)
      else close_session s)"

section \<open>The events of a session\<close>

text \<open>
  What can happen to a started session: somebody sends, the outstanding write or read completes. A read
  without error completes with exactly the bytes asked for (\<open>transfer_exactly\<close>).
\<close>

definition read_fits :: "read_state \<Rightarrow> bool \<Rightarrow> u8 list \<Rightarrow> bool" where
  "read_fits r ec bytes \<longleftrightarrow> (case r of
     NoRead \<Rightarrow> False | ReadHeader \<Rightarrow> ec \<or> length bytes = 4 | ReadBody len \<Rightarrow> ec \<or> length bytes = unat len)"

definition read_done :: "bool \<Rightarrow> u8 list \<Rightarrow> net_session \<Rightarrow> net_session" where
  "read_done ec bytes s = (case n_reading s of
     NoRead \<Rightarrow> s | ReadHeader \<Rightarrow> header_read ec bytes s | ReadBody len \<Rightarrow> body_read ec bytes s)"

text \<open>What a call of \<open>send\<close> adds to the texts that are to be sent.\<close>

definition accepted :: "string result \<Rightarrow> net_session \<Rightarrow> string list" where
  "accepted json_str s = (case json_str of
     Ret body \<Rightarrow> if n_closed s \<or> length body > unat MAX_PACKET_SIZE then [] else [body] | _ \<Rightarrow> [])"

text \<open>The second argument lists the texts that were accepted so far.\<close>

inductive session_run :: "(json \<Rightarrow> string result) \<Rightarrow> string list \<Rightarrow> net_session \<Rightarrow> bool"
  for dump :: "json \<Rightarrow> string result" where
  sr_start: "session_run dump [] (start_session new_session)"
| sr_send: "session_run dump ms s \<Longrightarrow> send dump m s = Ret s' \<Longrightarrow>
    session_run dump (ms @ accepted (dump (to_json_server m)) s) s'"
| sr_write: "session_run dump ms s \<Longrightarrow> n_write_in_progress s \<Longrightarrow> session_run dump ms (write_done ec s)"
| sr_read: "session_run dump ms s \<Longrightarrow> read_fits (n_reading s) ec bytes \<Longrightarrow>
    session_run dump ms (read_done ec bytes s)"

definition queue_wf :: "string list \<Rightarrow> net_session \<Rightarrow> bool" where
  "queue_wf ms s \<longleftrightarrow>
     (\<exists>sent. map frame ms = sent @ n_write_queue s
        \<and> (n_wire s = sent \<or> n_write_queue s \<noteq> [] \<and> n_wire s = sent @ [hd (n_write_queue s)])
        \<and> (n_write_in_progress s \<longrightarrow> n_write_queue s \<noteq> [] \<and> n_wire s = sent @ [hd (n_write_queue s)])
        \<and> (\<not> n_closed s \<longrightarrow> \<not> n_write_in_progress s \<longrightarrow> n_write_queue s = []))"

definition reads_wf :: "net_session \<Rightarrow> bool" where
  "reads_wf s \<longleftrightarrow> (\<not> n_closed s \<longrightarrow> n_reading s \<noteq> NoRead)
     \<and> n_disconnects s = (if n_closed s then 1 else 0)
     \<and> (n_disconnect_notified s \<longleftrightarrow> n_closed s) \<and> (n_socket_open s \<longleftrightarrow> \<not> n_closed s)
     \<and> (\<forall>len. n_reading s = ReadBody len \<longrightarrow> 0 < len \<and> len \<le> MAX_PACKET_SIZE)
     \<and> (\<forall>m \<in> set (n_processed s). 0 < length m \<and> length m \<le> unat MAX_PACKET_SIZE)"

lemma queue_wf_close: "queue_wf ms s \<Longrightarrow> queue_wf ms (close_session s)"
  by (auto simp: queue_wf_def close_session_def Let_def)

lemma queue_wf_reading:
  "queue_wf ms (s\<lparr>n_reading := r\<rparr>) = queue_wf ms s" "queue_wf ms (s\<lparr>n_processed := p\<rparr>) = queue_wf ms s"
  by (simp_all add: queue_wf_def)

definition enqueue :: "string \<Rightarrow> net_session \<Rightarrow> net_session" where
  "enqueue body s =
     (let s = s\<lparr>n_write_queue := n_write_queue s @ [frame body]\<rparr>
      in if \<not> n_write_in_progress s then do_write s else s)"

lemma send_eq:
  "send dump m s = (if n_closed s then Ret s
     else bind_r (dump (to_json_server m)) (\<lambda>body.
       Ret (if length body > unat MAX_PACKET_SIZE then s else enqueue body s)))"
proof (cases "dump (to_json_server m)")
  case (Ret body)
  then show ?thesis
    by (cases "length body > unat MAX_PACKET_SIZE") (simp_all add: send_def encode_frame enqueue_def Let_def)
qed (simp_all add: send_def)

lemma send_cases:
  assumes "send dump m s = Ret s'"
  obtains "s' = s" "accepted (dump (to_json_server m)) s = []"
  | body where "\<not> n_closed s" "s' = enqueue body s" "accepted (dump (to_json_server m)) s = [body]"
  using assms by (cases "dump (to_json_server m)") (auto simp: send_eq accepted_def split: if_splits)

lemma queue_wf_push:
  assumes "queue_wf ms s" "\<not> n_closed s"
  shows "queue_wf (ms @ [m]) (enqueue m s)"
proof (cases "n_write_in_progress s")
  case True
  then obtain sent where "map frame ms = sent @ n_write_queue s" "n_write_queue s \<noteq> []"
      "n_wire s = sent @ [hd (n_write_queue s)]"
    using assms(1) by (auto simp: queue_wf_def)
  then show ?thesis using True by (simp add: queue_wf_def enqueue_def)
next
  case False
  then have "n_write_queue s = []" "n_wire s = map frame ms" using assms by (auto simp: queue_wf_def)
  then show ?thesis using False assms(2) by (simp add: queue_wf_def enqueue_def do_write_def)
qed

lemma queue_wf_written:
  assumes "queue_wf ms s" "n_write_in_progress s"
  shows "queue_wf ms (write_done ec s)"
proof -
  obtain sent where sent: "map frame ms = sent @ n_write_queue s" "n_write_queue s \<noteq> []"
      "n_wire s = sent @ [hd (n_write_queue s)]"
    using assms by (auto simp: queue_wf_def)
  let ?s = "s\<lparr>n_write_in_progress := False\<rparr>"
  have ended: "queue_wf ms (?s\<lparr>n_closed := True\<rparr>)" if "n_closed s \<or> ec"
    using sent by (auto simp: queue_wf_def)
  show ?thesis
  proof (cases "n_closed s")
    case True
    then have "write_done ec s = ?s" by (simp add: write_done_def)
    then show ?thesis using sent True by (auto simp: queue_wf_def)
  next
    case open_s: False
    show ?thesis
    proof (cases ec)
      case True
      then show ?thesis using open_s sent by (auto simp: write_done_def close_session_def queue_wf_def Let_def)
    next
      case False
      have ms: "map frame ms = (sent @ [hd (n_write_queue s)]) @ tl (n_write_queue s)" using sent by simp
      obtain p q where q: "n_write_queue s = p # q" using sent(2) by (cases "n_write_queue s") auto
      show ?thesis
        using False open_s sent(3) ms q
        by (cases q) (simp_all add: write_done_def do_write_def queue_wf_def Let_def)
    qed
  qed
qed

lemma queue_wf_read: "queue_wf ms s \<Longrightarrow> queue_wf ms (read_done ec bytes s)"
  by (auto simp: read_done_def header_read_def body_read_def do_read_body_def do_read_header_def
      on_message_def queue_wf_reading queue_wf_close Let_def split: read_state.split prod.split)

text \<open>Writing and closing leave the reading side as it is, or end it.\<close>

lemma reads_wf_writes:
  "reads_wf (s\<lparr>n_write_in_progress := b\<rparr>) = reads_wf s"
  "reads_wf (s\<lparr>n_write_queue := q\<rparr>) = reads_wf s"
  "reads_wf (s\<lparr>n_wire := w\<rparr>) = reads_wf s"
  by (simp_all add: reads_wf_def)

lemma reads_wf_do_write: "reads_wf (do_write s) = reads_wf s"
  by (simp add: do_write_def reads_wf_def)

lemma close_session_fields:
  "n_closed (close_session s)" "n_processed (close_session s) = n_processed s"
  "n_reading (close_session s) = n_reading s"
  by (simp_all add: close_session_def Let_def)

text \<open>What \<open>reads_wf\<close> says of a session whose read has just completed.\<close>

definition notified_wf :: "net_session \<Rightarrow> bool" where
  "notified_wf s \<longleftrightarrow> n_disconnects s = (if n_closed s then 1 else 0)
     \<and> (n_disconnect_notified s \<longleftrightarrow> n_closed s) \<and> (n_socket_open s \<longleftrightarrow> \<not> n_closed s)
     \<and> (\<forall>m \<in> set (n_processed s). 0 < length m \<and> length m \<le> unat MAX_PACKET_SIZE)"

lemma notified_wf_close: "notified_wf s \<Longrightarrow> notified_wf (close_session s)"
  by (simp add: notified_wf_def close_session_def Let_def)

lemma notified_wf_reading:
  "notified_wf (s\<lparr>n_reading := r\<rparr>) = notified_wf s"
  "notified_wf (s\<lparr>n_reading := r, n_processed := p\<rparr>) = notified_wf (s\<lparr>n_processed := p\<rparr>)"
  by (simp_all add: notified_wf_def)

lemma reads_wf_eq:
  "reads_wf s \<longleftrightarrow> notified_wf s \<and> (\<not> n_closed s \<longrightarrow> n_reading s \<noteq> NoRead)
     \<and> (\<forall>len. n_reading s = ReadBody len \<longrightarrow> 0 < len \<and> len \<le> MAX_PACKET_SIZE)"
  by (auto simp: reads_wf_def notified_wf_def)

lemma reads_wf_close: "reads_wf s \<Longrightarrow> reads_wf (close_session s)"
  by (simp add: reads_wf_eq notified_wf_close close_session_fields)

lemma reads_wf_write: "reads_wf s \<Longrightarrow> reads_wf (write_done ec s)"
  by (simp add: write_done_def Let_def reads_wf_writes reads_wf_do_write reads_wf_close)

lemma reads_wf_send: "reads_wf s \<Longrightarrow> send dump m s = Ret s' \<Longrightarrow> reads_wf s'"
  by (erule send_cases) (simp_all add: enqueue_def Let_def reads_wf_writes reads_wf_do_write)

lemma notified_wf_message:
  assumes "notified_wf s" "0 < length m" "length m \<le> unat MAX_PACKET_SIZE"
  shows "notified_wf (on_message m s)"
  using assms by (auto simp: notified_wf_def on_message_def)

lemma reads_wf_read:
  assumes "reads_wf s" "read_fits (n_reading s) ec bytes"
  shows "reads_wf (read_done ec bytes s)"
proof -
  let ?s = "s\<lparr>n_reading := NoRead\<rparr>"
  have n: "notified_wf ?s" using assms(1) by (simp add: reads_wf_eq notified_wf_reading)
  have stopped: "reads_wf (close_session ?s)" "n_closed s \<Longrightarrow> reads_wf ?s"
    using n by (simp_all add: reads_wf_eq notified_wf_close close_session_fields)
  show ?thesis
  proof (cases "n_reading s")
    case NoRead
    then show ?thesis using assms(2) by (simp add: read_fits_def)
  next
    case ReadHeader
    obtain len ok where d: "decode_packet_length bytes = (len, ok)" by fastforce
    then have "ok \<Longrightarrow> 0 < len \<and> len \<le> MAX_PACKET_SIZE"
      by (auto simp: decode_packet_length_def is_valid_packet_length_def Let_def)
    then have "ok \<Longrightarrow> \<not> n_closed s \<Longrightarrow> reads_wf (do_read_body len ?s)"
      using n by (simp add: do_read_body_def reads_wf_eq notified_wf_reading)
    then show ?thesis
      using ReadHeader stopped d by (simp add: read_done_def header_read_def Let_def)
  next
    case (ReadBody len)
    have len: "0 < unat len" "unat len \<le> unat MAX_PACKET_SIZE"
      using assms(1) ReadBody by (auto simp: reads_wf_def word_le_nat_alt unat_gt_0 word_gt_0)
    have "notified_wf (on_message (string_of_bytes bytes) ?s)" if "\<not> ec"
      by (rule notified_wf_message [OF n])
        (use assms(2) ReadBody that len in \<open>simp_all add: read_fits_def string_of_bytes_def\<close>)
    then have "reads_wf (do_read_header (on_message (string_of_bytes bytes) ?s))"
      if "\<not> ec" "\<not> n_closed s"
      using that by (simp add: do_read_header_def reads_wf_eq notified_wf_reading on_message_def)
    then show ?thesis
      using ReadBody stopped by (simp add: read_done_def body_read_def Let_def)
  qed
qed

lemma session_run_wf: "session_run dump ms s \<Longrightarrow> queue_wf ms s \<and> reads_wf s"
proof (induction rule: session_run.induct)
  case sr_start
  show ?case by (simp add: queue_wf_def reads_wf_def start_session_def do_read_header_def new_session_def)
next
  case (sr_send ms s m s')
  from sr_send(2) show ?case
    by (rule send_cases)
      (use sr_send queue_wf_push reads_wf_send [OF _ sr_send(2)] in \<open>simp_all\<close>)
next
  case (sr_write ms s ec)
  then show ?case using queue_wf_written reads_wf_write by blast
next
  case (sr_read ms s ec bytes)
  then show ?case using queue_wf_read reads_wf_read by blast
qed

section \<open>What goes out and what is processed\<close>

definition writes :: "net_session \<Rightarrow> bool" where
  "writes s \<longleftrightarrow> \<not> n_closed s \<and> (n_write_in_progress s \<longleftrightarrow> n_write_queue s \<noteq> [])"

interpretation session_writer: packet_writer n_write_queue n_write_in_progress n_wire writes "write_done False"
proof (unfold_locales, goal_cases)
  case (4 s)
  then show ?case by (cases "tl (n_write_queue s)") (simp_all add: writes_def write_done_def do_write_def Let_def)
qed (auto simp: writes_def write_done_def do_write_def Let_def)

lemma session_run_writes: "session_run dump ms s \<Longrightarrow> \<not> n_closed s \<Longrightarrow> writes s"
  using session_run_wf [of dump ms s] by (auto simp: queue_wf_def writes_def)

text \<open>After as many completed writes as packets are queued, everything is on the wire.\<close>

definition drained :: "net_session \<Rightarrow> net_session" where
  "drained s = (write_done False ^^ length (n_write_queue s)) s"

lemma session_run_drains:
  assumes run: "session_run dump ms s" and not_closed: "\<not> n_closed s"
  shows "session_run dump ms (drained s) \<and> \<not> n_closed (drained s) \<and> n_write_queue (drained s) = []
    \<and> n_wire (drained s) = map frame ms"
proof -
  have "writes s" using assms by (rule session_run_writes)
  note d = session_writer.drains [OF this, folded drained_def]
  have r: "session_run dump ms (drained s)"
    unfolding drained_def using \<open>writes s\<close> run by (rule session_writer.drains_keeps) (rule sr_write)
  then show ?thesis using d session_run_wf [OF r] by (auto simp: queue_wf_def writes_def)
qed

lemma queue_wf_wire:
  assumes "queue_wf ms s"
  shows "\<exists>k. n_wire s = map frame (take k ms)"
proof -
  obtain sent where sent: "map frame ms = sent @ n_write_queue s"
      "n_wire s = sent \<or> n_write_queue s \<noteq> [] \<and> n_wire s = sent @ [hd (n_write_queue s)]"
    using assms by (auto simp: queue_wf_def)
  have "n_wire s = take (length (n_wire s)) (map frame ms)"
    using sent by (cases "n_write_queue s") auto
  then show ?thesis by (metis take_map)
qed

text \<open>
  Outgoing order: whatever the interleaving of sends, completed writes, failed writes and reads,
  the packets handed to the socket are the frames of the first accepted messages, in the order of the
  calls of \<open>send\<close>, each once; at most one write is outstanding, and an open session with no
  outstanding write has handed over everything (no message is left waiting without a write to
  trigger it).
\<close>

theorem wire_order:
  assumes "session_run dump ms s"
  shows "(\<exists>k. n_wire s = map frame (take k ms))
    \<and> (n_closed s \<or> n_write_in_progress s \<or> n_wire s = map frame ms)"
  using session_run_wf [OF assms] queue_wf_wire [of ms s] by (auto simp: queue_wf_def)

text \<open>
  Lifecycle of a connection: an open session always has a read outstanding and its socket open, a
  body read is asked for only with a length from 1 byte to 1 MiB, and every body handed to the
  processor has such a length; \<open>on_disconnect\<close> is called exactly once when the session closes and never
  before; after that no read completion hands anything to the processor and a send does nothing.
\<close>

theorem session_lifecycle:
  assumes "session_run dump ms s"
  shows "(if n_closed s
      then n_disconnects s = 1 \<and> \<not> n_socket_open s \<and> send dump m s = Ret s
        \<and> n_processed (read_done ec bytes s) = n_processed s \<and> n_disconnects (read_done ec bytes s) = 1
        \<and> n_disconnects (write_done ec s) = 1
      else n_disconnects s = 0 \<and> n_socket_open s \<and> n_reading s \<noteq> NoRead)
    \<and> list_all (\<lambda>body. body \<noteq> [] \<and> length body \<le> 1048576) (n_processed s)
    \<and> (case n_reading s of ReadBody len \<Rightarrow> 0 < unat len \<and> unat len \<le> 1048576 | _ \<Rightarrow> True)"
proof -
  have wf: "reads_wf s" using session_run_wf [OF assms] by simp
  then have "0 < unat len \<and> unat len \<le> 1048576" if "n_reading s = ReadBody len" for len
    using that by (auto simp: reads_wf_def word_le_nat_alt unat_gt_0 word_gt_0 simp flip: unat_max_packet)
  moreover have "n_processed (read_done ec bytes s) = n_processed s"
      "n_disconnects (read_done ec bytes s) = n_disconnects s"
      "n_disconnects (write_done ec s) = n_disconnects s" if "n_closed s"
    using that by (cases "n_reading s"; simp add: read_done_def header_read_def body_read_def write_done_def)+
  ultimately show ?thesis
    using wf by (cases "n_closed s"; cases "n_reading s")
      (simp_all add: reads_wf_def list_all_iff send_def unat_max_packet)
qed

text \<open>A byte stream delivered to a session: each read completes once enough bytes are there.\<close>

definition wanted :: "read_state \<Rightarrow> nat" where
  "wanted r = (case r of NoRead \<Rightarrow> 0 | ReadHeader \<Rightarrow> 4 | ReadBody len \<Rightarrow> unat len)"

definition deliver :: "u8 list \<Rightarrow> net_session \<Rightarrow> net_session" where
  "deliver = feed_stream (\<lambda>s. wanted (n_reading s)) (read_done False)"

text \<open>The session is a reader of packets and a writer of packets.\<close>

definition awaits_header :: "net_session \<Rightarrow> bool" where
  "awaits_header s \<longleftrightarrow> \<not> n_closed s \<and> n_reading s = ReadHeader"

definition processed :: "string \<Rightarrow> net_session \<Rightarrow> net_session" where
  "processed body s = s\<lparr>n_processed := n_processed s @ [body]\<rparr>"

lemma header_fed:
  assumes "awaits_header s" "packet_body body"
  shows "read_done False (header body) s = s\<lparr>n_reading := ReadBody (word_of_nat (length body))\<rparr>"
  using assms
  by (simp add: awaits_header_def read_done_def header_read_def decode_packet_header do_read_body_def)

interpretation session_reader: packet_reader "\<lambda>s. wanted (n_reading s)" "read_done False" awaits_header processed
proof (unfold_locales, goal_cases)
  case (2 s body)
  then show ?case by (simp add: header_fed wanted_def packet_body_length)
next
  case (3 s body)
  have "s\<lparr>n_processed := p, n_reading := ReadHeader\<rparr> = s\<lparr>n_processed := p\<rparr>" for p
    using 3(1) by (simp add: awaits_header_def)
  then show ?case using 3
    by (simp add: header_fed) (simp add: awaits_header_def read_done_def body_read_def do_read_header_def
        on_message_def processed_def)
qed (simp_all add: awaits_header_def wanted_def processed_def)

lemma new_session_ready: "awaits_header (start_session new_session)" "n_processed (start_session new_session) = []"
  by (simp_all add: awaits_header_def start_session_def do_read_header_def new_session_def)

lemma fold_processed: "fold processed bodies s = s\<lparr>n_processed := n_processed s @ bodies\<rparr>"
  by (induction bodies arbitrary: s) (simp_all add: processed_def)

text \<open>
  Stream round trip: when the bytes of framed messages (non-empty, at most 1 MiB each) arrive at a
  waiting session, cut into reads as the header and body lengths dictate, the processor gets exactly
  those messages in order, whatever bytes follow; a following header that announces 0 or more than
  1 MiB closes the session without processing anything more.
\<close>

theorem stream_roundtrip:
  assumes "\<not> n_closed s" "n_reading s = ReadHeader"
    and "list_all (\<lambda>body. body \<noteq> [] \<and> length body \<le> 1048576) bodies"
  shows "deliver (concat (map frame bodies) @ rest) s
      = deliver rest (s\<lparr>n_processed := n_processed s @ bodies\<rparr>)
    \<and> (if len = 0 \<or> len > MAX_PACKET_SIZE
       then n_closed (deliver (concat (map frame bodies) @ word_bytes (to_big_endian len) @ rest) s)
         \<and> n_processed (deliver (concat (map frame bodies) @ word_bytes (to_big_endian len) @ rest) s)
           = n_processed s @ bodies
       else True)"
proof -
  have ok: "list_all packet_body bodies"
    using assms(3) by (simp add: list_all_iff packet_body_def unat_max_packet)
  have ready: "awaits_header s" using assms(1,2) by (simp add: awaits_header_def)
  note frames = session_reader.feed_frames [OF ready ok, unfolded fold_processed, folded deliver_def]
  have stop: "deliver (word_bytes (to_big_endian len) @ rest) t = close_session (t\<lparr>n_reading := NoRead\<rparr>)"
    if "len = 0 \<or> len > MAX_PACKET_SIZE" "awaits_header t" for t
  proof -
    have "decode_packet_length (word_bytes (to_big_endian len)) = (len, False)"
      using that(1) by (auto simp: decode_header)
    then have "deliver (word_bytes (to_big_endian len) @ rest) t
        = deliver rest (close_session (t\<lparr>n_reading := NoRead\<rparr>))"
      using that(2) unfolding deliver_def
      by (subst feed_stream_enough)
        (simp_all add: wanted_def read_done_def header_read_def word_bytes_def awaits_header_def)
    also have "\<dots> = close_session (t\<lparr>n_reading := NoRead\<rparr>)"
      unfolding deliver_def by (rule feed_stream_short) (simp add: wanted_def close_session_fields)
    finally show ?thesis .
  qed
  show ?thesis
    using frames stop [of "s\<lparr>n_processed := n_processed s @ bodies\<rparr>"]
    by (simp add: close_session_fields)
qed

section \<open>Witnesses\<close>

lemma sample_session_run:
  "session_run (\<lambda>_. Ret ''abc'') [''abc'']
     (write_done False (do_write ((start_session new_session)\<lparr>n_write_queue := [frame ''abc'']\<rparr>)))"
proof -
  let ?s = "start_session new_session"
  have "send (\<lambda>_. Ret ''abc'') m ?s = Ret (do_write (?s\<lparr>n_write_queue := [frame ''abc'']\<rparr>))" for m
    by (simp add: send_eq enqueue_def unat_max_packet start_session_def do_read_header_def new_session_def)
  from sr_send [OF sr_start this]
  have "session_run (\<lambda>_. Ret ''abc'') [''abc''] (do_write (?s\<lparr>n_write_queue := [frame ''abc'']\<rparr>))"
    by (simp add: accepted_def unat_max_packet start_session_def do_read_header_def new_session_def)
  then show ?thesis
    by (rule sr_write) (simp add: do_write_def start_session_def do_read_header_def new_session_def)
qed

theorem wire_order_witness:
  "\<exists>s :: net_session. n_wire s = [frame ''abc''] \<and> ((\<exists>k. n_wire s = map frame (take k [''abc'']))
    \<and> (n_closed s \<or> n_write_in_progress s \<or> n_wire s = map frame [''abc'']))"
  by (rule exI [where x = "write_done False (do_write ((start_session new_session)\<lparr>n_write_queue := [frame ''abc'']\<rparr>))"],
      rule conjI [OF _ wire_order [OF sample_session_run]])
    (simp add: write_done_def do_write_def start_session_def do_read_header_def new_session_def)

theorem session_lifecycle_witness:
  "n_disconnects (write_done False (do_write ((start_session new_session)\<lparr>n_write_queue := [frame ''abc'']\<rparr>))) = 0"
  using session_lifecycle [OF sample_session_run]
  by (simp add: write_done_def do_write_def start_session_def do_read_header_def new_session_def split: if_splits)

theorem stream_roundtrip_witness:
  "n_processed (deliver (concat (map frame [''ping'', ''x'']) @ word_bytes (to_big_endian 0) @ [])
     (start_session new_session)) = [''ping'', ''x'']"
  using stream_roundtrip [of "start_session new_session" "[''ping'', ''x'']" "[]" 0]
  by (simp add: start_session_def do_read_header_def new_session_def)

end
