(* ===== verification/ServerLoop.thy ===== *)
theory ServerLoop
  imports Messaging NetworkSession
begin

text \<open>
  The running server: \<open>Server\<close> of \<open>server/src/network/server.cpp\<close>, which accepts connections, and the event
  loop of \<open>server/src/main.cpp\<close>, in which one handler after the other runs to its end. The state holds
  the server of \<open>Messaging\<close> and the \<open>Session\<close> of each connection (\<open>NetworkSession\<close>). A handler of a session
  calls the processor, and what the processor sends goes through \<open>Session::send\<close> of the receivers at once.
  An exception that leaves a handler leaves \<open>io_context::run\<close> and ends the program (\<open>Exn\<close>).

  \<open>h_log\<close> lists what was sent, in order; it is no part of the program. The parameters are those of
  \<open>Messaging\<close> and \<open>dump\<close> of \<open>NetworkSession\<close>.
\<close>

section \<open>State\<close>

record host =
  h_server :: server
  h_sessions :: "cid \<rightharpoonup> net_session"
  h_next :: cid
  h_log :: "(cid \<times> server_message) list"

definition new_host :: "database \<Rightarrow> (nat \<Rightarrow> nat \<Rightarrow> nat list) \<Rightarrow> host" where
  "new_host db draws =
     \<lparr>h_server = new_server db draws, h_sessions = Map.empty, h_next = 0, h_log = []\<rparr>"

text \<open>\<open>parse_port\<close> of \<open>main\<close>. \<open>std::atoi\<close> reads blanks, a sign and digits, up to the first other character.\<close>

definition is_space :: "char \<Rightarrow> bool" where
  "is_space c \<longleftrightarrow> c = CHR '' '' \<or> ((9 :: nat) \<le> of_char c \<and> of_char c \<le> (13 :: nat))"

definition is_digit :: "char \<Rightarrow> bool" where
  "is_digit c \<longleftrightarrow> (48 :: nat) \<le> of_char c \<and> of_char c \<le> (57 :: nat)"

definition digits :: "string \<Rightarrow> int" where
  "digits s = foldl (\<lambda>n c. 10 * n + (int (of_char c) - 48)) 0 (takeWhile is_digit s)"

definition atoi :: "string \<Rightarrow> int" where
  "atoi s = (case dropWhile is_space s of
     [] \<Rightarrow> 0
   | c # cs \<Rightarrow> if c = CHR ''-'' then - digits cs else if c = CHR ''+'' then digits cs else digits (c # cs))"

definition parse_port :: "string list \<Rightarrow> nat \<Rightarrow> nat result" where
  "parse_port argv default_port =
     (if length argv < 2 then Ret default_port
      else let port = atoi (argv ! 1)
           in if port \<le> 0 \<or> port > 65535 then Exn InvalidArgument else Ret (nat port))"

lemma parse_port_range:
  "parse_port argv default_port = Ret port \<Longrightarrow> 0 < default_port \<Longrightarrow> default_port \<le> 65535
     \<Longrightarrow> 0 < port \<and> port \<le> 65535"
  by (auto simp: parse_port_def Let_def split: if_splits)

section \<open>Handlers\<close>

text \<open>What a handler of the processor sends goes out through the sessions.\<close>

definition send_packet ::
  "(json \<Rightarrow> string result) \<Rightarrow> cid \<times> server_message \<Rightarrow> (cid \<rightharpoonup> net_session) \<Rightarrow> (cid \<rightharpoonup> net_session) result" where
  "send_packet dump cm ss = (case ss (fst cm) of
     None \<Rightarrow> Ret ss
   | Some s \<Rightarrow> map_r (\<lambda>s'. ss(fst cm \<mapsto> s')) (send dump (snd cm) s))"

fun send_packets ::
  "(json \<Rightarrow> string result) \<Rightarrow> (cid \<times> server_message) list \<Rightarrow> (cid \<rightharpoonup> net_session) \<Rightarrow> (cid \<rightharpoonup> net_session) result" where
  "send_packets dump [] ss = Ret ss"
| "send_packets dump (cm # cms) ss = bind_r (send_packet dump cm ss) (send_packets dump cms)"

definition take_outbox :: "server \<Rightarrow> server" where
  "take_outbox sv = sv\<lparr>sv_world := (sv_world sv)\<lparr>w_outbox := []\<rparr>\<rparr>"

definition run_processor :: "(json \<Rightarrow> string result) \<Rightarrow> (server \<Rightarrow> server result) \<Rightarrow> host \<Rightarrow> host result" where
  "run_processor dump f h =
     bind_r (f (take_outbox (h_server h))) (\<lambda>sv.
       map_r (\<lambda>ss. h\<lparr>h_server := sv, h_sessions := ss,
           h_log := h_log h @ filter (\<lambda>cm. h_sessions h (fst cm) \<noteq> None) (w_outbox (sv_world sv))\<rparr>)
         (send_packets dump (w_outbox (sv_world sv)) (h_sessions h)))"

definition put_session :: "cid \<Rightarrow> net_session \<Rightarrow> host \<Rightarrow> host" where
  "put_session c s h = h\<lparr>h_sessions := (h_sessions h)(c \<mapsto> s)\<rparr>"

text \<open>The handler of \<open>async_accept\<close>; \<open>peer\<close> tells whether \<open>remote_endpoint\<close> still knows the other side, and throws
  otherwise.\<close>

definition accept_done :: "bool \<Rightarrow> bool \<Rightarrow> host \<Rightarrow> host result" where
  "accept_done ec peer h =
     (if ec then Ret h
      else if \<not> peer then Exn RuntimeError
      else Ret ((put_session (h_next h) (start_session new_session) h)\<lparr>h_next := h_next h + 1\<rparr>))"

text \<open>A handler of session \<open>c\<close> took it from \<open>s\<close> to \<open>s'\<close>; \<open>close_session\<close> in it calls \<open>on_disconnect\<close>.\<close>

definition settle :: "(json \<Rightarrow> string result) \<Rightarrow> nat \<Rightarrow> cid \<Rightarrow> net_session \<Rightarrow> net_session \<Rightarrow> host \<Rightarrow> host result" where
  "settle dump n c s s' h =
     (if n_disconnects s' > n_disconnects s
      then run_processor dump (connection_lost n c) (put_session c s' h) else Ret (put_session c s' h))"

definition write_event :: "(json \<Rightarrow> string result) \<Rightarrow> nat \<Rightarrow> cid \<Rightarrow> bool \<Rightarrow> host \<Rightarrow> host result" where
  "write_event dump n c ec h = (case h_sessions h c of
     None \<Rightarrow> Ret h | Some s \<Rightarrow> settle dump n c s (write_done ec s) h)"

text \<open>A body that was read without error is processed before the next header is read.\<close>

definition read_event ::
  "(json \<Rightarrow> string result) \<Rightarrow> (string \<Rightarrow> cid \<Rightarrow> server \<Rightarrow> server result) \<Rightarrow> nat \<Rightarrow> cid \<Rightarrow> bool \<Rightarrow> u8 list
    \<Rightarrow> host \<Rightarrow> host result" where
  "read_event dump process n c ec bytes h = (case h_sessions h c of
     None \<Rightarrow> Ret h
   | Some s \<Rightarrow>
       (case n_reading s of
          ReadBody len \<Rightarrow>
            if n_closed s \<or> ec then settle dump n c s (body_read ec bytes s) h
            else
              let json = string_of_bytes bytes;
                  h = put_session c (on_message json (s\<lparr>n_reading := NoRead\<rparr>)) h
              in map_r (\<lambda>h. put_session c (do_read_header (the (h_sessions h c))) h)
                   (run_processor dump (process json c) h)
        | ReadHeader \<Rightarrow> settle dump n c s (header_read ec bytes s) h
        | NoRead \<Rightarrow> Ret h))"

section \<open>Runs\<close>

text \<open>Reads and writes complete when they are outstanding, and a read without error has all its bytes. Requests for
  rooms that the deck cannot serve are left out (\<open>text_fits\<close>).\<close>

inductive host_run ::
  "(json \<Rightarrow> string result) \<Rightarrow> (string \<Rightarrow> string + json) \<Rightarrow> (json \<Rightarrow> string) \<Rightarrow> pbkdf2 \<Rightarrow> host \<Rightarrow> host \<Rightarrow> bool"
  for dump parse what pbkdf2 h0 where
  host_start: "host_run dump parse what pbkdf2 h0 h0"
| host_accept: "host_run dump parse what pbkdf2 h0 h \<Longrightarrow> accept_done ec peer h = Ret h' \<Longrightarrow>
    host_run dump parse what pbkdf2 h0 h'"
| host_write: "host_run dump parse what pbkdf2 h0 h \<Longrightarrow> h_sessions h c = Some s \<Longrightarrow> n_write_in_progress s \<Longrightarrow>
    write_event dump n c ec h = Ret h' \<Longrightarrow> host_run dump parse what pbkdf2 h0 h'"
| host_read: "host_run dump parse what pbkdf2 h0 h \<Longrightarrow> h_sessions h c = Some s \<Longrightarrow>
    read_fits (n_reading s) ec bytes \<Longrightarrow> text_fits parse (string_of_bytes bytes) \<Longrightarrow>
    read_event dump (process_message parse what pbkdf2 rnd n) n c ec bytes h = Ret h' \<Longrightarrow>
    host_run dump parse what pbkdf2 h0 h'"

text \<open>The texts of the messages sent to a connection, without those that are too long for a packet.\<close>

definition text_of :: "string result \<Rightarrow> string list" where
  "text_of r = (case r of Ret body \<Rightarrow> if length body > unat MAX_PACKET_SIZE then [] else [body] | _ \<Rightarrow> [])"

definition texts_to :: "(json \<Rightarrow> string result) \<Rightarrow> cid \<Rightarrow> (cid \<times> server_message) list \<Rightarrow> string list" where
  "texts_to dump c log = concat (map (\<lambda>(d, m). if d = c then text_of (dump (to_json_server m)) else []) log)"

lemma texts_to_simps [simp]:
  "texts_to dump c [] = []" "texts_to dump c (xs @ ys) = texts_to dump c xs @ texts_to dump c ys"
  "texts_to dump c ((d, m) # xs) = (if d = c then text_of (dump (to_json_server m)) else []) @ texts_to dump c xs"
  by (simp_all add: texts_to_def)

text \<open>Each session is one of \<open>NetworkSession\<close> that was sent what the log says, up to its closing. While session \<open>c\<close>
  is in the middle of \<open>body_read\<close>, this holds of the session it will be (\<open>mid = Some c\<close>).\<close>

definition ahead :: "cid option \<Rightarrow> cid \<Rightarrow> net_session \<Rightarrow> net_session" where
  "ahead mid c s = (if mid = Some c then do_read_header s else s)"

definition sessions_ok ::
  "(json \<Rightarrow> string result) \<Rightarrow> cid option \<Rightarrow> (cid \<times> server_message) list \<Rightarrow> (cid \<rightharpoonup> net_session) \<Rightarrow> bool" where
  "sessions_ok dump mid log ss \<longleftrightarrow> (\<forall>c s. ss c = Some s \<longrightarrow>
     (\<exists>ms rest. session_run dump ms (ahead mid c s) \<and> texts_to dump c log = ms @ rest
        \<and> (\<not> n_closed s \<longrightarrow> rest = [])))"

definition closed_sessions :: "(cid \<rightharpoonup> net_session) \<Rightarrow> cid set" where
  "closed_sessions ss = {c. \<exists>s. ss c = Some s \<and> n_closed s}"

lemma enqueue_reading: "enqueue body (s\<lparr>n_reading := r\<rparr>) = (enqueue body s)\<lparr>n_reading := r\<rparr>"
    "n_closed (enqueue body s) = n_closed s"
  by (simp_all add: enqueue_def do_write_def Let_def)

lemma send_ahead:
  assumes "send dump m s = Ret s'"
  shows "send dump m (do_read_header s) = Ret (do_read_header s')" "n_closed s' = n_closed s"
proof -
  from assms have "send dump m (do_read_header s) = Ret (do_read_header s') \<and> n_closed s' = n_closed s"
  proof (cases "dump (to_json_server m)")
    case (Ret body)
    then show ?thesis using assms enqueue_reading by (auto simp: send_eq do_read_header_def split: if_splits)
  qed (simp_all add: send_eq do_read_header_def split: if_splits)
  then show "send dump m (do_read_header s) = Ret (do_read_header s')" "n_closed s' = n_closed s" by simp_all
qed

lemma ahead_send: "send dump m s = Ret s' \<Longrightarrow> send dump m (ahead mid c s) = Ret (ahead mid c s')"
  by (simp add: ahead_def send_ahead(1))

lemma accepted_text: "accepted r s = (if n_closed s then [] else text_of r)"
  by (simp add: accepted_def text_of_def split: result.split)

lemma ahead_closed [simp]: "n_closed (ahead mid c s) = n_closed s"
  by (simp add: ahead_def do_read_header_def)

lemma send_packet_ok:
  assumes ok: "sessions_ok dump mid log ss" and "send_packet dump (c, m) ss = Ret ss'"
  shows "sessions_ok dump mid (log @ filter (\<lambda>cm. ss (fst cm) \<noteq> None) [(c, m)]) ss'
    \<and> dom ss' = dom ss \<and> closed_sessions ss' = closed_sessions ss"
proof (cases "ss c")
  case None
  then show ?thesis using assms by (simp add: send_packet_def)
next
  case (Some s)
  then obtain s' where s': "send dump m s = Ret s'" "ss' = ss(c \<mapsto> s')"
    using assms(2) by (auto simp: send_packet_def map_r_Ret_iff)
  obtain ms rest where ms: "session_run dump ms (ahead mid c s)" "texts_to dump c log = ms @ rest"
    "\<not> n_closed s \<longrightarrow> rest = []" using ok Some unfolding sessions_ok_def by blast
  have run: "session_run dump (ms @ accepted (dump (to_json_server m)) (ahead mid c s)) (ahead mid c s')"
    using sr_send [OF ms(1) ahead_send [OF s'(1)]] .
  have new: "\<exists>ms rest. session_run dump ms (ahead mid c s')
      \<and> texts_to dump c (log @ [(c, m)]) = ms @ rest \<and> (\<not> n_closed s' \<longrightarrow> rest = [])"
    using run ms(2,3) send_ahead(2) [OF s'(1)] by (cases "n_closed s") (auto simp: accepted_text)
  have "sessions_ok dump mid (log @ [(c, m)]) ss'"
    using ok new unfolding sessions_ok_def s'(2) by auto
  then show ?thesis using Some s' send_ahead(2) [OF s'(1)] by (auto simp: closed_sessions_def)
qed

lemma send_packets_ok:
  assumes "sessions_ok dump mid log ss" "send_packets dump out ss = Ret ss'"
  shows "sessions_ok dump mid (log @ filter (\<lambda>cm. ss (fst cm) \<noteq> None) out) ss'
    \<and> dom ss' = dom ss \<and> closed_sessions ss' = closed_sessions ss"
  using assms
proof (induction out arbitrary: log ss)
  case (Cons cm out)
  obtain c m where cm: "cm = (c, m)" by (cases cm)
  obtain ss1 where ss1: "send_packet dump (c, m) ss = Ret ss1" "send_packets dump out ss1 = Ret ss'"
    using Cons.prems(2) cm by (auto simp: bind_r_Ret_iff)
  note one = send_packet_ok [OF Cons.prems(1) ss1(1)]
  have "ss1 d \<noteq> None \<longleftrightarrow> ss d \<noteq> None" for d using one by (metis domIff)
  then have same: "(\<lambda>cm. ss1 (fst cm) \<noteq> None) = (\<lambda>cm. ss (fst cm) \<noteq> None)" by metis
  have "log @ filter (\<lambda>cm. ss (fst cm) \<noteq> None) (cm # out)
      = (log @ filter (\<lambda>cm. ss (fst cm) \<noteq> None) [(c, m)]) @ filter (\<lambda>cm. ss1 (fst cm) \<noteq> None) out"
    unfolding same cm by simp
  then show ?case using Cons.IH [OF conjunct1 [OF one] ss1(2)] one by simp
qed simp

lemma sessions_ok_put:
  assumes "sessions_ok dump mid log ss" "ss c = Some s"
    and "\<And>ms. session_run dump ms (ahead mid c s) \<Longrightarrow> session_run dump ms (ahead mid' c s')"
    and "n_closed s \<Longrightarrow> n_closed s'" "\<And>d t. d \<noteq> c \<Longrightarrow> ahead mid' d t = ahead mid d t"
  shows "sessions_ok dump mid' log (ss(c \<mapsto> s'))"
proof -
  obtain ms rest where ms: "session_run dump ms (ahead mid c s)" "texts_to dump c log = ms @ rest"
    "\<not> n_closed s \<longrightarrow> rest = []" using assms(1,2) unfolding sessions_ok_def by blast
  then have "\<exists>ms rest. session_run dump ms (ahead mid' c s') \<and> texts_to dump c log = ms @ rest
      \<and> (\<not> n_closed s' \<longrightarrow> rest = [])"
    using assms(3,4) by blast
  then show ?thesis using assms(1,5) unfolding sessions_ok_def by (auto split: if_splits)
qed

lemma server_at_take [simp]: "server_at A sv \<Longrightarrow> server_at A (take_outbox sv)"
  by (auto simp: server_at_def take_outbox_def server_wf_def online_def)

lemma take_outbox_closed [simp]: "w_closed (sv_world (take_outbox sv)) = w_closed (sv_world sv)"
  by (simp add: take_outbox_def)

definition log_ok :: "host \<Rightarrow> bool" where
  "log_ok h \<longleftrightarrow> (\<forall>c \<in> dom (h_sessions h) \<union> fst ` set (h_log h). c < h_next h)
     \<and> (\<forall>cm \<in> set (h_log h). discreet (snd cm))"

lemma run_processor_ok:
  assumes "run_processor dump f h = Ret h'" "keeps (server_at A) (f (take_outbox (h_server h)))"
    and "sessions_ok dump mid (h_log h) (h_sessions h)" "log_ok h"
  shows "server_at A (h_server h')" "sessions_ok dump mid (h_log h') (h_sessions h')" "log_ok h'"
    "closed_sessions (h_sessions h') = closed_sessions (h_sessions h)"
    "dom (h_sessions h') = dom (h_sessions h)"
proof -
  obtain sv ss where sv: "f (take_outbox (h_server h)) = Ret sv"
    "send_packets dump (w_outbox (sv_world sv)) (h_sessions h) = Ret ss"
    "h' = h\<lparr>h_server := sv, h_sessions := ss,
       h_log := h_log h @ filter (\<lambda>cm. h_sessions h (fst cm) \<noteq> None) (w_outbox (sv_world sv))\<rparr>"
    using assms(1) by (auto simp: run_processor_def bind_r_Ret_iff map_r_Ret_iff)
  note ok = send_packets_ok [OF assms(3) sv(2)]
  show "server_at A (h_server h')" using assms(2) sv(1,3) by simp
  show "sessions_ok dump mid (h_log h') (h_sessions h')"
    "closed_sessions (h_sessions h') = closed_sessions (h_sessions h)"
    "dom (h_sessions h') = dom (h_sessions h)" using ok sv(3) by simp_all
  have "discreet_world (sv_world sv)" using assms(2) sv(1) by (simp add: server_at_def server_wf_def)
  then have "\<forall>cm \<in> set (h_log h'). discreet (snd cm)"
    using assms(4) by (simp add: sv(3) log_ok_def discreet_world_def ball_Un)
  moreover have "\<forall>d \<in> dom (h_sessions h') \<union> fst ` set (h_log h'). d < h_next h'"
    using assms(4) ok sv(3) by (auto simp: log_ok_def)
  ultimately show "log_ok h'" unfolding log_ok_def by blast
qed

definition host_ok :: "(json \<Rightarrow> string result) \<Rightarrow> host \<Rightarrow> bool" where
  "host_ok dump h \<longleftrightarrow> server_at (closed_sessions (h_sessions h)) (h_server h)
     \<and> sessions_ok dump None (h_log h) (h_sessions h) \<and> log_ok h"

lemma closed_put:
  "closed_sessions (ss(c \<mapsto> s)) = (if n_closed s then insert c (closed_sessions ss) else closed_sessions ss - {c})"
  by (auto simp: closed_sessions_def)

lemma log_ok_put: "log_ok h \<Longrightarrow> h_sessions h c = Some s \<Longrightarrow> log_ok (put_session c s' h)"
  by (auto simp: log_ok_def put_session_def)

lemma settle_ok:
  assumes ok: "host_ok dump h" and s: "h_sessions h c = Some s"
    and step: "\<And>ms. session_run dump ms s \<Longrightarrow> session_run dump ms s'" "n_closed s \<Longrightarrow> n_closed s'"
    and r: "settle dump n c s s' h = Ret h'"
  shows "host_ok dump h'"
proof -
  let ?h = "put_session c s' h"
  obtain ms where ms: "session_run dump ms s"
    using ok s unfolding host_ok_def sessions_ok_def ahead_def by auto
  have dis: "n_disconnects s = (if n_closed s then 1 else 0)" "n_disconnects s' = (if n_closed s' then 1 else 0)"
    using session_run_wf [OF ms] session_run_wf [OF step(1) [OF ms]] by (simp_all add: reads_wf_def)
  have put: "sessions_ok dump None (h_log ?h) (h_sessions ?h)" "log_ok ?h"
    using ok s step sessions_ok_put [of dump None "h_log h" "h_sessions h" c s None s'] log_ok_put [of h c s s']
    by (simp_all add: host_ok_def put_session_def ahead_def)
  have at: "server_at (closed_sessions (h_sessions h)) (h_server ?h)" using ok by (simp add: host_ok_def put_session_def)
  have mem: "c \<in> closed_sessions (h_sessions h) \<longleftrightarrow> n_closed s" using s by (simp add: closed_sessions_def)
  show ?thesis
  proof (cases "n_closed s' \<and> \<not> n_closed s")
    case True
    then have run: "run_processor dump (connection_lost n c) ?h = Ret h'" using r dis by (simp add: settle_def)
    have "server_at (closed_sessions (h_sessions h)) (take_outbox (h_server ?h))" using at by simp
    note sv = server_atD [OF this]
    have "c \<notin> w_closed (sv_world (take_outbox (h_server ?h)))" using sv(2) mem True by simp
    from connection_lost_wf [OF sv(1) this, of n]
    have "keeps (server_at (insert c (closed_sessions (h_sessions h)))) (connection_lost n c (take_outbox (h_server ?h)))"
      unfolding sv(2) .
    moreover have "insert c (closed_sessions (h_sessions h)) = closed_sessions (h_sessions ?h)"
      using True by (simp add: closed_put put_session_def)
    ultimately have "keeps (server_at (closed_sessions (h_sessions ?h))) (connection_lost n c (take_outbox (h_server ?h)))"
      by simp
    from run_processor_ok [OF run this put] show ?thesis by (simp add: host_ok_def)
  next
    case False
    then have "h' = ?h" using r dis step(2) by (auto simp: settle_def split: if_splits)
    moreover have "closed_sessions (h_sessions ?h) = closed_sessions (h_sessions h)"
      using False step(2) mem by (auto simp: closed_put put_session_def)
    ultimately show ?thesis using put at by (simp add: host_ok_def)
  qed
qed

lemma closed_stays:
  "n_closed s \<Longrightarrow> n_closed (write_done ec s)" "n_closed s \<Longrightarrow> n_closed (header_read ec bytes s)"
  "n_closed s \<Longrightarrow> n_closed (body_read ec bytes s)"
  by (simp_all add: write_done_def header_read_def body_read_def Let_def)

lemma write_event_ok:
  assumes "host_ok dump h" "h_sessions h c = Some s" "n_write_in_progress s" "write_event dump n c ec h = Ret h'"
  shows "host_ok dump h'"
  by (rule settle_ok [OF assms(1,2), of "write_done ec s"])
    (use assms closed_stays sr_write in \<open>auto simp: write_event_def\<close>)

lemma body_event_ok:
  assumes ok: "host_ok dump h" and s: "h_sessions h c = Some s" "n_reading s = ReadBody len" "\<not> n_closed s"
    and len: "length bytes = unat len" and fits: "text_fits parse (string_of_bytes bytes)"
    and r: "read_event dump (process_message parse what pbkdf2 rnd n) n c False bytes h = Ret h'"
  shows "host_ok dump h'"
proof -
  let ?json = "string_of_bytes bytes"
  let ?s = "on_message ?json (s\<lparr>n_reading := NoRead\<rparr>)"
  let ?h = "put_session c ?s h" and ?process = "process_message parse what pbkdf2 rnd n ?json c"
  obtain h1 where h1: "run_processor dump ?process ?h = Ret h1"
    "h' = put_session c (do_read_header (the (h_sessions h1 c))) h1"
    using r s by (auto simp: read_event_def Let_def map_r_Ret_iff)
  have "do_read_header ?s = read_done False bytes s"
    using s by (simp add: read_done_def body_read_def Let_def)
  then have ahead: "session_run dump ms (ahead (Some c) c ?s)" if "session_run dump ms s" for ms
    using sr_read [OF that, of False bytes] s(2) len by (simp add: ahead_def read_fits_def)
  have put: "sessions_ok dump (Some c) (h_log ?h) (h_sessions ?h)" "log_ok ?h"
    using ok s ahead sessions_ok_put [of dump None "h_log h" "h_sessions h" c s "Some c" ?s] log_ok_put [of h c s ?s]
    by (simp_all add: host_ok_def put_session_def ahead_def)
  have closed: "closed_sessions (h_sessions ?h) = closed_sessions (h_sessions h)" "c \<notin> closed_sessions (h_sessions h)"
    using s by (auto simp: closed_sessions_def put_session_def on_message_def)
  have "server_at (closed_sessions (h_sessions h)) (take_outbox (h_server ?h))"
    using ok by (simp add: host_ok_def put_session_def)
  note sv = server_atD [OF this]
  have fits': "parse ?json = Inr data \<Longrightarrow> from_json_client data = Ret m \<Longrightarrow> request_fits m" for data m
    using fits by (simp add: text_fits_def)
  have "c \<notin> w_closed (sv_world (take_outbox (h_server ?h)))" using sv(2) closed(2) by simp
  then have "keeps (server_kept (take_outbox (h_server ?h))) (?process (take_outbox (h_server ?h)))"
    by (rule process_message_wf [OF sv(1)]) (rule fits')
  then have kept: "keeps (server_at (closed_sessions (h_sessions h))) (?process (take_outbox (h_server ?h)))"
    unfolding sv(2) .
  note ran = run_processor_ok [OF h1(1) kept put]
  obtain s1 where s1: "h_sessions h1 c = Some s1" using ran(5) by (auto simp: put_session_def)
  have "sessions_ok dump None (h_log h1) ((h_sessions h1)(c \<mapsto> do_read_header s1))"
    by (rule sessions_ok_put [OF ran(2) s1]) (simp_all add: ahead_def do_read_header_def)
  moreover have "closed_sessions ((h_sessions h1)(c \<mapsto> do_read_header s1)) = closed_sessions (h_sessions h1)"
    using s1 by (auto simp: closed_sessions_def do_read_header_def)
  ultimately show ?thesis
    using ran closed log_ok_put [OF ran(3) s1] by (simp add: host_ok_def h1(2) s1) (simp add: put_session_def)
qed

lemma read_event_ok:
  assumes ok: "host_ok dump h" and s: "h_sessions h c = Some s" "read_fits (n_reading s) ec bytes"
    and fits: "text_fits parse (string_of_bytes bytes)"
    and r: "read_event dump (process_message parse what pbkdf2 rnd n) n c ec bytes h = Ret h'"
  shows "host_ok dump h'"
proof (cases "\<exists>len. n_reading s = ReadBody len \<and> \<not> n_closed s \<and> \<not> ec")
  case True
  then show ?thesis using body_event_ok [OF ok s(1) _ _ _ fits] s(2) r by (auto simp: read_fits_def)
next
  case False
  then have "settle dump n c s (read_done ec bytes s) h = Ret h'"
    using s r by (auto simp: read_event_def read_done_def read_fits_def split: read_state.splits)
  moreover have "n_closed s \<Longrightarrow> n_closed (read_done ec bytes s)"
    using closed_stays by (simp add: read_done_def split: read_state.split)
  ultimately show ?thesis using settle_ok [OF ok s(1)] sr_read [OF _ s(2)] by blast
qed

lemma accept_ok:
  assumes ok: "host_ok dump h" and r: "accept_done ec peer h = Ret h'"
  shows "host_ok dump h'"
proof (cases ec)
  case False
  let ?c = "h_next h" and ?s = "start_session new_session"
  have h': "h' = (put_session ?c ?s h)\<lparr>h_next := ?c + 1\<rparr>" using r False by (simp add: accept_done_def split: if_splits)
  have fresh: "h_sessions h ?c = None" "?c \<notin> fst ` set (h_log h)" using ok by (auto simp: host_ok_def log_ok_def)
  have "texts_to dump ?c log = []" if "?c \<notin> fst ` set log" for log
    using that by (induction log) auto
  then have "texts_to dump ?c (h_log h) = []" using fresh(2) .
  moreover have "session_run dump [] ?s" by (rule sr_start)
  ultimately have "sessions_ok dump None (h_log h) ((h_sessions h)(?c \<mapsto> ?s))"
    using ok unfolding host_ok_def sessions_ok_def ahead_def by auto
  moreover have "\<not> n_closed ?s" using new_session_ready(1) by (simp add: awaits_header_def)
  then have "closed_sessions ((h_sessions h)(?c \<mapsto> ?s)) = closed_sessions (h_sessions h)"
    using fresh(1) by (auto simp: closed_sessions_def)
  moreover have "log_ok h'" using ok by (auto simp: host_ok_def log_ok_def h' put_session_def intro: less_SucI)
  ultimately show ?thesis using ok by (simp add: host_ok_def h' put_session_def)
qed (use assms in \<open>simp add: accept_done_def\<close>)

lemma new_host_ok: "db_wf db \<Longrightarrow> host_ok dump (new_host db draws)"
  using new_server_wf [of db draws]
  by (simp add: host_ok_def new_host_def server_at_def sessions_ok_def log_ok_def closed_sessions_def)
    (simp add: new_server_def)

lemma host_run_ok:
  "host_run dump parse what pbkdf2 h0 h \<Longrightarrow> host_ok dump h0 \<Longrightarrow> host_ok dump h"
  by (induction rule: host_run.induct) (auto intro: accept_ok write_event_ok read_event_ok)

text \<open>Nothing that the server ever sends shows hole cards that must stay secret.\<close>

lemma host_discreet:
  assumes "host_run dump parse what pbkdf2 (new_host db draws) h" "db_wf db" "(c, m) \<in> set (h_log h)"
  shows "discreet m"
  using host_run_ok [OF assms(1)] new_host_ok [OF assms(2)] assms(3) by (auto simp: host_ok_def log_ok_def)

section \<open>What a connection gets\<close>

lemma host_session:
  assumes "host_ok dump h" "h_sessions h c = Some s"
  shows "\<exists>ms rest. session_run dump ms s \<and> texts_to dump c (h_log h) = ms @ rest \<and> (\<not> n_closed s \<longrightarrow> rest = [])"
  using assms unfolding host_ok_def sessions_ok_def by (simp add: ahead_def)

text \<open>
  C14. The running server: the processors take a connection as closed exactly when its session is closed; they were
  told so exactly once then, and never before; a closed connection sits in no room. The packets handed
  to its socket are the frames of the messages that the processors sent to it, in this order and each
  once, as far as they fit into a packet, up to some point; all of them if the session is open and
  nothing is being written. All this with any number of connections, whatever they send and in whatever
  order reads, writes, accepts and errors complete.
\<close>

theorem server_sessions:
  assumes "host_run dump parse what pbkdf2 (new_host db draws) h" "db_wf db" "h_sessions h c = Some s"
  shows "(c \<in> w_closed (sv_world (h_server h)) \<longleftrightarrow> n_closed s)
    \<and> n_disconnects s = (if n_closed s then 1 else 0)
    \<and> (n_closed s \<longrightarrow> find_room_by_player (sv_lobby (h_server h)) c = None)
    \<and> (\<exists>k. n_wire s = map frame (take k (texts_to dump c (h_log h))))
    \<and> (n_closed s \<or> n_write_in_progress s \<or> n_wire s = map frame (texts_to dump c (h_log h)))"
proof -
  have ok: "host_ok dump h" using host_run_ok [OF assms(1)] new_host_ok assms(2) by blast
  then have at: "server_wf (h_server h)" "w_closed (sv_world (h_server h)) = closed_sessions (h_sessions h)"
    by (simp_all add: host_ok_def server_at_def)
  have closed: "c \<in> w_closed (sv_world (h_server h)) \<longleftrightarrow> n_closed s"
    using at(2) assms(3) by (simp add: closed_sessions_def)
  then have room: "n_closed s \<longrightarrow> find_room_by_player (sv_lobby (h_server h)) c = None"
    using server_wfD(3) [OF at(1)] by (auto simp: online_def find_room_by_player_def)
  obtain ms rest where ms: "session_run dump ms s" "texts_to dump c (h_log h) = ms @ rest"
    "\<not> n_closed s \<longrightarrow> rest = []"
    using host_session [OF ok assms(3)] by blast
  have "n_disconnects s = (if n_closed s then 1 else 0)"
    using session_run_wf [OF ms(1)] by (simp add: reads_wf_def)
  moreover obtain k where k: "n_wire s = map frame (take k ms)" using wire_order [OF ms(1)] by blast
  then have "n_wire s = map frame (take (min k (length ms)) (texts_to dump c (h_log h)))"
    using ms(2) by (simp add: min_def)
  moreover have "n_closed s \<or> n_write_in_progress s \<or> n_wire s = map frame (texts_to dump c (h_log h))"
    using wire_order [OF ms(1)] ms(2,3) by auto
  ultimately show ?thesis using closed room by blast
qed

definition sample_answer :: server_message where
  "sample_answer = SError (make_error InvalidJson ''bad'')"

lemma sample_host:
  assumes "dump (to_json_server sample_answer) = Ret body" "length body \<le> unat MAX_PACKET_SIZE"
  shows "\<exists>h s. host_run dump (\<lambda>_. Inl ''bad'') (\<lambda>_. []) sample_pbkdf2 (new_host sample_db (\<lambda>_ _. [])) h
    \<and> h_sessions h 0 = Some s \<and> \<not> n_closed s \<and> h_log h = [(0, sample_answer)]
    \<and> n_wire s = [frame body] \<and> n_processed s = [''x'']"
proof -
  let ?run = "host_run dump (\<lambda>_. Inl ''bad'') (\<lambda>_. []) sample_pbkdf2 (new_host sample_db (\<lambda>_ _. []))"
  let ?h0 = "new_host sample_db (\<lambda>_ _. [])" and ?s1 = "start_session new_session"
  let ?h1 = "(put_session 0 ?s1 ?h0)\<lparr>h_next := 1\<rparr>"
  have "accept_done False True ?h0 = Ret ?h1" by (simp add: accept_done_def new_host_def)
  from host_accept [OF host_start this] have r1: "?run ?h1" .
  have ready: "awaits_header ?s1" by (rule new_session_ready)
  let ?s2 = "?s1\<lparr>n_reading := ReadBody 1\<rparr>"
  have s1: "n_reading ?s1 = ReadHeader" "\<not> n_closed ?s1" using ready by (simp_all add: awaits_header_def)
  have s2: "header_read False (header ''x'') ?s1 = ?s2"
    using header_fed [OF ready, of "''x''"] s1 by (simp add: packet_body_def unat_max_packet read_done_def)
  let ?h2 = "put_session 0 ?s2 ?h1"
  let ?process = "process_message (\<lambda>_. Inl ''bad'') (\<lambda>_. []) sample_pbkdf2 None 0"
  have "read_event dump ?process 0 0 False (header ''x'') ?h1 = Ret ?h2"
    using s1 s2 by (simp add: read_event_def settle_def put_session_def)
  then have r2: "?run ?h2"
    by (rule host_read [OF r1, where s = ?s1, rotated -1])
      (simp_all add: put_session_def text_fits_def read_fits_def s1)
  let ?s3 = "on_message ''x'' (?s2\<lparr>n_reading := NoRead\<rparr>)"
  have s3: "\<not> n_closed ?s3" using s1(2) by (simp add: on_message_def)
  let ?s4 = "enqueue body ?s3" and ?sv = "reply 0 sample_answer (take_outbox (new_server sample_db (\<lambda>_ _. [])))"
  let ?h4 = "put_session 0 (do_read_header ?s4) (?h1\<lparr>h_server := ?sv, h_log := [(0, sample_answer)]\<rparr>)"
  have "send dump sample_answer ?s3 = Ret ?s4" using s3 assms by (simp add: send_eq)
  then have sent: "send_packets dump [(0, sample_answer)] [0 \<mapsto> ?s3] = Ret [0 \<mapsto> ?s4]"
    by (simp add: send_packet_def)
  have "run_processor dump (?process ''x'' 0) (put_session 0 ?s3 ?h2)
      = Ret (put_session 0 ?s4 (?h1\<lparr>h_server := ?sv, h_log := [(0, sample_answer)]\<rparr>))"
    using sent
    by (simp add: run_processor_def process_message_def put_session_def new_host_def reply_error_def reply_def
        send_to_def take_outbox_def new_server_def sample_answer_def)
  then have "read_event dump ?process 0 0 False (bytes_of_string ''x'') ?h2 = Ret ?h4"
    using s1(2) by (simp add: read_event_def put_session_def Let_def)
  then have "?run ?h4"
    by (rule host_read [OF r2, where s = ?s2, rotated -1]) (simp_all add: put_session_def text_fits_def read_fits_def)
  moreover have "n_wire (do_read_header ?s4) = [frame body]" "n_processed (do_read_header ?s4) = [''x'']"
    by (simp_all add: start_session_def do_read_header_def new_session_def enqueue_def do_write_def on_message_def)
  moreover have "\<not> n_closed (do_read_header ?s4)" using s3 by (simp add: do_read_header_def enqueue_reading)
  ultimately show ?thesis by (intro exI [of _ ?h4] exI [of _ "do_read_header ?s4"]) (simp add: put_session_def)
qed

theorem server_sessions_witness:
  "\<exists>(h :: host) s. h_sessions h 0 = Some s \<and> n_wire s = [frame ''abc'']
    \<and> (\<exists>k. n_wire s = map frame (take k (texts_to (\<lambda>_. Ret ''abc'') 0 (h_log h))))"
proof -
  obtain h s where h: "host_run (\<lambda>_. Ret ''abc'') (\<lambda>_. Inl ''bad'') (\<lambda>_. []) sample_pbkdf2 (new_host sample_db (\<lambda>_ _. [])) h"
    "h_sessions h 0 = Some s" "n_wire s = [frame ''abc'']"
    using sample_host [of "\<lambda>_. Ret ''abc''" "''abc''"] by (auto simp: unat_max_packet)
  from server_sessions [OF h(1) sample_db_wf h(2)]
  have k: "\<exists>k. n_wire s = map frame (take k (texts_to (\<lambda>_. Ret ''abc'') 0 (h_log h)))" by (elim conjE)
  show ?thesis by (rule exI [of _ h], rule exI [of _ s]) (intro conjI h k)
qed

end
