(* ===== verification/SampleServer.thy ===== *)
theory SampleServer
  imports ServerLoop
begin

text \<open>
  A run of the whole server for the witnesses: two users log in, one of them makes a room for two, the
  other one joins, and the game that the room then starts sends its first state. A text that arrives at an
  open session reaches the processor (\<open>text_served\<close>); the rest follows what the processor does with four
  texts.
\<close>

section \<open>A text arrives\<close>

text \<open>All sessions are open and wait for a header.\<close>

definition at_rest :: "host \<Rightarrow> bool" where
  "at_rest h \<longleftrightarrow> (\<forall>c s. h_sessions h c = Some s \<longrightarrow> awaits_header s)"

lemma enqueue_awaits: "awaits_header s \<Longrightarrow> awaits_header (enqueue body s)"
  by (simp add: awaits_header_def enqueue_def do_write_def Let_def)

lemma send_at_rest:
  assumes "\<And>j. dump j = Ret body" "length body \<le> unat MAX_PACKET_SIZE" "\<not> n_closed s"
  shows "send dump m s = Ret (enqueue body s)"
  using assms by (simp add: send_eq)

text \<open>What is sent changes neither which sessions there are nor what they wait for.\<close>

definition same_reading :: "(cid \<rightharpoonup> net_session) \<Rightarrow> (cid \<rightharpoonup> net_session) \<Rightarrow> bool" where
  "same_reading ss ss' \<longleftrightarrow> (\<forall>c. map_option (\<lambda>s. (n_closed s, n_reading s)) (ss' c)
     = map_option (\<lambda>s. (n_closed s, n_reading s)) (ss c))"

lemma same_reading_trans: "same_reading a b \<Longrightarrow> same_reading b c \<Longrightarrow> same_reading a c"
  by (simp add: same_reading_def)

lemma same_readingD:
  assumes "same_reading ss ss'"
  shows "dom ss' = dom ss"
    and "ss' c = Some s' \<Longrightarrow> \<exists>s. ss c = Some s \<and> n_closed s' = n_closed s \<and> n_reading s' = n_reading s"
proof -
  have eq: "map_option (\<lambda>s. (n_closed s, n_reading s)) (ss' d) = map_option (\<lambda>s. (n_closed s, n_reading s)) (ss d)" for d
    using assms unfolding same_reading_def by blast
  have "ss' d = None \<longleftrightarrow> ss d = None" for d using eq [of d] by (cases "ss d"; cases "ss' d") simp_all
  then show "dom ss' = dom ss" by (simp add: dom_def)
  show "ss' c = Some s' \<Longrightarrow> \<exists>s. ss c = Some s \<and> n_closed s' = n_closed s \<and> n_reading s' = n_reading s"
    using eq [of c] by (cases "ss c") simp_all
qed

lemma packets_sent:
  assumes dump: "\<And>j. dump j = Ret body" "length body \<le> unat MAX_PACKET_SIZE"
    and "\<forall>c s. ss c = Some s \<longrightarrow> \<not> n_closed s"
  shows "\<exists>ss'. send_packets dump out ss = Ret ss' \<and> same_reading ss ss'"
  using assms(3)
proof (induction out arbitrary: ss)
  case (Cons cm out)
  obtain ss1 where ss1: "send_packet dump cm ss = Ret ss1" "same_reading ss ss1"
  proof (cases "ss (fst cm)")
    case None
    then show thesis using that by (simp add: send_packet_def same_reading_def)
  next
    case (Some s)
    then have "send_packet dump cm ss = Ret (ss(fst cm \<mapsto> enqueue body s))"
      using Cons.prems by (simp add: send_packet_def send_at_rest [OF dump])
    moreover have "same_reading ss (ss(fst cm \<mapsto> enqueue body s))"
      using Some by (simp add: same_reading_def enqueue_def do_write_def Let_def)
    ultimately show thesis by (rule that)
  qed
  then have "\<forall>c s. ss1 c = Some s \<longrightarrow> \<not> n_closed s"
    using Cons.prems same_readingD(2) [OF ss1(2)] by metis
  from Cons.IH [OF this] obtain ss' where "send_packets dump out ss1 = Ret ss'" "same_reading ss1 ss'" by blast
  then show ?case using ss1 same_reading_trans [OF ss1(2)] by simp
qed (simp add: same_reading_def)

lemma text_served:
  assumes run: "host_run dump parse what pbkdf2 h0 h" and rest: "at_rest h" "h_sessions h c = Some s"
    and dump: "\<And>j. dump j = Ret body" "length body \<le> unat MAX_PACKET_SIZE"
    and raw: "packet_body raw" "\<And>raw. text_fits parse raw"
    and step: "process_message parse what pbkdf2 rnd n raw c (take_outbox (h_server h)) = Ret sv"
  shows "\<exists>h'. host_run dump parse what pbkdf2 h0 h' \<and> at_rest h' \<and> dom (h_sessions h') = dom (h_sessions h)
    \<and> h_server h' = sv \<and> set (h_log h') \<supseteq> {cm \<in> set (w_outbox (sv_world sv)). fst cm \<in> dom (h_sessions h)}"
proof -
  have aw: "awaits_header s" using rest by (auto simp: at_rest_def)
  let ?s1 = "s\<lparr>n_reading := ReadBody (word_of_nat (length raw))\<rparr>" and ?p = "process_message parse what pbkdf2 rnd n"
  let ?h1 = "put_session c ?s1 h"
  have "header_read False (header raw) s = ?s1"
    using header_fed [OF aw raw(1)] aw by (simp add: awaits_header_def read_done_def)
  then have "read_event dump ?p n c False (header raw) h = Ret ?h1"
    using aw rest(2) by (simp add: read_event_def settle_def awaits_header_def)
  then have r1: "host_run dump parse what pbkdf2 h0 ?h1"
    by (rule host_read [OF run rest(2), rotated -1])
      (use aw raw(2) in \<open>simp_all add: awaits_header_def read_fits_def\<close>)
  let ?s2 = "on_message raw (?s1\<lparr>n_reading := NoRead\<rparr>)"
  let ?h2 = "put_session c ?s2 ?h1"
  have open2: "\<forall>d t. h_sessions ?h2 d = Some t \<longrightarrow> \<not> n_closed t"
    using rest aw by (auto simp: put_session_def at_rest_def awaits_header_def on_message_def)
  from packets_sent [where dump = dump, OF dump this, of "w_outbox (sv_world sv)"] obtain ss where
    ss: "send_packets dump (w_outbox (sv_world sv)) (h_sessions ?h2) = Ret ss" "same_reading (h_sessions ?h2) ss"
    by blast
  have dom: "dom ss = dom (h_sessions h)"
    using same_readingD(1) [OF ss(2)] rest(2) by (auto simp: put_session_def)
  obtain s3 where s3: "ss c = Some s3" using dom rest(2) by blast
  then have s3': "\<not> n_closed s3" using same_readingD(2) [OF ss(2)] open2 by metis
  let ?h3 = "?h2\<lparr>h_server := sv, h_sessions := ss,
      h_log := h_log ?h2 @ filter (\<lambda>cm. h_sessions ?h2 (fst cm) \<noteq> None) (w_outbox (sv_world sv))\<rparr>"
  let ?h' = "put_session c (do_read_header s3) ?h3"
  have "run_processor dump (?p raw c) ?h2 = Ret ?h3" using step ss(1) by (simp add: run_processor_def put_session_def)
  then have "read_event dump ?p n c False (bytes_of_string raw) ?h1 = Ret ?h'"
    using aw s3 by (simp add: read_event_def put_session_def awaits_header_def Let_def)
  then have "host_run dump parse what pbkdf2 h0 ?h'"
    by (rule host_read [OF r1, where s = ?s1, rotated -1])
      (use raw packet_body_length [OF raw(1)] in \<open>simp_all add: put_session_def read_fits_def\<close>)
  moreover have "at_rest ?h'"
  proof (unfold at_rest_def, intro allI impI)
    fix d t assume t: "h_sessions ?h' d = Some t"
    show "awaits_header t"
    proof (cases "d = c")
      case True
      then show ?thesis using t s3' by (auto simp: put_session_def awaits_header_def do_read_header_def)
    next
      case False
      then have "ss d = Some t" using t by (simp add: put_session_def)
      from same_readingD(2) [OF ss(2) this] obtain s' where
        "h_sessions ?h2 d = Some s'" "n_closed t = n_closed s'" "n_reading t = n_reading s'" by blast
      then show ?thesis using False rest(1) by (auto simp: put_session_def at_rest_def awaits_header_def)
    qed
  qed
  moreover have "dom (h_sessions ?h') = dom (h_sessions h)" using dom s3 by (auto simp: put_session_def)
  moreover have "set (h_log ?h') \<supseteq> {cm \<in> set (w_outbox (sv_world sv)). fst cm \<in> dom (h_sessions h)}"
    by (auto simp: put_session_def)
  ultimately show ?thesis by (intro exI [of _ ?h'] conjI) (assumption | simp add: put_session_def)+
qed

section \<open>A game for two starts\<close>

text \<open>A table of two, both with more than a big blind, asks for the first action after one hand has been opened.\<close>

lemma game_of_two:
  assumes s: "seated g" and two: "g_players g = [a, b]"
    and chips: "stack_at_deal g a > BIG_BLIND" "stack_at_deal g b > BIG_BLIND"
  shows "\<exists>g' m. start 2 g = Ret g' \<and> (a, SGameStateUpdate m) \<in> set (g_outbox g')"
proof -
  have "g_players g \<noteq> []" "2 \<le> length (g_players g)" using two by simp_all
  from start_hand_wf [OF s this(1)] obtain d where d: "dealt g d" and st: "start_hand g
      = Ret (send_all (\<lambda>p. SGameStateUpdate (state_update (open_betting d) p)) (open_betting d))"
    and ob: "table_wf (open_betting d)" "same_seats g (open_betting d)" by blast
  let ?g = "send_all (\<lambda>p. SGameStateUpdate (state_update (open_betting d) p)) (open_betting d)"
  have pl: "g_players (open_betting d) = [a, b]" using ob(2) two by (simp add: same_seats_def)
  have "table_wf ?g" using ob(1) money_step_send_all by (rule wf_money_step)
  then have "g_current ?g < 2" using pl by (simp add: table_wf_def send_all_eq)
  then have cur: "g_players ?g ! g_current ?g = a \<or> g_players ?g ! g_current ?g = b"
    using pl by (auto simp: send_all_eq less_2_cases_iff)
  then have "can_player_act ?g (g_players ?g ! g_current ?g)"
    using open_betting_acts(1) [OF d s \<open>2 \<le> length (g_players g)\<close>] two chips
    by (auto simp: can_player_act_def send_all_eq)
  then have "start 2 g
      = Ret (send_message (g_players ?g ! g_current ?g) (SYourTurn (your_turn_message ?g (g_players ?g ! g_current ?g))) ?g)"
    using st by (simp add: numeral_eq_Suc Let_def)
  moreover have "(a, SGameStateUpdate (state_update (open_betting d) a)) \<in> set (g_outbox ?g)"
    using pl by (simp add: send_all_eq)
  ultimately show ?thesis by (intro exI conjI) (assumption, simp add: send_message_def)
qed

lemma remote_sends:
  "w_outbox (fold remote_player_send ms w) = w_outbox w @ filter (\<lambda>cm. fst cm \<notin> w_closed w) ms"
proof (induction ms arbitrary: w)
  case (Cons m ms)
  have "w_closed (remote_player_send m w) = w_closed w" by (simp add: remote_player_send_def send_to_def)
  then show ?case by (simp add: Cons) (simp add: remote_player_send_def send_to_def)
qed simp

lemma join_starts:
  assumes r: "r_players r = [a]" "r_max_players r = 2" "r_game r = None" "a \<noteq> b"
    and w: "w_repo w = Some db" "a \<notin> w_closed w"
    and chips: "\<And>c. c \<in> {a, b} \<Longrightarrow> account_chips w (w_name w c) > BIG_BLIND"
  shows "\<exists>r' w' m. room_add_player 2 b r w = Ret (True, r', w') \<and> (a, SGameStateUpdate m) \<in> set (w_outbox w')"
proof -
  let ?r = "r\<lparr>r_players := [a, b]\<rparr>"
  let ?w = "notify_all_about_joined ?r w"
  have w': "w_name ?w = w_name w" "w_repo ?w = w_repo w" "w_closed ?w = w_closed w"
    using same_world_notify [of w ?r] by (simp_all add: notify_fields same_world_def)
  have acc: "account_chips ?w = account_chips w" by (simp add: account_chips_def fun_eq_iff w')
  define bank where "bank = (\<lambda>nm. if nm \<in> w_name w ` {a, b} then Some (account_chips w nm) else None)"
  have load: "load_player_bankrolls ?r ?w = Inr bank"
    using chips [of a] chips [of b]
    by (auto simp: load_player_bankrolls_def bankrolls_loop_eq acc w' bank_def word_less_nat_alt)
  define g where "g = (new_game [a, b] (map_of (map (\<lambda>c. (c, c)) [a, b])) (w_repo ?w) bank (w_name ?w)
      (w_draws ?w (w_games ?w)))\<lparr>g_repo := w_repo ?w, g_outbox := []\<rparr>"
  have g_new: "g = new_game [a, b] (map_of (map (\<lambda>c. (c, c)) [a, b])) (w_repo ?w) bank (w_name ?w) (w_draws ?w (w_games ?w))"
    by (simp add: g_def new_game_def)
  have "seated g"
    unfolding g_new by (rule seated_new_game(1), rule room_seating) (use r(4) in \<open>simp_all add: max_seats_def\<close>)
  moreover have "g_players g = [a, b]" by (simp add: g_def new_game_def)
  moreover have "stack_at_deal g c > BIG_BLIND" if "c \<in> {a, b}" for c
    using chips [OF that] that
    by (auto simp: g_def new_game_def stack_at_deal_def initial_chips_def getd_def bank_def w')
  ultimately obtain g' m where g': "start 2 g = Ret g'" "(a, SGameStateUpdate m) \<in> set (g_outbox g')"
    using game_of_two [of g a b] by blast
  let ?w1 = "?w\<lparr>w_games := w_games ?w + 1\<rparr>"
  let ?w2 = "fold remote_player_send (g_outbox g') (?w1\<lparr>w_repo := g_repo g'\<rparr>)"
  have call: "game_call (start 2) (new_game [a, b] (map_of (map (\<lambda>c. (c, c)) [a, b])) (w_repo ?w) bank (w_name ?w)
      (w_draws ?w (w_games ?w))) ?w1 = Ret (g'\<lparr>g_outbox := []\<rparr>, ?w2)"
    using g'(1) by (simp add: game_call_def g_def)
  have "room_add_player 2 b r w = Ret (True, ?r\<lparr>r_game := Some (g'\<lparr>g_outbox := []\<rparr>)\<rparr>, ?w2)"
    using r load call by (simp add: room_add_player_def start_game_def Let_def)
  moreover have "(a, SGameStateUpdate m) \<in> set (w_outbox ?w2)"
    using g'(2) w(2) by (simp add: remote_sends w'(3))
  ultimately show ?thesis by blast
qed

section \<open>Login, a room, and its game\<close>

definition sample_login :: "string \<Rightarrow> json" where
  "sample_login name = to_json_client (CLogin \<lparr>lg_username = name, lg_password = ''a1b2''\<rparr>)"

definition sample_parse :: "string \<Rightarrow> string + json" where
  "sample_parse s = Inr (if s = ''a'' then sample_login ''Alice'' else if s = ''b'' then sample_login ''Bob''
     else if s = ''c'' then to_json_client (CCreateRoom \<lparr>cr_room_name = ''r'', cr_max_players = 2\<rparr>)
     else to_json_client (CJoinRoom \<lparr>jr_room_id = 1\<rparr>))"

abbreviation sample_process :: "string \<Rightarrow> cid \<Rightarrow> server \<Rightarrow> server result" where
  "sample_process \<equiv> process_message sample_parse (\<lambda>_. []) sample_pbkdf2 (Some [1]) 2"

lemma sample_fits: "text_fits sample_parse raw"
proof -
  have "request_fits m" if "from_json_client data = Ret m" "sample_parse raw = Inr data" for m data
    using that client_roundtrip
    by (auto simp: sample_parse_def sample_login_def request_fits_def max_seats_def
        simp del: to_json_client.simps split: if_splits)
  then show ?thesis by (auto simp: text_fits_def split: sum.split result.split)
qed

lemma login_text:
  assumes "sample_parse raw = Inr (sample_login u)" "c \<notin> sv_authenticated sv"
  shows "sample_process raw c sv
    = handle_login sample_pbkdf2 (Some [1]) \<lparr>lg_username = u, lg_password = ''a1b2''\<rparr> c sv"
proof -
  have "get_at (sample_login u) ''type'' get_string = Ret ''login''"
    "get_at (sample_login u) ''data'' from_json_login = Ret \<lparr>lg_username = u, lg_password = ''a1b2''\<rparr>"
    by (simp_all add: sample_login_def get_at_def)
  then show ?thesis using assms by (simp add: process_message_def)
qed

lemma request_text:
  assumes "sample_parse raw = Inr (to_json_client m)" "c \<in> sv_authenticated sv"
    and "m = CCreateRoom cr \<or> m = CJoinRoom jr"
  shows "sample_process raw c sv = process_client_message 2 m c sv"
proof -
  have "get_at (to_json_client m) ''type'' get_string = Ret (if m = CCreateRoom cr then ''create_room'' else ''join_room'')"
    using assms(3) by (auto simp: get_at_def)
  then show ?thesis
    using assms client_roundtrip [of m] by (simp add: process_message_def del: to_json_client.simps split: if_splits)
qed

text \<open>The server after the first logins: who is online, and that each has an account with the starting chips.\<close>

definition logged_in :: "string list \<Rightarrow> server \<Rightarrow> bool" where
  "logged_in names sv \<longleftrightarrow> (\<exists>db. w_repo (sv_world sv) = Some db \<and> db_wf db
       \<and> (\<forall>n. balance db n = (if \<exists>m \<in> set names. nocase_eq m n then Some STARTING_CHIPS else None)))
     \<and> sv_authenticated sv = {..<length names} \<and> sv_names sv = set names \<and> w_closed (sv_world sv) = {}
     \<and> (\<forall>c < length names. w_name (sv_world sv) c = names ! c) \<and> sv_lobby sv = new_lobby"

lemma login_step:
  assumes sv: "logged_in names sv" and u: "is_valid_username u" "trim_copy u = u"
    and new: "\<forall>m \<in> set names. \<not> nocase_eq m u" and parse: "sample_parse raw = Inr (sample_login u)"
  shows "\<exists>sv'. sample_process raw (length names) (take_outbox sv) = Ret sv' \<and> logged_in (names @ [u]) sv'"
proof -
  obtain db where db: "w_repo (sv_world sv) = Some db" "db_wf db"
    "\<And>n. balance db n = (if \<exists>m \<in> set names. nocase_eq m n then Some STARTING_CHIPS else None)"
    using sv by (auto simp: logged_in_def)
  have none: "balance db u = None" using db(3) new by simp
  have cs: "c_string u = u" using u(1) by (rule valid_username_c_string)
  obtain h where h: "hash sample_pbkdf2 (Some [1]) ''a1b2'' = Ret h"
    by (simp add: hash_def derive_key_def sample_pbkdf2_def)
  obtain db' where db': "create_user sample_pbkdf2 (Some [1]) db u ''a1b2'' STARTING_CHIPS = Ret (db', Created)" "db_wf db'"
    using select_create [OF db(2) none h] cs by metis
  have sel: "select_user db' m = (if nocase_eq u m then Some \<lparr>u_id = db_last_id db + 1, u_username = u,
        u_password_hash = h, u_chips = uint STARTING_CHIPS\<rparr> else select_user db m)" for m
    using select_create [OF db(2) none h, of STARTING_CHIPS m] db'(1) by (metis prod.inject result.inject(1))
  have bal: "balance db' n = (if \<exists>m \<in> set (names @ [u]). nocase_eq m n then Some STARTING_CHIPS else None)" for n
  proof (cases "nocase_eq u n")
    case True
    then show ?thesis by (simp add: balance_def find_by_username_def sel)
  next
    case False
    then have "balance db' n = balance db n" by (simp add: balance_def find_by_username_def sel)
    then show ?thesis using False db(3) [of n] by simp
  qed
  let ?sv = "take_outbox sv" and ?c = "length names"
  let ?sv1 = "?sv\<lparr>sv_world := (sv_world ?sv)\<lparr>w_repo := Some db'\<rparr>\<rparr>"
  let ?sv2 = "finish_authentication u ?c STARTING_CHIPS True ?sv1"
  have pw: "is_valid_password ''a1b2''" by code_simp
  have found: "find_by_username db' u = Some \<lparr>ur_id = db_last_id db + 1, ur_username = u, ur_chips = STARTING_CHIPS\<rparr>"
    using cs by (simp add: find_by_username_def sel nocase_eq_def)
  have auth: "?c \<notin> sv_authenticated ?sv" using sv by (simp add: logged_in_def take_outbox_def)
  have "\<not> username_exists db u" using none by (simp add: username_exists_def balance_def)
  then have "sample_process raw ?c ?sv = Ret ?sv2"
    unfolding login_text [OF parse auth] using u db(1) db'(1) found pw
    by (simp add: handle_login_def login_account_def take_outbox_def Let_def)
  moreover have "logged_in (names @ [u]) ?sv2"
  proof -
    have "u \<notin> set names" using new by (auto simp: nocase_eq_def)
    then have nw: "u \<notin> sv_names ?sv1" "?c \<notin> w_closed (sv_world ?sv1)"
      using sv by (simp_all add: logged_in_def take_outbox_def)
    show ?thesis
      unfolding online_finish [OF nw(2,1)]
      using sv db'(2) bal by (auto simp: logged_in_def reply_def send_to_def take_outbox_def nth_append less_Suc_eq)
  qed
  ultimately show ?thesis by blast
qed

definition sample_room :: room where
  "sample_room = (new_room 1 ''r'' 2 0)\<lparr>r_players := [0]\<rparr>"

definition sample_lobby :: lobby where
  "sample_lobby = \<lparr>l_store = [0 \<mapsto> sample_room], l_fresh = 1, l_rooms = [0], l_player_rooms = [0 \<mapsto> 0],
     l_next_room_id = 2\<rparr>"

lemma create_step:
  assumes "check_player_bankroll 0 w = None"
  shows "\<exists>w'. create_room 2 ''r'' 2 0 new_lobby w = Ret (Some 0, sample_lobby, w')
    \<and> w_repo w' = w_repo w \<and> w_name w' = w_name w \<and> w_closed w' = w_closed w"
proof -
  have add: "room_add_player 2 0 (new_room 1 ''r'' 2 0) w
      = Ret (True, sample_room, notify_all_about_joined sample_room w)"
    by (simp add: room_add_player_def new_room_def sample_room_def Let_def)
  have "w_closed (notify_all_about_joined sample_room w) = w_closed w"
    using same_world_notify unfolding same_world_def by blast
  then show ?thesis
    using assms add
    by (simp add: create_room_def make_room_def new_lobby_def set_room_def room_list_fields notify_fields
        sample_lobby_def Let_def)
qed

lemma join_step:
  assumes "check_player_bankroll 1 w = None"
    and w: "w_repo w = Some db" "0 \<notin> w_closed w"
    and chips: "\<And>c. c \<in> {0, 1} \<Longrightarrow> account_chips w (w_name w c) > BIG_BLIND"
  shows "\<exists>l w' m. join_room 2 1 1 sample_lobby w = Ret (None, l, w') \<and> (0, SGameStateUpdate m) \<in> set (w_outbox w')"
proof -
  have r: "r_players sample_room = [0]" "r_max_players sample_room = 2" "r_game sample_room = None" "r_id sample_room = 1"
    by (simp_all add: sample_room_def new_room_def)
  from join_starts [OF r(1-3) _ w chips, of 1] obtain r' w' m where
    add: "room_add_player 2 1 sample_room w = Ret (True, r', w')" "(0, SGameStateUpdate m) \<in> set (w_outbox w')"
    by auto
  have "(0, SGameStateUpdate m) \<in> set (w_outbox (broadcast_room_list l w'))" for l
    using same_world_room_list [of w' l] add(2) by (auto simp: same_world_def)
  then show ?thesis
    using assms(1) add(1) r
    by (simp add: join_room_def enter_room_def get_room_def room_at_def sample_lobby_def is_game_started_def
        get_room_info_def Let_def) blast
qed

lemma logged_in_chips:
  assumes "logged_in names sv" "c < length names"
  shows "account_chips (sv_world sv) (w_name (sv_world sv) c) = STARTING_CHIPS"
    and "check_player_bankroll c (sv_world sv) = None"
proof -
  obtain db where db: "w_repo (sv_world sv) = Some db"
    "\<And>n. balance db n = (if \<exists>m \<in> set names. nocase_eq m n then Some STARTING_CHIPS else None)"
    using assms(1) by (auto simp: logged_in_def)
  have nm: "w_name (sv_world sv) c = names ! c" "names ! c \<in> set names" using assms by (simp_all add: logged_in_def)
  then have "balance db (names ! c) = Some STARTING_CHIPS" using db(2) by (auto simp: nocase_eq_def)
  then obtain u where "find_by_username db (names ! c) = Some u" "ur_chips u = STARTING_CHIPS"
    by (auto simp: balance_def)
  then show "account_chips (sv_world sv) (w_name (sv_world sv) c) = STARTING_CHIPS"
      "check_player_bankroll c (sv_world sv) = None"
    using db(1) nm(1)
    by (simp_all add: account_chips_def check_player_bankroll_def STARTING_CHIPS_def BIG_BLIND_def)
qed

section \<open>The run\<close>

abbreviation sample_run :: "host \<Rightarrow> bool" where
  "sample_run \<equiv> host_run (\<lambda>_. Ret ''{}'') sample_parse (\<lambda>_. []) sample_pbkdf2 (new_host sample_db (\<lambda>_ _. []))"

text \<open>Two connections, at rest.\<close>

definition sample_at :: "host \<Rightarrow> bool" where
  "sample_at h \<longleftrightarrow> sample_run h \<and> at_rest h \<and> dom (h_sessions h) = {0, 1}"

lemma sample_step:
  assumes h: "sample_at h" "c \<in> {0, 1}" and raw: "packet_body raw"
    and step: "sample_process raw c (take_outbox (h_server h)) = Ret sv"
  shows "\<exists>h'. sample_at h' \<and> h_server h' = sv
    \<and> set (h_log h') \<supseteq> {cm \<in> set (w_outbox (sv_world sv)). fst cm \<in> {0, 1}}"
proof -
  have d: "sample_run h" "at_rest h" "dom (h_sessions h) = {0, 1}" using h(1) by (simp_all add: sample_at_def)
  obtain s where s: "h_sessions h c = Some s" using d(3) h(2) by blast
  from text_served [where dump = "\<lambda>_. Ret ''{}''", OF d(1,2) s _ _ raw sample_fits step] d(3)
  show ?thesis by (simp add: sample_at_def unat_max_packet)
qed

lemma two_connections: "\<exists>h. sample_at h \<and> logged_in [] (h_server h)"
proof -
  let ?h0 = "new_host sample_db (\<lambda>_ _. [])" and ?s = "start_session new_session"
  let ?h1 = "(put_session 0 ?s ?h0)\<lparr>h_next := 1\<rparr>"
  let ?h2 = "(put_session 1 ?s ?h1)\<lparr>h_next := 2\<rparr>"
  have "accept_done False True ?h0 = Ret ?h1" by (simp add: accept_done_def new_host_def)
  from host_accept [OF host_start this] have r1: "sample_run ?h1" .
  have "accept_done False True ?h1 = Ret ?h2" by (simp add: accept_done_def)
  from host_accept [OF r1 this] have "sample_run ?h2" .
  moreover have "at_rest ?h2" "dom (h_sessions ?h2) = {0, 1}"
    using new_session_ready(1) by (auto simp: at_rest_def put_session_def new_host_def)
  moreover have "balance sample_db n = None" for n
    by (simp add: balance_def find_by_username_def select_user_def users_of_def sample_db_def)
  then have "logged_in [] (h_server ?h2)"
    using sample_db_wf by (simp add: logged_in_def put_session_def new_host_def new_server_def)
  ultimately show ?thesis unfolding sample_at_def by blast
qed

lemma short_body: "c \<in> {''a'', ''b'', ''c'', ''d''} \<Longrightarrow> packet_body c"
  by (auto simp: packet_body_def unat_max_packet)

lemma two_users: "\<exists>h. sample_at h \<and> logged_in [''Alice'', ''Bob''] (h_server h)"
proof -
  have names: "is_valid_username ''Bob''" "trim_copy ''Alice'' = ''Alice''" "trim_copy ''Bob'' = ''Bob''"
    "\<not> nocase_eq ''Alice'' ''Bob''" by code_simp+
  have texts: "sample_parse ''a'' = Inr (sample_login ''Alice'')" "sample_parse ''b'' = Inr (sample_login ''Bob'')"
    by (simp_all add: sample_parse_def)
  obtain h0 where h0: "sample_at h0" "logged_in [] (h_server h0)" using two_connections by blast
  from login_step [OF h0(2) sample_name names(2) _ texts(1)] obtain sv1 where
    sv1: "sample_process ''a'' 0 (take_outbox (h_server h0)) = Ret sv1" "logged_in [''Alice''] sv1" by auto
  from sample_step [OF h0(1) _ short_body sv1(1)] obtain h1 where
    h1: "sample_at h1" "logged_in [''Alice''] (h_server h1)" using sv1(2) by auto
  from login_step [OF h1(2) names(1,3) _ texts(2)] names(4) obtain sv2 where
    sv2: "sample_process ''b'' 1 (take_outbox (h_server h1)) = Ret sv2" "logged_in [''Alice'', ''Bob''] sv2" by auto
  from sample_step [OF h1(1) _ short_body sv2(1)] sv2(2) show ?thesis by auto
qed

lemma logged_in_take: "logged_in names sv \<Longrightarrow> logged_in names (take_outbox sv)"
  by (simp add: logged_in_def take_outbox_def)

text \<open>The two users play: the first one was sent a state of their game.\<close>

lemma sample_game_state: "\<exists>h m. sample_run h \<and> (0, SGameStateUpdate m) \<in> set (h_log h)"
proof -
  let ?names = "[''Alice'', ''Bob'']"
  let ?create = "CCreateRoom \<lparr>cr_room_name = ''r'', cr_max_players = 2\<rparr>" and ?join = "CJoinRoom \<lparr>jr_room_id = 1\<rparr>"
  obtain h where h: "sample_at h" "logged_in ?names (h_server h)" using two_users by blast
  define sv where "sv = take_outbox (h_server h)"
  have log: "logged_in ?names sv" unfolding sv_def by (rule logged_in_take [OF h(2)])
  have sv: "sv_lobby sv = new_lobby" "sv_authenticated sv = {..<2}" "w_closed (sv_world sv) = {}"
    using log by (simp_all add: logged_in_def numeral_eq_Suc)
  note chips = logged_in_chips [OF log, of 0, simplified] logged_in_chips [OF log, of 1, simplified]
  obtain w1 where w1: "create_room 2 ''r'' 2 0 new_lobby (sv_world sv) = Ret (Some 0, sample_lobby, w1)"
    "w_repo w1 = w_repo (sv_world sv)" "w_name w1 = w_name (sv_world sv)" "w_closed w1 = w_closed (sv_world sv)"
    using create_step [OF chips(2)] by blast
  let ?sv1 = "sv\<lparr>sv_lobby := sample_lobby, sv_world := w1\<rparr>"
  have "sample_process ''c'' 0 sv = process_client_message 2 ?create 0 sv"
    by (rule request_text) (simp_all add: sample_parse_def sv del: to_json_client.simps)
  also have "\<dots> = Ret ?sv1" using w1(1) chips(2) sv(1) by (simp add: lobby_call_def)
  finally have "sample_process ''c'' 0 (take_outbox (h_server h)) = Ret ?sv1" unfolding sv_def .
  from sample_step [OF h(1) _ short_body this] obtain h1 where h1: "sample_at h1" "h_server h1 = ?sv1" by auto
  let ?w2 = "sv_world (take_outbox ?sv1)"
  have w2: "w_repo ?w2 = w_repo (sv_world sv)" "w_name ?w2 = w_name (sv_world sv)" "0 \<notin> w_closed ?w2"
    using w1 sv(3) by (simp_all add: take_outbox_def)
  have acc: "account_chips ?w2 (w_name ?w2 c) > BIG_BLIND" if "c \<in> {0, 1}" for c
    using that chips(1,3) w2 by (auto simp: account_chips_def STARTING_CHIPS_def BIG_BLIND_def)
  have bank: "check_player_bankroll 1 ?w2 = None" using chips(4) by (simp add: check_player_bankroll_def w2(1) fun_cong [OF w2(2)] cong: option.case_cong)
  obtain db where db: "w_repo ?w2 = Some db" using log w2(1) by (auto simp: logged_in_def)
  from join_step [OF bank db w2(3) acc] obtain l w' m where
    join: "join_room 2 1 1 sample_lobby ?w2 = Ret (None, l, w')" "(0, SGameStateUpdate m) \<in> set (w_outbox w')" by blast
  have "sample_process ''d'' 1 (take_outbox ?sv1) = process_client_message 2 ?join 1 (take_outbox ?sv1)"
    by (rule request_text) (simp_all add: sample_parse_def sv take_outbox_def del: to_json_client.simps)
  also have "\<dots> = Ret ((take_outbox ?sv1)\<lparr>sv_lobby := l, sv_world := w'\<rparr>)"
  proof -
    have "sv_lobby (take_outbox ?sv1) = sample_lobby" by (simp add: take_outbox_def)
    then show ?thesis by (simp only: process_client_message.simps lobby_call_def join(1) join_room.select_convs)
        (simp add: reply_if_error_def)
  qed
  finally have served: "sample_process ''d'' 1 (take_outbox (h_server h1)) = Ret ((take_outbox ?sv1)\<lparr>sv_lobby := l, sv_world := w'\<rparr>)"
    unfolding h1(2) .
  have "1 \<in> {0, 1 :: nat}" "packet_body ''d''" by (simp_all add: short_body)
  from sample_step [OF h1(1) this served] obtain h' where
    h': "sample_at h'" "set (h_log h') \<supseteq> {cm \<in> set (w_outbox w'). fst cm \<in> {0, 1}}" by auto
  then have "(0, SGameStateUpdate m) \<in> set (h_log h')" using join(2) by auto
  then show ?thesis using h'(1) unfolding sample_at_def by blast
qed

end
