(* ===== verification/ServerBooks.thy ===== *)
theory ServerBooks
  imports RoomBooks SampleServer
begin

text \<open>
  The chips of the whole server. The running server moves its state by messages and lost connections only
  (\<open>host_server_steps\<close>), so what these keep holds of every run: the locale \<open>server_invariant\<close>. Its instance here
  is the books of the server: as long as no two users share an account, all accounts together hold no more than
  what they held at the start and what came with new accounts, and so do the accounts of those who do not play
  and the tables.
\<close>

section \<open>Steps of the server\<close>

definition server_step ::
  "(string \<Rightarrow> string + json) \<Rightarrow> (json \<Rightarrow> string) \<Rightarrow> pbkdf2 \<Rightarrow> server \<Rightarrow> server \<Rightarrow> bool" where
  "server_step parse what pbkdf2 sv sv' \<longleftrightarrow>
     (\<exists>c raw rnd n. c \<notin> w_closed (sv_world sv) \<and> text_fits parse raw
        \<and> process_message parse what pbkdf2 rnd n raw c sv = Ret sv')
     \<or> (\<exists>c n. c \<notin> w_closed (sv_world sv) \<and> connection_lost n c sv = Ret sv')"

lemma server_step_wf:
  assumes "server_step parse what pbkdf2 sv sv'" "server_wf sv"
  shows "server_wf sv'"
proof -
  consider c raw rnd n where "c \<notin> w_closed (sv_world sv)" "text_fits parse raw"
      "process_message parse what pbkdf2 rnd n raw c sv = Ret sv'"
    | c n where "c \<notin> w_closed (sv_world sv)" "connection_lost n c sv = Ret sv'"
    using assms(1) unfolding server_step_def by blast
  then show ?thesis
  proof cases
    case 1
    have "keeps (server_kept sv) (process_message parse what pbkdf2 rnd n raw c sv)"
      using 1 assms(2) by (intro process_message_wf) (auto simp: text_fits_def)
    then show ?thesis using 1(3) by (simp add: server_at_def)
  next
    case 2
    then show ?thesis using connection_lost_wf [OF assms(2), of c n] by (simp add: server_at_def)
  qed
qed

lemma run_processor_server: "run_processor dump f h = Ret h' \<Longrightarrow> f (take_outbox (h_server h)) = Ret (h_server h')"
  by (auto simp: run_processor_def bind_r_Ret_iff map_r_Ret_iff)

lemma put_session_server [simp]: "h_server (put_session c s h) = h_server h"
  by (simp add: put_session_def)

abbreviation server_moves ::
  "(string \<Rightarrow> string + json) \<Rightarrow> (json \<Rightarrow> string) \<Rightarrow> pbkdf2 \<Rightarrow> server \<Rightarrow> server \<Rightarrow> bool" where
  "server_moves parse what pbkdf2 sv sv' \<equiv> sv' = sv \<or> server_step parse what pbkdf2 (take_outbox sv) sv'"

lemma settle_server:
  assumes ok: "host_ok dump h" and s: "h_sessions h c = Some s" and step: "\<And>ms. session_run dump ms s \<Longrightarrow> session_run dump ms s'"
    and r: "settle dump n c s s' h = Ret h'"
  shows "server_moves parse what pbkdf2 (h_server h) (h_server h')"
proof -
  obtain ms where ms: "session_run dump ms s" using ok s unfolding host_ok_def sessions_ok_def ahead_def by auto
  have "n_disconnects s = (if n_closed s then 1 else 0)" "n_disconnects s' = (if n_closed s' then 1 else 0)"
    using session_run_wf [OF ms] session_run_wf [OF step [OF ms]] by (simp_all add: reads_wf_def)
  then have notclosed: "n_disconnects s' > n_disconnects s \<Longrightarrow> \<not> n_closed s" by (auto split: if_splits)
  show ?thesis
  proof (cases "n_disconnects s' > n_disconnects s")
    case True
    then have "connection_lost n c (take_outbox (h_server h)) = Ret (h_server h')"
      using r by (simp add: settle_def) (drule run_processor_server, simp)
    moreover have "c \<notin> w_closed (sv_world (take_outbox (h_server h)))"
      using ok s notclosed [OF True] by (auto simp: host_ok_def server_at_def closed_sessions_def)
    ultimately show ?thesis unfolding server_step_def by blast
  qed (use r in \<open>auto simp: settle_def\<close>)
qed

lemma body_server:
  assumes ok: "host_ok dump h" and s: "h_sessions h c = Some s" "n_reading s = ReadBody len" "\<not> n_closed s"
    and fits: "text_fits parse (string_of_bytes bytes)"
    and r: "read_event dump (process_message parse what pbkdf2 rnd n) n c False bytes h = Ret h'"
  shows "server_step parse what pbkdf2 (take_outbox (h_server h)) (h_server h')"
proof -
  let ?json = "string_of_bytes bytes"
  let ?h = "put_session c (on_message ?json (s\<lparr>n_reading := NoRead\<rparr>)) h"
  obtain h1 where h1: "run_processor dump (process_message parse what pbkdf2 rnd n ?json c) ?h = Ret h1"
    "h' = put_session c (do_read_header (the (h_sessions h1 c))) h1"
    using r s by (auto simp: read_event_def Let_def map_r_Ret_iff)
  have "process_message parse what pbkdf2 rnd n ?json c (take_outbox (h_server h)) = Ret (h_server h')"
    using run_processor_server [OF h1(1)] by (simp add: h1(2))
  moreover have "c \<notin> w_closed (sv_world (take_outbox (h_server h)))"
    using ok s(1,3) by (auto simp: host_ok_def server_at_def closed_sessions_def)
  ultimately show ?thesis using fits unfolding server_step_def by blast
qed

text \<open>The state of the server in a run of the host: each handler takes the outbox and makes a step.\<close>

lemma host_server_steps:
  assumes "host_run dump parse what pbkdf2 h0 h" "host_ok dump h0"
  shows "(server_moves parse what pbkdf2)\<^sup>*\<^sup>* (h_server h0) (h_server h)"
  using assms
proof (induction rule: host_run.induct)
  case (host_accept h ec peer h')
  then have "h_server h' = h_server h" by (auto simp: accept_done_def split: if_splits)
  then show ?case using host_accept by simp
next
  case (host_write h c s n ec h')
  have "settle dump n c s (write_done ec s) h = Ret h'" using host_write by (simp add: write_event_def)
  from settle_server [OF host_run_ok [OF host_write.hyps(1) host_write.prems] host_write.hyps(2) _ this]
  have "server_moves parse what pbkdf2 (h_server h) (h_server h')" using host_write.hyps(3) sr_write by blast
  with host_write.IH [OF host_write.prems] show ?case by (rule rtranclp.rtrancl_into_rtrancl)
next
  case (host_read h c s ec bytes rnd n h')
  note ok = host_run_ok [OF host_read.hyps(1) host_read.prems]
  have "server_moves parse what pbkdf2 (h_server h) (h_server h')"
  proof (cases "\<exists>len. n_reading s = ReadBody len \<and> \<not> n_closed s \<and> \<not> ec")
    case True
    then show ?thesis using body_server [OF ok host_read.hyps(2) _ _ host_read.hyps(4)] host_read.hyps(5) by auto
  next
    case False
    then have "settle dump n c s (read_done ec bytes s) h = Ret h'"
      using host_read.hyps by (auto simp: read_event_def read_done_def read_fits_def split: read_state.splits)
    from settle_server [OF ok host_read.hyps(2) _ this] show ?thesis using sr_read host_read.hyps(3) by blast
  qed
  with host_read.IH [OF host_read.prems] show ?case by (rule rtranclp.rtrancl_into_rtrancl)
qed simp

locale server_invariant =
  fixes parse :: "string \<Rightarrow> string + json" and what :: "json \<Rightarrow> string" and pbkdf2 :: pbkdf2
    and I :: "server \<Rightarrow> bool"
  assumes emptied: "I sv \<Longrightarrow> I (take_outbox sv)"
    and moved: "server_wf sv \<Longrightarrow> I sv \<Longrightarrow> server_step parse what pbkdf2 sv sv' \<Longrightarrow> I sv'"
begin

lemma host_keeps:
  assumes "host_run dump parse what pbkdf2 (new_host db draws) h" "db_wf db" "I (new_server db draws)"
  shows "I (h_server h)"
proof -
  have "server_wf sv \<and> I sv" if "(server_moves parse what pbkdf2)\<^sup>*\<^sup>* (new_server db draws) sv" for sv
    using that
  proof (induction rule: rtranclp_induct)
    case base
    then show ?case using assms(2,3) new_server_wf by blast
  next
    case (step sv sv')
    have "server_wf (take_outbox sv)" using server_at_take [of _ sv] step.IH by (auto simp: server_at_def)
    then show ?case using step.IH step.hyps(2) server_step_wf emptied moved by blast
  qed
  moreover have "(server_moves parse what pbkdf2)\<^sup>*\<^sup>* (new_server db draws) (h_server h)"
    using host_server_steps [OF assms(1) new_host_ok [OF assms(2)]] by (simp add: new_host_def)
  ultimately show ?thesis by blast
qed

end

section \<open>The books of the server\<close>

text \<open>The login that a text asks for.\<close>

definition login_of :: "(string \<Rightarrow> string + json) \<Rightarrow> string \<Rightarrow> login option" where
  "login_of parse raw = (case parse raw of
     Inl e \<Rightarrow> None
   | Inr data \<Rightarrow>
       if get_at data ''type'' get_string = Ret ''login''
       then (case get_at data ''data'' from_json_login of Ret lg \<Rightarrow> Some lg | _ \<Rightarrow> None) else None)"

text \<open>The users \<open>U\<close>: everybody logs in under one of these names, no two of which are one account, and all chips that
  the accounts \<open>d0\<close> and these users can have fit in 32 bits.\<close>

definition users_known :: "(string \<Rightarrow> string + json) \<Rightarrow> database \<Rightarrow> string set \<Rightarrow> bool" where
  "users_known parse d0 U \<longleftrightarrow> db_wf d0 \<and> finite U \<and> inj_on nocase U
     \<and> account_sum {} d0 + 1000 * card U < 2 ^ 32 - 1
     \<and> (\<forall>raw lg. login_of parse raw = Some lg \<longrightarrow> trim_copy (lg_username lg) \<in> U)"

text \<open>\<open>M\<close> are the accounts made since the start.\<close>

definition server_books :: "database \<Rightarrow> string set \<Rightarrow> server \<Rightarrow> bool" where
  "server_books d0 U sv \<longleftrightarrow> (\<exists>d M. w_repo (sv_world sv) = Some d \<and> account_names d = account_names d0 @ M \<and> set M \<subseteq> U
     \<and> (\<forall>c \<in> online sv. w_name (sv_world sv) c \<in> U \<and> balance d (w_name (sv_world sv) c) \<noteq> None)
     \<and> lobby_books (w_name (sv_world sv)) (account_names d0 @ M) (account_sum {} d0 + 1000 * length M)
         (sv_lobby sv) (sv_world sv))"

lemma new_accounts:
  assumes "users_known parse d0 U" "db_wf d" "account_names d = account_names d0 @ M" "set M \<subseteq> U"
  shows "account_sum {} d0 + 1000 * length M < 2 ^ 32 - 1"
proof -
  have "distinct (map nocase M)" using distinct_accounts [OF assms(2)] assms(3) by simp
  then have "length M = card (set M)" by (simp add: distinct_map distinct_card)
  also have "\<dots> \<le> card U" using assms(1,4) by (intro card_mono) (simp_all add: users_known_def)
  finally show ?thesis using assms(1) by (simp add: users_known_def)
qed

lemma server_books_reply [simp]:
  "server_books d0 U (reply c m sv) = server_books d0 U sv"
  "server_books d0 U (reply_error c code txt' sv) = server_books d0 U sv"
  "server_books d0 U (reply_if_error c err sv) = server_books d0 U sv"
proof -
  have one: "server_books d0 U (reply c m sv) = server_books d0 U sv" for m
  proof -
    have w: "w_repo (sv_world (reply c m sv)) = w_repo (sv_world sv)" "w_name (sv_world (reply c m sv)) = w_name (sv_world sv)"
      "sv_lobby (reply c m sv) = sv_lobby sv" "online (reply c m sv) = online sv"
      by (simp_all add: reply_def send_to_def online_def)
    show ?thesis unfolding server_books_def w lobby_books_world [OF w(1,2)] by (rule refl)
  qed
  show "server_books d0 U (reply c m sv) = server_books d0 U sv" by (rule one)
  show "server_books d0 U (reply_error c code txt' sv) = server_books d0 U sv" by (simp add: reply_error_def one)
  show "server_books d0 U (reply_if_error c err sv) = server_books d0 U sv"
    by (simp add: reply_if_error_def reply_error_def one split: option.split)
qed

lemma server_books_take: "server_books d0 U sv \<Longrightarrow> server_books d0 U (take_outbox sv)"
proof -
  have w: "w_repo (sv_world (take_outbox sv)) = w_repo (sv_world sv)" "w_name (sv_world (take_outbox sv)) = w_name (sv_world sv)"
    "sv_lobby (take_outbox sv) = sv_lobby sv" "online (take_outbox sv) = online sv"
    by (simp_all add: take_outbox_def online_def)
  show "server_books d0 U sv \<Longrightarrow> server_books d0 U (take_outbox sv)"
    unfolding server_books_def w lobby_books_world [OF w(1,2)] .
qed

text \<open>A call of the lobby for a connection that is online.\<close>

lemma online_own_names:
  assumes "users_known parse d0 U" "server_wf sv" "server_books d0 U sv" "c \<in> online sv"
  shows "own_names (w_name (sv_world sv)) (sv_lobby sv) c"
proof -
  have inj: "inj_on (w_name (sv_world sv)) (online sv)" and sub: "insert c (dom (l_player_rooms (sv_lobby sv))) \<subseteq> online sv"
    using assms(2,4) by (simp_all add: server_wf_def)
  have U: "\<forall>d \<in> online sv. w_name (sv_world sv) d \<in> U" "inj_on nocase U"
    using assms(1,3) unfolding server_books_def users_known_def by blast+
  have "inj_on (\<lambda>d. nocase (w_name (sv_world sv) d)) (online sv)"
    by (rule inj_onI, rule inj_onD [OF inj], rule inj_onD [OF U(2)]) (use U(1) in simp_all)
  then show ?thesis unfolding own_names_def using sub by (rule inj_on_subset)
qed

lemma lobby_step_books:
  assumes users: "users_known parse d0 U" and books: "server_books d0 U sv"
    and on: "online (sv\<lparr>sv_lobby := l, sv_world := w\<rparr>) \<subseteq> online sv"
    and call: "\<And>nm N C. lobby_books nm N C (sv_lobby sv) (sv_world sv) \<Longrightarrow> nm = w_name (sv_world sv) \<Longrightarrow> C < 2 ^ 32 - 1
      \<Longrightarrow> lobby_books nm N C l w"
  shows "server_books d0 U (sv\<lparr>sv_lobby := l, sv_world := w\<rparr>)"
proof -
  let ?nm = "w_name (sv_world sv)"
  obtain d M where d: "w_repo (sv_world sv) = Some d" "account_names d = account_names d0 @ M" "set M \<subseteq> U"
    "\<forall>c \<in> online sv. ?nm c \<in> U \<and> balance d (?nm c) \<noteq> None"
    and b: "lobby_books ?nm (account_names d0 @ M) (account_sum {} d0 + 1000 * length M) (sv_lobby sv) (sv_world sv)"
    using books by (auto simp: server_books_def)
  have wf: "db_wf d" using b d(1) by (auto simp: lobby_books_def)
  have b': "lobby_books ?nm (account_names d0 @ M) (account_sum {} d0 + 1000 * length M) l w"
    using call [OF b refl new_accounts [OF users wf d(2,3)]] .
  then obtain d' where d': "w_repo w = Some d'" "db_wf d'" "account_names d' = account_names d0 @ M" "w_name w = ?nm"
    by (auto simp: lobby_books_def)
  have "balance d' n = None \<longleftrightarrow> balance d n = None" for n
    using balance_None [OF wf] balance_None [OF d'(2)] d(2) d'(3) by simp
  then have "\<forall>c \<in> online (sv\<lparr>sv_lobby := l, sv_world := w\<rparr>). ?nm c \<in> U \<and> balance d' (?nm c) \<noteq> None"
    using d(4) on by blast
  then show ?thesis using d(3) b' d' by (simp add: server_books_def)
qed

lemma closed_reply [simp]:
  "w_closed (sv_world (reply c m sv)) = w_closed (sv_world sv)"
  "w_closed (sv_world (reply_if_error c err sv)) = w_closed (sv_world sv)"
  by (simp_all add: reply_if_error_def reply_error_def reply_def send_to_def split: option.split)

lemma lobby_call_books:
  assumes users: "users_known parse d0 U" and books: "server_books d0 U sv" and eq: "lobby_call f k sv = Ret sv'"
    and k: "\<And>x s. server_books d0 U (k x s) = server_books d0 U s" "\<And>x s. w_closed (sv_world (k x s)) = w_closed (sv_world s)"
    and closed: "w_closed (sv_world sv') = w_closed (sv_world sv)"
    and f: "\<And>x l w nm N C. f (sv_lobby sv) (sv_world sv) = Ret (x, l, w) \<Longrightarrow> lobby_books nm N C (sv_lobby sv) (sv_world sv)
      \<Longrightarrow> nm = w_name (sv_world sv) \<Longrightarrow> C < 2 ^ 32 - 1 \<Longrightarrow> lobby_books nm N C l w"
  shows "server_books d0 U sv'"
proof -
  obtain x l w where x: "f (sv_lobby sv) (sv_world sv) = Ret (x, l, w)" "sv' = k x (sv\<lparr>sv_lobby := l, sv_world := w\<rparr>)"
    using eq by (auto simp: lobby_call_def map_r_Ret_iff)
  have "w_closed w = w_closed (sv_world sv)" using closed k(2) x(2) by simp
  then have on: "online (sv\<lparr>sv_lobby := l, sv_world := w\<rparr>) \<subseteq> online sv" by (simp add: online_def)
  have "server_books d0 U (sv\<lparr>sv_lobby := l, sv_world := w\<rparr>)"
    by (rule lobby_step_books [OF users books on], rule f [OF x(1)])
  then show ?thesis by (simp add: x(2) k(1))
qed

lemma client_message_books:
  assumes users: "users_known parse d0 U" and wf: "server_wf sv" and books: "server_books d0 U sv"
    and c: "c \<in> online sv" and fits: "request_fits m" and eq: "process_client_message n m c sv = Ret sv'"
  shows "server_books d0 U sv'"
proof -
  note own = online_own_names [OF users wf books c] and lobby = server_wfD [OF wf]
  have closed: "w_closed (sv_world sv') = w_closed (sv_world sv)"
    using process_client_message_wf [OF wf c fits, of n] eq by (simp add: server_at_def)
  note call = lobby_call_books [OF users books _ _ _ closed]
  show ?thesis
  proof (cases m)
    case (CLogin lg)
    then show ?thesis using eq books by simp
  next
    case (CCreateRoom cr)
    show ?thesis
    proof (cases "cr_max_players cr < 2 \<or> check_player_bankroll c (sv_world sv) \<noteq> None")
      case True
      then show ?thesis using eq books CCreateRoom by (auto split: if_splits)
    next
      case False
      then have "lobby_call (create_room n (cr_room_name cr) (cr_max_players cr) c) (\<lambda>_ sv. sv) sv = Ret sv'"
        using eq CCreateRoom by simp
      then show ?thesis by (rule call) (auto intro: create_room_books [OF lobby(1)] own)
    qed
  next
    case (CJoinRoom jr)
    then have "lobby_call (join_room n (jr_room_id jr) c) (reply_if_error c) sv = Ret sv'" using eq by simp
    then show ?thesis by (rule call) (auto intro: join_room_books [OF lobby(1,2)] own)
  next
    case CLeaveRoom
    obtain k where "lobby_call (\<lambda>l w. no_value (leave_room n c l w)) k sv = Ret sv'"
      and k: "\<And>x s. \<exists>m. k x s = reply c m s"
      using eq CLeaveRoom by (simp add: Let_def) blast
    from this(1) show ?thesis
    proof (rule call)
      fix x s
      obtain m where "k x s = reply c m s" using k by blast
      then show "server_books d0 U (k x s) = server_books d0 U s" "w_closed (sv_world (k x s)) = w_closed (sv_world s)"
        by simp_all
    qed (auto simp: no_value_Ret intro: leave_room_books [OF lobby(1)] own)
  next
    case CListRooms
    then show ?thesis using eq books by auto
  next
    case CStartGame
    then have "lobby_call (lobby_start_game n c) (reply_if_error c) sv = Ret sv'" using eq by simp
    then show ?thesis by (rule call) (auto intro: lobby_start_books [OF lobby(1,2)] own)
  next
    case (CPlayerAction pa)
    show ?thesis
    proof (cases "l_player_rooms (sv_lobby sv) c")
      case None
      then show ?thesis using eq books CPlayerAction by (auto simp: find_room_by_player_def)
    next
      case (Some rp)
      then have "lobby_call (\<lambda>l w. no_value (room_action n rp c (pa_action pa) (pa_amount pa) l w)) (\<lambda>_ sv. sv) sv = Ret sv'"
        using eq CPlayerAction by (simp add: find_room_by_player_def)
      then show ?thesis
        by (rule call) (auto simp: no_value_Ret intro: room_action_books [OF lobby(1) _ _ _ Some] own)
    qed
  qed
qed

subsection \<open>Login\<close>

lemma lobby_books_rename:
  assumes wf: "lobby_wf l" and c: "l_player_rooms l c = None" and books: "lobby_books nm N C l w"
    and w': "w_repo w' = w_repo w" "w_name w' = nm(c := x)"
  shows "lobby_books (nm(c := x)) N C l w'"
proof -
  have notin: "c \<notin> set (r_players (room_at l rp))" if "rp \<in> set (l_rooms l)" for rp
    using wf c that unfolding lobby_wf_def by (metis option.distinct(1))
  have keys: "room_keys (nm(c := x)) (room_at l rp) = room_keys nm (room_at l rp)" if "rp \<in> set (l_rooms l)" for rp
    using notin [OF that] by (cases "r_game (room_at l rp)") (auto simp: room_keys_def intro!: image_cong)
  have same: "room_books (nm(c := x)) d T (room_at l rp) = room_books nm d T (room_at l rp)" if "rp \<in> set (l_rooms l)" for rp d T
    using notin [OF that] by (cases "r_game (room_at l rp)") (auto simp: room_books_def)
  have "keys_of (nm(c := x)) l (set (l_rooms l)) = keys_of nm l (set (l_rooms l))" using keys by (simp add: keys_of_def)
  then show ?thesis using books w' same by (simp add: lobby_books_def)
qed

lemma room_books_grow:
  assumes "room_books nm d T r" "\<And>n. balance d n \<noteq> None \<Longrightarrow> balance d' n \<noteq> None \<and> banked d' n = banked d n"
  shows "room_books nm d' T r"
proof (cases "r_game r")
  case (Some g)
  then have b: "g_players g = r_players r" "\<forall>c \<in> set (r_players r). g_name g c = nm c" "table_books d T g"
    using assms(1) by (simp_all add: room_books_def)
  have same: "balance d' (g_name g c) \<noteq> None" "banked d' (g_name g c) = banked d (g_name g c)" if "c \<in> set (g_players g)" for c
    using assms(2) [of "g_name g c"] b(3) that by (simp_all add: table_books_def own_accounts_def)
  then have "nsum (\<lambda>p. banked d' (g_name g p)) (g_players g) = nsum (\<lambda>p. banked d (g_name g p)) (g_players g)"
    by (intro nsum_cong) blast
  then have "table_books d' T g" using b(3) same by (simp add: table_books_def own_accounts_def)
  then show ?thesis using b Some by (simp add: room_books_def)
qed (simp add: room_books_def)

lemma created_account:
  assumes wf: "db_wf d" and u: "is_valid_username u"
    and eq: "create_user pbkdf2 rnd d u p STARTING_CHIPS = Ret (d', Created)"
  shows "db_wf d'" "account_names d' = account_names d @ [u]" "balance d' u \<noteq> None"
    "balance d n \<noteq> None \<Longrightarrow> balance d' n \<noteq> None \<and> banked d' n = banked d n"
    "account_sum S d' \<le> account_sum S d + 1000"
proof -
  have none: "balance d u = None" using eq by (auto simp: create_user_def username_exists_def balance_def split: if_splits)
  obtain h where h: "hash pbkdf2 rnd p = Ret h"
    using eq by (cases "hash pbkdf2 rnd p") (auto simp: create_user_def split: if_splits)
  show wf': "db_wf d'" using create_user_wf [OF wf u, of pbkdf2 rnd p STARTING_CHIPS] eq by simp
  show names: "account_names d' = account_names d @ [u]" using account_names_create [OF wf eq] .
  have bal: "balance d' n = (if nocase u = nocase n then Some STARTING_CHIPS else balance d n)" for n
  proof -
    have "select_user d' n = (if nocase_eq u n then Some \<lparr>u_id = db_last_id d + 1, u_username = u,
        u_password_hash = h, u_chips = uint STARTING_CHIPS\<rparr> else select_user d n)"
      using select_create [OF wf none h, of STARTING_CHIPS n] eq by (metis prod.inject result.inject(1))
    then show ?thesis by (simp add: balance_def find_by_username_def nocase_eq_def)
  qed
  then show "balance d' u \<noteq> None" by simp
  show old: "balance d' n \<noteq> None \<and> banked d' n = banked d n" if "balance d n \<noteq> None" for n
  proof -
    have "nocase u \<noteq> nocase n" using that none balance_nocase by metis
    then show ?thesis using bal [of n] that by (simp add: banked_def getd_def)
  qed
  have same: "nsum (banked d') (filter (\<lambda>n. nocase n \<notin> S) (account_names d)) = nsum (banked d) (filter (\<lambda>n. nocase n \<notin> S) (account_names d))"
  proof (rule nsum_cong)
    fix n assume "n \<in> set (filter (\<lambda>n. nocase n \<notin> S) (account_names d))"
    then have "balance d n \<noteq> None" using balance_None [OF wf] by simp
    then show "banked d' n = banked d n" using old by blast
  qed
  have "unat (banked d' u) = 1000" using bal [of u] by (simp add: banked_def getd_def STARTING_CHIPS_def)
  then show "account_sum S d' \<le> account_sum S d + 1000" using same by (simp add: account_sum_def names)
qed

lemma created_books:
  assumes users: "users_known parse d0 U" and books: "server_books d0 U sv" and u: "u \<in> U" "is_valid_username u"
    and d: "w_repo (sv_world sv) = Some d" and eq: "create_user pbkdf2 rnd d u p STARTING_CHIPS = Ret (d', Created)"
  shows "server_books d0 U (sv\<lparr>sv_world := (sv_world sv)\<lparr>w_repo := Some d'\<rparr>\<rparr>)"
proof -
  let ?sv = "sv\<lparr>sv_world := (sv_world sv)\<lparr>w_repo := Some d'\<rparr>\<rparr>" and ?nm = "w_name (sv_world sv)" and ?l = "sv_lobby sv"
  obtain M where M: "account_names d = account_names d0 @ M" "set M \<subseteq> U"
    and online: "\<forall>c \<in> online sv. ?nm c \<in> U \<and> balance d (?nm c) \<noteq> None"
    and b: "lobby_books ?nm (account_names d0 @ M) (account_sum {} d0 + 1000 * length M) ?l (sv_world sv)"
    using books d by (auto simp: server_books_def)
  then obtain T where T: "db_wf d" "account_sum (keys_of ?nm ?l (set (l_rooms ?l))) d + sum T (set (l_rooms ?l)) \<le> account_sum {} d0 + 1000 * length M"
    "\<forall>rp \<in> set (l_rooms ?l). room_books ?nm d (T rp) (room_at ?l rp)"
    using d by (auto simp: lobby_books_def)
  note new = created_account [OF T(1) u(2) eq]
  have "account_sum (keys_of ?nm ?l (set (l_rooms ?l))) d' + sum T (set (l_rooms ?l))
      \<le> account_sum {} d0 + 1000 * length (M @ [u])"
    using new(5) [of "keys_of ?nm ?l (set (l_rooms ?l))"] T(2) by simp
  moreover have "\<forall>rp \<in> set (l_rooms ?l). room_books ?nm d' (T rp) (room_at ?l rp)"
    using T(3) room_books_grow [OF _ new(4)] by blast
  ultimately have "lobby_books ?nm (account_names d0 @ (M @ [u])) (account_sum {} d0 + 1000 * length (M @ [u])) ?l (sv_world ?sv)"
    using new(1,2) M(1) by (auto simp: lobby_books_def)
  moreover have "\<forall>c \<in> online ?sv. ?nm c \<in> U \<and> balance d' (?nm c) \<noteq> None"
    using online new(4) by (simp add: online_def)
  moreover have "set (M @ [u]) \<subseteq> U" "account_names d' = account_names d0 @ (M @ [u])" using M u(1) new(2) by simp_all
  ultimately show ?thesis
    unfolding server_books_def by (intro exI [of _ d'] exI [of _ "M @ [u]"]) simp
qed

lemma finish_books:
  assumes wf: "server_wf sv" and books: "server_books d0 U sv" and u: "u \<in> U"
    and c: "c \<notin> w_closed (sv_world sv)" "c \<notin> sv_authenticated sv"
    and d: "w_repo (sv_world sv) = Some d" "balance d u \<noteq> None"
  shows "server_books d0 U (finish_authentication u c chips new sv)"
proof (cases "u \<in> sv_names sv")
  case True
  then have "sv\<lparr>sv_names := insert u (sv_names sv)\<rparr> = sv" by (simp add: insert_absorb)
  then show ?thesis using True books by (simp add: finish_authentication_def try_register_def)
next
  case False
  let ?nm = "w_name (sv_world sv)"
  let ?sv = "sv\<lparr>sv_names := insert u (sv_names sv), sv_authenticated := insert c (sv_authenticated sv),
            sv_world := (sv_world sv)\<lparr>w_name := ?nm(c := u),
              w_registry := map_option (registry_add c) (w_registry (sv_world sv))\<rparr>\<rparr>"
  obtain M where M: "account_names d = account_names d0 @ M" "set M \<subseteq> U"
    and online: "\<forall>c \<in> online sv. ?nm c \<in> U \<and> balance d (?nm c) \<noteq> None"
    and b: "lobby_books ?nm (account_names d0 @ M) (account_sum {} d0 + 1000 * length M) (sv_lobby sv) (sv_world sv)"
    using books d(1) by (auto simp: server_books_def)
  have "c \<notin> online sv" using c(2) by (simp add: online_def)
  then have "l_player_rooms (sv_lobby sv) c = None" using server_wfD(3) [OF wf] by blast
  then have "lobby_books (?nm(c := u)) (account_names d0 @ M) (account_sum {} d0 + 1000 * length M) (sv_lobby sv) (sv_world ?sv)"
    by (rule lobby_books_rename [OF server_wfD(1) [OF wf] _ b]) simp_all
  moreover have "\<forall>e \<in> online ?sv. (?nm(c := u)) e \<in> U \<and> balance d ((?nm(c := u)) e) \<noteq> None"
    using online u d(2) by (auto simp: online_def)
  ultimately have "server_books d0 U ?sv"
    using M d(1) unfolding server_books_def by (intro exI [of _ d] exI [of _ M]) simp
  then show ?thesis unfolding online_finish [OF c(1) False] by simp
qed

lemma login_account_db:
  assumes "login_account pbkdf2 rnd d u p = Ret (d', outcome)"
  shows "d' = d \<or> create_user pbkdf2 rnd d u p STARTING_CHIPS = Ret (d', Created)"
    and "outcome = Inr (new, Some user) \<Longrightarrow> balance d' u \<noteq> None"
proof -
  have same: "x = d" if "create_user pbkdf2 rnd d u p STARTING_CHIPS = Ret (x, r)" "r \<noteq> Created" for x r
    using that by (auto simp: create_user_def bind_r_Ret_iff split: if_splits option.splits)
  show "d' = d \<or> create_user pbkdf2 rnd d u p STARTING_CHIPS = Ret (d', Created)"
    using assms same by (auto simp: login_account_def Let_def bind_r_Ret_iff map_r_Ret_iff split: if_splits)
  have "x = find_by_username d' u" if "outcome = Inr (new, x)" for x
    using assms that by (auto simp: login_account_def Let_def bind_r_Ret_iff map_r_Ret_iff split: if_splits)
  then have "outcome = Inr (new, Some user) \<Longrightarrow> find_by_username d' u = Some user" by metis
  then show "outcome = Inr (new, Some user) \<Longrightarrow> balance d' u \<noteq> None" by (simp add: balance_def)
qed

lemma handle_login_books:
  assumes users: "users_known parse d0 U" and wf: "server_wf sv" and books: "server_books d0 U sv"
    and c: "c \<notin> w_closed (sv_world sv)" "c \<notin> sv_authenticated sv" and u: "trim_copy (lg_username lg) \<in> U"
    and eq: "handle_login pbkdf2 rnd lg c sv = Ret sv'"
  shows "server_books d0 U sv'"
proof (cases "is_valid_username (trim_copy (lg_username lg)) \<and> is_valid_password (lg_password lg)")
  case False
  then show ?thesis using eq books by (auto simp: handle_login_def Let_def split: if_splits)
next
  case True
  let ?u = "trim_copy (lg_username lg)"
  obtain d where d: "w_repo (sv_world sv) = Some d" "db_wf d" using wf unfolding server_wf_def by blast
  obtain d' outcome where acc: "login_account pbkdf2 rnd d ?u (lg_password lg) = Ret (d', outcome)"
    using eq True d by (cases "login_account pbkdf2 rnd d ?u (lg_password lg)") (auto simp: handle_login_def Let_def)
  let ?sv = "sv\<lparr>sv_world := (sv_world sv)\<lparr>w_repo := Some d'\<rparr>\<rparr>"
  have res: "Ret sv' = (case outcome of
                  Inl code \<Rightarrow> Ret (reply_error c code [] ?sv)
                | Inr (is_new_account, None) \<Rightarrow>
                    Ret (reply_error c InvalidMessage ''User record missing after login'' ?sv)
                | Inr (is_new_account, Some user) \<Rightarrow>
                    Ret (finish_authentication ?u c (ur_chips user) is_new_account ?sv))"
    using True d(1) acc eq by (simp add: handle_login_def Let_def)
  have "server_books d0 U ?sv \<and> server_wf ?sv"
  proof (cases "d' = d")
    case True
    then have "?sv = sv" using d(1) by simp
    then show ?thesis using books wf by simp
  next
    case False
    then have cr: "create_user pbkdf2 rnd d ?u (lg_password lg) STARTING_CHIPS = Ret (d', Created)"
      using login_account_db(1) [OF acc] by blast
    have "db_wf d'" using created_account(1) [OF d(2) _ cr] True by blast
    then have "server_wf ?sv" using wf by (simp add: server_wf_def online_def)
    then show ?thesis using created_books [OF users books u _ d(1) cr] True by blast
  qed
  moreover have "server_books d0 U (finish_authentication ?u c (ur_chips user) new ?sv)"
    if "outcome = Inr (new, Some user)" for new user
    using finish_books [OF _ _ u, of ?sv d0 c d'] calculation c login_account_db(2) [OF acc that] by simp
  ultimately show ?thesis using res by (auto split: sum.splits option.splits)
qed

section \<open>Every run\<close>

lemma message_books:
  assumes users: "users_known parse d0 U" and wf: "server_wf sv" and books: "server_books d0 U sv"
    and c: "c \<notin> w_closed (sv_world sv)" and fits: "text_fits parse raw"
    and eq: "process_message parse what pbkdf2 rnd n raw c sv = Ret sv'"
  shows "server_books d0 U sv'"
proof (cases "parse raw")
  case (Inl e)
  then show ?thesis using eq books by (auto simp: process_message_def)
next
  case (Inr data)
  obtain type where type: "get_at data ''type'' get_string = Ret type"
    using eq Inr by (cases "get_at data ''type'' get_string") (auto simp: process_message_def)
  show ?thesis
  proof (cases "type = ''login''")
    case True
    show ?thesis
    proof (cases "c \<in> sv_authenticated sv")
      case True
      then show ?thesis using eq books Inr type \<open>type = ''login''\<close> by (auto simp: process_message_def)
    next
      case False
      show ?thesis
      proof (cases "get_at data ''data'' from_json_login")
        case (Ret lg)
        then have "login_of parse raw = Some lg" using Inr type \<open>type = ''login''\<close> by (simp add: login_of_def)
        then have "trim_copy (lg_username lg) \<in> U" using users unfolding users_known_def by blast
        moreover have "handle_login pbkdf2 rnd lg c sv = Ret sv'"
          using eq Inr type \<open>type = ''login''\<close> False Ret by (simp add: process_message_def)
        ultimately show ?thesis using handle_login_books [OF users wf books c False] by blast
      qed (use eq books Inr type \<open>type = ''login''\<close> False in \<open>auto simp: process_message_def\<close>)
    qed
  next
    case False
    show ?thesis
    proof (cases "c \<in> sv_authenticated sv")
      case True
      then have on: "c \<in> online sv" using c by (simp add: online_def)
      show ?thesis
      proof (cases "from_json_client data")
        case (Ret m)
        have "request_fits m" using fits Inr Ret by (simp add: text_fits_def)
        moreover have "process_client_message n m c sv = Ret sv'"
          using eq Inr type False True Ret by (simp add: process_message_def)
        ultimately show ?thesis using client_message_books [OF users wf books on] by blast
      qed (use eq books Inr type False True in \<open>auto simp: process_message_def\<close>)
    qed (use eq books Inr type False in \<open>auto simp: process_message_def\<close>)
  qed
qed

lemma lost_books:
  assumes users: "users_known parse d0 U" and wf: "server_wf sv" and books: "server_books d0 U sv"
    and c: "c \<notin> w_closed (sv_world sv)" and eq: "connection_lost n c sv = Ret sv'"
  shows "server_books d0 U sv'"
proof -
  let ?sv1 = "signed_off c sv"
  note off = signed_off_wf [OF wf c]
  have books1: "server_books d0 U ?sv1"
    using books off(1) unfolding server_books_def signed_off_fields lobby_books_world [OF signed_off_fields(2,3)] by auto
  have call: "lobby_call (\<lambda>l w. no_value (leave_room n c l w)) (\<lambda>_ sv. sv) ?sv1 = Ret sv'"
    using eq by (simp add: connection_lost_signed_off lobby_on_disconnect_def)
  have closed: "w_closed (sv_world sv') = w_closed (sv_world ?sv1)"
    using connection_lost_wf [OF wf c, of n] eq by (simp add: server_at_def off(2))
  show ?thesis
  proof (cases "c \<in> online sv")
    case True
    have own: "own_names (w_name (sv_world sv)) (sv_lobby sv) c" by (rule online_own_names [OF users wf books True])
    show ?thesis
      by (rule lobby_call_books [OF users books1 call _ _ closed])
        (auto simp: no_value_Ret intro: leave_room_books [OF server_wfD(1) [OF wf]] own)
  next
    case False
    then have "l_player_rooms (sv_lobby sv) c = None" using server_wfD(3) [OF wf] by blast
    then have "leave_room n c (sv_lobby ?sv1) w = Ret (sv_lobby ?sv1, w)" for w by (simp add: leave_room_def)
    then show ?thesis by (intro lobby_call_books [OF users books1 call _ _ closed]) (auto simp: no_value_Ret)
  qed
qed

interpretation server_chips: server_invariant parse what pbkdf2 "\<lambda>sv. users_known parse d0 U \<longrightarrow> server_books d0 U sv"
  for parse what pbkdf2 d0 U
proof (unfold_locales, goal_cases)
  case (1 sv)
  then show ?case using server_books_take by blast
next
  case (2 sv sv')
  then show ?case using message_books lost_books unfolding server_step_def by blast
qed

section \<open>No chips are minted\<close>

text \<open>The accounts of all who sit at a table, and the chips on the tables.\<close>

definition accounts_in_play :: "server \<Rightarrow> string set" where
  "accounts_in_play sv = keys_of (w_name (sv_world sv)) (sv_lobby sv) (set (l_rooms (sv_lobby sv)))"

definition room_chips :: "room \<Rightarrow> nat" where
  "room_chips r = (case r_game r of None \<Rightarrow> 0 | Some g \<Rightarrow> table_chips g)"

definition chips_in_play :: "server \<Rightarrow> nat" where
  "chips_in_play sv = (\<Sum>rp \<in> set (l_rooms (sv_lobby sv)). room_chips (room_at (sv_lobby sv) rp))"

lemma account_sum_some:
  assumes "db_wf d"
  shows "account_sum K d \<le> account_sum (nocase ` set ns \<union> K) d + nsum (banked d) ns"
proof (induction ns)
  case (Cons n ns)
  show ?case
  proof (cases "nocase n \<in> nocase ` set ns \<union> K")
    case True
    then have "nocase ` set (n # ns) \<union> K = nocase ` set ns \<union> K" by auto
    then show ?thesis using Cons by simp
  next
    case False
    then show ?thesis using Cons account_sum_insert [OF assms False] by simp
  qed
qed simp

lemma account_sum_rooms:
  assumes "db_wf d" "finite R" "\<forall>rp \<in> R. room_books nm d (T rp) (room_at l rp)"
  shows "account_sum {} d \<le> account_sum (keys_of nm l R) d + sum T R"
  using assms(2,3)
proof (induction R)
  case (insert rp R)
  let ?K = "keys_of nm l R"
  have "account_sum ?K d \<le> account_sum (room_keys nm (room_at l rp) \<union> ?K) d + T rp"
  proof (cases "r_game (room_at l rp)")
    case (Some g)
    then have b: "g_players g = r_players (room_at l rp)" "\<forall>c \<in> set (r_players (room_at l rp)). g_name g c = nm c"
      "nsum (\<lambda>p. banked d (g_name g p)) (g_players g) \<le> T rp"
      using insert.prems by (auto simp: room_books_def table_books_def)
    have "room_keys nm (room_at l rp) = nocase ` set (map (g_name g) (g_players g))"
      using Some b(1,2) by (simp add: room_keys_def image_image)
    then show ?thesis
      using account_sum_some [OF assms(1), of ?K "map (g_name g) (g_players g)"] b(3) by (simp add: nsum_def comp_def)
  qed (simp add: room_keys_def)
  moreover have "keys_of nm l (insert rp R) = room_keys nm (room_at l rp) \<union> ?K" by (simp add: keys_of_def)
  ultimately show ?case using insert by simp
qed (simp add: keys_of_def)

lemma room_chips_within: "room_books nm d T r \<Longrightarrow> room_chips r \<le> T"
  by (cases "r_game r") (simp_all add: room_books_def room_chips_def table_books_def chips_within_def)

lemma new_server_books: "db_wf db \<Longrightarrow> server_books db U (new_server db draws)"
  unfolding server_books_def
  by (intro exI [of _ db] exI [of _ "[]"])
    (simp add: new_server_def lobby_books_def new_lobby_def keys_of_def online_def)

lemma books_bound:
  assumes "host_run dump parse what pbkdf2 (new_host db draws) h" "users_known parse db U"
  shows "\<exists>d. w_repo (sv_world (h_server h)) = Some d
    \<and> account_sum {} d \<le> account_sum {} db + 1000 * (length (account_names d) - length (account_names db))
    \<and> account_sum (accounts_in_play (h_server h)) d + chips_in_play (h_server h)
        \<le> account_sum {} db + 1000 * (length (account_names d) - length (account_names db))"
proof -
  let ?sv = "h_server h"
  let ?l = "sv_lobby ?sv" and ?nm = "w_name (sv_world ?sv)"
  have wf: "db_wf db" using assms(2) by (simp add: users_known_def)
  have "server_books db U ?sv" using server_chips.host_keeps [OF assms(1) wf] new_server_books [OF wf] assms(2) by blast
  then obtain d M T where d: "w_repo (sv_world ?sv) = Some d" "account_names d = account_names db @ M" "db_wf d"
    "account_sum (keys_of ?nm ?l (set (l_rooms ?l))) d + sum T (set (l_rooms ?l)) \<le> account_sum {} db + 1000 * length M"
    "\<forall>rp \<in> set (l_rooms ?l). room_books ?nm d (T rp) (room_at ?l rp)"
    unfolding server_books_def lobby_books_def by auto
  have "account_sum {} d \<le> account_sum {} db + 1000 * length M"
    using account_sum_rooms [OF d(3) _ d(5)] d(4) by simp
  moreover have "chips_in_play ?sv \<le> sum T (set (l_rooms ?l))"
    unfolding chips_in_play_def using d(5) room_chips_within by (intro sum_mono) blast
  ultimately show ?thesis using d(1,2,4) by (auto simp: accounts_in_play_def)
qed

section \<open>The logins of a run\<close>

text \<open>The texts that a session handed to its processor stay in \<open>n_processed\<close>, so the state of a run tells who tried
  to log in.\<close>

definition received :: "host \<Rightarrow> cid \<Rightarrow> string list" where
  "received h c = (case h_sessions h c of None \<Rightarrow> [] | Some s \<Rightarrow> n_processed s)"

definition login_names :: "(string \<Rightarrow> string + json) \<Rightarrow> host \<Rightarrow> string set" where
  "login_names parse h = {trim_copy (lg_username lg) | c raw lg. raw \<in> set (received h c) \<and> login_of parse raw = Some lg}"

lemma received_put: "received (put_session c s h) = (received h)(c := n_processed s)"
  by (simp add: received_def put_session_def fun_eq_iff)

lemma send_processed: "send dump m s = Ret s' \<Longrightarrow> n_processed s' = n_processed s"
  by (cases "dump (to_json_server m)")
    (auto simp: send_eq enqueue_def do_write_def Let_def split: if_splits)

lemma send_packet_processed:
  "send_packet dump cm ss = Ret ss' \<Longrightarrow> map_option n_processed (ss' c) = map_option n_processed (ss c)"
  by (auto simp: send_packet_def map_r_Ret_iff send_processed split: option.splits)

lemma send_packets_processed:
  "send_packets dump cms ss = Ret ss' \<Longrightarrow> map_option n_processed (ss' c) = map_option n_processed (ss c)"
  by (induction cms arbitrary: ss) (auto simp: bind_r_Ret_iff send_packet_processed)

lemma run_processor_received: "run_processor dump f h = Ret h' \<Longrightarrow> received h' = received h"
proof (rule ext)
  fix c
  assume "run_processor dump f h = Ret h'"
  then have "map_option n_processed (h_sessions h' c) = map_option n_processed (h_sessions h c)"
    using send_packets_processed by (fastforce simp: run_processor_def bind_r_Ret_iff map_r_Ret_iff)
  then show "received h' c = received h c" by (auto simp: received_def split: option.splits)
qed

lemma settle_received: "settle dump n c s s' h = Ret h' \<Longrightarrow> received h' = (received h)(c := n_processed s')"
  using run_processor_received by (fastforce simp: settle_def received_put split: if_splits)

text \<open>What a completed read hands over: the body, unless the connection fails.\<close>

lemma read_received:
  assumes s: "h_sessions h c = Some s" and r: "read_event dump p n c ec bytes h = Ret h'"
  shows "(\<forall>d. set (received h d) \<subseteq> set (received h' d))
    \<and> (string_of_bytes bytes \<in> set (received h' c) \<or> (\<forall>p'. read_event dump p' n c ec bytes h = Ret h'))"
proof -
  have rc: "received h c = n_processed s" using s by (simp add: received_def)
  have settled: "settle dump n c s s' h = Ret h' \<Longrightarrow> n_processed s' = n_processed s \<Longrightarrow> received h' = received h" for s'
    using settle_received rc by (metis fun_upd_triv)
  show ?thesis
  proof (cases "\<exists>len. n_reading s = ReadBody len \<and> \<not> n_closed s \<and> \<not> ec")
    case True
    let ?h = "put_session c (on_message (string_of_bytes bytes) (s\<lparr>n_reading := NoRead\<rparr>)) h"
    obtain h1 where h1: "run_processor dump (p (string_of_bytes bytes) c) ?h = Ret h1"
      "h' = put_session c (do_read_header (the (h_sessions h1 c))) h1"
      using True r s by (auto simp: read_event_def Let_def map_r_Ret_iff)
    have "received h1 = (received h)(c := received h c @ [string_of_bytes bytes])"
      using run_processor_received [OF h1(1)] by (simp add: received_put on_message_def rc)
    moreover from this have "received h1 c \<noteq> []" by simp
    then have "h_sessions h1 c \<noteq> None" by (auto simp: received_def split: option.splits)
    then have "n_processed (the (h_sessions h1 c)) = received h1 c" by (auto simp: received_def)
    then have "received h' = received h1" by (simp add: h1(2) received_put do_read_header_def)
    ultimately show ?thesis by auto
  next
    case False
    then have same: "read_event dump p' n c ec bytes h = (if n_reading s = NoRead then Ret h
        else settle dump n c s (read_done ec bytes s) h)" for p'
      using s by (cases "n_reading s") (auto simp: read_event_def read_done_def)
    have "n_processed (read_done ec bytes s) = n_processed s"
      using False by (cases "n_reading s")
        (auto simp: read_done_def header_read_def body_read_def do_read_body_def do_read_header_def close_session_fields Let_def split: prod.splits)
    with same have "received h' = received h" using r settled by (auto split: if_splits)
    then show ?thesis using same r by simp
  qed
qed

lemma read_event_text:
  "p (string_of_bytes bytes) = p' (string_of_bytes bytes) \<Longrightarrow> read_event dump p n c ec bytes h = read_event dump p' n c ec bytes h"
  unfolding read_event_def Let_def by (auto split: option.split read_state.split)

text \<open>A parser that knows no other names runs the same as long as no other names arrive.\<close>

definition knowing :: "string set \<Rightarrow> (string \<Rightarrow> string + json) \<Rightarrow> string \<Rightarrow> string + json" where
  "knowing U parse raw =
     (if \<exists>lg. login_of parse raw = Some lg \<and> trim_copy (lg_username lg) \<notin> U then Inl [] else parse raw)"

lemma knowing_logins: "login_of (knowing U parse) raw = Some lg \<Longrightarrow> trim_copy (lg_username lg) \<in> U"
proof -
  assume lg: "login_of (knowing U parse) raw = Some lg"
  show ?thesis
  proof (cases "\<exists>lg. login_of parse raw = Some lg \<and> trim_copy (lg_username lg) \<notin> U")
    case True
    then show ?thesis using lg by (simp add: login_of_def [of "knowing U parse"] knowing_def)
  next
    case False
    then have "knowing U parse raw = parse raw" by (auto simp: knowing_def)
    then have "login_of parse raw = Some lg" using lg by (simp add: login_of_def)
    then show ?thesis using False by blast
  qed
qed

lemma knowing_fits: "text_fits parse raw \<Longrightarrow> text_fits (knowing U parse) raw"
  by (simp add: text_fits_def knowing_def)

lemma knowing_message:
  assumes "\<And>lg. login_of parse raw = Some lg \<Longrightarrow> trim_copy (lg_username lg) \<in> U"
  shows "process_message (knowing U parse) what pbkdf2 rnd n raw = process_message parse what pbkdf2 rnd n raw"
proof -
  have "knowing U parse raw = parse raw" using assms by (auto simp: knowing_def)
  then show ?thesis by (simp add: process_message_def fun_eq_iff)
qed

lemma login_names_mono:
  "\<forall>c. set (received h c) \<subseteq> set (received h' c) \<Longrightarrow> login_names parse h \<subseteq> login_names parse h'"
  unfolding login_names_def by blast

lemma knowing_run:
  assumes "host_run dump parse what pbkdf2 h0 h" "host_ok dump h0" "login_names parse h \<subseteq> U"
  shows "host_run dump (knowing U parse) what pbkdf2 h0 h"
  using assms
proof (induction rule: host_run.induct)
  case host_start
  show ?case by (rule host_run.host_start)
next
  case (host_accept h ec peer h')
  have "h_sessions h (h_next h) = None"
    using host_run_ok [OF host_accept.hyps(1) host_accept.prems(1)] by (auto simp: host_ok_def log_ok_def)
  then have "received h' = received h"
    using host_accept.hyps(2) new_session_ready(2)
    by (auto simp: accept_done_def received_def put_session_def fun_eq_iff split: if_splits option.splits)
  then have "login_names parse h \<subseteq> login_names parse h'" by (intro login_names_mono) simp
  then show ?case using host_accept.IH host_accept.prems host_accept.hyps(2) host_run.host_accept by blast
next
  case (host_write h c s n ec h')
  have "received h' = (received h)(c := n_processed (write_done ec s))"
    using host_write.hyps by (intro settle_received) (simp add: write_event_def)
  moreover have "n_processed (write_done ec s) = n_processed s"
    by (auto simp: write_done_def do_write_def close_session_fields Let_def)
  ultimately have "login_names parse h \<subseteq> login_names parse h'"
    using host_write.hyps(2) by (intro login_names_mono) (simp add: received_def)
  then show ?case using host_write.IH host_write.prems host_write.hyps(2-4) host_run.host_write by blast
next
  case (host_read h c s ec bytes rnd n h')
  note got = read_received [OF host_read.hyps(2,5)]
  then have "login_names parse h \<subseteq> login_names parse h'" by (intro login_names_mono) blast
  then have run: "host_run dump (knowing U parse) what pbkdf2 h0 h" using host_read.IH host_read.prems by blast
  have "read_event dump (process_message (knowing U parse) what pbkdf2 rnd n) n c ec bytes h = Ret h'"
  proof (cases "\<exists>lg. login_of parse (string_of_bytes bytes) = Some lg \<and> trim_copy (lg_username lg) \<notin> U")
    case True
    then have "string_of_bytes bytes \<notin> set (received h' c)"
      using host_read.prems(2) unfolding login_names_def by blast
    then show ?thesis using got by blast
  next
    case False
    then have "process_message (knowing U parse) what pbkdf2 rnd n (string_of_bytes bytes)
        = process_message parse what pbkdf2 rnd n (string_of_bytes bytes)"
      by (intro knowing_message) blast
    then show ?thesis using host_read.hyps(5) read_event_text [of "process_message (knowing U parse) what pbkdf2 rnd n"] by simp
  qed
  then show ?case using run host_read.hyps(2-4) knowing_fits host_run.host_read by blast
qed

lemma finite_logins:
  assumes "host_ok dump h"
  shows "finite (login_names parse h)"
proof -
  have "dom (h_sessions h) \<subseteq> {..<h_next h}" using assms by (auto simp: host_ok_def log_ok_def)
  then have "finite (dom (h_sessions h))" by (rule finite_subset) simp
  then have "finite (\<Union>c \<in> dom (h_sessions h). set (received h c))" by simp
  moreover have "login_names parse h \<subseteq> (\<lambda>raw. trim_copy (lg_username (the (login_of parse raw))))
      ` (\<Union>c \<in> dom (h_sessions h). set (received h c))"
  proof
    fix u
    assume "u \<in> login_names parse h"
    then obtain c raw lg where u: "raw \<in> set (received h c)" "login_of parse raw = Some lg" "u = trim_copy (lg_username lg)"
      by (auto simp: login_names_def)
    then have "c \<in> dom (h_sessions h)" by (cases "h_sessions h c") (auto simp: received_def)
    then show "u \<in> (\<lambda>raw. trim_copy (lg_username (the (login_of parse raw))))
      ` (\<Union>c \<in> dom (h_sessions h). set (received h c))"
      using u by (intro image_eqI [of _ _ raw]) auto
  qed
  ultimately show ?thesis by (meson finite_imageI finite_subset)
qed

text \<open>
  C3. No chips are minted: whatever the connections do, as long as no two of the names that they log in with are
  the same account and the chips of all accounts fit in 32 bits, all accounts together never hold more than at
  the start and the starting chips of the accounts made since; and neither do the accounts of those who do not
  play together with the stacks and pots of all tables.
\<close>

theorem no_chips_minted:
  assumes "host_run dump parse what pbkdf2 (new_host db draws) h" "db_wf db"
    and "inj_on nocase (login_names parse h)"
    and "account_sum {} db + 1000 * card (login_names parse h) < 2 ^ 32 - 1"
  shows "\<exists>d. w_repo (sv_world (h_server h)) = Some d
    \<and> account_sum {} d \<le> account_sum {} db + 1000 * (length (account_names d) - length (account_names db))
    \<and> account_sum (accounts_in_play (h_server h)) d + chips_in_play (h_server h)
        \<le> account_sum {} db + 1000 * (length (account_names d) - length (account_names db))"
proof -
  let ?U = "login_names parse h"
  have "users_known (knowing ?U parse) db ?U"
    using assms knowing_logins finite_logins [OF host_run_ok [OF assms(1) new_host_ok [OF assms(2)]]]
    unfolding users_known_def by blast
  with knowing_run [OF assms(1) new_host_ok [OF assms(2)] subset_refl] show ?thesis by (rule books_bound)
qed

lemma sample_users: "inj_on nocase (login_names sample_parse h)" "card (login_names sample_parse h) \<le> 2"
proof -
  have names: "nocase ''Alice'' \<noteq> nocase ''Bob''" "trim_copy ''Alice'' = ''Alice''" "trim_copy ''Bob'' = ''Bob''" by code_simp+
  have "lg_username lg \<in> {''Alice'', ''Bob''}" if "login_of sample_parse raw = Some lg" for raw lg
    using that by (auto simp: login_of_def sample_parse_def sample_login_def get_at_def split: if_splits result.splits)
  then have "trim_copy (lg_username lg) \<in> {''Alice'', ''Bob''}" if "login_of sample_parse raw = Some lg" for raw lg
    using that names(2,3) by fastforce
  then have sub: "login_names sample_parse h \<subseteq> {''Alice'', ''Bob''}" unfolding login_names_def by blast
  show "inj_on nocase (login_names sample_parse h)" by (rule inj_on_subset [OF _ sub]) (use names(1) in simp)
  show "card (login_names sample_parse h) \<le> 2" using card_mono [OF _ sub] by simp
qed

theorem no_chips_minted_witness:
  "\<exists>h m d. sample_run h \<and> (0, SGameStateUpdate m) \<in> set (h_log h) \<and> w_repo (sv_world (h_server h)) = Some d
    \<and> account_sum (accounts_in_play (h_server h)) d + chips_in_play (h_server h) \<le> 1000 * length (account_names d)"
proof -
  obtain h m where h: "sample_run h" "(0, SGameStateUpdate m) \<in> set (h_log h)" using sample_game_state by blast
  have "account_sum {} sample_db = 0" "account_names sample_db = []"
    by (simp_all add: account_sum_def account_names_def sample_db_def)
  moreover have "account_sum {} sample_db + 1000 * card (login_names sample_parse h) < 2 ^ 32 - 1"
    using calculation(1) sample_users(2) [of h] by simp
  ultimately show ?thesis using no_chips_minted [OF h(1) sample_db_wf sample_users(1)] h by auto
qed

end
