(* ===== verification/Numerals.thy ===== *)
theory Numerals
  imports Auth
begin

text \<open>
  Decimal numbers as the standard library writes and reads them: \<open>std::to_string\<close> and \<open>operator<<\<close> of an
  unsigned integer (\<open>decimal\<close>), and \<open>std::from_chars\<close>.
\<close>

definition digit_char :: "nat \<Rightarrow> char" where
  "digit_char d = char_of (48 + d)"

fun decimal :: "nat \<Rightarrow> string" where
  "decimal n = (if n < 10 then [digit_char n] else decimal (n div 10) @ [digit_char (n mod 10)])"

declare decimal.simps [simp del]

text \<open>
  \<open>std::from_chars\<close> for an unsigned type of \<open>w\<close> bits: the number written by the longest prefix of
  digits, the rest (\<open>ptr\<close>), and whether there was no error; an error leaves the value as it was.
\<close>

definition digits_value :: "string \<Rightarrow> nat" where
  "digits_value ds = fold (\<lambda>c v. v * 10 + (byte_of c - 48)) ds 0"

definition from_chars :: "nat \<Rightarrow> string \<Rightarrow> nat \<times> string \<times> bool" where
  "from_chars w s =
     (let ds = takeWhile isdigit s; rest = dropWhile isdigit s in
      if ds = [] then (0, s, False)
      else if digits_value ds \<ge> 2 ^ w then (0, rest, False)
      else (digits_value ds, rest, True))"

lemma digit_char_simps:
  "digit_char 0 = CHR ''0''" "digit_char (Suc 0) = CHR ''1''" "digit_char 2 = CHR ''2''"
  "digit_char 3 = CHR ''3''" "digit_char 4 = CHR ''4''" "digit_char 5 = CHR ''5''"
  "digit_char 6 = CHR ''6''" "digit_char 7 = CHR ''7''" "digit_char 8 = CHR ''8''"
  "digit_char 9 = CHR ''9''"
  by (simp_all add: digit_char_def char_of_eq_iff)

lemma byte_of_digit: "d < 10 \<Longrightarrow> byte_of (digit_char d) = 48 + d"
  by (simp add: byte_of_def digit_char_def)

lemma decimal_nonempty: "decimal n \<noteq> []"
  by (subst decimal.simps) simp

lemma decimal_digits: "\<forall>c \<in> set (decimal n). isdigit c"
proof (induction n rule: decimal.induct)
  case (1 n)
  have "isdigit (digit_char d)" if "d < 10" for d
    using that by (simp add: isdigit_def byte_of_digit)
  then show ?case using 1 by (subst decimal.simps) auto
qed

lemma digits_value_decimal: "digits_value (decimal n) = n"
proof (induction n rule: decimal.induct)
  case (1 n)
  show ?case
  proof (cases "n < 10")
    case True
    then show ?thesis by (subst decimal.simps) (simp add: digits_value_def byte_of_digit)
  next
    case False
    then show ?thesis
      using 1 by (subst decimal.simps) (simp add: digits_value_def byte_of_digit)
  qed
qed

lemma from_chars_decimal: "from_chars w (decimal n) = (if n < 2 ^ w then (n, [], True) else (0, [], False))"
proof -
  have all: "takeWhile isdigit (decimal n) = decimal n" "dropWhile isdigit (decimal n) = []"
    using decimal_digits [of n] by (simp_all only: takeWhile_eq_all_conv dropWhile_eq_Nil_conv)
  show ?thesis
    unfolding from_chars_def Let_def all by (simp add: decimal_nonempty digits_value_decimal)
qed

lemma decimal_inject: "decimal m = decimal n \<longleftrightarrow> m = n"
  by (metis digits_value_decimal)

end
