(* ===== verification/I18n.thy ===== *)
theory I18n
  imports Protocol HandEvaluator Numerals
begin

text \<open>
  The texts of the client: \<open>client/include/i18n.h\<close> and \<open>client/src/i18n.cpp\<close>. A \<open>Msg\<close> is its number in the
  enumeration; the global \<open>g_language\<close> is the argument \<open>lang\<close> of the functions that read it. Texts are
  the bytes of the source, in UTF-8; those outside ASCII are written as numbers. The lemmas show that
  both languages have the same placeholders in every text, and when the arguments are filled in as meant.
\<close>

section \<open>Messages and languages\<close>

datatype language = English | Russian

text \<open>\<open>Msg\<close>, without \<open>Count\<close>.\<close>

abbreviation (input) Msg_AppTitle :: nat where "Msg_AppTitle \<equiv> 0"
abbreviation (input) Msg_EnterYourName :: nat where "Msg_EnterYourName \<equiv> 1"
abbreviation (input) Msg_NameLabel :: nat where "Msg_NameLabel \<equiv> 2"
abbreviation (input) Msg_PasswordLabel :: nat where "Msg_PasswordLabel \<equiv> 3"
abbreviation (input) Msg_TypeBelow :: nat where "Msg_TypeBelow \<equiv> 4"
abbreviation (input) Msg_PressJoinWhenReady :: nat where "Msg_PressJoinWhenReady \<equiv> 5"
abbreviation (input) Msg_WaitingForConnection :: nat where "Msg_WaitingForConnection \<equiv> 6"
abbreviation (input) Msg_ConnectionLostTitle :: nat where "Msg_ConnectionLostTitle \<equiv> 7"
abbreviation (input) Msg_ConnectionLostDetail :: nat where "Msg_ConnectionLostDetail \<equiv> 8"
abbreviation (input) Msg_PressReconnect :: nat where "Msg_PressReconnect \<equiv> 9"
abbreviation (input) Msg_Lobby :: nat where "Msg_Lobby \<equiv> 10"
abbreviation (input) Msg_NoRoomsYet :: nat where "Msg_NoRoomsYet \<equiv> 11"
abbreviation (input) Msg_CreateRoom :: nat where "Msg_CreateRoom \<equiv> 12"
abbreviation (input) Msg_MaxPlayersLabel :: nat where "Msg_MaxPlayersLabel \<equiv> 13"
abbreviation (input) Msg_PressCreateConfirm :: nat where "Msg_PressCreateConfirm \<equiv> 14"
abbreviation (input) Msg_BlindsInfo :: nat where "Msg_BlindsInfo \<equiv> 15"
abbreviation (input) Msg_WaitingForPlayers :: nat where "Msg_WaitingForPlayers \<equiv> 16"
abbreviation (input) Msg_PlayersAtTable :: nat where "Msg_PlayersAtTable \<equiv> 17"
abbreviation (input) Msg_HostTag :: nat where "Msg_HostTag \<equiv> 18"
abbreviation (input) Msg_NeedTwoPlayers :: nat where "Msg_NeedTwoPlayers \<equiv> 19"
abbreviation (input) Msg_PressStartWhenReady :: nat where "Msg_PressStartWhenReady \<equiv> 20"
abbreviation (input) Msg_WaitingForHostStart :: nat where "Msg_WaitingForHostStart \<equiv> 21"
abbreviation (input) Msg_PlayersCount :: nat where "Msg_PlayersCount \<equiv> 22"
abbreviation (input) Msg_AutoStartWhenFull :: nat where "Msg_AutoStartWhenFull \<equiv> 23"
abbreviation (input) Msg_WaitingForGameState :: nat where "Msg_WaitingForGameState \<equiv> 24"
abbreviation (input) Msg_PhasePrefix :: nat where "Msg_PhasePrefix \<equiv> 25"
abbreviation (input) Msg_PotLabel :: nat where "Msg_PotLabel \<equiv> 26"
abbreviation (input) Msg_TableBetLabel :: nat where "Msg_TableBetLabel \<equiv> 27"
abbreviation (input) Msg_CommunityCards :: nat where "Msg_CommunityCards \<equiv> 28"
abbreviation (input) Msg_YourHand :: nat where "Msg_YourHand \<equiv> 29"
abbreviation (input) Msg_HandPrefix :: nat where "Msg_HandPrefix \<equiv> 30"
abbreviation (input) Msg_TableLabel :: nat where "Msg_TableLabel \<equiv> 31"
abbreviation (input) Msg_NoPlayers :: nat where "Msg_NoPlayers \<equiv> 32"
abbreviation (input) Msg_EventLog :: nat where "Msg_EventLog \<equiv> 33"
abbreviation (input) Msg_Controls :: nat where "Msg_Controls \<equiv> 34"
abbreviation (input) Msg_HotkeyHint :: nat where "Msg_HotkeyHint \<equiv> 35"
abbreviation (input) Msg_LanguageHint :: nat where "Msg_LanguageHint \<equiv> 36"
abbreviation (input) Msg_YourTurnBar :: nat where "Msg_YourTurnBar \<equiv> 37"
abbreviation (input) Msg_WinnerPrefix :: nat where "Msg_WinnerPrefix \<equiv> 38"
abbreviation (input) Msg_PotAmountPrefix :: nat where "Msg_PotAmountPrefix \<equiv> 39"
abbreviation (input) Msg_BtnJoin :: nat where "Msg_BtnJoin \<equiv> 40"
abbreviation (input) Msg_BtnQuit :: nat where "Msg_BtnQuit \<equiv> 41"
abbreviation (input) Msg_BtnRefresh :: nat where "Msg_BtnRefresh \<equiv> 42"
abbreviation (input) Msg_BtnCreate :: nat where "Msg_BtnCreate \<equiv> 43"
abbreviation (input) Msg_BtnLeave :: nat where "Msg_BtnLeave \<equiv> 44"
abbreviation (input) Msg_BtnStart :: nat where "Msg_BtnStart \<equiv> 45"
abbreviation (input) Msg_BtnReconnect :: nat where "Msg_BtnReconnect \<equiv> 46"
abbreviation (input) Msg_BtnConfirm :: nat where "Msg_BtnConfirm \<equiv> 47"
abbreviation (input) Msg_BtnCancel :: nat where "Msg_BtnCancel \<equiv> 48"
abbreviation (input) Msg_BtnFold :: nat where "Msg_BtnFold \<equiv> 49"
abbreviation (input) Msg_BtnCheck :: nat where "Msg_BtnCheck \<equiv> 50"
abbreviation (input) Msg_BtnCall :: nat where "Msg_BtnCall \<equiv> 51"
abbreviation (input) Msg_BtnRaise :: nat where "Msg_BtnRaise \<equiv> 52"
abbreviation (input) Msg_BtnMin :: nat where "Msg_BtnMin \<equiv> 53"
abbreviation (input) Msg_BtnHalfPot :: nat where "Msg_BtnHalfPot \<equiv> 54"
abbreviation (input) Msg_BtnPot :: nat where "Msg_BtnPot \<equiv> 55"
abbreviation (input) Msg_BtnAllIn :: nat where "Msg_BtnAllIn \<equiv> 56"
abbreviation (input) Msg_BtnLang :: nat where "Msg_BtnLang \<equiv> 57"
abbreviation (input) Msg_BtnRoomUp :: nat where "Msg_BtnRoomUp \<equiv> 58"
abbreviation (input) Msg_BtnRoomDown :: nat where "Msg_BtnRoomDown \<equiv> 59"
abbreviation (input) Msg_ConnConnecting :: nat where "Msg_ConnConnecting \<equiv> 60"
abbreviation (input) Msg_ConnConnected :: nat where "Msg_ConnConnected \<equiv> 61"
abbreviation (input) Msg_ConnFailed :: nat where "Msg_ConnFailed \<equiv> 62"
abbreviation (input) Msg_ConnDisconnected :: nat where "Msg_ConnDisconnected \<equiv> 63"
abbreviation (input) Msg_ConnectedTo :: nat where "Msg_ConnectedTo \<equiv> 64"
abbreviation (input) Msg_ConnectingTo :: nat where "Msg_ConnectingTo \<equiv> 65"
abbreviation (input) Msg_CouldNotConnect :: nat where "Msg_CouldNotConnect \<equiv> 66"
abbreviation (input) Msg_ConnectionLostShort :: nat where "Msg_ConnectionLostShort \<equiv> 67"
abbreviation (input) Msg_WelcomeUser :: nat where "Msg_WelcomeUser \<equiv> 68"
abbreviation (input) Msg_WelcomeNewAccount :: nat where "Msg_WelcomeNewAccount \<equiv> 69"
abbreviation (input) Msg_ErrWrongPassword :: nat where "Msg_ErrWrongPassword \<equiv> 70"
abbreviation (input) Msg_ErrAlreadyOnline :: nat where "Msg_ErrAlreadyOnline \<equiv> 71"
abbreviation (input) Msg_ErrInvalidPassword :: nat where "Msg_ErrInvalidPassword \<equiv> 72"
abbreviation (input) Msg_RoomListUpdated :: nat where "Msg_RoomListUpdated \<equiv> 73"
abbreviation (input) Msg_TableRosterUpdated :: nat where "Msg_TableRosterUpdated \<equiv> 74"
abbreviation (input) Msg_JoinedRoomLog :: nat where "Msg_JoinedRoomLog \<equiv> 75"
abbreviation (input) Msg_YouAreHost :: nat where "Msg_YouAreHost \<equiv> 76"
abbreviation (input) Msg_YourTurn :: nat where "Msg_YourTurn \<equiv> 77"
abbreviation (input) Msg_HandWonBy :: nat where "Msg_HandWonBy \<equiv> 78"
abbreviation (input) Msg_LeftRoomLog :: nat where "Msg_LeftRoomLog \<equiv> 79"
abbreviation (input) Msg_InLobby :: nat where "Msg_InLobby \<equiv> 80"
abbreviation (input) Msg_ToActSuffix :: nat where "Msg_ToActSuffix \<equiv> 81"
abbreviation (input) Msg_ActionIgnored :: nat where "Msg_ActionIgnored \<equiv> 82"
abbreviation (input) Msg_ActionNotAvailable :: nat where "Msg_ActionNotAvailable \<equiv> 83"
abbreviation (input) Msg_NotConnected :: nat where "Msg_NotConnected \<equiv> 84"
abbreviation (input) Msg_EnterPlayerName :: nat where "Msg_EnterPlayerName \<equiv> 85"
abbreviation (input) Msg_EnterPassword :: nat where "Msg_EnterPassword \<equiv> 86"
abbreviation (input) Msg_NameLengthInvalid :: nat where "Msg_NameLengthInvalid \<equiv> 87"
abbreviation (input) Msg_PasswordRules :: nat where "Msg_PasswordRules \<equiv> 88"
abbreviation (input) Msg_JoiningAs :: nat where "Msg_JoiningAs \<equiv> 89"
abbreviation (input) Msg_Authenticating :: nat where "Msg_Authenticating \<equiv> 90"
abbreviation (input) Msg_InvalidMaxPlayers :: nat where "Msg_InvalidMaxPlayers \<equiv> 91"
abbreviation (input) Msg_RoomNameRequired :: nat where "Msg_RoomNameRequired \<equiv> 92"
abbreviation (input) Msg_InvalidRaiseAmount :: nat where "Msg_InvalidRaiseAmount \<equiv> 93"
abbreviation (input) Msg_RaiseBetween :: nat where "Msg_RaiseBetween \<equiv> 94"
abbreviation (input) Msg_CannotJoinInGame :: nat where "Msg_CannotJoinInGame \<equiv> 95"
abbreviation (input) Msg_SelectRoom :: nat where "Msg_SelectRoom \<equiv> 96"
abbreviation (input) Msg_PhasePreFlop :: nat where "Msg_PhasePreFlop \<equiv> 97"
abbreviation (input) Msg_PhaseFlop :: nat where "Msg_PhaseFlop \<equiv> 98"
abbreviation (input) Msg_PhaseTurn :: nat where "Msg_PhaseTurn \<equiv> 99"
abbreviation (input) Msg_PhaseRiver :: nat where "Msg_PhaseRiver \<equiv> 100"
abbreviation (input) Msg_PhaseShowdown :: nat where "Msg_PhaseShowdown \<equiv> 101"
abbreviation (input) Msg_HandHighCard :: nat where "Msg_HandHighCard \<equiv> 102"
abbreviation (input) Msg_HandPair :: nat where "Msg_HandPair \<equiv> 103"
abbreviation (input) Msg_HandTwoPair :: nat where "Msg_HandTwoPair \<equiv> 104"
abbreviation (input) Msg_HandThreeOfKind :: nat where "Msg_HandThreeOfKind \<equiv> 105"
abbreviation (input) Msg_HandStraight :: nat where "Msg_HandStraight \<equiv> 106"
abbreviation (input) Msg_HandFlush :: nat where "Msg_HandFlush \<equiv> 107"
abbreviation (input) Msg_HandFullHouse :: nat where "Msg_HandFullHouse \<equiv> 108"
abbreviation (input) Msg_HandFourOfKind :: nat where "Msg_HandFourOfKind \<equiv> 109"
abbreviation (input) Msg_HandStraightFlush :: nat where "Msg_HandStraightFlush \<equiv> 110"
abbreviation (input) Msg_PlayerFolded :: nat where "Msg_PlayerFolded \<equiv> 111"
abbreviation (input) Msg_PlayerAllIn :: nat where "Msg_PlayerAllIn \<equiv> 112"
abbreviation (input) Msg_PlayerYou :: nat where "Msg_PlayerYou \<equiv> 113"
abbreviation (input) Msg_PlayerChips :: nat where "Msg_PlayerChips \<equiv> 114"
abbreviation (input) Msg_PlayerBet :: nat where "Msg_PlayerBet \<equiv> 115"
abbreviation (input) Msg_WaitingForBoard :: nat where "Msg_WaitingForBoard \<equiv> 116"
abbreviation (input) Msg_RoomLabel :: nat where "Msg_RoomLabel \<equiv> 117"
abbreviation (input) Msg_RoomInGame :: nat where "Msg_RoomInGame \<equiv> 118"
abbreviation (input) Msg_ToCallSuffix :: nat where "Msg_ToCallSuffix \<equiv> 119"
abbreviation (input) Msg_RaiseRange :: nat where "Msg_RaiseRange \<equiv> 120"
abbreviation (input) Msg_LangEnglish :: nat where "Msg_LangEnglish \<equiv> 121"
abbreviation (input) Msg_LangRussian :: nat where "Msg_LangRussian \<equiv> 122"
abbreviation (input) Msg_PlayerDealer :: nat where "Msg_PlayerDealer \<equiv> 123"
abbreviation (input) Msg_PlayerSmallBlind :: nat where "Msg_PlayerSmallBlind \<equiv> 124"
abbreviation (input) Msg_PlayerBigBlind :: nat where "Msg_PlayerBigBlind \<equiv> 125"
abbreviation (input) Msg_HostLabel :: nat where "Msg_HostLabel \<equiv> 126"
abbreviation (input) Msg_PortLabel :: nat where "Msg_PortLabel \<equiv> 127"
abbreviation (input) Msg_NextHandSoon :: nat where "Msg_NextHandSoon \<equiv> 128"
abbreviation (input) Msg_PreflopPocketPair :: nat where "Msg_PreflopPocketPair \<equiv> 129"
abbreviation (input) Msg_PreflopSuited :: nat where "Msg_PreflopSuited \<equiv> 130"
abbreviation (input) Msg_PreflopBroadway :: nat where "Msg_PreflopBroadway \<equiv> 131"
abbreviation (input) Msg_PreflopConnector :: nat where "Msg_PreflopConnector \<equiv> 132"
abbreviation (input) Msg_PreflopAce :: nat where "Msg_PreflopAce \<equiv> 133"
abbreviation (input) Msg_PreflopHighCard :: nat where "Msg_PreflopHighCard \<equiv> 134"
abbreviation (input) Msg_HeaderRoom :: nat where "Msg_HeaderRoom \<equiv> 135"
abbreviation (input) Msg_ErrorPrefix :: nat where "Msg_ErrorPrefix \<equiv> 136"
abbreviation (input) Msg_BtnCallAmount :: nat where "Msg_BtnCallAmount \<equiv> 137"
abbreviation (input) Msg_Count :: nat where "Msg_Count \<equiv> 138"

definition msg_names :: "string list" where
  "msg_names =
     [''AppTitle'', ''EnterYourName'', ''NameLabel'', ''PasswordLabel'', ''TypeBelow'',
      ''PressJoinWhenReady'', ''WaitingForConnection'', ''ConnectionLostTitle'',
      ''ConnectionLostDetail'', ''PressReconnect'', ''Lobby'', ''NoRoomsYet'', ''CreateRoom'',
      ''MaxPlayersLabel'', ''PressCreateConfirm'', ''BlindsInfo'', ''WaitingForPlayers'',
      ''PlayersAtTable'', ''HostTag'', ''NeedTwoPlayers'', ''PressStartWhenReady'',
      ''WaitingForHostStart'', ''PlayersCount'', ''AutoStartWhenFull'', ''WaitingForGameState'',
      ''PhasePrefix'', ''PotLabel'', ''TableBetLabel'', ''CommunityCards'', ''YourHand'',
      ''HandPrefix'', ''TableLabel'', ''NoPlayers'', ''EventLog'', ''Controls'', ''HotkeyHint'',
      ''LanguageHint'', ''YourTurnBar'', ''WinnerPrefix'', ''PotAmountPrefix'', ''BtnJoin'',
      ''BtnQuit'', ''BtnRefresh'', ''BtnCreate'', ''BtnLeave'', ''BtnStart'', ''BtnReconnect'',
      ''BtnConfirm'', ''BtnCancel'', ''BtnFold'', ''BtnCheck'', ''BtnCall'', ''BtnRaise'',
      ''BtnMin'', ''BtnHalfPot'', ''BtnPot'', ''BtnAllIn'', ''BtnLang'', ''BtnRoomUp'',
      ''BtnRoomDown'', ''ConnConnecting'', ''ConnConnected'', ''ConnFailed'',
      ''ConnDisconnected'', ''ConnectedTo'', ''ConnectingTo'', ''CouldNotConnect'',
      ''ConnectionLostShort'', ''WelcomeUser'', ''WelcomeNewAccount'', ''ErrWrongPassword'',
      ''ErrAlreadyOnline'', ''ErrInvalidPassword'', ''RoomListUpdated'', ''TableRosterUpdated'',
      ''JoinedRoomLog'', ''YouAreHost'', ''YourTurn'', ''HandWonBy'', ''LeftRoomLog'',
      ''InLobby'', ''ToActSuffix'', ''ActionIgnored'', ''ActionNotAvailable'', ''NotConnected'',
      ''EnterPlayerName'', ''EnterPassword'', ''NameLengthInvalid'', ''PasswordRules'',
      ''JoiningAs'', ''Authenticating'', ''InvalidMaxPlayers'', ''RoomNameRequired'',
      ''InvalidRaiseAmount'', ''RaiseBetween'', ''CannotJoinInGame'', ''SelectRoom'',
      ''PhasePreFlop'', ''PhaseFlop'', ''PhaseTurn'', ''PhaseRiver'', ''PhaseShowdown'',
      ''HandHighCard'', ''HandPair'', ''HandTwoPair'', ''HandThreeOfKind'', ''HandStraight'',
      ''HandFlush'', ''HandFullHouse'', ''HandFourOfKind'', ''HandStraightFlush'',
      ''PlayerFolded'', ''PlayerAllIn'', ''PlayerYou'', ''PlayerChips'', ''PlayerBet'',
      ''WaitingForBoard'', ''RoomLabel'', ''RoomInGame'', ''ToCallSuffix'', ''RaiseRange'',
      ''LangEnglish'', ''LangRussian'', ''PlayerDealer'', ''PlayerSmallBlind'',
      ''PlayerBigBlind'', ''HostLabel'', ''PortLabel'', ''NextHandSoon'', ''PreflopPocketPair'',
      ''PreflopSuited'', ''PreflopBroadway'', ''PreflopConnector'', ''PreflopAce'',
      ''PreflopHighCard'', ''HeaderRoom'', ''ErrorPrefix'', ''BtnCallAmount'']"

text \<open>The positions of the names are the numbers used here, and there is one row of the table for each.\<close>

lemma msg_numbers:
  "map (\<lambda>i. msg_names ! i)
     [Msg_AppTitle, Msg_EnterYourName, Msg_NameLabel, Msg_PasswordLabel, Msg_TypeBelow,
      Msg_PressJoinWhenReady, Msg_WaitingForConnection, Msg_ConnectionLostTitle,
      Msg_ConnectionLostDetail, Msg_PressReconnect, Msg_Lobby, Msg_NoRoomsYet, Msg_CreateRoom,
      Msg_MaxPlayersLabel, Msg_PressCreateConfirm, Msg_BlindsInfo, Msg_WaitingForPlayers,
      Msg_PlayersAtTable, Msg_HostTag, Msg_NeedTwoPlayers, Msg_PressStartWhenReady,
      Msg_WaitingForHostStart, Msg_PlayersCount, Msg_AutoStartWhenFull, Msg_WaitingForGameState,
      Msg_PhasePrefix, Msg_PotLabel, Msg_TableBetLabel, Msg_CommunityCards, Msg_YourHand,
      Msg_HandPrefix, Msg_TableLabel, Msg_NoPlayers, Msg_EventLog, Msg_Controls, Msg_HotkeyHint,
      Msg_LanguageHint, Msg_YourTurnBar, Msg_WinnerPrefix, Msg_PotAmountPrefix, Msg_BtnJoin,
      Msg_BtnQuit, Msg_BtnRefresh, Msg_BtnCreate, Msg_BtnLeave, Msg_BtnStart, Msg_BtnReconnect,
      Msg_BtnConfirm, Msg_BtnCancel, Msg_BtnFold, Msg_BtnCheck, Msg_BtnCall, Msg_BtnRaise,
      Msg_BtnMin, Msg_BtnHalfPot, Msg_BtnPot, Msg_BtnAllIn, Msg_BtnLang, Msg_BtnRoomUp,
      Msg_BtnRoomDown, Msg_ConnConnecting, Msg_ConnConnected, Msg_ConnFailed,
      Msg_ConnDisconnected, Msg_ConnectedTo, Msg_ConnectingTo, Msg_CouldNotConnect,
      Msg_ConnectionLostShort, Msg_WelcomeUser, Msg_WelcomeNewAccount, Msg_ErrWrongPassword,
      Msg_ErrAlreadyOnline, Msg_ErrInvalidPassword, Msg_RoomListUpdated, Msg_TableRosterUpdated,
      Msg_JoinedRoomLog, Msg_YouAreHost, Msg_YourTurn, Msg_HandWonBy, Msg_LeftRoomLog,
      Msg_InLobby, Msg_ToActSuffix, Msg_ActionIgnored, Msg_ActionNotAvailable, Msg_NotConnected,
      Msg_EnterPlayerName, Msg_EnterPassword, Msg_NameLengthInvalid, Msg_PasswordRules,
      Msg_JoiningAs, Msg_Authenticating, Msg_InvalidMaxPlayers, Msg_RoomNameRequired,
      Msg_InvalidRaiseAmount, Msg_RaiseBetween, Msg_CannotJoinInGame, Msg_SelectRoom,
      Msg_PhasePreFlop, Msg_PhaseFlop, Msg_PhaseTurn, Msg_PhaseRiver, Msg_PhaseShowdown,
      Msg_HandHighCard, Msg_HandPair, Msg_HandTwoPair, Msg_HandThreeOfKind, Msg_HandStraight,
      Msg_HandFlush, Msg_HandFullHouse, Msg_HandFourOfKind, Msg_HandStraightFlush,
      Msg_PlayerFolded, Msg_PlayerAllIn, Msg_PlayerYou, Msg_PlayerChips, Msg_PlayerBet,
      Msg_WaitingForBoard, Msg_RoomLabel, Msg_RoomInGame, Msg_ToCallSuffix, Msg_RaiseRange,
      Msg_LangEnglish, Msg_LangRussian, Msg_PlayerDealer, Msg_PlayerSmallBlind,
      Msg_PlayerBigBlind, Msg_HostLabel, Msg_PortLabel, Msg_NextHandSoon, Msg_PreflopPocketPair,
      Msg_PreflopSuited, Msg_PreflopBroadway, Msg_PreflopConnector, Msg_PreflopAce,
      Msg_PreflopHighCard, Msg_HeaderRoom, Msg_ErrorPrefix, Msg_BtnCallAmount] = msg_names"
  by (simp add: msg_names_def)


definition bytes :: "nat list \<Rightarrow> string" where
  "bytes bs = map char_of bs"

text \<open>The table, twenty rows at a time.\<close>

definition kTable_0 :: "(string \<times> string) list" where
  "kTable_0 = [
     (''ASCII Poker'',
       bytes [65, 83, 67, 73, 73, 32, 208, 159, 208, 190, 208, 186, 208, 181, 209, 128]),
     (''Enter your name'',
       bytes [208, 146, 208, 178, 208, 181, 208, 180, 208, 184, 209, 130, 208, 181, 32, 208, 184, 208,
       188, 209, 143]),
     (''Name:'',
       bytes [208, 152, 208, 188, 209, 143, 58]),
     (''Password:'',
       bytes [208, 159, 208, 176, 209, 128, 208, 190, 208, 187, 209, 140, 58]),
     (''(type below)'',
       bytes [40, 208, 178, 208, 178, 208, 181, 208, 180, 208, 184, 209, 130, 208, 181, 32, 208, 189,
       208, 184, 208, 182, 208, 181, 41]),
     (''Press Enter or [Join] when ready.'',
       bytes [208, 157, 208, 176, 208, 182, 208, 188, 208, 184, 209, 130, 208, 181, 32, 69, 110, 116,
       101, 114, 32, 208, 184, 208, 187, 208, 184, 32, 91, 208, 146, 208, 190, 208, 185, 209,
       130, 208, 184, 93, 44, 32, 208, 186, 208, 190, 208, 179, 208, 180, 208, 176, 32, 208, 179,
       208, 190, 209, 130, 208, 190, 208, 178, 209, 139, 46]),
     (''Waiting for server connection...'',
       bytes [208, 158, 208, 182, 208, 184, 208, 180, 208, 176, 208, 189, 208, 184, 208, 181, 32, 208,
       191, 208, 190, 208, 180, 208, 186, 208, 187, 209, 142, 209, 135, 208, 181, 208, 189, 208,
       184, 209, 143, 32, 208, 186, 32, 209, 129, 208, 181, 209, 128, 208, 178, 208, 181, 209,
       128, 209, 131, 46, 46, 46]),
     (''Connection lost'',
       bytes [208, 161, 208, 190, 208, 181, 208, 180, 208, 184, 208, 189, 208, 181, 208, 189, 208, 184,
       208, 181, 32, 208, 191, 208, 190, 209, 130, 208, 181, 209, 128, 209, 143, 208, 189, 208,
       190]),
     (''The server closed the connection or the network failed.'',
       bytes [208, 161, 208, 181, 209, 128, 208, 178, 208, 181, 209, 128, 32, 208, 183, 208, 176, 208,
       186, 209, 128, 209, 139, 208, 187, 32, 209, 129, 208, 190, 208, 181, 208, 180, 208, 184,
       208, 189, 208, 181, 208, 189, 208, 184, 208, 181, 32, 208, 184, 208, 187, 208, 184, 32,
       209, 129, 208, 181, 209, 130, 209, 140, 32, 208, 189, 208, 181, 208, 180, 208, 190, 209,
       129, 209, 130, 209, 131, 208, 191, 208, 189, 208, 176, 46]),
     (''Press [Reconnect] to try again.'',
       bytes [208, 157, 208, 176, 208, 182, 208, 188, 208, 184, 209, 130, 208, 181, 32, 91, 208, 159,
       208, 181, 209, 128, 208, 181, 208, 191, 208, 190, 208, 180, 208, 186, 208, 187, 209, 142,
       209, 135, 208, 184, 209, 130, 209, 140, 93, 32, 208, 180, 208, 187, 209, 143, 32, 208,
       191, 208, 190, 208, 178, 209, 130, 208, 190, 209, 128, 208, 189, 208, 190, 208, 185, 32,
       208, 191, 208, 190, 208, 191, 209, 139, 209, 130, 208, 186, 208, 184, 46]),
     (''Lobby'',
       bytes [208, 155, 208, 190, 208, 177, 208, 177, 208, 184]),
     (''No rooms yet. Refresh or create one.'',
       bytes [208, 154, 208, 190, 208, 188, 208, 189, 208, 176, 209, 130, 32, 208, 191, 208, 190, 208,
       186, 208, 176, 32, 208, 189, 208, 181, 209, 130, 46, 32, 208, 158, 208, 177, 208, 189,
       208, 190, 208, 178, 208, 184, 209, 130, 208, 181, 32, 209, 129, 208, 191, 208, 184, 209,
       129, 208, 190, 208, 186, 32, 208, 184, 208, 187, 208, 184, 32, 209, 129, 208, 190, 208,
       183, 208, 180, 208, 176, 208, 185, 209, 130, 208, 181, 46]),
     (''Create room'',
       bytes [208, 161, 208, 190, 208, 183, 208, 180, 208, 176, 209, 130, 209, 140, 32, 208, 186, 208,
       190, 208, 188, 208, 189, 208, 176, 209, 130, 209, 131]),
     (''Max players:'',
       bytes [208, 156, 208, 176, 208, 186, 209, 129, 46, 32, 208, 184, 208, 179, 209, 128, 208, 190,
       208, 186, 208, 190, 208, 178, 58]),
     (''Press Enter on [Create] to confirm'',
       bytes [208, 157, 208, 176, 208, 182, 208, 188, 208, 184, 209, 130, 208, 181, 32, 69, 110, 116,
       101, 114, 32, 208, 189, 208, 176, 32, 91, 208, 161, 208, 190, 208, 183, 208, 180, 208,
       176, 209, 130, 209, 140, 93, 32, 208, 180, 208, 187, 209, 143, 32, 208, 191, 208, 190,
       208, 180, 209, 130, 208, 178, 208, 181, 209, 128, 208, 182, 208, 180, 208, 181, 208, 189,
       208, 184, 209, 143]),
     (''Blinds: {0}/{1}  |  Starting stack: {2}'',
       bytes [208, 145, 208, 187, 208, 176, 208, 185, 208, 189, 208, 180, 209, 139, 58, 32, 123, 48,
       125, 47, 123, 49, 125, 32, 32, 124, 32, 32, 208, 161, 209, 130, 208, 176, 209, 128, 209,
       130, 208, 190, 208, 178, 209, 139, 208, 185, 32, 209, 129, 209, 130, 208, 181, 208, 186,
       58, 32, 123, 50, 125]),
     (''Waiting for players'',
       bytes [208, 158, 208, 182, 208, 184, 208, 180, 208, 176, 208, 189, 208, 184, 208, 181, 32, 208,
       184, 208, 179, 209, 128, 208, 190, 208, 186, 208, 190, 208, 178]),
     (''Players at the table:'',
       bytes [208, 152, 208, 179, 209, 128, 208, 190, 208, 186, 208, 184, 32, 208, 183, 208, 176, 32,
       209, 129, 209, 130, 208, 190, 208, 187, 208, 190, 208, 188, 58]),
     ('' [host]'',
       bytes [32, 91, 209, 133, 208, 190, 209, 129, 209, 130, 93]),
     (''Need at least 2 players to start.'',
       bytes [208, 157, 209, 131, 208, 182, 208, 189, 208, 190, 32, 208, 188, 208, 184, 208, 189, 208,
       184, 208, 188, 209, 131, 208, 188, 32, 50, 32, 208, 184, 208, 179, 209, 128, 208, 190,
       208, 186, 208, 176, 32, 208, 180, 208, 187, 209, 143, 32, 209, 129, 209, 130, 208, 176,
       209, 128, 209, 130, 208, 176, 46])]"

definition kTable_20 :: "(string \<times> string) list" where
  "kTable_20 = [
     (''Press [Start] when ready.'',
       bytes [208, 157, 208, 176, 208, 182, 208, 188, 208, 184, 209, 130, 208, 181, 32, 91, 208, 161,
       209, 130, 208, 176, 209, 128, 209, 130, 93, 44, 32, 208, 186, 208, 190, 208, 179, 208,
       180, 208, 176, 32, 208, 179, 208, 190, 209, 130, 208, 190, 208, 178, 209, 139, 46]),
     (''Waiting for {0} to start.'',
       bytes [208, 158, 208, 182, 208, 184, 208, 180, 208, 176, 208, 189, 208, 184, 208, 181, 32, 209,
       129, 209, 130, 208, 176, 209, 128, 209, 130, 208, 176, 32, 208, 190, 209, 130, 32, 123,
       48, 125, 46]),
     (''{0}/{1} players'',
       bytes [123, 48, 125, 47, 123, 49, 125, 32, 208, 184, 208, 179, 209, 128, 208, 190, 208, 186, 208,
       190, 208, 178]),
     (''Game also auto-starts when the room is full.'',
       bytes [208, 152, 208, 179, 209, 128, 208, 176, 32, 209, 130, 208, 176, 208, 186, 208, 182, 208,
       181, 32, 209, 129, 209, 130, 208, 176, 209, 128, 209, 130, 209, 131, 208, 181, 209, 130,
       32, 208, 176, 208, 178, 209, 130, 208, 190, 208, 188, 208, 176, 209, 130, 208, 184, 209,
       135, 208, 181, 209, 129, 208, 186, 208, 184, 32, 208, 191, 209, 128, 208, 184, 32, 208,
       183, 208, 176, 208, 191, 208, 190, 208, 187, 208, 189, 208, 181, 208, 189, 208, 184, 208,
       184, 32, 208, 186, 208, 190, 208, 188, 208, 189, 208, 176, 209, 130, 209, 139, 46]),
     (''Waiting for game state...'',
       bytes [208, 158, 208, 182, 208, 184, 208, 180, 208, 176, 208, 189, 208, 184, 208, 181, 32, 209,
       129, 208, 190, 209, 129, 209, 130, 208, 190, 209, 143, 208, 189, 208, 184, 209, 143, 32,
       208, 184, 208, 179, 209, 128, 209, 139, 46, 46, 46]),
     (''Phase: {0}'',
       bytes [208, 164, 208, 176, 208, 183, 208, 176, 58, 32, 123, 48, 125]),
     (''Pot:'',
       bytes [208, 145, 208, 176, 208, 189, 208, 186, 58]),
     (''Table bet:'',
       bytes [208, 161, 209, 130, 208, 176, 208, 178, 208, 186, 208, 176, 32, 209, 129, 209, 130, 208,
       190, 208, 187, 208, 176, 58]),
     (''Community cards:'',
       bytes [208, 158, 208, 177, 209, 137, 208, 184, 208, 181, 32, 208, 186, 208, 176, 209, 128, 209,
       130, 209, 139, 58]),
     (''Your hand:'',
       bytes [208, 146, 208, 176, 209, 136, 208, 176, 32, 209, 128, 209, 131, 208, 186, 208, 176, 58]),
     (''Hand:'',
       bytes [208, 154, 208, 190, 208, 188, 208, 177, 208, 184, 208, 189, 208, 176, 209, 134, 208, 184,
       209, 143, 58]),
     (''Table:'',
       bytes [208, 161, 209, 130, 208, 190, 208, 187, 58]),
     (''(no players)'',
       bytes [40, 208, 189, 208, 181, 209, 130, 32, 208, 184, 208, 179, 209, 128, 208, 190, 208, 186,
       208, 190, 208, 178, 41]),
     (''Event log'',
       bytes [208, 150, 209, 131, 209, 128, 208, 189, 208, 176, 208, 187, 32, 209, 129, 208, 190, 208,
       177, 209, 139, 209, 130, 208, 184, 208, 185]),
     (''Controls:'',
       bytes [208, 163, 208, 191, 209, 128, 208, 176, 208, 178, 208, 187, 208, 181, 208, 189, 208, 184,
       208, 181, 58]),
     (''Lobby: j/k or Up/Down  |  Game: f/c/r  |  Log: [ ]  |  Language: L'',
       bytes [208, 155, 208, 190, 208, 177, 208, 177, 208, 184, 58, 32, 106, 47, 107, 32, 32, 124, 32,
       32, 208, 152, 208, 179, 209, 128, 208, 176, 58, 32, 102, 47, 99, 47, 114, 32, 32, 124, 32,
       32, 208, 155, 208, 190, 208, 179, 58, 32, 91, 32, 93, 32, 32, 124, 32, 32, 208, 175, 208,
       183, 209, 139, 208, 186, 58, 32, 76, 32, 40, 208, 189, 208, 181, 32, 208, 178, 32, 208,
       191, 208, 190, 208, 187, 208, 181, 32, 208, 178, 208, 178, 208, 190, 208, 180, 208, 176, 41]),
     (''Language: {0}  [L] toggle'',
       bytes [208, 175, 208, 183, 209, 139, 208, 186, 58, 32, 123, 48, 125, 32, 32, 91, 76, 93, 32, 208,
       191, 208, 181, 209, 128, 208, 181, 208, 186, 208, 187, 209, 142, 209, 135, 208, 184, 209,
       130, 209, 140]),
     (''YOUR TURN  |  Stack: {0}'',
       bytes [208, 146, 208, 144, 208, 168, 32, 208, 165, 208, 158, 208, 148, 32, 32, 124, 32, 32, 208,
       161, 209, 130, 208, 181, 208, 186, 58, 32, 123, 48, 125]),
     (''Winner:'',
       bytes [208, 159, 208, 190, 208, 177, 208, 181, 208, 180, 208, 184, 209, 130, 208, 181, 208, 187,
       209, 140, 58]),
     (''Pot:'',
       bytes [208, 145, 208, 176, 208, 189, 208, 186, 58])]"

definition kTable_40 :: "(string \<times> string) list" where
  "kTable_40 = [
     ('' Join '',
       bytes [32, 208, 146, 208, 190, 208, 185, 209, 130, 208, 184, 32]),
     ('' Quit '',
       bytes [32, 208, 146, 209, 139, 209, 133, 208, 190, 208, 180, 32]),
     ('' Refresh '',
       bytes [32, 208, 158, 208, 177, 208, 189, 208, 190, 208, 178, 208, 184, 209, 130, 209, 140, 32]),
     ('' Create '',
       bytes [32, 208, 161, 208, 190, 208, 183, 208, 180, 208, 176, 209, 130, 209, 140, 32]),
     ('' Leave '',
       bytes [32, 208, 159, 208, 190, 208, 186, 208, 184, 208, 189, 209, 131, 209, 130, 209, 140, 32]),
     ('' Start '',
       bytes [32, 208, 161, 209, 130, 208, 176, 209, 128, 209, 130, 32]),
     ('' Reconnect '',
       bytes [32, 208, 159, 208, 181, 209, 128, 208, 181, 208, 191, 208, 190, 208, 180, 208, 186, 208,
       187, 209, 142, 209, 135, 208, 184, 209, 130, 209, 140, 32]),
     ('' Confirm '',
       bytes [32, 208, 159, 208, 190, 208, 180, 209, 130, 208, 178, 208, 181, 209, 128, 208, 180, 208,
       184, 209, 130, 209, 140, 32]),
     ('' Cancel '',
       bytes [32, 208, 158, 209, 130, 208, 188, 208, 181, 208, 189, 208, 176, 32]),
     ('' Fold '',
       bytes [32, 208, 164, 208, 190, 208, 187, 208, 180, 32]),
     ('' Check '',
       bytes [32, 208, 167, 208, 181, 208, 186, 32]),
     ('' Call '',
       bytes [32, 208, 154, 208, 190, 208, 187, 208, 187, 32]),
     ('' Raise '',
       bytes [32, 208, 160, 208, 181, 208, 185, 208, 183, 32]),
     ('' Min '',
       bytes [32, 208, 156, 208, 184, 208, 189, 32]),
     ('' 1/2 '',
       '' 1/2 ''),
     ('' Pot '',
       bytes [32, 208, 145, 208, 176, 208, 189, 208, 186, 32]),
     ('' All-in '',
       bytes [32, 208, 158, 208, 187, 208, 187, 45, 208, 184, 208, 189, 32]),
     ('' Lang '',
       bytes [32, 208, 175, 208, 183, 209, 139, 208, 186, 32]),
     (bytes [32, 226, 150, 178, 32],
       bytes [32, 226, 150, 178, 32]),
     (bytes [32, 226, 150, 188, 32],
       bytes [32, 226, 150, 188, 32])]"

definition kTable_60 :: "(string \<times> string) list" where
  "kTable_60 = [
     (''Connecting...'',
       bytes [208, 159, 208, 190, 208, 180, 208, 186, 208, 187, 209, 142, 209, 135, 208, 181, 208, 189,
       208, 184, 208, 181, 46, 46, 46]),
     (''Connected'',
       bytes [208, 159, 208, 190, 208, 180, 208, 186, 208, 187, 209, 142, 209, 135, 208, 181, 208, 189,
       208, 190]),
     (''Connection failed'',
       bytes [208, 158, 209, 136, 208, 184, 208, 177, 208, 186, 208, 176, 32, 208, 191, 208, 190, 208,
       180, 208, 186, 208, 187, 209, 142, 209, 135, 208, 181, 208, 189, 208, 184, 209, 143]),
     (''Disconnected'',
       bytes [208, 158, 209, 130, 208, 186, 208, 187, 209, 142, 209, 135, 208, 181, 208, 189, 208, 190]),
     (''Connected to {0}'',
       bytes [208, 159, 208, 190, 208, 180, 208, 186, 208, 187, 209, 142, 209, 135, 208, 181, 208, 189,
       208, 190, 32, 208, 186, 32, 123, 48, 125]),
     (''Connecting to {0}...'',
       bytes [208, 159, 208, 190, 208, 180, 208, 186, 208, 187, 209, 142, 209, 135, 208, 181, 208, 189,
       208, 184, 208, 181, 32, 208, 186, 32, 123, 48, 125, 46, 46, 46]),
     (''Could not connect to {0}'',
       bytes [208, 157, 208, 181, 32, 209, 131, 208, 180, 208, 176, 208, 187, 208, 190, 209, 129, 209,
       140, 32, 208, 191, 208, 190, 208, 180, 208, 186, 208, 187, 209, 142, 209, 135, 208, 184,
       209, 130, 209, 140, 209, 129, 209, 143, 32, 208, 186, 32, 123, 48, 125]),
     (''Connection lost'',
       bytes [208, 161, 208, 190, 208, 181, 208, 180, 208, 184, 208, 189, 208, 181, 208, 189, 208, 184,
       208, 181, 32, 208, 191, 208, 190, 209, 130, 208, 181, 209, 128, 209, 143, 208, 189, 208,
       190]),
     (''Welcome, {0} ({1} chips)'',
       bytes [208, 148, 208, 190, 208, 177, 209, 128, 208, 190, 32, 208, 191, 208, 190, 208, 182, 208,
       176, 208, 187, 208, 190, 208, 178, 208, 176, 209, 130, 209, 140, 44, 32, 123, 48, 125, 32,
       40, 123, 49, 125, 32, 209, 132, 208, 184, 209, 136, 208, 181, 208, 186, 41]),
     (''Account created. Welcome, {0} ({1} chips)'',
       bytes [208, 144, 208, 186, 208, 186, 208, 176, 209, 131, 208, 189, 209, 130, 32, 209, 129, 208,
       190, 208, 183, 208, 180, 208, 176, 208, 189, 46, 32, 208, 148, 208, 190, 208, 177, 209,
       128, 208, 190, 32, 208, 191, 208, 190, 208, 182, 208, 176, 208, 187, 208, 190, 208, 178,
       208, 176, 209, 130, 209, 140, 44, 32, 123, 48, 125, 32, 40, 123, 49, 125, 32, 209, 132,
       208, 184, 209, 136, 208, 181, 208, 186, 41]),
     (''Wrong password'',
       bytes [208, 157, 208, 181, 208, 178, 208, 181, 209, 128, 208, 189, 209, 139, 208, 185, 32, 208,
       191, 208, 176, 209, 128, 208, 190, 208, 187, 209, 140]),
     (''Account is already online'',
       bytes [208, 144, 208, 186, 208, 186, 208, 176, 209, 131, 208, 189, 209, 130, 32, 209, 131, 208,
       182, 208, 181, 32, 208, 178, 32, 209, 129, 208, 181, 209, 130, 208, 184]),
     (''Password must be 4-128 characters with at least one letter and one digit'',
       bytes [208, 159, 208, 176, 209, 128, 208, 190, 208, 187, 209, 140, 58, 32, 52, 226, 128, 147, 49,
       50, 56, 32, 209, 129, 208, 184, 208, 188, 208, 178, 208, 190, 208, 187, 208, 190, 208,
       178, 44, 32, 208, 188, 208, 184, 208, 189, 208, 184, 208, 188, 209, 131, 208, 188, 32,
       208, 190, 208, 180, 208, 189, 208, 176, 32, 208, 177, 209, 131, 208, 186, 208, 178, 208,
       176, 32, 208, 184, 32, 208, 190, 208, 180, 208, 189, 208, 176, 32, 209, 134, 208, 184,
       209, 132, 209, 128, 208, 176]),
     (''Room list updated ({0} rooms)'',
       bytes [208, 161, 208, 191, 208, 184, 209, 129, 208, 190, 208, 186, 32, 208, 186, 208, 190, 208,
       188, 208, 189, 208, 176, 209, 130, 32, 208, 190, 208, 177, 208, 189, 208, 190, 208, 178,
       208, 187, 209, 145, 208, 189, 32, 40, 123, 48, 125, 32, 208, 186, 208, 190, 208, 188, 208,
       189, 46, 41]),
     (''Table roster updated'',
       bytes [208, 161, 208, 190, 209, 129, 209, 130, 208, 176, 208, 178, 32, 209, 129, 209, 130, 208,
       190, 208, 187, 208, 176, 32, 208, 190, 208, 177, 208, 189, 208, 190, 208, 178, 208, 187,
       209, 145, 208, 189]),
     (''Joined room {0} ({1})'',
       bytes [208, 146, 209, 133, 208, 190, 208, 180, 32, 208, 178, 32, 208, 186, 208, 190, 208, 188,
       208, 189, 208, 176, 209, 130, 209, 131, 32, 123, 48, 125, 32, 40, 123, 49, 125, 41]),
     (bytes [89, 111, 117, 32, 97, 114, 101, 32, 116, 104, 101, 32, 104, 111, 115, 116, 32, 226, 128,
       148, 32, 115, 116, 97, 114, 116, 32, 119, 104, 101, 110, 32, 114, 101, 97, 100, 121],
       bytes [208, 146, 209, 139, 32, 209, 133, 208, 190, 209, 129, 209, 130, 32, 226, 128, 148, 32,
       208, 189, 208, 176, 209, 135, 208, 189, 208, 184, 209, 130, 208, 181, 44, 32, 208, 186,
       208, 190, 208, 179, 208, 180, 208, 176, 32, 208, 179, 208, 190, 209, 130, 208, 190, 208,
       178, 209, 139]),
     (''Your turn!'',
       bytes [208, 146, 208, 176, 209, 136, 32, 209, 133, 208, 190, 208, 180, 33]),
     (''Hand won by {0} ({1} chips)'',
       bytes [208, 160, 208, 176, 208, 183, 208, 180, 208, 176, 209, 135, 209, 131, 32, 208, 178, 209,
       139, 208, 184, 208, 179, 209, 128, 208, 176, 208, 187, 32, 123, 48, 125, 32, 40, 123, 49,
       125, 32, 209, 132, 208, 184, 209, 136, 208, 181, 208, 186, 41]),
     (''Left room {0}'',
       bytes [208, 159, 208, 190, 208, 186, 208, 184, 208, 189, 209, 131, 208, 187, 208, 184, 32, 208,
       186, 208, 190, 208, 188, 208, 189, 208, 176, 209, 130, 209, 131, 32, 123, 48, 125])]"

definition kTable_80 :: "(string \<times> string) list" where
  "kTable_80 = [
     (''In lobby'',
       bytes [208, 146, 32, 208, 187, 208, 190, 208, 177, 208, 177, 208, 184]),
     (''{0} to act'',
       bytes [208, 165, 208, 190, 208, 180, 58, 32, 123, 48, 125]),
     (''Action ignored: not your turn'',
       bytes [208, 148, 208, 181, 208, 185, 209, 129, 209, 130, 208, 178, 208, 184, 208, 181, 32, 208,
       190, 209, 130, 208, 186, 208, 187, 208, 190, 208, 189, 208, 181, 208, 189, 208, 190, 58,
       32, 208, 189, 208, 181, 32, 208, 178, 208, 176, 209, 136, 32, 209, 133, 208, 190, 208, 180]),
     (''Action not available: {0}'',
       bytes [208, 148, 208, 181, 208, 185, 209, 129, 209, 130, 208, 178, 208, 184, 208, 181, 32, 208,
       189, 208, 181, 208, 180, 208, 190, 209, 129, 209, 130, 209, 131, 208, 191, 208, 189, 208,
       190, 58, 32, 123, 48, 125]),
     (''Not connected to server'',
       bytes [208, 157, 208, 181, 209, 130, 32, 208, 191, 208, 190, 208, 180, 208, 186, 208, 187, 209,
       142, 209, 135, 208, 181, 208, 189, 208, 184, 209, 143, 32, 208, 186, 32, 209, 129, 208,
       181, 209, 128, 208, 178, 208, 181, 209, 128, 209, 131]),
     (''Enter a player name'',
       bytes [208, 146, 208, 178, 208, 181, 208, 180, 208, 184, 209, 130, 208, 181, 32, 208, 184, 208,
       188, 209, 143, 32, 208, 184, 208, 179, 209, 128, 208, 190, 208, 186, 208, 176]),
     (''Enter a password'',
       bytes [208, 146, 208, 178, 208, 181, 208, 180, 208, 184, 209, 130, 208, 181, 32, 208, 191, 208,
       176, 209, 128, 208, 190, 208, 187, 209, 140]),
     (''Name must be 1-32 characters'',
       bytes [208, 152, 208, 188, 209, 143, 58, 32, 208, 190, 209, 130, 32, 49, 32, 208, 180, 208, 190,
       32, 51, 50, 32, 209, 129, 208, 184, 208, 188, 208, 178, 208, 190, 208, 187, 208, 190, 208,
       178]),
     (''Password must be 4-128 characters with at least one letter and one digit'',
       bytes [208, 159, 208, 176, 209, 128, 208, 190, 208, 187, 209, 140, 58, 32, 52, 226, 128, 147, 49,
       50, 56, 32, 209, 129, 208, 184, 208, 188, 208, 178, 208, 190, 208, 187, 208, 190, 208,
       178, 44, 32, 208, 188, 208, 184, 208, 189, 208, 184, 208, 188, 209, 131, 208, 188, 32,
       208, 190, 208, 180, 208, 189, 208, 176, 32, 208, 177, 209, 131, 208, 186, 208, 178, 208,
       176, 32, 208, 184, 32, 208, 190, 208, 180, 208, 189, 208, 176, 32, 209, 134, 208, 184,
       209, 132, 209, 128, 208, 176]),
     (''Joining as {0}...'',
       bytes [208, 146, 209, 133, 208, 190, 208, 180, 32, 208, 186, 208, 176, 208, 186, 32, 123, 48,
       125, 46, 46, 46]),
     (''Authenticating...'',
       bytes [208, 144, 209, 131, 209, 130, 208, 181, 208, 189, 209, 130, 208, 184, 209, 132, 208, 184,
       208, 186, 208, 176, 209, 134, 208, 184, 209, 143, 46, 46, 46]),
     (''Invalid max players value'',
       bytes [208, 157, 208, 181, 208, 186, 208, 190, 209, 128, 209, 128, 208, 181, 208, 186, 209, 130,
       208, 189, 208, 190, 208, 181, 32, 209, 135, 208, 184, 209, 129, 208, 187, 208, 190, 32,
       208, 184, 208, 179, 209, 128, 208, 190, 208, 186, 208, 190, 208, 178]),
     (''Room name required, max players 2-255'',
       bytes [208, 157, 209, 131, 208, 182, 208, 189, 208, 190, 32, 208, 184, 208, 188, 209, 143, 32,
       208, 186, 208, 190, 208, 188, 208, 189, 208, 176, 209, 130, 209, 139, 44, 32, 208, 184,
       208, 179, 209, 128, 208, 190, 208, 186, 208, 190, 208, 178, 32, 50, 226, 128, 147, 50, 53,
       53]),
     (''Invalid raise amount'',
       bytes [208, 157, 208, 181, 208, 186, 208, 190, 209, 128, 209, 128, 208, 181, 208, 186, 209, 130,
       208, 189, 208, 176, 209, 143, 32, 209, 129, 209, 131, 208, 188, 208, 188, 208, 176, 32,
       209, 128, 208, 181, 208, 185, 208, 183, 208, 176]),
     (''Raise must be between {0} and {1}'',
       bytes [208, 160, 208, 181, 208, 185, 208, 183, 32, 208, 190, 209, 130, 32, 123, 48, 125, 32, 208,
       180, 208, 190, 32, 123, 49, 125]),
     (bytes [67, 97, 110, 110, 111, 116, 32, 106, 111, 105, 110, 32, 226, 128, 148, 32, 103, 97, 109,
       101, 32, 97, 108, 114, 101, 97, 100, 121, 32, 105, 110, 32, 112, 114, 111, 103, 114, 101,
       115, 115],
       bytes [208, 157, 208, 181, 208, 187, 209, 140, 208, 183, 209, 143, 32, 208, 178, 208, 190, 208,
       185, 209, 130, 208, 184, 32, 226, 128, 148, 32, 208, 184, 208, 179, 209, 128, 208, 176,
       32, 209, 131, 208, 182, 208, 181, 32, 208, 184, 208, 180, 209, 145, 209, 130]),
     (''Select a room to join'',
       bytes [208, 146, 209, 139, 208, 177, 208, 181, 209, 128, 208, 184, 209, 130, 208, 181, 32, 208,
       186, 208, 190, 208, 188, 208, 189, 208, 176, 209, 130, 209, 131]),
     (''Pre-Flop'',
       bytes [208, 159, 209, 128, 208, 181, 209, 132, 208, 187, 208, 190, 208, 191]),
     (''Flop'',
       bytes [208, 164, 208, 187, 208, 190, 208, 191]),
     (''Turn'',
       bytes [208, 162, 209, 145, 209, 128, 208, 189])]"

definition kTable_100 :: "(string \<times> string) list" where
  "kTable_100 = [
     (''River'',
       bytes [208, 160, 208, 184, 208, 178, 208, 181, 209, 128]),
     (''Showdown'',
       bytes [208, 168, 208, 190, 209, 131, 208, 180, 208, 176, 209, 131, 208, 189]),
     (''High card'',
       bytes [208, 161, 209, 130, 208, 176, 209, 128, 209, 136, 208, 176, 209, 143, 32, 208, 186, 208,
       176, 209, 128, 209, 130, 208, 176]),
     (''Pair'',
       bytes [208, 159, 208, 176, 209, 128, 208, 176]),
     (''Two pair'',
       bytes [208, 148, 208, 178, 208, 181, 32, 208, 191, 208, 176, 209, 128, 209, 139]),
     (''Three of a kind'',
       bytes [208, 162, 209, 128, 208, 190, 208, 185, 208, 186, 208, 176]),
     (''Straight'',
       bytes [208, 161, 209, 130, 209, 128, 208, 184, 209, 130]),
     (''Flush'',
       bytes [208, 164, 208, 187, 208, 181, 209, 136]),
     (''Full house'',
       bytes [208, 164, 209, 131, 208, 187, 208, 187, 45, 209, 133, 208, 176, 209, 131, 209, 129]),
     (''Four of a kind'',
       bytes [208, 154, 208, 176, 209, 128, 208, 181]),
     (''Straight flush'',
       bytes [208, 161, 209, 130, 209, 128, 208, 184, 209, 130, 45, 209, 132, 208, 187, 208, 181, 209,
       136]),
     ('' [fold]'',
       bytes [32, 91, 209, 132, 208, 190, 208, 187, 208, 180, 93]),
     ('' [all-in]'',
       bytes [32, 91, 208, 190, 208, 187, 208, 187, 45, 208, 184, 208, 189, 93]),
     ('' (you)'',
       bytes [32, 40, 208, 178, 209, 139, 41]),
     ('' chips'',
       bytes [32, 209, 132, 208, 184, 209, 136, 208, 181, 208, 186]),
     ('' bet:'',
       bytes [32, 209, 129, 209, 130, 208, 176, 208, 178, 208, 186, 208, 176, 58]),
     (''Waiting for board...'',
       bytes [208, 158, 208, 182, 208, 184, 208, 180, 208, 176, 208, 189, 208, 184, 208, 181, 32, 208,
       177, 208, 190, 209, 128, 208, 180, 208, 176, 46, 46, 46]),
     (''Room {0}: {1}  [{2}/{3}]'',
       bytes [208, 154, 208, 190, 208, 188, 208, 189, 208, 176, 209, 130, 208, 176, 32, 123, 48, 125,
       58, 32, 123, 49, 125, 32, 32, 91, 123, 50, 125, 47, 123, 51, 125, 93]),
     (''  (in game)'',
       bytes [32, 32, 40, 208, 178, 32, 208, 184, 208, 179, 209, 128, 208, 181, 41]),
     (''  |  To call: {0}'',
       bytes [32, 32, 124, 32, 32, 208, 154, 208, 190, 208, 187, 208, 187, 58, 32, 123, 48, 125])]"

definition kTable_120 :: "(string \<times> string) list" where
  "kTable_120 = [
     (''  |  Raise {0}-{1}'',
       bytes [32, 32, 124, 32, 32, 208, 160, 208, 181, 208, 185, 208, 183, 32, 123, 48, 125, 45, 123,
       49, 125]),
     (''English'',
       ''English''),
     (bytes [208, 160, 209, 131, 209, 129, 209, 129, 208, 186, 208, 184, 208, 185],
       bytes [208, 160, 209, 131, 209, 129, 209, 129, 208, 186, 208, 184, 208, 185]),
     ('' [D]'',
       bytes [32, 91, 208, 148, 93]),
     ('' [SB]'',
       bytes [32, 91, 208, 156, 208, 145, 93]),
     ('' [BB]'',
       bytes [32, 91, 208, 145, 208, 145, 93]),
     (''Host:'',
       bytes [208, 165, 208, 190, 209, 129, 209, 130, 58]),
     (''Port:'',
       bytes [208, 159, 208, 190, 209, 128, 209, 130, 58]),
     (''Next hand starting...'',
       bytes [208, 161, 208, 187, 208, 181, 208, 180, 209, 131, 209, 142, 209, 137, 208, 176, 209, 143,
       32, 209, 128, 208, 176, 208, 183, 208, 180, 208, 176, 209, 135, 208, 176, 46, 46, 46]),
     (''Pocket {0}s'',
       bytes [208, 154, 208, 176, 209, 128, 208, 188, 208, 176, 208, 189, 208, 189, 209, 139, 208, 181,
       32, 123, 48, 125]),
     (''Suited {0}'',
       bytes [208, 158, 208, 180, 208, 189, 208, 190, 208, 188, 208, 176, 209, 129, 209, 130, 208, 189,
       209, 139, 208, 181, 32, 123, 48, 125]),
     (''Broadway cards'',
       bytes [208, 145, 209, 128, 208, 190, 208, 180, 208, 178, 208, 181, 208, 185, 208, 189, 209, 139,
       208, 181, 32, 208, 186, 208, 176, 209, 128, 209, 130, 209, 139]),
     (''Connected cards'',
       bytes [208, 161, 208, 178, 209, 143, 208, 183, 208, 176, 208, 189, 208, 189, 209, 139, 208, 181,
       32, 208, 186, 208, 176, 209, 128, 209, 130, 209, 139]),
     (''Ace high'',
       bytes [208, 161, 209, 130, 208, 176, 209, 128, 209, 136, 208, 184, 208, 185, 32, 209, 130, 209,
       131, 208, 183]),
     (''High card hand'',
       bytes [208, 161, 209, 130, 208, 176, 209, 128, 209, 136, 208, 176, 209, 143, 32, 208, 186, 208,
       176, 209, 128, 209, 130, 208, 176]),
     (''Room {0}'',
       bytes [208, 154, 208, 190, 208, 188, 208, 189, 208, 176, 209, 130, 208, 176, 32, 123, 48, 125]),
     (''Error: {0}'',
       bytes [208, 158, 209, 136, 208, 184, 208, 177, 208, 186, 208, 176, 58, 32, 123, 48, 125]),
     ('' Call {0} '',
       bytes [32, 208, 154, 208, 190, 208, 187, 208, 187, 32, 123, 48, 125, 32])]"

definition kTable :: "(string \<times> string) list" where
  "kTable = kTable_0 @ kTable_20 @ kTable_40 @ kTable_60 @ 
     kTable_80 @ kTable_100 @ kTable_120"

lemma length_kTables:
  "length kTable_0 = 20"
  "length kTable_20 = 20"
  "length kTable_40 = 20"
  "length kTable_60 = 20"
  "length kTable_80 = 20"
  "length kTable_100 = 20"
  "length kTable_120 = 18"
  by (simp_all add: kTable_0_def kTable_20_def kTable_40_def kTable_60_def 
      kTable_80_def kTable_100_def kTable_120_def)

lemma table_rows: "length kTable = length msg_names" "length kTable = Msg_Count"
  by (simp_all add: kTable_def length_kTables msg_names_def)

section \<open>Filling in arguments\<close>

text \<open>\<open>replace_all\<close>: it replaces the first occurrence.\<close>

fun replace_all :: "string \<Rightarrow> string \<Rightarrow> string \<Rightarrow> string" where
  "replace_all [] placeholder v = (if placeholder = [] then v else [])"
| "replace_all (c # cs) placeholder v =
     (if take (length placeholder) (c # cs) = placeholder
      then v @ drop (length placeholder) (c # cs) else c # replace_all cs placeholder v)"

definition apply_args :: "string \<Rightarrow> string \<Rightarrow> string \<Rightarrow> string \<Rightarrow> string \<Rightarrow> string" where
  "apply_args txt arg0 arg1 arg2 arg3 =
     (let txt = (if arg0 \<noteq> [] then replace_all txt ''{0}'' arg0 else txt);
          txt = (if arg1 \<noteq> [] then replace_all txt ''{1}'' arg1 else txt);
          txt = (if arg2 \<noteq> [] then replace_all txt ''{2}'' arg2 else txt);
          txt = (if arg3 \<noteq> [] then replace_all txt ''{3}'' arg3 else txt)
      in txt)"

definition parse_language :: "string \<Rightarrow> language" where
  "parse_language code =
     (if code = ''ru'' \<or> code = ''RU'' \<or> code = ''russian'' then Russian else English)"

definition language_code :: "language \<Rightarrow> string" where
  "language_code lang = (if lang = Russian then ''ru'' else ''en'')"

definition tr :: "language \<Rightarrow> nat \<Rightarrow> string" where
  "tr lang i =
     (if i \<ge> length kTable then ''?''
      else case lang of English \<Rightarrow> fst (kTable ! i) | Russian \<Rightarrow> snd (kTable ! i))"

definition language_display_name :: "language \<Rightarrow> language \<Rightarrow> string" where
  "language_display_name lang l = tr lang (if l = Russian then Msg_LangRussian else Msg_LangEnglish)"

definition tr1 :: "language \<Rightarrow> nat \<Rightarrow> string \<Rightarrow> string" where
  "tr1 lang i arg0 = apply_args (tr lang i) arg0 [] [] []"

definition tr2 :: "language \<Rightarrow> nat \<Rightarrow> string \<Rightarrow> string \<Rightarrow> string" where
  "tr2 lang i arg0 arg1 = apply_args (tr lang i) arg0 arg1 [] []"

definition tr3 :: "language \<Rightarrow> nat \<Rightarrow> string \<Rightarrow> string \<Rightarrow> string \<Rightarrow> string" where
  "tr3 lang i arg0 arg1 arg2 = apply_args (tr lang i) arg0 arg1 arg2 []"

definition tr4 :: "language \<Rightarrow> nat \<Rightarrow> string \<Rightarrow> string \<Rightarrow> string \<Rightarrow> string \<Rightarrow> string" where
  "tr4 lang i arg0 arg1 arg2 arg3 = apply_args (tr lang i) arg0 arg1 arg2 arg3"

fun tr_phase :: "language \<Rightarrow> game_phase \<Rightarrow> string" where
  "tr_phase lang PreFlop = tr lang Msg_PhasePreFlop"
| "tr_phase lang Flop = tr lang Msg_PhaseFlop"
| "tr_phase lang Turn = tr lang Msg_PhaseTurn"
| "tr_phase lang River = tr lang Msg_PhaseRiver"
| "tr_phase lang Showdown = tr lang Msg_PhaseShowdown"

fun tr_action :: "language \<Rightarrow> action \<Rightarrow> string" where
  "tr_action lang Fold = tr lang Msg_BtnFold"
| "tr_action lang Check = tr lang Msg_BtnCheck"
| "tr_action lang Call = tr lang Msg_BtnCall"
| "tr_action lang Raise = tr lang Msg_BtnRaise"

fun tr_hand_category :: "language \<Rightarrow> hand_category \<Rightarrow> string" where
  "tr_hand_category lang HighCard = tr lang Msg_HandHighCard"
| "tr_hand_category lang OnePair = tr lang Msg_HandPair"
| "tr_hand_category lang TwoPair = tr lang Msg_HandTwoPair"
| "tr_hand_category lang ThreeOfKind = tr lang Msg_HandThreeOfKind"
| "tr_hand_category lang Straight = tr lang Msg_HandStraight"
| "tr_hand_category lang Flush = tr lang Msg_HandFlush"
| "tr_hand_category lang FullHouse = tr lang Msg_HandFullHouse"
| "tr_hand_category lang FourOfKind = tr lang Msg_HandFourOfKind"
| "tr_hand_category lang StraightFlush = tr lang Msg_HandStraightFlush"

text \<open>The code is cast to the enumeration; a number that is none of its values has the text of the
  last line of \<open>error_code_message\<close>.\<close>

definition error_code_of :: "i32 \<Rightarrow> error_code option" where
  "error_code_of n = List.find (\<lambda>c. error_code_value c = n)
     [InvalidJson, InvalidMessage, JoinFailed, NotInRoom, NotYourTurn, CannotCheck, InvalidRaise,
      NotEnoughChips, InvalidMaxPlayers, NameTaken, InvalidPlayerName, NotAuthenticated, RoomFull,
      NotRoomHost, NotEnoughPlayers, GameAlreadyStarted, WrongPassword, AlreadyOnline,
      InvalidPassword]"

definition tr_auth_error :: "language \<Rightarrow> i32 \<Rightarrow> string" where
  "tr_auth_error lang code =
     (case error_code_of code of
        Some WrongPassword \<Rightarrow> tr lang Msg_ErrWrongPassword
      | Some AlreadyOnline \<Rightarrow> tr lang Msg_ErrAlreadyOnline
      | Some InvalidPassword \<Rightarrow> tr lang Msg_ErrInvalidPassword
      | Some c \<Rightarrow> tr1 lang Msg_ErrorPrefix (error_code_message c)
      | None \<Rightarrow> tr1 lang Msg_ErrorPrefix ''Unknown error'')"

section \<open>Placeholders\<close>

lemma length_kTable: "length kTable = Msg_Count"
  by (simp add: kTable_def length_kTables)

text \<open>A row is looked up in the part that holds it.\<close>

lemma kTable_nth:
  "i < 20 \<Longrightarrow> kTable ! i = kTable_0 ! i"
  "20 \<le> i \<Longrightarrow> i < 40 \<Longrightarrow> kTable ! i = kTable_20 ! (i - 20)"
  "40 \<le> i \<Longrightarrow> i < 60 \<Longrightarrow> kTable ! i = kTable_40 ! (i - 40)"
  "60 \<le> i \<Longrightarrow> i < 80 \<Longrightarrow> kTable ! i = kTable_60 ! (i - 60)"
  "80 \<le> i \<Longrightarrow> i < 100 \<Longrightarrow> kTable ! i = kTable_80 ! (i - 80)"
  "100 \<le> i \<Longrightarrow> i < 120 \<Longrightarrow> kTable ! i = kTable_100 ! (i - 100)"
  "120 \<le> i \<Longrightarrow> i < 138 \<Longrightarrow> kTable ! i = kTable_120 ! (i - 120)"
  by (simp_all add: kTable_def nth_append length_kTables less_diff_conv2 diff_le_mono not_less)

text \<open>The placeholders \<open>{k}\<close> of a text, from left to right, and the same over the numbers of the bytes.\<close>

definition slot_at :: "string \<Rightarrow> string" where
  "slot_at cs = (case cs of b # c # ds \<Rightarrow> if c = CHR ''}'' then [b] else [] | _ \<Rightarrow> [])"

fun slots :: "string \<Rightarrow> string" where
  "slots [] = []"
| "slots (a # cs) = (if a = CHR ''{'' then slot_at cs @ slots cs else slots cs)"

definition nslot_at :: "nat list \<Rightarrow> nat list" where
  "nslot_at cs = (case cs of b # c # ds \<Rightarrow> if c = 125 then [b] else [] | _ \<Rightarrow> [])"

fun nslots :: "nat list \<Rightarrow> nat list" where
  "nslots [] = []"
| "nslots (a # cs) = (if a = 123 then nslot_at cs @ nslots cs else nslots cs)"

lemma slots_bytes: "list_all (\<lambda>b. b < 256) bs \<Longrightarrow> slots (bytes bs) = bytes (nslots bs)"
proof (induction bs)
  case (Cons a cs)
  have "slot_at (bytes cs) = bytes (nslot_at cs)"
    using Cons.prems
    by (auto simp: bytes_def slot_at_def nslot_at_def char_of_eq_iff take_bit_nat_eq_self split: list.splits)
  moreover have "char_of a = CHR ''{'' \<longleftrightarrow> a = 123"
    using Cons.prems by (simp add: char_of_eq_iff take_bit_nat_eq_self)
  ultimately show ?case using Cons by (simp add: bytes_def)
qed (simp add: bytes_def)

definition row_ok :: "string \<times> string \<Rightarrow> bool" where
  "row_ok row = (case row of (en, ru) \<Rightarrow>
     en \<noteq> [] \<and> ru \<noteq> [] \<and> distinct (slots en) \<and> distinct (slots ru) \<and> set (slots en) = set (slots ru))"

lemma bytes_Nil: "bytes bs = [] \<longleftrightarrow> bs = []"
  by (simp add: bytes_def)

lemma bytes_slots:
  "bytes [] = []" "bytes [48] = ''0''" "bytes [48, 49] = ''01''" "bytes [48, 49, 50] = ''012''"
  "bytes [48, 49, 50, 51] = ''0123''"
  by (simp_all add: bytes_def char_of_eq_iff)

lemmas row_simps = row_ok_def slots_bytes bytes_Nil bytes_slots slot_at_def nslot_at_def

lemma rows_ok_0: "list_all row_ok kTable_0"
  unfolding kTable_0_def list.pred_inject by (intro conjI TrueI; simp add: row_simps)

lemma rows_ok_20: "list_all row_ok kTable_20"
  unfolding kTable_20_def list.pred_inject by (intro conjI TrueI; simp add: row_simps)

lemma rows_ok_40: "list_all row_ok kTable_40"
  unfolding kTable_40_def list.pred_inject by (intro conjI TrueI; simp add: row_simps)

lemma rows_ok_60: "list_all row_ok kTable_60"
  unfolding kTable_60_def list.pred_inject by (intro conjI TrueI; simp add: row_simps)

lemma rows_ok_80: "list_all row_ok kTable_80"
  unfolding kTable_80_def list.pred_inject by (intro conjI TrueI; simp add: row_simps)

lemma rows_ok_100: "list_all row_ok kTable_100"
  unfolding kTable_100_def list.pred_inject by (intro conjI TrueI; simp add: row_simps)

lemma rows_ok_120: "list_all row_ok kTable_120"
  unfolding kTable_120_def list.pred_inject by (intro conjI TrueI; simp add: row_simps)

lemma rows_ok: "list_all row_ok kTable"
  by (simp add: kTable_def rows_ok_0 rows_ok_20 rows_ok_40 rows_ok_60 rows_ok_80 rows_ok_100 rows_ok_120)

text \<open>A text as its parts between the placeholders \<open>{k}\<close>, \<open>{k+1}\<close>, ..., and with the arguments in
  their place.\<close>

fun template :: "nat \<Rightarrow> string list \<Rightarrow> string" where
  "template k [] = []"
| "template k [s] = s"
| "template k (s # ss) = s @ [CHR ''{'', digit_char k, CHR ''}''] @ template (k + 1) ss"

fun filled :: "string list \<Rightarrow> string list \<Rightarrow> string" where
  "filled (s # ss) (a # as) = s @ a @ filled ss as"
| "filled (s # ss) [] = s"
| "filled [] as = []"

lemma replace_first:
  assumes "CHR ''{'' \<notin> set a"
  shows "replace_all (a @ CHR ''{'' # d # CHR ''}'' # b) [CHR ''{'', d, CHR ''}''] v = a @ v @ b"
  using assms by (induction a) auto

lemma replace_after:
  assumes "CHR ''{'' \<notin> set a"
  shows "replace_all (a @ b) [CHR ''{'', d, CHR ''}''] v = a @ replace_all b [CHR ''{'', d, CHR ''}''] v"
  using assms by (induction a) auto

lemma length_numerals:
  "length xs = 2 \<longleftrightarrow> (\<exists>a b. xs = [a, b])" "length xs = 3 \<longleftrightarrow> (\<exists>a b c. xs = [a, b, c])"
  "length xs = 4 \<longleftrightarrow> (\<exists>a b c d. xs = [a, b, c, d])"
  "length xs = 5 \<longleftrightarrow> (\<exists>a b c d e. xs = [a, b, c, d, e])"
  by (auto simp: length_Suc_conv eval_nat_numeral)

lemma apply_args_filled:
  assumes "length ss = length as + 1" "length as \<le> 4"
    and "list_all (\<lambda>s. CHR ''{'' \<notin> set s) ss" "list_all (\<lambda>a. a \<noteq> [] \<and> CHR ''{'' \<notin> set a) as"
  shows "apply_args (template 0 ss) (if 0 < length as then as ! 0 else []) (if 1 < length as then as ! 1 else [])
      (if 2 < length as then as ! 2 else []) (if 3 < length as then as ! 3 else []) = filled ss as"
proof -
  consider "as = []" | x where "as = [x]" | x y where "as = [x, y]" | x y z where "as = [x, y, z]"
    | x y z w where "as = [x, y, z, w]"
    using assms(2)
    by (cases as; cases "tl as"; cases "tl (tl as)"; cases "tl (tl (tl as))"; cases "tl (tl (tl (tl as)))") auto
  then show ?thesis
    using assms(1,3,4)
    by cases (auto simp: apply_args_def Let_def length_Suc_conv length_numerals replace_first replace_after digit_char_simps
       numeral_2_eq_2 [symmetric] numeral_3_eq_3 [symmetric])
qed

text \<open>
  Texts with arguments: every text exists in both languages with the same placeholders, none twice;
  a text with up to four placeholders in order is filled in as meant, if the arguments are not empty
  and have no brace. An argument with a brace is not: a player whose name is \<open>{1}\<close> is welcomed with his
  chips for a name.
\<close>

theorem texts_filled:
  assumes "length ss = length as + 1" "length as \<le> 4"
    and "list_all (\<lambda>s. CHR ''{'' \<notin> set s) ss" "list_all (\<lambda>a. a \<noteq> [] \<and> CHR ''{'' \<notin> set a) as"
  shows "apply_args (template 0 ss) (if 0 < length as then as ! 0 else []) (if 1 < length as then as ! 1 else [])
      (if 2 < length as then as ! 2 else []) (if 3 < length as then as ! 3 else []) = filled ss as
    \<and> length kTable = Msg_Count \<and> list_all row_ok kTable
    \<and> tr2 English Msg_WelcomeUser ''{1}'' ''1000'' = ''Welcome, 1000 ({1} chips)''"
proof (intro conjI apply_args_filled [OF assms] rows_ok length_kTable)
  have "tr English Msg_WelcomeUser = ''Welcome, {0} ({1} chips)''"
    by (simp add: tr_def length_kTable kTable_nth) (simp add: kTable_60_def)
  then show "tr2 English Msg_WelcomeUser ''{1}'' ''1000'' = ''Welcome, 1000 ({1} chips)''"
    by (simp add: tr2_def apply_args_def)
qed

theorem texts_filled_witness:
  "apply_args (template 0 [''Blinds: '', ''/'', ''  |  Starting stack: '', '''']) ''10'' ''20'' ''1000'' []
     = ''Blinds: 10/20  |  Starting stack: 1000''"
  using texts_filled [of "[''Blinds: '', ''/'', ''  |  Starting stack: '', '''']" "[''10'', ''20'', ''1000'']"]
  by (simp del: replace_all.simps)

end
