(* ===== verification/UiElements.thy ===== *)
theory UiElements
  imports I18n
begin

text \<open>
  What the client draws with: the elements of the FTXUI library as the tree of the calls that the source
  makes (\<open>vbox\<close>, \<open>text\<close>, \<open>e | bold\<close>, ...), the colours and the look of fields and buttons of
  \<open>client/src/ui_theme.cpp\<close>. How FTXUI lays a tree out on the terminal is not modelled: what is said about a
  tree are its texts, their order and their decorations.
\<close>

section \<open>Elements\<close>

datatype color = RGB nat nat nat | YellowColor | RedColor | CyanColor | WhiteColor | GrayLight

datatype decorator = Bold | Dim | Fg color | Bg color | Border | Center | Flex | Plain | HeightEqual nat

datatype element =
    Text string
  | VBox "element list"
  | HBox "element list"
  | Separator
  | Filler
  | Deco element decorator

text \<open>\<open>e | d1 | d2\<close>.\<close>

definition decorate :: "element \<Rightarrow> decorator list \<Rightarrow> element" where
  "decorate e ds = foldl Deco e ds"

text \<open>The texts of a tree, in the order of drawing.\<close>

primrec texts :: "element \<Rightarrow> string list" where
  "texts (Text s) = [s]"
| "texts (VBox es) = concat (map texts es)"
| "texts (HBox es) = concat (map texts es)"
| "texts Separator = []"
| "texts Filler = []"
| "texts (Deco e d) = texts e"

lemma texts_decorate [simp]: "texts (decorate e ds) = texts e"
  by (induction ds arbitrary: e) (simp_all add: decorate_def)

lemma decorate_simps [simp]:
  "decorate e [] = e" "decorate e (d # ds) = decorate (Deco e d) ds"
  by (simp_all add: decorate_def)

text \<open>The columns of a text: the bytes of UTF-8 that begin a character. All characters that the client writes itself
  are one column wide.\<close>

definition columns :: "string \<Rightarrow> nat" where
  "columns s = length (filter (\<lambda>c. of_char c < (128 :: nat) \<or> of_char c \<ge> (192 :: nat)) s)"

lemma columns_simps [simp]:
  "columns [] = 0" "columns (s @ t) = columns s + columns t"
  "columns (c # s) = (if of_char c < (128 :: nat) \<or> of_char c \<ge> (192 :: nat) then 1 else 0) + columns s"
  by (simp_all add: columns_def)

lemma columns_replicate [simp]: "columns (replicate n (CHR ''-'')) = n"
  by (induction n) simp_all

section \<open>Theme\<close>

definition panel_background :: color where "panel_background = RGB 28 32 42"

definition card_background :: color where "card_background = RGB 36 40 52"

definition red_suit :: color where "red_suit = RGB 210 110 110"

definition black_suit :: color where "black_suit = RGB 205 215 225"

text \<open>The \<open>transform\<close> of the options of fields and buttons.\<close>

definition input_transform :: "bool \<Rightarrow> bool \<Rightarrow> bool \<Rightarrow> element \<Rightarrow> element" where
  "input_transform is_placeholder focused hovered e =
     (let e = (if is_placeholder then Deco e Dim else e)
      in if focused then decorate e [Fg (RGB 240 210 120), Bg (RGB 45 50 62)]
         else if hovered then Deco e (Fg GrayLight) else e)"

definition button_transform :: "string \<Rightarrow> bool \<Rightarrow> bool \<Rightarrow> element" where
  "button_transform label focused active =
     (let e = Text label
      in if focused then decorate e [Fg (RGB 240 210 120), Bold, Bg (RGB 45 50 62)]
         else if active then Deco e (Fg WhiteColor) else Deco e Dim)"

lemma transforms_keep_text [simp]:
  "texts (input_transform p f h e) = texts e" "texts (button_transform l f a) = [l]"
  by (simp_all add: input_transform_def button_transform_def Let_def)

end
