(* ===== verification/UiCards.thy ===== *)
theory UiCards
  imports UiElements
begin

text \<open>
  Cards and seats on the screen: \<open>client/src/ui_cards.cpp\<close>. The lemmas say which cards a tree shows (the
  labels on its card faces), that a label determines its card, and how wide the lines of a face are.
\<close>

section \<open>Cards\<close>

definition suit_sign :: "char \<Rightarrow> string" where
  "suit_sign suit =
     (if suit = CHR ''H'' then bytes [226, 153, 165]
      else if suit = CHR ''D'' then bytes [226, 153, 166]
      else if suit = CHR ''C'' then bytes [226, 153, 163]
      else if suit = CHR ''S'' then bytes [226, 153, 160]
      else [suit])"

function pad_rank :: "string \<Rightarrow> string" where
  "pad_rank rank = (if length rank < 2 then pad_rank ('' '' @ rank) else rank)"
  by pat_completeness auto
termination by (relation "measure (\<lambda>rank. 2 - length rank)") auto

declare pad_rank.simps [simp del]

definition card_label :: "card \<Rightarrow> string" where
  "card_label c =
     (let raw = card_to_string c; suit = last raw; rank = take (length raw - 1) raw
      in pad_rank rank @ suit_sign suit)"

definition is_red_suit :: "char \<Rightarrow> bool" where
  "is_red_suit suit \<longleftrightarrow> suit = CHR ''H'' \<or> suit = CHR ''D''"

definition styled_card_body :: "string \<Rightarrow> bool \<Rightarrow> element" where
  "styled_card_body label red =
     (let top = ''+'' @ replicate (length label + 2) (CHR ''-'');
          mid = ''| '' @ label @ '' |'';
          suit_color = (if red then red_suit else black_suit)
      in decorate (VBox [Text top, Text mid, Text top]) [Fg suit_color, Bg card_background, Border])"

definition render_card :: "card \<Rightarrow> element" where
  "render_card c = styled_card_body (card_label c) (is_red_suit (last (card_to_string c)))"

definition render_card_back :: element where
  "render_card_back =
     decorate (VBox [Text ''+---+'', Text ''|## |'', Text ''+---+''])
       [Fg (RGB 120 130 145), Bg (RGB 30 34 44), Border]"

definition render_card_row :: "card list \<Rightarrow> nat \<Rightarrow> element" where
  "render_card_row cards n =
     HBox (concat (map (\<lambda>i. [if i < length cards then render_card (cards ! i) else render_card_back, Text '' ''])
       [0..<n]))"

section \<open>Seats\<close>

definition player_role_suffix :: "language \<Rightarrow> player_state \<Rightarrow> string" where
  "player_role_suffix lang player =
     (if ps_is_dealer player then tr lang Msg_PlayerDealer else [])
     @ (if ps_is_small_blind player then tr lang Msg_PlayerSmallBlind else [])
     @ (if ps_is_big_blind player then tr lang Msg_PlayerBigBlind else [])"

definition player_status_suffix :: "language \<Rightarrow> player_state \<Rightarrow> string" where
  "player_status_suffix lang player =
     (if ps_folded player then tr lang Msg_PlayerFolded
      else if ps_all_in player then tr lang Msg_PlayerAllIn else [])"

definition seat_line :: "language \<Rightarrow> string \<Rightarrow> string \<Rightarrow> player_state \<Rightarrow> string" where
  "seat_line lang self_name active_name player =
     (if ps_name player = active_name then ''>> '' else ''   '') @ ps_name player
     @ (if ps_name player = self_name then tr lang Msg_PlayerYou else [])
     @ ''  '' @ decimal (unat (ps_chips player)) @ tr lang Msg_PlayerChips
     @ (if ps_round_bet player > 0 then tr lang Msg_PlayerBet @ decimal (unat (ps_round_bet player)) else [])
     @ player_role_suffix lang player @ player_status_suffix lang player"

definition render_seat :: "language \<Rightarrow> string \<Rightarrow> string \<Rightarrow> player_state \<Rightarrow> element" where
  "render_seat lang self_name active_name player =
     (let active = (ps_name player = active_name);
          seat = Text (seat_line lang self_name active_name player);
          seat = (if active then decorate seat [Fg (RGB 240 210 120), Bold]
                  else if ps_folded player then Deco seat Dim
                  else if ps_name player = self_name then Deco seat (Fg (RGB 170 200 230)) else seat)
      in if ps_hole_cards player \<noteq> [] then VBox [seat, render_card_row (ps_hole_cards player) 2] else seat)"

definition render_table_seats :: "language \<Rightarrow> player_state list \<Rightarrow> string \<Rightarrow> string \<Rightarrow> element" where
  "render_table_seats lang players self_name active_name =
     (if players = [] then Deco (Text (tr lang Msg_NoPlayers)) Dim
      else if length players \<le> 3 then VBox (map (render_seat lang self_name active_name) players)
      else
        let top_count = (length players + 1) div 2;
            seat = (\<lambda>player. Deco (render_seat lang self_name active_name player) Center)
        in VBox [Deco (HBox (map seat (take top_count players))) Center,
             decorate (Text ''  --- pot area ---  '') [Dim, Center],
             Deco (HBox (map seat (drop top_count players))) Center])"

section \<open>Labels\<close>

lemma card_strings: "card_to_string c = get_rank_symbol (c_rank c) @ get_suit_symbol (c_suit c)"
    "length (get_suit_symbol s) = 1"
  by (simp add: card_to_string_def) (cases s; simp add: get_suit_symbol_def suit_symbols_def)

lemma last_symbol: "last (card_to_string c) = hd (get_suit_symbol (c_suit c))"
  by (cases "c_suit c") (simp_all add: card_to_string_def get_suit_symbol_def suit_symbols_def)

lemma rank_part: "take (length (card_to_string c) - 1) (card_to_string c) = get_rank_symbol (c_rank c)"
  using card_strings(2) [of "c_suit c"] by (simp add: card_to_string_def)

definition rank_text :: "rank \<Rightarrow> string" where
  "rank_text r = pad_rank (get_rank_symbol r)"

definition suit_text :: "suit \<Rightarrow> string" where
  "suit_text s = suit_sign (hd (get_suit_symbol s))"

lemma card_label_eq: "card_label c = rank_text (c_rank c) @ suit_text (c_suit c)"
  unfolding card_label_def Let_def last_symbol rank_part rank_text_def suit_text_def ..

lemma rank_text_facts:
  "length (rank_text r) = 2" "columns (rank_text r) = 2" "rank_text r = rank_text r' \<longleftrightarrow> r = r'"
proof -
  have eq: "rank_text r = (if r = Ten then ''10'' else '' '' @ get_rank_symbol r)" for r
    by (cases r) (simp_all add: rank_text_def get_rank_symbol_def rank_symbols_def pad_rank.simps)
  show "length (rank_text r) = 2" "columns (rank_text r) = 2"
    by (cases r; simp add: eq get_rank_symbol_def rank_symbols_def)+
  show "rank_text r = rank_text r' \<longleftrightarrow> r = r'"
    by (cases r; cases r') (simp_all add: eq get_rank_symbol_def rank_symbols_def)
qed

lemma suit_text_facts:
  "length (suit_text s) = 3" "columns (suit_text s) = 1" "suit_text s = suit_text s' \<longleftrightarrow> s = s'"
  by (cases s; cases s'; simp add: suit_text_def suit_sign_def get_suit_symbol_def suit_symbols_def bytes_def)+

lemma card_label_inj: "card_label c = card_label d \<longleftrightarrow> c = d"
proof
  assume "card_label c = card_label d"
  then have "rank_text (c_rank c) = rank_text (c_rank d) \<and> suit_text (c_suit c) = suit_text (c_suit d)"
    by (simp add: card_label_eq rank_text_facts(1))
  then show "c = d" by (simp add: rank_text_facts(3) suit_text_facts(3))
qed simp

lemma card_label_width: "length (card_label c) = 5" "columns (card_label c) = 3"
  by (simp_all add: card_label_eq rank_text_facts suit_text_facts)

text \<open>The lines of a face: the edges count the bytes of the label, the middle line shows its characters.\<close>

lemma card_lines:
  "\<exists>edge middle. texts (render_card c) = [edge, middle, edge] \<and> columns edge = 8 \<and> columns middle = 7"
  by (simp add: render_card_def styled_card_body_def Let_def card_label_width)

section \<open>The cards that a tree shows\<close>

definition every_card :: "card list" where
  "every_card = concat (map (\<lambda>s. map (\<lambda>r. \<lparr>c_suit = s, c_rank = r\<rparr>) all_ranks) all_suits)"

definition card_at :: "element \<Rightarrow> card option" where
  "card_at e = List.find (\<lambda>c. render_card c = e) every_card"

primrec shown_cards :: "element \<Rightarrow> card list" where
  "shown_cards (Text s) = []"
| "shown_cards (VBox es) = concat (map shown_cards es)"
| "shown_cards (HBox es) = concat (map shown_cards es)"
| "shown_cards Separator = []"
| "shown_cards Filler = []"
| "shown_cards (Deco e d) = (case card_at (Deco e d) of Some c \<Rightarrow> [c] | None \<Rightarrow> shown_cards e)"

lemma every_card: "c \<in> set every_card"
proof -
  have "c = \<lparr>c_suit = c_suit c, c_rank = c_rank c\<rparr>" by simp
  moreover have "\<dots> \<in> set every_card" using set_all_suits set_all_ranks by (fastforce simp: every_card_def)
  ultimately show ?thesis by metis
qed

lemma render_card_inj: "render_card c = render_card d \<longleftrightarrow> c = d"
  using card_label_inj by (auto simp: render_card_def styled_card_body_def Let_def)

lemma card_at_None: "card_at e = None \<longleftrightarrow> (\<forall>c. e \<noteq> render_card c)"
  using every_card by (auto simp: card_at_def find_None_iff)

lemma card_at_card [simp]: "card_at (render_card c) = Some c"
proof (cases "card_at (render_card c)")
  case (Some d)
  then show ?thesis by (auto simp: card_at_def find_Some_iff render_card_inj)
qed (auto simp: card_at_None)

lemma card_at_other [simp]:
  "d \<noteq> Border \<Longrightarrow> card_at (Deco e d) = None"
  "b \<noteq> card_background \<Longrightarrow> card_at (Deco (Deco e (Bg b)) Border) = None"
  "card_at (Deco (VBox es) Border) = None" "card_at (Deco (Text s) Border) = None"
  by (auto simp: card_at_None render_card_def styled_card_body_def Let_def)

lemma shown_card [simp]: "shown_cards (render_card c) = [c]"
proof -
  obtain e where e: "render_card c = Deco e Border" by (simp add: render_card_def styled_card_body_def Let_def)
  then show ?thesis using card_at_card [of c] by simp
qed

lemma shown_back [simp]: "shown_cards render_card_back = []"
  by (simp add: render_card_back_def card_background_def)

lemma concat_map_concat: "concat (map f (concat xss)) = concat (map (\<lambda>xs. concat (map f xs)) xss)"
  by (induction xss) simp_all

lemma shown_row [simp]: "shown_cards (render_card_row cs n) = take n cs"
proof -
  have "concat (map (\<lambda>i. shown_cards (if i < length cs then render_card (cs ! i) else render_card_back)) [0..<n])
      = take n cs"
    by (induction n) (simp_all add: take_Suc_conv_app_nth)
  then show ?thesis by (simp add: render_card_row_def concat_map_concat comp_def)
qed

lemma shown_seat [simp]: "shown_cards (render_seat lang self active p) = take 2 (ps_hole_cards p)"
  by (simp add: render_seat_def Let_def)

lemma shown_seats [simp]:
  "shown_cards (render_table_seats lang ps self active) = concat (map (\<lambda>p. take 2 (ps_hole_cards p)) ps)"
  by (cases ps) (simp_all add: render_table_seats_def Let_def comp_def flip: concat_append map_append)

end
