(* ===== verification/ClientText.thy ===== *)
theory ClientText
  imports I18n
begin

text \<open>
  The descriptions of hands and events that the client shows: \<open>client/src/game_text.cpp\<close>. The lemmas
  show that they do not depend on the order of the cards, and that the client names a winning hand
  as the server does.
\<close>

section \<open>Definitions\<close>

text \<open>\<open>trim_copy\<close> of this file strips spaces and tabs.\<close>

definition is_blank :: "char \<Rightarrow> bool" where
  "is_blank c \<longleftrightarrow> c = CHR '' '' \<or> c = CHR 0x09"

definition trim_blank :: "string \<Rightarrow> string" where
  "trim_blank v = rev (dropWhile is_blank (rev (dropWhile is_blank v)))"

fun rank_order :: "rank \<Rightarrow> nat" where
  "rank_order Two = 2"
| "rank_order Three = 3"
| "rank_order Four = 4"
| "rank_order Five = 5"
| "rank_order Six = 6"
| "rank_order Seven = 7"
| "rank_order Eight = 8"
| "rank_order Nine = 9"
| "rank_order Ten = 10"
| "rank_order Jack = 11"
| "rank_order Queen = 12"
| "rank_order King = 13"
| "rank_order Ace = 14"

fun rank_short :: "rank \<Rightarrow> string" where
  "rank_short Ten = ''T''"
| "rank_short Jack = ''J''"
| "rank_short Queen = ''Q''"
| "rank_short King = ''K''"
| "rank_short Ace = ''A''"
| "rank_short r = decimal (rank_order r)"

definition hole_notation :: "card \<Rightarrow> card \<Rightarrow> string" where
  "hole_notation high low =
     (let ranks = rank_short (c_rank high) @ rank_short (c_rank low)
      in if c_suit high = c_suit low then ranks @ ''s'' else ranks @ ''o'')"

definition describe_starting_hand :: "language \<Rightarrow> card list \<Rightarrow> string" where
  "describe_starting_hand lang hole_cards =
     (if length hole_cards < 2 then []
      else
        let high = hole_cards ! 0; low = hole_cards ! 1;
            (high, low) = (if rank_order (c_rank low) > rank_order (c_rank high)
                           then (low, high) else (high, low))
        in if c_rank high = c_rank low then tr1 lang Msg_PreflopPocketPair (rank_short (c_rank high))
           else
             let notation = hole_notation high low
             in if c_suit high = c_suit low then tr1 lang Msg_PreflopSuited notation
                else if rank_order (c_rank high) \<ge> 10 \<and> rank_order (c_rank low) \<ge> 10
                then tr lang Msg_PreflopBroadway
                else if int (rank_order (c_rank high)) - int (rank_order (c_rank low)) = 1
                then tr lang Msg_PreflopConnector
                else if c_rank high = Ace \<or> c_rank low = Ace then tr lang Msg_PreflopAce
                else tr lang Msg_PreflopHighCard)"

definition describe_hand :: "language \<Rightarrow> card list \<Rightarrow> card list \<Rightarrow> string" where
  "describe_hand lang hole_cards board =
     (if length hole_cards < 2 then []
      else if board = [] then describe_starting_hand lang hole_cards
      else
        let cards = hole_cards @ board
        in if length cards < 5 then tr lang Msg_WaitingForBoard
           else tr_hand_category lang (category (evaluate_best cards)))"

fun winner_loop :: "language \<Rightarrow> string \<Rightarrow> card list \<Rightarrow> player_state list \<Rightarrow> string" where
  "winner_loop lang winner_name board [] = []"
| "winner_loop lang winner_name board (p # ps) =
     (if ps_name p \<noteq> winner_name \<or> length (ps_hole_cards p) < 2 then winner_loop lang winner_name board ps
      else
        let cards = ps_hole_cards p @ board
        in if length cards < 5 then [] else tr_hand_category lang (category (evaluate_best cards)))"

definition winner_hand_label :: "language \<Rightarrow> string \<Rightarrow> game_state_update \<Rightarrow> string" where
  "winner_hand_label lang winner_name gs = winner_loop lang winner_name (gs_general_cards gs) (gs_players gs)"

definition format_action_event :: "language \<Rightarrow> action_event \<Rightarrow> string" where
  "format_action_event lang ev =
     ae_player_name ev @ '' '' @ trim_blank (tr_action lang (ae_action ev))
     @ (case ae_amount ev of None \<Rightarrow> [] | Some v \<Rightarrow> '' '' @ decimal (unat v))"

section \<open>Hands\<close>

lemma rank_order_inject: "rank_order a = rank_order b \<longleftrightarrow> a = b"
  by (cases a; cases b) simp_all

lemma describe_starting_hand_swap:
  "describe_starting_hand lang [a, b] = describe_starting_hand lang [b, a]"
proof (cases "rank_order (c_rank a) = rank_order (c_rank b)")
  case True
  then show ?thesis by (simp add: describe_starting_hand_def rank_order_inject Let_def)
next
  case False
  then show ?thesis by (auto simp: describe_starting_hand_def Let_def not_less_iff_gr_or_eq)
qed

lemma english_categories: "tr_hand_category English c = hand_category_label c"
  by (cases c) (simp_all add: tr_def length_kTable kTable_nth kTable_100_def)

text \<open>
  Descriptions of hands: the hint for the player's hand does not depend on the order of the hole
  cards or of the board; and for a player in the list whose two hole cards are shown, with a board of
  three or more cards, the client writes, in English, the label that the server puts into the hand
  result: the category of the best five of all the player's cards.
\<close>

theorem hand_descriptions:
  assumes "mset board' = mset board"
    and "gs_players gs = before @ p # later" "\<forall>q \<in> set before. ps_name q \<noteq> ps_name p"
    and "length (ps_hole_cards p) = 2" "length (gs_general_cards gs) \<ge> 3"
  shows "describe_hand lang [b, a] board' = describe_hand lang [a, b] board
    \<and> winner_hand_label English (ps_name p) gs
      = hand_category_label (category (evaluate_best (ps_hole_cards p @ gs_general_cards gs)))"
proof
  have len: "length board' = length board" using assms(1) by (rule mset_eq_length)
  have "evaluate_best ([b, a] @ board') = evaluate_best ([a, b] @ board)" if "3 \<le> length board"
    by (rule evaluate_best_mset) (use assms(1) len that in simp_all)
  then show "describe_hand lang [b, a] board' = describe_hand lang [a, b] board"
    using len describe_starting_hand_swap [of lang a b] by (auto simp: describe_hand_def Let_def)
  have "winner_loop English (ps_name p) bd (before @ p # later)
      = winner_loop English (ps_name p) bd (p # later)" for bd
    using assms(3) by (induction before) auto
  then show "winner_hand_label English (ps_name p) gs
      = hand_category_label (category (evaluate_best (ps_hole_cards p @ gs_general_cards gs)))"
    using assms(2,4,5) by (simp add: winner_hand_label_def english_categories Let_def)
qed

definition sample_seat :: "string \<Rightarrow> card list \<Rightarrow> player_state" where
  "sample_seat name cards =
     \<lparr>ps_name = name, ps_chips = 100, ps_round_bet = 0, ps_folded = False, ps_all_in = False,
      ps_is_dealer = False, ps_is_small_blind = False, ps_is_big_blind = False, ps_hole_cards = cards\<rparr>"

definition sample_update :: game_state_update where
  "sample_update =
     \<lparr>gs_general_cards = [\<lparr>c_suit = Clubs, c_rank = Two\<rparr>, \<lparr>c_suit = Clubs, c_rank = Seven\<rparr>,
        \<lparr>c_suit = Hearts, c_rank = Jack\<rparr>],
      gs_your_cards = [], gs_phase = Showdown, gs_active_player_name = [], gs_total_pot = 40,
      gs_current_bet = 0,
      gs_players = [sample_seat ''ann'' [],
        sample_seat ''bob'' [\<lparr>c_suit = Spades, c_rank = Ace\<rparr>, \<lparr>c_suit = Hearts, c_rank = Ace\<rparr>]]\<rparr>"

theorem hand_descriptions_witness:
  "winner_hand_label English ''bob'' sample_update
     = hand_category_label (category (evaluate_best ([\<lparr>c_suit = Spades, c_rank = Ace\<rparr>,
         \<lparr>c_suit = Hearts, c_rank = Ace\<rparr>] @ gs_general_cards sample_update)))
   \<and> describe_hand Russian [\<lparr>c_suit = Spades, c_rank = Ace\<rparr>, \<lparr>c_suit = Hearts, c_rank = Ten\<rparr>] []
     = describe_hand Russian [\<lparr>c_suit = Hearts, c_rank = Ten\<rparr>, \<lparr>c_suit = Spades, c_rank = Ace\<rparr>] []"
  using hand_descriptions [of "[]" "[]" sample_update "[sample_seat ''ann'' []]"
      "sample_seat ''bob'' [\<lparr>c_suit = Spades, c_rank = Ace\<rparr>, \<lparr>c_suit = Hearts, c_rank = Ace\<rparr>]" "[]"
      Russian "\<lparr>c_suit = Spades, c_rank = Ace\<rparr>" "\<lparr>c_suit = Hearts, c_rank = Ten\<rparr>"]
  by (simp add: sample_update_def sample_seat_def)

end
