(* ===== verification/ClientView.thy ===== *)
theory ClientView
  imports ClientText
begin

text \<open>
  What the client knows: \<open>ClientViewState\<close> of \<open>client/include/client_view_state.h\<close> and
  \<open>client/src/client_view_state.cpp\<close>. It is changed by the messages of the server, by changes of the
  connection, and by the user interface, which resets the turn and the play session (\<open>PokerUi\<close>). The
  lemmas say which screen shows what, and that the log is bounded.
\<close>

section \<open>State\<close>

datatype ui_screen = Login | Lobby | WaitingRoom | InGame | DisconnectedScreen

datatype connection_status = Connecting | Connected | Failed | Disconnected

record view =
  v_screen :: ui_screen
  v_connection :: connection_status
  v_player_name :: string
  v_chips :: u32
  v_server_host :: string
  v_server_port :: string
  v_rooms :: "room_info list"
  v_room_id :: "u64 option"
  v_player_names :: "string list"
  v_room_host_name :: string
  v_room_max_players :: u8
  v_is_room_host :: bool
  v_game_state :: "game_state_update option"
  v_your_turn :: "your_turn option"
  v_last_hand_result :: "hand_result option"
  v_log :: "string list"
  v_status_message :: string

definition new_view :: view where
  "new_view =
     \<lparr>v_screen = Login, v_connection = Connecting, v_player_name = [], v_chips = 0,
      v_server_host = [], v_server_port = [], v_rooms = [], v_room_id = None, v_player_names = [],
      v_room_host_name = [], v_room_max_players = 0, v_is_room_host = False, v_game_state = None,
      v_your_turn = None, v_last_hand_result = None, v_log = [], v_status_message = []\<rparr>"

section \<open>Operations\<close>

definition kMaxLogLines :: nat where "kMaxLogLines = 200"

fun pop_old_lines :: "string list \<Rightarrow> string list" where
  "pop_old_lines log = (if length log > kMaxLogLines then pop_old_lines (tl log) else log)"

declare pop_old_lines.simps [simp del]

definition append_log :: "string \<Rightarrow> view \<Rightarrow> view" where
  "append_log msg v = v\<lparr>v_log := pop_old_lines (v_log v @ [msg])\<rparr>"

fun connection_status_label :: "language \<Rightarrow> connection_status \<Rightarrow> string" where
  "connection_status_label lang Connecting = tr lang Msg_ConnConnecting"
| "connection_status_label lang Connected = tr lang Msg_ConnConnected"
| "connection_status_label lang Failed = tr lang Msg_ConnFailed"
| "connection_status_label lang Disconnected = tr lang Msg_ConnDisconnected"

definition reset_play_session :: "view \<Rightarrow> view" where
  "reset_play_session v =
     v\<lparr>v_room_id := None, v_player_names := [], v_room_host_name := [], v_room_max_players := 0,
       v_is_room_host := False, v_game_state := None, v_your_turn := None, v_last_hand_result := None\<rparr>"

definition set_connection :: "language \<Rightarrow> connection_status \<Rightarrow> view \<Rightarrow> view" where
  "set_connection lang status v =
     (let v = v\<lparr>v_connection := status\<rparr>;
          endpoint = v_server_host v @ '':'' @ v_server_port v
      in case status of
           Connected \<Rightarrow> v\<lparr>v_status_message := tr1 lang Msg_ConnectedTo endpoint\<rparr>
         | Connecting \<Rightarrow> v\<lparr>v_status_message := tr1 lang Msg_ConnectingTo endpoint\<rparr>
         | Failed \<Rightarrow> v\<lparr>v_status_message := tr1 lang Msg_CouldNotConnect endpoint, v_screen := Login\<rparr>
         | Disconnected \<Rightarrow>
             reset_play_session (v\<lparr>v_status_message := tr lang Msg_ConnectionLostShort,
               v_screen := DisconnectedScreen, v_your_turn := None\<rparr>))"

definition has_action :: "action \<Rightarrow> view \<Rightarrow> bool" where
  "has_action a v = (case v_your_turn v of None \<Rightarrow> False | Some turn \<Rightarrow> a \<in> set (yt_available_actions turn))"

definition hand_hint :: "language \<Rightarrow> view \<Rightarrow> string" where
  "hand_hint lang v = (case v_game_state v of
     None \<Rightarrow> [] | Some gs \<Rightarrow> describe_hand lang (gs_your_cards gs) (gs_general_cards gs))"

text \<open>The dash between phase and active player is U+2014, three bytes of UTF-8.\<close>

definition phase_status :: "language \<Rightarrow> game_state_update \<Rightarrow> string" where
  "phase_status lang gs =
     tr1 lang Msg_PhasePrefix (tr_phase lang (gs_phase gs))
     @ (if gs_active_player_name gs \<noteq> []
        then bytes [32, 226, 128, 148, 32] @ tr1 lang Msg_ToActSuffix (gs_active_player_name gs)
        else [])"

fun join_names :: "string list \<Rightarrow> string" where
  "join_names [] = []"
| "join_names [name] = name"
| "join_names (name # names) = name @ '', '' @ join_names names"

definition apply_welcome :: "language \<Rightarrow> welcome_msg \<Rightarrow> view \<Rightarrow> view" where
  "apply_welcome lang m v =
     (let v = v\<lparr>v_player_name := wl_player_name m, v_chips := wl_chips m, v_screen := Lobby\<rparr>;
          chips_str = decimal (unat (wl_chips m));
          welcome = (if wl_is_new_account m
                     then tr2 lang Msg_WelcomeNewAccount (v_player_name v) chips_str
                     else tr2 lang Msg_WelcomeUser (v_player_name v) chips_str)
      in (append_log welcome v)\<lparr>v_status_message := welcome\<rparr>)"

definition apply_room_list :: "language \<Rightarrow> room_list \<Rightarrow> view \<Rightarrow> view" where
  "apply_room_list lang m v =
     (let v = v\<lparr>v_rooms := rl_rooms m\<rparr>
      in append_log (tr1 lang Msg_RoomListUpdated (decimal (length (v_rooms v)))) v)"

definition apply_joined_room :: "language \<Rightarrow> joined_room \<Rightarrow> view \<Rightarrow> view" where
  "apply_joined_room lang m v =
     (let v = v\<lparr>v_room_id := Some (jd_room_id m), v_player_names := jd_player_names m,
                v_room_host_name := jd_host_name m, v_room_max_players := jd_max_players m,
                v_is_room_host := (v_player_name v \<noteq> [] \<and> v_player_name v = jd_host_name m)\<rparr>
      in if jd_in_game m \<and> v_screen v = InGame
         then let v = append_log (tr lang Msg_TableRosterUpdated) v
              in (case v_game_state v of
                    None \<Rightarrow> v
                  | Some gs \<Rightarrow> v\<lparr>v_status_message := phase_status lang gs\<rparr>)
         else
           let v = v\<lparr>v_game_state := None, v_your_turn := None, v_last_hand_result := None,
                     v_screen := WaitingRoom\<rparr>;
               v = append_log (tr2 lang Msg_JoinedRoomLog (decimal (unat (jd_room_id m)))
                     (join_names (v_player_names v))) v
           in if v_is_room_host v then v\<lparr>v_status_message := tr lang Msg_YouAreHost\<rparr>
              else v\<lparr>v_status_message := tr1 lang Msg_WaitingForHostStart (jd_host_name m)\<rparr>)"

definition apply_game_state :: "language \<Rightarrow> game_state_update \<Rightarrow> view \<Rightarrow> view" where
  "apply_game_state lang m v =
     (let v = v\<lparr>v_last_hand_result := None, v_game_state := Some m, v_screen := InGame\<rparr>;
          v = (case List.find (\<lambda>p. ps_name p = v_player_name v) (gs_players m) of
                 None \<Rightarrow> v | Some p \<Rightarrow> v\<lparr>v_chips := ps_chips p\<rparr>)
      in v\<lparr>v_status_message := phase_status lang m\<rparr>)"

definition winners_text :: "hand_result \<Rightarrow> string" where
  "winners_text m = concat (map (\<lambda>name. '' '' @ name) (hr_winner_names m))"

definition apply_hand_result :: "language \<Rightarrow> hand_result \<Rightarrow> view \<Rightarrow> view" where
  "apply_hand_result lang m v =
     (let v = v\<lparr>v_last_hand_result := Some m\<rparr>;
          txt = tr2 lang Msg_HandWonBy (winners_text m) (decimal (unat (hr_pot_amount m)))
      in (append_log txt v)\<lparr>v_status_message := txt\<rparr>)"

definition apply_left_room :: "language \<Rightarrow> left_room \<Rightarrow> view \<Rightarrow> view" where
  "apply_left_room lang m v =
     (let v = (reset_play_session v)\<lparr>v_screen := Lobby\<rparr>;
          v = (if lr_has_your_chips m then v\<lparr>v_chips := lr_your_chips m\<rparr> else v);
          v = append_log (tr1 lang Msg_LeftRoomLog (decimal (unat (lr_room_id m)))) v
      in v\<lparr>v_status_message := tr lang Msg_InLobby\<rparr>)"

definition apply_error :: "language \<Rightarrow> error_msg \<Rightarrow> view \<Rightarrow> view" where
  "apply_error lang m v =
     (let message = (if v_screen v = Login then tr_auth_error lang (er_code m)
                     else tr1 lang Msg_ErrorPrefix (er_description m))
      in (append_log message v)\<lparr>v_status_message := message\<rparr>)"

fun apply_message :: "language \<Rightarrow> server_message \<Rightarrow> view \<Rightarrow> view" where
  "apply_message lang (SWelcome m) v = apply_welcome lang m v"
| "apply_message lang (SRoomList m) v = apply_room_list lang m v"
| "apply_message lang (SJoinedRoom m) v = apply_joined_room lang m v"
| "apply_message lang (SGameStateUpdate m) v = apply_game_state lang m v"
| "apply_message lang (SYourTurn m) v =
     v\<lparr>v_your_turn := Some m, v_chips := yt_your_chips m, v_screen := InGame,
       v_status_message := tr lang Msg_YourTurn\<rparr>"
| "apply_message lang (SHandResult m) v = apply_hand_result lang m v"
| "apply_message lang (SActionEvent m) v = append_log (format_action_event lang m) v"
| "apply_message lang (SLeftRoom m) v = apply_left_room lang m v"
| "apply_message lang (SError m) v = apply_error lang m v"

lemmas message_defs = apply_welcome_def apply_room_list_def apply_joined_room_def apply_game_state_def
  apply_hand_result_def apply_left_room_def apply_error_def reset_play_session_def

section \<open>The invariant\<close>

lemma pop_old_lines_length: "length (pop_old_lines log) = min (length log) kMaxLogLines"
proof (induction log rule: pop_old_lines.induct)
  case (1 log)
  then show ?case by (subst pop_old_lines.simps) (auto simp: min_def)
qed

lemma pop_old_lines_drop: "pop_old_lines log = drop (length log - kMaxLogLines) log"
proof (induction log rule: pop_old_lines.induct)
  case (1 log)
  have "drop (length log - Suc kMaxLogLines) (tl log) = drop (length log - kMaxLogLines) log"
    if "kMaxLogLines < length log"
    using that by (simp add: Suc_diff_Suc flip: drop_Suc)
  then show ?case using 1 by (subst pop_old_lines.simps) simp
qed

definition view_wf :: "view \<Rightarrow> bool" where
  "view_wf v \<longleftrightarrow> length (v_log v) \<le> kMaxLogLines
     \<and> (v_screen v = WaitingRoom \<longrightarrow> v_room_id v \<noteq> None \<and> v_game_state v = None \<and> v_your_turn v = None)
     \<and> (v_screen v = DisconnectedScreen \<longrightarrow> v_room_id v = None \<and> v_game_state v = None \<and> v_your_turn v = None)
     \<and> (v_is_room_host v \<longrightarrow> v_room_id v \<noteq> None)"

lemma new_view_wf: "view_wf new_view"
  by (simp add: view_wf_def new_view_def)

lemma append_log_fields [simp]:
  "v_screen (append_log m v) = v_screen v" "v_room_id (append_log m v) = v_room_id v"
  "v_game_state (append_log m v) = v_game_state v" "v_your_turn (append_log m v) = v_your_turn v"
  "v_is_room_host (append_log m v) = v_is_room_host v" "v_chips (append_log m v) = v_chips v"
  "v_player_name (append_log m v) = v_player_name v"
  "length (v_log (append_log m v)) = min (Suc (length (v_log v))) kMaxLogLines"
  by (simp_all add: append_log_def pop_old_lines_length)

lemma set_connection_wf: "view_wf v \<Longrightarrow> view_wf (set_connection lang st v)"
  by (cases st) (simp_all add: view_wf_def set_connection_def reset_play_session_def Let_def)

lemma reset_play_session_wf: "view_wf v \<Longrightarrow> v_screen v \<noteq> WaitingRoom \<Longrightarrow> view_wf (reset_play_session v)"
  by (simp add: view_wf_def reset_play_session_def)

lemma apply_message_wf: "view_wf v \<Longrightarrow> view_wf (apply_message lang m v)"
proof (cases m)
  case (SJoinedRoom x)
  assume "view_wf v"
  then show ?thesis unfolding SJoinedRoom
    by (auto simp: view_wf_def apply_joined_room_def Let_def split: option.splits)
next
  case (SGameStateUpdate x)
  assume "view_wf v"
  then show ?thesis unfolding SGameStateUpdate
    by (auto simp: view_wf_def apply_game_state_def Let_def split: option.splits)
qed (simp_all add: view_wf_def apply_welcome_def apply_room_list_def apply_hand_result_def
    apply_left_room_def apply_error_def reset_play_session_def Let_def)

lemma apply_message_screen:
  "v_screen (apply_message lang m v) = (case m of
      SWelcome _ \<Rightarrow> Lobby | SLeftRoom _ \<Rightarrow> Lobby
    | SJoinedRoom x \<Rightarrow> if jd_in_game x \<and> v_screen v = InGame then InGame else WaitingRoom
    | SGameStateUpdate _ \<Rightarrow> InGame | SYourTurn _ \<Rightarrow> InGame | _ \<Rightarrow> v_screen v)"
  by (cases m) (auto simp: message_defs Let_def split: option.splits)

lemma apply_message_turn:
  "v_your_turn (apply_message lang m v) = (case m of
      SYourTurn turn \<Rightarrow> Some turn | SLeftRoom _ \<Rightarrow> None
    | SJoinedRoom x \<Rightarrow> if jd_in_game x \<and> v_screen v = InGame then v_your_turn v else None
    | _ \<Rightarrow> v_your_turn v)"
  by (cases m) (auto simp: message_defs Let_def split: option.splits)

text \<open>
  What the client shows: every message and every change of the connection keeps the view
  consistent: at most 200 log lines, the last ones; a waiting room only with a room and no hand; nothing of
  a room or a hand on the disconnected screen; host only in a room. The screen follows the messages:
  welcome and leaving lead to the lobby, a game state or a turn to the table, joining to the waiting
  room unless the game at the table goes on; all others leave it.
\<close>

theorem view_follows_messages:
  assumes "view_wf v"
  shows "view_wf (apply_message lang m v) \<and> view_wf (set_connection lang st v)
    \<and> v_log (append_log line v) = drop (length (v_log v) + 1 - 200) (v_log v @ [line])
    \<and> v_screen (apply_message lang m v) = (case m of
        SWelcome _ \<Rightarrow> Lobby | SLeftRoom _ \<Rightarrow> Lobby
      | SJoinedRoom x \<Rightarrow> if jd_in_game x \<and> v_screen v = InGame then InGame else WaitingRoom
      | SGameStateUpdate _ \<Rightarrow> InGame | SYourTurn _ \<Rightarrow> InGame | _ \<Rightarrow> v_screen v)
    \<and> v_your_turn (apply_message lang m v) = (case m of
        SYourTurn turn \<Rightarrow> Some turn | SLeftRoom _ \<Rightarrow> None
      | SJoinedRoom x \<Rightarrow> if jd_in_game x \<and> v_screen v = InGame then v_your_turn v else None
      | _ \<Rightarrow> v_your_turn v)"
  using apply_message_wf [OF assms] set_connection_wf [OF assms]
  by (simp add: apply_message_screen apply_message_turn append_log_def pop_old_lines_drop kMaxLogLines_def)

theorem view_follows_messages_witness:
  "v_screen (apply_message Russian (SLeftRoom \<lparr>lr_room_id = 7, lr_your_chips = 0, lr_has_your_chips = False\<rparr>)
     new_view) = Lobby
   \<and> v_log (append_log ''x'' new_view) = [''x'']"
  using view_follows_messages [OF new_view_wf,
      of Russian "SLeftRoom \<lparr>lr_room_id = 7, lr_your_chips = 0, lr_has_your_chips = False\<rparr>" Failed "''x''"]
  by (simp add: new_view_def)

end
