(* ===== verification/ClientCommands.thy ===== *)
theory ClientCommands
  imports Protocol Numerals
begin

text \<open>
  The command line of the client: \<open>CommandParser\<close> of \<open>client/include/command.h\<close> and
  \<open>client/src/command.cpp\<close>, and the member functions of \<open>ClientApplication\<close> in
  \<open>client/src/application.cpp\<close> that turn a command into a message. \<open>a_sent\<close> lists the messages given to
  \<open>NetworkClient::send\<close>; what becomes of them is in \<open>NetworkClient\<close>. Numbers are read by
  \<open>std::from_chars\<close>. Log lines are left out. The lemmas show that tokens are found as they were written,
  which messages a line can send, and that every message but a login can be typed.
\<close>

section \<open>CommandParser\<close>

datatype command_type =
  CreateRoom | JoinRoom | LeaveRoom | ListRooms | StartGame | PlayerAction | Quit | Unknown

record command =
  cm_type :: command_type
  cm_args :: "string list"

abbreviation quote_char :: char where "quote_char \<equiv> CHR 0x22"
abbreviation space_char :: char where "space_char \<equiv> CHR 0x20"

fun split_loop :: "string \<Rightarrow> string \<Rightarrow> bool \<Rightarrow> string list" where
  "split_loop [] current in_quotes = (if current \<noteq> [] then [current] else [])"
| "split_loop (c # cs) current in_quotes =
     (if c = quote_char then split_loop cs (current @ [c]) (\<not> in_quotes)
      else if c = space_char \<and> \<not> in_quotes
      then (if current \<noteq> [] then current # split_loop cs [] in_quotes else split_loop cs current in_quotes)
      else split_loop cs (current @ [c]) in_quotes)"

definition split_input :: "string \<Rightarrow> string list" where
  "split_input input = split_loop input [] False"

definition type_from_string :: "string \<Rightarrow> command_type" where
  "type_from_string token =
     (let clean = (if length token \<ge> 2 \<and> hd token = quote_char \<and> last token = quote_char
                   then take (length token - 2) (drop 1 token) else token)
      in if clean = ''create_room'' then CreateRoom
         else if clean = ''join_room'' then JoinRoom
         else if clean = ''leave_room'' then LeaveRoom
         else if clean = ''list_rooms'' then ListRooms
         else if clean = ''start_game'' then StartGame
         else if clean = ''action'' then PlayerAction
         else if clean = ''quit'' then Quit
         else Unknown)"

definition parse_command :: "string \<Rightarrow> command" where
  "parse_command input =
     (let tokens = split_input input in
      if tokens = [] then \<lparr>cm_type = Unknown, cm_args = []\<rparr>
      else \<lparr>cm_type = type_from_string (tokens ! 0), cm_args = tl tokens\<rparr>)"

section \<open>Numbers\<close>

definition to_uint32 :: "string \<Rightarrow> u32 option" where
  "to_uint32 str =
     (case from_chars 32 str of (v, ptr, ok) \<Rightarrow> if ok \<and> ptr = [] then Some (word_of_nat v) else None)"

definition to_uint64 :: "string \<Rightarrow> u64 option" where
  "to_uint64 str =
     (case from_chars 64 str of (v, ptr, ok) \<Rightarrow> if ok \<and> ptr = [] then Some (word_of_nat v) else None)"

section \<open>ClientApplication\<close>

record application =
  a_sent :: "client_message list"
  a_quit :: bool

definition app_send :: "client_message \<Rightarrow> application \<Rightarrow> application" where
  "app_send msg app = app\<lparr>a_sent := a_sent app @ [msg]\<rparr>"

definition app_list_rooms :: "application \<Rightarrow> application" where
  "app_list_rooms app = app_send CListRooms app"

definition app_send_login :: "string \<Rightarrow> string \<Rightarrow> application \<Rightarrow> application" where
  "app_send_login username password app =
     app_send (CLogin \<lparr>lg_username = username, lg_password = password\<rparr>) app"

definition app_create_room :: "string \<Rightarrow> u8 \<Rightarrow> application \<Rightarrow> application" where
  "app_create_room name max_players app =
     app_send (CCreateRoom \<lparr>cr_room_name = name, cr_max_players = max_players\<rparr>) app"

definition app_join_room :: "u64 \<Rightarrow> application \<Rightarrow> application" where
  "app_join_room room_id app = app_send (CJoinRoom \<lparr>jr_room_id = room_id\<rparr>) app"

definition app_leave_room :: "application \<Rightarrow> application" where
  "app_leave_room app = app_send CLeaveRoom app"

definition app_start_game :: "application \<Rightarrow> application" where
  "app_start_game app = app_send CStartGame app"

definition send_player_action :: "action \<Rightarrow> u32 option \<Rightarrow> application \<Rightarrow> application" where
  "send_player_action a amt app = app_send (CPlayerAction \<lparr>pa_action = a, pa_amount = amt\<rparr>) app"

definition app_quit :: "application \<Rightarrow> application" where
  "app_quit app = app\<lparr>a_quit := True\<rparr>"

definition player_action_from_command :: "string \<Rightarrow> string list \<Rightarrow> application \<Rightarrow> application" where
  "player_action_from_command action_str args app =
     (if action_str = ''fold'' then send_player_action Fold None app
      else if action_str = ''check'' then send_player_action Check None app
      else if action_str = ''call'' then send_player_action Call None app
      else if action_str = ''raise''
      then (if length args < 2 then app
            else case to_uint32 (args ! 1) of
              None \<Rightarrow> app
            | Some amt \<Rightarrow> send_player_action Raise (Some amt) app)
      else app)"

definition process_input :: "string \<Rightarrow> application \<Rightarrow> application" where
  "process_input line app =
     (let cmd = parse_command line; args = cm_args cmd in
      case cm_type cmd of
        CreateRoom \<Rightarrow>
          if length args \<ge> 2
          then (case to_uint32 (args ! 1) of
                  None \<Rightarrow> app
                | Some max_players \<Rightarrow>
                    if max_players \<ge> 2 \<and> max_players \<le> 255
                    then app_create_room (args ! 0) (ucast max_players) app else app)
          else app
      | JoinRoom \<Rightarrow>
          if args \<noteq> []
          then (case to_uint64 (args ! 0) of None \<Rightarrow> app | Some room_id \<Rightarrow> app_join_room room_id app)
          else app
      | LeaveRoom \<Rightarrow> app_leave_room app
      | ListRooms \<Rightarrow> app_list_rooms app
      | StartGame \<Rightarrow> app_start_game app
      | PlayerAction \<Rightarrow> if args \<noteq> [] then player_action_from_command (args ! 0) args app else app
      | Quit \<Rightarrow> app_quit app
      | Unknown \<Rightarrow> app)"

section \<open>Tokens\<close>

text \<open>
  Whether a text leaves the quotes open, if it has no space outside quotes. A token is such a text
  that is not empty and closes its quotes.
\<close>

fun scan_quotes :: "bool \<Rightarrow> string \<Rightarrow> bool option" where
  "scan_quotes q [] = Some q"
| "scan_quotes q (c # cs) =
     (if c = quote_char then scan_quotes (\<not> q) cs
      else if c = space_char \<and> \<not> q then None else scan_quotes q cs)"

definition token :: "string \<Rightarrow> bool" where
  "token t \<longleftrightarrow> t \<noteq> [] \<and> scan_quotes False t = Some False"

lemma split_loop_token:
  "scan_quotes q t = Some q' \<Longrightarrow> split_loop (t @ rest) cur q = split_loop rest (cur @ t) q'"
  by (induction q t arbitrary: cur rule: scan_quotes.induct) (auto split: if_splits)

lemma split_loop_spaces: "split_loop (replicate n space_char @ rest) [] False = split_loop rest [] False"
  by (induction n) auto

lemma split_loop_word:
  assumes "token t"
  shows "split_loop (t @ space_char # rest) [] False = t # split_loop rest [] False"
  using assms split_loop_token [of False t False "space_char # rest" "[]"] by (simp add: token_def)

text \<open>A line of tokens: spaces in front, tokens each followed by a space and more spaces, a last
  token.\<close>

definition line_of :: "nat \<Rightarrow> (string \<times> nat) list \<Rightarrow> string \<Rightarrow> string" where
  "line_of lead ts t = replicate lead space_char
     @ concat (map (\<lambda>(u, n). u @ space_char # replicate n space_char) ts) @ t"

lemma line_tokens:
  assumes "list_all token (map fst ts @ [t])"
  shows "split_input (line_of lead ts t) = map fst ts @ [t]"
proof -
  have last: "split_loop t [] False = [t]"
    using split_loop_token [of False t False "[]" "[]"] assms by (simp add: token_def)
  have "split_loop (concat (map (\<lambda>(u, n). u @ space_char # replicate n space_char) ts) @ t) [] False
      = map fst ts @ [t]"
    using assms by (induction ts) (auto simp: last split_loop_word split_loop_spaces)
  then show ?thesis by (simp add: split_input_def line_of_def split_loop_spaces)
qed

lemma split_loop_chars:
  "filter (\<lambda>c. c \<noteq> space_char) (concat (split_loop s cur q)) = filter (\<lambda>c. c \<noteq> space_char) (cur @ s)"
  by (induction s arbitrary: cur q) auto

text \<open>
  Tokens: a line of tokens, separated by one or more spaces and with any spaces in front, is split into
  exactly these tokens, quotes included; and for any line, splitting drops spaces only.
\<close>

theorem split_tokens:
  assumes "list_all token (map fst ts @ [t])"
  shows "split_input (line_of lead ts t) = map fst ts @ [t]
    \<and> filter (\<lambda>c. c \<noteq> space_char) (concat (split_input s)) = filter (\<lambda>c. c \<noteq> space_char) s"
  using line_tokens [OF assms] split_loop_chars [of s "[]" False] by (simp add: split_input_def)

theorem split_tokens_witness:
  "split_input (line_of 1 [(''create_room'', 2), ([quote_char] @ ''my room'' @ [quote_char], 0)] ''6'')
     = [''create_room'', [quote_char] @ ''my room'' @ [quote_char], ''6'']"
  using split_tokens [of "[(''create_room'', 2), ([quote_char] @ ''my room'' @ [quote_char], 0)]" "''6''"]
  by (simp add: token_def)

section \<open>Lines and messages\<close>

text \<open>What a client can ask for by typing, and a line that asks for it.\<close>

fun typeable :: "client_message \<Rightarrow> bool" where
  "typeable (CLogin m) = False"
| "typeable (CCreateRoom m) = (token (cr_room_name m) \<and> 2 \<le> cr_max_players m)"
| "typeable (CJoinRoom m) = True"
| "typeable CLeaveRoom = True"
| "typeable CListRooms = True"
| "typeable CStartGame = True"
| "typeable (CPlayerAction m) = (pa_action m = Raise \<longleftrightarrow> pa_amount m \<noteq> None)"

fun action_word :: "action \<Rightarrow> string" where
  "action_word Fold = ''fold''"
| "action_word Check = ''check''"
| "action_word Call = ''call''"
| "action_word Raise = ''raise''"

fun words_of :: "client_message \<Rightarrow> string list" where
  "words_of (CLogin m) = []"
| "words_of (CCreateRoom m) = [''create_room'', cr_room_name m, decimal (unat (cr_max_players m))]"
| "words_of (CJoinRoom m) = [''join_room'', decimal (unat (jr_room_id m))]"
| "words_of CLeaveRoom = [''leave_room'']"
| "words_of CListRooms = [''list_rooms'']"
| "words_of CStartGame = [''start_game'']"
| "words_of (CPlayerAction m) = [''action'', action_word (pa_action m)]
     @ (case pa_amount m of None \<Rightarrow> [] | Some v \<Rightarrow> [decimal (unat v)])"

lemma to_uint32_decimal: "to_uint32 (decimal (unat v)) = Some v"
  using unsigned_less [of v] by (simp add: to_uint32_def from_chars_decimal)

lemma u8_less: "unat v < 256" for v :: u8
  using unsigned_less [of v] by simp

lemma unat_u8_u32: "unat (ucast v :: u32) = unat v" for v :: u8
  unfolding unsigned_ucast_eq using u8_less [of v] by (simp add: take_bit_nat_eq_self)

lemma unat_u32_u8: "n \<le> 255 \<Longrightarrow> unat (ucast n :: u8) = unat n" for n :: u32
  unfolding unsigned_ucast_eq by (simp add: take_bit_nat_eq_self word_le_nat_alt)

lemma ucast_u8_u32_u8: "ucast (ucast v :: u32) = v" for v :: u8
proof -
  have "unat (ucast v :: u32) < 256" using u8_less [of v] by (simp add: unat_u8_u32)
  then have "unat (ucast (ucast v :: u32) :: u8) = unat v"
    by (subst unat_u32_u8) (simp_all add: word_le_nat_alt unat_u8_u32)
  then show ?thesis by (simp add: word_unat_eq_iff)
qed

lemma to_uint32_decimal_u8:
  "to_uint32 (decimal (unat v)) = Some (ucast v)" for v :: u8
  using to_uint32_decimal [of "ucast v"] by (simp add: unat_u8_u32)

lemma to_uint64_decimal: "to_uint64 (decimal (unat v)) = Some v"
  using unsigned_less [of v] by (simp add: to_uint64_def from_chars_decimal)

lemma scan_quotes_plain:
  "quote_char \<notin> set t \<Longrightarrow> space_char \<notin> set t \<Longrightarrow> scan_quotes q t = Some q"
  by (induction q t rule: scan_quotes.induct) auto

lemma token_decimal: "token (decimal n)"
  using decimal_digits [of n]
  by (auto simp: token_def isdigit_def byte_of_def decimal_nonempty intro!: scan_quotes_plain)

lemma token_keywords:
  "token ''create_room''" "token ''join_room''" "token ''leave_room''" "token ''list_rooms''"
  "token ''start_game''" "token ''action''"
  by (simp_all add: token_def)

lemma token_action_word: "token (action_word a)"
  by (cases a) (simp_all add: token_def)

lemma parse_line:
  assumes "map fst ts @ [t] = w # ws" "list_all token (w # ws)"
  shows "parse_command (line_of lead ts t) = \<lparr>cm_type = type_from_string w, cm_args = ws\<rparr>"
proof -
  have "list_all token (map fst ts @ [t])" using assms by metis
  then have "split_input (line_of lead ts t) = w # ws"
    unfolding assms(1) [symmetric] by (rule line_tokens)
  then show ?thesis by (simp add: parse_command_def)
qed

text \<open>
  What can be typed: every message but a login can be typed, and any spacing of its words works: a
  room name that is a token, a size from 2 to 255, any room id, each action, a raise with any
  amount; the line sends exactly this message.
\<close>

theorem typed_messages:
  assumes "typeable m" "map fst ts @ [t] = words_of m"
  shows "process_input (line_of lead ts t) app = app\<lparr>a_sent := a_sent app @ [m]\<rparr>"
proof (cases m)
  case (CLogin x)
  then show ?thesis using assms by simp
next
  case (CCreateRoom x)
  have "(ucast (cr_max_players x) :: u32) \<le> 255" "2 \<le> (ucast (cr_max_players x) :: u32)"
    using assms(1) CCreateRoom u8_less [of "cr_max_players x"]
    by (simp_all add: word_le_nat_alt unat_u8_u32)
  then show ?thesis
    using CCreateRoom assms
      parse_line [of ts t "''create_room''" "[cr_room_name x, decimal (unat (cr_max_players x))]" lead]
    by (simp add: process_input_def Let_def to_uint32_decimal_u8 token_decimal ucast_u8_u32_u8 app_create_room_def
        app_send_def type_from_string_def token_keywords)
next
  case (CJoinRoom x)
  then show ?thesis
    using assms parse_line [of ts t "''join_room''" "[decimal (unat (jr_room_id x))]" lead]
    by (simp add: process_input_def Let_def to_uint64_decimal token_decimal app_join_room_def
        app_send_def type_from_string_def token_keywords)
next
  case CLeaveRoom
  then show ?thesis
    using assms parse_line [of ts t "''leave_room''" "[]" lead]
    by (simp add: process_input_def Let_def app_leave_room_def app_send_def type_from_string_def token_keywords)
next
  case CListRooms
  then show ?thesis
    using assms parse_line [of ts t "''list_rooms''" "[]" lead]
    by (simp add: process_input_def Let_def app_list_rooms_def app_send_def type_from_string_def token_keywords)
next
  case CStartGame
  then show ?thesis
    using assms parse_line [of ts t "''start_game''" "[]" lead]
    by (simp add: process_input_def Let_def app_start_game_def app_send_def type_from_string_def token_keywords)
next
  case (CPlayerAction x)
  let ?amount = "case pa_amount x of None \<Rightarrow> [] | Some v \<Rightarrow> [decimal (unat v)]"
  have p: "parse_command (line_of lead ts t)
      = \<lparr>cm_type = PlayerAction, cm_args = action_word (pa_action x) # ?amount\<rparr>"
    using assms(2) CPlayerAction
      parse_line [of ts t "''action''" "action_word (pa_action x) # ?amount" lead]
    by (simp add: token_action_word token_decimal type_from_string_def token_keywords split: option.splits)
  show ?thesis
    using assms(1) CPlayerAction
    by (cases "pa_action x"; cases "pa_amount x")
      (simp_all add: process_input_def p Let_def player_action_from_command_def send_player_action_def
        app_send_def to_uint32_decimal)
qed

theorem typed_messages_witness:
  "process_input (line_of 0 [(''action'', 0), (''raise'', 2)] ''60'') \<lparr>a_sent = [], a_quit = False\<rparr>
     = \<lparr>a_sent = [CPlayerAction \<lparr>pa_action = Raise, pa_amount = Some 60\<rparr>], a_quit = False\<rparr>"
  by (subst typed_messages [of "CPlayerAction \<lparr>pa_action = Raise, pa_amount = Some 60\<rparr>"])
    (simp_all add: decimal.simps digit_char_simps)

section \<open>What a line can do\<close>

lemma scan_quotes_append:
  "scan_quotes q (s @ t) = (case scan_quotes q s of None \<Rightarrow> None | Some q' \<Rightarrow> scan_quotes q' t)"
  by (induction q s rule: scan_quotes.induct) auto

lemma split_loop_tokens:
  "scan_quotes False cur = Some q \<Longrightarrow> \<forall>t \<in> set (butlast (split_loop s cur q)). token t"
proof (induction s arbitrary: cur q)
  case (Cons c cs)
  show ?case
  proof (cases "c = space_char \<and> \<not> q")
    case True
    then show ?thesis
      using Cons.IH [of "[]" False] Cons.prems by (auto simp: token_def)
  next
    case False
    then have "scan_quotes False (cur @ [c]) = Some (if c = quote_char then \<not> q else q)"
      using Cons.prems by (auto simp: scan_quotes_append)
    from Cons.IH [OF this] show ?thesis using False by (auto split: if_splits)
  qed
qed simp

lemma second_token:
  assumes "2 \<le> length (cm_args (parse_command line))"
  shows "token (cm_args (parse_command line) ! 0)"
proof -
  let ?ts = "split_input line"
  have len: "3 \<le> length ?ts" "cm_args (parse_command line) ! 0 = ?ts ! 1"
    using assms by (auto simp: parse_command_def Let_def nth_tl split: if_splits)
  then have "?ts ! 1 \<in> set (butlast ?ts)"
    by (metis One_nat_def Suc_1 Suc_le_lessD length_butlast less_diff_conv nth_butlast nth_mem
        numeral_3_eq_3 plus_1_eq_Suc)
  then show ?thesis
    using split_loop_tokens [of "[]" False line] len(2) by (simp add: split_input_def)
qed

text \<open>
  What a line can do: a line does nothing, or quits, or sends one message that \<open>typeable\<close> allows: in
  particular never a login, no room for fewer than two players, no raise without an amount and no
  amount on another action. A room name keeps the quotes it was typed with.
\<close>

theorem line_effects:
  "process_input line app = app \<or> process_input line app = app\<lparr>a_quit := True\<rparr>
    \<or> (\<exists>m. typeable m \<and> process_input line app = app\<lparr>a_sent := a_sent app @ [m]\<rparr>)"
proof -
  let ?args = "cm_args (parse_command line)"
  have create: "\<exists>m. typeable m \<and> app_create_room (?args ! 0) (ucast n) app = app\<lparr>a_sent := a_sent app @ [m]\<rparr>"
    if "2 \<le> length ?args" "2 \<le> n" "n \<le> 255" for n :: u32
  proof -
    have "unat (ucast n :: u8) = unat n"
      using that(3) by (rule unat_u32_u8)
    then have "typeable (CCreateRoom \<lparr>cr_room_name = ?args ! 0, cr_max_players = ucast n\<rparr>)"
      using second_token [OF that(1)] that(2) by (simp add: word_le_nat_alt)
    then show ?thesis unfolding app_create_room_def app_send_def by blast
  qed
  have action: "player_action_from_command w ?args app = app
      \<or> (\<exists>m. typeable m \<and> player_action_from_command w ?args app = app\<lparr>a_sent := a_sent app @ [m]\<rparr>)" for w
  proof -
    have "\<exists>m. typeable m \<and> send_player_action a v app = app\<lparr>a_sent := a_sent app @ [m]\<rparr>"
      if "a = Raise \<longleftrightarrow> v \<noteq> None" for a v
      using that by (intro exI [of _ "CPlayerAction \<lparr>pa_action = a, pa_amount = v\<rparr>"])
        (simp add: send_player_action_def app_send_def)
    then show ?thesis by (auto simp: player_action_from_command_def split: option.splits)
  qed
  have other: "\<exists>m. typeable m \<and> app_send x app = app\<lparr>a_sent := a_sent app @ [m]\<rparr>" if "typeable x" for x
    using that by (auto simp: app_send_def)
  show ?thesis
    using create action other
    by (cases "cm_type (parse_command line)")
      (auto simp: process_input_def Let_def app_join_room_def app_leave_room_def app_list_rooms_def
        app_start_game_def app_quit_def split: option.splits)
qed

end
