(* ===== verification/ClientSettings.thy ===== *)
theory ClientSettings
  imports Prelude
begin

text \<open>
  The settings file of the client: \<open>client/include/client_settings.h\<close> and
  \<open>client/src/client_settings.cpp\<close>. The file is its text, \<open>None\<close> when it cannot be opened; its path is
  left out. The theorem says which settings are read back as they were saved.
\<close>

section \<open>Definitions\<close>

record client_settings =
  cs_player_name :: string
  cs_host :: string
  cs_port :: string
  cs_language :: string

definition default_settings :: client_settings where
  "default_settings = \<lparr>cs_player_name = [], cs_host = ''127.0.0.1'', cs_port = ''12345'', cs_language = ''en''\<rparr>"

definition is_trimmed_char :: "char \<Rightarrow> bool" where
  "is_trimmed_char c \<longleftrightarrow> c = CHR '' '' \<or> c = CHR 0x09 \<or> c = CHR 0x0D \<or> c = CHR 0x0A"

text \<open>\<open>trim\<close>: from the first to the last character that is no space.\<close>

definition trim :: "string \<Rightarrow> string" where
  "trim v = rev (dropWhile is_trimmed_char (rev (dropWhile is_trimmed_char v)))"

text \<open>\<open>std::getline\<close> until it fails.\<close>

fun getlines :: "string \<Rightarrow> string \<Rightarrow> string list" where
  "getlines current [] = (if current = [] then [] else [current])"
| "getlines current (c # cs) = (if c = CHR 0x0A then current # getlines [] cs else getlines (current @ [c]) cs)"

definition read_line :: "string \<Rightarrow> client_settings \<Rightarrow> client_settings" where
  "read_line line st =
     (if CHR ''='' \<notin> set line then st
      else
        let key = trim (takeWhile (\<lambda>c. c \<noteq> CHR ''='') line);
            v = trim (tl (dropWhile (\<lambda>c. c \<noteq> CHR ''='') line))
        in if key = ''player_name'' then st\<lparr>cs_player_name := v\<rparr>
           else if key = ''host'' then st\<lparr>cs_host := v\<rparr>
           else if key = ''port'' then st\<lparr>cs_port := v\<rparr>
           else if key = ''language'' then st\<lparr>cs_language := v\<rparr>
           else st)"

definition load_client_settings :: "string option \<Rightarrow> client_settings" where
  "load_client_settings file =
     (case file of None \<Rightarrow> default_settings | Some content \<Rightarrow> fold read_line (getlines [] content) default_settings)"

text \<open>The file afterwards; it is not changed when it cannot be opened.\<close>

definition save_client_settings :: "client_settings \<Rightarrow> string" where
  "save_client_settings st =
     (if cs_player_name st \<noteq> [] then ''player_name='' @ cs_player_name st @ [CHR 0x0A] else [])
     @ ''host='' @ cs_host st @ [CHR 0x0A]
     @ ''port='' @ cs_port st @ [CHR 0x0A]
     @ ''language='' @ cs_language st @ [CHR 0x0A]"

section \<open>Saving and loading\<close>

definition clean :: "string \<Rightarrow> bool" where
  "clean v \<longleftrightarrow> CHR 0x0A \<notin> set v \<and> trim v = v"

lemma getlines_line:
  "CHR 0x0A \<notin> set l \<Longrightarrow> getlines current (l @ CHR 0x0A # rest) = (current @ l) # getlines [] rest"
  by (induction l arbitrary: current) auto

lemma getlines_end: "getlines current (l @ [CHR 0x0A]) = getlines current (l @ CHR 0x0A # [])"
  by simp

lemma read_line_eq:
  assumes "CHR ''='' \<notin> set key"
  shows "read_line (key @ CHR ''='' # v) st =
    (if trim key = ''player_name'' then st\<lparr>cs_player_name := trim v\<rparr>
     else if trim key = ''host'' then st\<lparr>cs_host := trim v\<rparr>
     else if trim key = ''port'' then st\<lparr>cs_port := trim v\<rparr>
     else if trim key = ''language'' then st\<lparr>cs_language := trim v\<rparr>
     else st)"
proof -
  have "takeWhile (\<lambda>c. c \<noteq> CHR ''='') (key @ CHR ''='' # v) = key"
    "dropWhile (\<lambda>c. c \<noteq> CHR ''='') (key @ CHR ''='' # v) = CHR ''='' # v"
    using assms by (induction key) auto
  then show ?thesis by (simp add: read_line_def Let_def)
qed

lemma trim_keys:
  "trim ''player_name'' = ''player_name''" "trim ''host'' = ''host''" "trim ''port'' = ''port''"
  "trim ''language'' = ''language''"
  by (simp_all add: trim_def is_trimmed_char_def)

text \<open>
  Settings round trip: settings whose values have no line break and no space at either end are read
  back as they were saved, whatever is in them, an equals sign included; and without a file the
  defaults are used.
\<close>

theorem settings_roundtrip:
  assumes "clean (cs_player_name st)" "clean (cs_host st)" "clean (cs_port st)" "clean (cs_language st)"
  shows "load_client_settings (Some (save_client_settings st)) = st
    \<and> load_client_settings None = default_settings"
proof -
  have rl: "read_line (''player_name='' @ v) s = s\<lparr>cs_player_name := trim v\<rparr>"
    "read_line (''host='' @ v) s = s\<lparr>cs_host := trim v\<rparr>"
    "read_line (''port='' @ v) s = s\<lparr>cs_port := trim v\<rparr>"
    "read_line (''language='' @ v) s = s\<lparr>cs_language := trim v\<rparr>" for v s
    using read_line_eq [of "''player_name''" v s] read_line_eq [of "''host''" v s]
      read_line_eq [of "''port''" v s] read_line_eq [of "''language''" v s]
    by (simp_all add: trim_keys)
  have "getlines [] (save_client_settings st) =
      (if cs_player_name st \<noteq> [] then [''player_name='' @ cs_player_name st] else [])
      @ [''host='' @ cs_host st, ''port='' @ cs_port st, ''language='' @ cs_language st]"
    using assms
      getlines_line [of "''player_name='' @ cs_player_name st" "[]"] getlines_line [of "''host='' @ cs_host st" "[]"]
      getlines_line [of "''port='' @ cs_port st" "[]"] getlines_line [of "''language='' @ cs_language st" "[]" "[]"]
    by (simp add: save_client_settings_def clean_def)
  then show ?thesis
    using assms
    by (cases st) (simp add: load_client_settings_def default_settings_def rl clean_def del: append_Cons)
qed

theorem settings_roundtrip_witness:
  "load_client_settings (Some (save_client_settings
     \<lparr>cs_player_name = ''ann=1'', cs_host = ''10.0.0.1'', cs_port = ''12345'', cs_language = ''ru''\<rparr>))
   = \<lparr>cs_player_name = ''ann=1'', cs_host = ''10.0.0.1'', cs_port = ''12345'', cs_language = ''ru''\<rparr>"
  by (rule conjunct1 [OF settings_roundtrip]) (simp_all add: clean_def trim_def is_trimmed_char_def)

end
