(* ===== verification/PokerUi.thy ===== *)
theory PokerUi
  imports ClientView ClientCommands ClientSettings
begin

text \<open>
  The user interface of the client as a state machine: \<open>PokerUI\<close> of \<open>client/include/poker_ui.h\<close> and
  \<open>client/src/poker_ui.cpp\<close>, without what it draws. A handler (a button, a hot key, a message, a change of
  the connection) is one definition; each runs under the mutex of the class or on its own. \<open>u_app\<close> is
  the application with the messages it has sent, \<open>u_calls\<close> lists the other calls that leave the class,
  \<open>connected\<close> is what \<open>is_connected\<close> answers. Focus and redrawing belong to the FTXUI library: \<open>focused\<close> is what
  it answers for each text field when a key is pressed, and which field is to be focused next is kept.
\<close>

section \<open>State\<close>

datatype refocus = NoRefocus | RaiseInput | CreateNameInput | PlayerNameInput | PasswordInput

datatype ui_call = ReconnectCall | ReconnectTo string string | SaveSettings client_settings

record controls =
  show_login_controls :: bool
  show_lobby_controls :: bool
  show_create_controls :: bool
  show_waiting_controls :: bool
  show_waiting_start :: bool
  show_game_controls :: bool
  show_disconnected_controls :: bool
  show_turn_actions :: bool
  show_fold :: bool
  show_check :: bool
  show_call :: bool
  show_raise :: bool
  show_raise_presets :: bool

record button_labels =
  bl_join :: string
  bl_quit :: string
  bl_refresh :: string
  bl_create :: string
  bl_leave :: string
  bl_start :: string
  bl_reconnect :: string
  bl_confirm :: string
  bl_cancel :: string
  bl_fold :: string
  bl_check :: string
  bl_call :: string
  bl_raise :: string
  bl_min :: string
  bl_half :: string
  bl_pot :: string
  bl_allin :: string
  bl_lang :: string
  bl_room_up :: string
  bl_room_down :: string

record ui =
  u_lang :: language
  u_state :: view
  u_app :: application
  u_calls :: "ui_call list"
  u_controls :: controls
  u_btn :: button_labels
  u_selected :: int
  u_log_scroll :: int
  u_room_labels :: "string list"
  u_show_create_panel :: bool
  u_create_name :: string
  u_create_size :: string
  u_name_input :: string
  u_password_input :: string
  u_host_input :: string
  u_port_input :: string
  u_raise_amount :: string
  u_action_pending :: bool
  u_saved_turn :: "your_turn option"
  u_refocus :: refocus
  u_pending_auto_login :: bool
  u_ring_bell :: bool

definition no_labels :: button_labels where
  "no_labels =
     \<lparr>bl_join = [], bl_quit = [], bl_refresh = [], bl_create = [], bl_leave = [], bl_start = [],
      bl_reconnect = [], bl_confirm = [], bl_cancel = [], bl_fold = [], bl_check = [], bl_call = [],
      bl_raise = [], bl_min = [], bl_half = [], bl_pot = [], bl_allin = [], bl_lang = [],
      bl_room_up = [], bl_room_down = []\<rparr>"

definition new_ui :: ui where
  "new_ui =
     \<lparr>u_lang = English, u_state = new_view, u_app = \<lparr>a_sent = [], a_quit = False\<rparr>, u_calls = [],
      u_controls = \<lparr>show_login_controls = True, show_lobby_controls = False, show_create_controls = False,
        show_waiting_controls = False, show_waiting_start = False, show_game_controls = False,
        show_disconnected_controls = False, show_turn_actions = False, show_fold = False,
        show_check = False, show_call = False, show_raise = False, show_raise_presets = False\<rparr>,
      u_btn = no_labels, u_selected = 0, u_log_scroll = 0, u_room_labels = [],
      u_show_create_panel = False, u_create_name = [], u_create_size = ''4'', u_name_input = [],
      u_password_input = [], u_host_input = [], u_port_input = [], u_raise_amount = [],
      u_action_pending = False, u_saved_turn = None, u_refocus = NoRefocus,
      u_pending_auto_login = False, u_ring_bell = False\<rparr>"

definition ui_log :: "string \<Rightarrow> ui \<Rightarrow> ui" where
  "ui_log line u = u\<lparr>u_state := append_log line (u_state u)\<rparr>"

definition ui_call :: "ui_call \<Rightarrow> ui \<Rightarrow> ui" where
  "ui_call c u = u\<lparr>u_calls := u_calls u @ [c]\<rparr>"

definition ui_app :: "(application \<Rightarrow> application) \<Rightarrow> ui \<Rightarrow> ui" where
  "ui_app f u = u\<lparr>u_app := f (u_app u)\<rparr>"

section \<open>Labels and controls\<close>

definition trim_label :: "string \<Rightarrow> string" where
  "trim_label v = rev (dropWhile (\<lambda>c. c = CHR '' '') (rev (dropWhile (\<lambda>c. c = CHR '' '') v)))"

definition room_label :: "language \<Rightarrow> room_info \<Rightarrow> string" where
  "room_label lang room =
     tr4 lang Msg_RoomLabel (decimal (unat (ri_room_id room))) (ri_room_name room)
       (decimal (unat (ri_current_players room))) (decimal (unat (ri_max_players room)))
     @ (if ri_in_game room then tr lang Msg_RoomInGame else [])"

definition winner_text :: "language \<Rightarrow> game_state_update option \<Rightarrow> string \<Rightarrow> string" where
  "winner_text lang gs name =
     '' '' @ name @ (case gs of
       None \<Rightarrow> []
     | Some g \<Rightarrow> (let label = winner_hand_label lang name g
                  in if label \<noteq> [] then '' ('' @ label @ '')'' else []))"

definition hand_result_text :: "language \<Rightarrow> hand_result \<Rightarrow> game_state_update option \<Rightarrow> string" where
  "hand_result_text lang result gs =
     tr lang Msg_WinnerPrefix @ concat (map (winner_text lang gs) (hr_winner_names result))
     @ ''  |  '' @ tr lang Msg_PotAmountPrefix @ '' '' @ decimal (unat (hr_pot_amount result))"

definition base_labels :: "language \<Rightarrow> button_labels" where
  "base_labels lang =
     \<lparr>bl_join = tr lang Msg_BtnJoin, bl_quit = tr lang Msg_BtnQuit,
      bl_refresh = tr lang Msg_BtnRefresh, bl_create = tr lang Msg_BtnCreate,
      bl_leave = tr lang Msg_BtnLeave, bl_start = tr lang Msg_BtnStart,
      bl_reconnect = tr lang Msg_BtnReconnect, bl_confirm = tr lang Msg_BtnConfirm,
      bl_cancel = tr lang Msg_BtnCancel, bl_fold = tr lang Msg_BtnFold,
      bl_check = tr lang Msg_BtnCheck, bl_call = tr lang Msg_BtnCall, bl_raise = tr lang Msg_BtnRaise,
      bl_min = tr lang Msg_BtnMin, bl_half = tr lang Msg_BtnHalfPot, bl_pot = tr lang Msg_BtnPot,
      bl_allin = tr lang Msg_BtnAllIn, bl_lang = tr lang Msg_BtnLang,
      bl_room_up = tr lang Msg_BtnRoomUp, bl_room_down = tr lang Msg_BtnRoomDown\<rparr>"

definition refresh_button_labels :: "ui \<Rightarrow> ui" where
  "refresh_button_labels u = u\<lparr>u_btn := base_labels (u_lang u)\<rparr>"

definition set_call_label :: "string \<Rightarrow> ui \<Rightarrow> ui" where
  "set_call_label l u = u\<lparr>u_btn := (u_btn u)\<lparr>bl_call := l\<rparr>\<rparr>"

definition update_turn_button_labels :: "ui \<Rightarrow> ui" where
  "update_turn_button_labels u =
     (let u = set_call_label (tr (u_lang u) Msg_BtnCall) u
      in case v_your_turn (u_state u) of
           Some turn \<Rightarrow>
             if yt_to_call turn > 0
             then set_call_label (tr1 (u_lang u) Msg_BtnCallAmount (decimal (unat (yt_to_call turn)))) u
             else u
         | None \<Rightarrow> u)"

definition controls_of :: "view \<Rightarrow> bool \<Rightarrow> controls" where
  "controls_of v create_panel =
     (let waiting = (v_screen v = WaitingRoom); lobby = (v_screen v = Lobby); game = (v_screen v = InGame);
          turn = (v_your_turn v \<noteq> None)
      in \<lparr>show_login_controls = (v_screen v = Login), show_lobby_controls = lobby,
          show_create_controls = (lobby \<and> create_panel), show_waiting_controls = waiting,
          show_waiting_start = (waiting \<and> v_is_room_host v \<and> length (v_player_names v) \<ge> 2),
          show_game_controls = game,
          show_disconnected_controls = (v_screen v = DisconnectedScreen),
          show_turn_actions = (game \<and> turn),
          show_fold = (turn \<and> has_action Fold v), show_check = (turn \<and> has_action Check v),
          show_call = (turn \<and> has_action Call v), show_raise = (turn \<and> has_action Raise v),
          show_raise_presets = (turn \<and> has_action Raise v)\<rparr>)"

definition sync_control_visibility :: "ui \<Rightarrow> ui" where
  "sync_control_visibility u =
     update_turn_button_labels (u\<lparr>u_controls := controls_of (u_state u) (u_show_create_panel u)\<rparr>)"

definition rebuild_room_labels :: "ui \<Rightarrow> ui" where
  "rebuild_room_labels u =
     (let labels = map (room_label (u_lang u)) (v_rooms (u_state u));
          u = u\<lparr>u_room_labels := labels\<rparr>
      in if labels = [] then u\<lparr>u_selected := 0\<rparr>
         else if u_selected u \<ge> int (length labels) then u\<lparr>u_selected := int (length labels) - 1\<rparr>
         else u)"

section \<open>Session and connection\<close>

definition initialize_session :: "client_settings \<Rightarrow> string \<Rightarrow> string \<Rightarrow> ui \<Rightarrow> ui" where
  "initialize_session st host port u =
     (let u = u\<lparr>u_state := (u_state u)\<lparr>v_server_host := host, v_server_port := port\<rparr>,
                u_host_input := host, u_port_input := port\<rparr>;
          u = u\<lparr>u_state := set_connection (u_lang u) Connecting (u_state u)\<rparr>;
          u = (if cs_player_name st \<noteq> [] then u\<lparr>u_name_input := cs_player_name st\<rparr> else u);
          u = u\<lparr>u_lang := parse_language (cs_language st)\<rparr>
      in sync_control_visibility u)"

definition settings_of :: "string \<Rightarrow> string \<Rightarrow> string \<Rightarrow> language \<Rightarrow> client_settings" where
  "settings_of name host port lang =
     \<lparr>cs_player_name = name, cs_host = host, cs_port = port, cs_language = language_code lang\<rparr>"

definition toggle_language :: "ui \<Rightarrow> ui" where
  "toggle_language u =
     (let u = u\<lparr>u_lang := (if u_lang u = English then Russian else English)\<rparr>;
          u = rebuild_room_labels (update_turn_button_labels (refresh_button_labels u));
          v = u_state u
      in ui_call (SaveSettings (settings_of (v_player_name v) (v_server_host v) (v_server_port v) (u_lang u))) u)"

definition is_login_space :: "char \<Rightarrow> bool" where
  "is_login_space c \<longleftrightarrow> c = CHR '' '' \<or> c = CHR 0x09 \<or> c = CHR 0x0D \<or> c = CHR 0x0A"

definition trim_login :: "string \<Rightarrow> string" where
  "trim_login v = rev (dropWhile is_login_space (rev (dropWhile is_login_space v)))"

text \<open>\<open>reconnect\<close> and \<open>reconnect_to\<close> of the application report \<open>Connecting\<close> to \<open>on_connection_changed\<close> before they
  return.\<close>

definition reconnecting :: "ui_call \<Rightarrow> ui \<Rightarrow> ui" where
  "reconnecting c u =
     (let u = ui_call c u
      in sync_control_visibility (u\<lparr>u_state := set_connection (u_lang u) Connecting (u_state u)\<rparr>))"

definition submit_login :: "bool \<Rightarrow> ui \<Rightarrow> ui" where
  "submit_login connected u =
     (if \<not> connected then ui_log (tr (u_lang u) Msg_NotConnected) u
      else
        let name = u_name_input u; password = u_password_input u;
            host = u_host_input u; port = u_port_input u in
        if list_all is_login_space name
        then (ui_log (tr (u_lang u) Msg_EnterPlayerName) u)\<lparr>u_refocus := PlayerNameInput\<rparr>
        else
          let name = trim_login name in
          if \<not> is_valid_username name
          then (ui_log (tr (u_lang u) Msg_NameLengthInvalid) u)\<lparr>u_refocus := PlayerNameInput\<rparr>
          else if password = []
          then (ui_log (tr (u_lang u) Msg_EnterPassword) u)\<lparr>u_refocus := PasswordInput\<rparr>
          else if \<not> is_valid_password password
          then (ui_log (tr (u_lang u) Msg_PasswordRules) u)\<lparr>u_refocus := PasswordInput\<rparr>
          else
            let v = u_state u;
                endpoint_changed = (host \<noteq> v_server_host v \<or> port \<noteq> v_server_port v);
                u = u\<lparr>u_state := v\<lparr>v_player_name := name, v_server_host := host, v_server_port := port\<rparr>\<rparr>
            in if endpoint_changed
               then let u = reconnecting (ReconnectTo host port) (u\<lparr>u_pending_auto_login := True\<rparr>);
                        u = ui_log (tr1 (u_lang u) Msg_JoiningAs name) u
                    in u\<lparr>u_state := (u_state u)\<lparr>v_status_message :=
                           tr1 (u_lang u) Msg_ConnectingTo (host @ '':'' @ port)\<rparr>\<rparr>
               else let u = ui_app (app_send_login name password) u;
                        u = ui_call (SaveSettings (settings_of name host port (u_lang u))) u;
                        u = ui_log (tr1 (u_lang u) Msg_JoiningAs name) u
                    in u\<lparr>u_state := (u_state u)\<lparr>v_status_message := tr (u_lang u) Msg_Authenticating\<rparr>\<rparr>)"

definition on_connection_changed :: "bool \<Rightarrow> connection_status \<Rightarrow> ui \<Rightarrow> ui" where
  "on_connection_changed connected status u =
     (let u = sync_control_visibility (u\<lparr>u_state := set_connection (u_lang u) status (u_state u)\<rparr>)
      in if u_pending_auto_login u \<and> status = Connected
         then submit_login connected (u\<lparr>u_pending_auto_login := False\<rparr>) else u)"

definition reconnect_button :: "ui \<Rightarrow> ui" where
  "reconnect_button u =
     (let v = u_state u;
          u = u\<lparr>u_pending_auto_login := (v_player_name v \<noteq> [] \<and> u_password_input u \<noteq> [])\<rparr>;
          v = (reset_play_session v)\<lparr>v_connection := Connecting, v_status_message :=
                tr1 (u_lang u) Msg_ConnectingTo (v_server_host v @ '':'' @ v_server_port v), v_screen := Login\<rparr>
      in reconnecting ReconnectCall (sync_control_visibility (u\<lparr>u_state := v\<rparr>)))"

section \<open>Messages\<close>

definition after_error :: "ui \<Rightarrow> ui" where
  "after_error u =
     (let u = (if u_action_pending u \<and> u_saved_turn u \<noteq> None
               then u\<lparr>u_state := (u_state u)\<lparr>v_your_turn := u_saved_turn u\<rparr>\<rparr> else u);
          u = u\<lparr>u_action_pending := False, u_saved_turn := None\<rparr>
      in if v_your_turn (u_state u) \<noteq> None then u\<lparr>u_refocus := RaiseInput\<rparr>
         else if u_show_create_panel u then u\<lparr>u_refocus := CreateNameInput\<rparr>
         else if v_screen (u_state u) = Login then u\<lparr>u_refocus := PasswordInput\<rparr> else u)"

definition after_welcome :: "ui \<Rightarrow> ui" where
  "after_welcome u =
     (let v = u_state u;
          u = ui_call (SaveSettings (settings_of (v_player_name v) (v_server_host v) (v_server_port v) (u_lang u))) u
      in ui_app app_list_rooms u)"

definition after_game_state :: "ui \<Rightarrow> ui" where
  "after_game_state u =
     (if u_action_pending u
      then u\<lparr>u_state := (u_state u)\<lparr>v_your_turn := None\<rparr>, u_action_pending := False, u_saved_turn := None\<rparr>
      else u)"

definition after_your_turn :: "your_turn \<Rightarrow> ui \<Rightarrow> ui" where
  "after_your_turn turn u =
     u\<lparr>u_action_pending := False, u_saved_turn := None,
       u_raise_amount := decimal (unat (yt_min_amount turn)), u_ring_bell := True\<rparr>"

definition after_left_room :: "ui \<Rightarrow> ui" where
  "after_left_room u = u\<lparr>u_action_pending := False, u_saved_turn := None\<rparr>"

definition add_server_message :: "server_message \<Rightarrow> ui \<Rightarrow> ui" where
  "add_server_message msg u =
     (let u = u\<lparr>u_state := apply_message (u_lang u) msg (u_state u)\<rparr>;
          u = (case msg of
                 SError _ \<Rightarrow> after_error u
               | SWelcome _ \<Rightarrow> after_welcome u
               | SGameStateUpdate _ \<Rightarrow> after_game_state u
               | SYourTurn turn \<Rightarrow> after_your_turn turn u
               | SLeftRoom _ \<Rightarrow> after_left_room u
               | _ \<Rightarrow> u)
      in sync_control_visibility (rebuild_room_labels u))"

section \<open>Actions\<close>

definition send_action :: "action \<Rightarrow> u32 option \<Rightarrow> ui \<Rightarrow> ui" where
  "send_action a amt u =
     (case v_your_turn (u_state u) of
        None \<Rightarrow> ui_log (tr (u_lang u) Msg_ActionIgnored) u
      | Some turn \<Rightarrow>
          if \<not> has_action a (u_state u)
          then ui_log (tr1 (u_lang u) Msg_ActionNotAvailable (trim_label (tr_action (u_lang u) a))) u
          else
            let u = u\<lparr>u_saved_turn := Some turn, u_action_pending := True,
                      u_state := (u_state u)\<lparr>v_your_turn := None\<rparr>\<rparr>
            in ui_app (send_player_action a amt) (sync_control_visibility u))"

definition clamp :: "u32 \<Rightarrow> u32 \<Rightarrow> u32 \<Rightarrow> u32" where
  "clamp v lo hi = (if v < lo then lo else if hi < v then hi else v)"

definition send_preset_raise :: "u32 \<Rightarrow> ui \<Rightarrow> ui" where
  "send_preset_raise amt u =
     (case v_your_turn (u_state u) of
        None \<Rightarrow> u
      | Some turn \<Rightarrow>
          if \<not> has_action Raise (u_state u) then u
          else
            let amt = clamp amt (yt_min_amount turn) (yt_max_amount turn)
            in send_action Raise (Some amt) (u\<lparr>u_raise_amount := decimal (unat amt)\<rparr>))"

definition min_raise_amount :: "ui \<Rightarrow> u32" where
  "min_raise_amount u = (case v_your_turn (u_state u) of None \<Rightarrow> 0 | Some turn \<Rightarrow> yt_min_amount turn)"

definition pot_target :: "your_turn \<Rightarrow> game_state_update \<Rightarrow> u32" where
  "pot_target turn gs = gs_total_pot gs + yt_to_call turn"

definition half_raise_amount :: "ui \<Rightarrow> u32" where
  "half_raise_amount u =
     (case (v_your_turn (u_state u), v_game_state (u_state u)) of
        (Some turn, Some gs) \<Rightarrow>
          max (yt_min_amount turn) (min (yt_max_amount turn) (pot_target turn gs div 2))
      | _ \<Rightarrow> 0)"

definition pot_raise_amount :: "ui \<Rightarrow> u32" where
  "pot_raise_amount u =
     (case (v_your_turn (u_state u), v_game_state (u_state u)) of
        (Some turn, Some gs) \<Rightarrow> max (yt_min_amount turn) (min (yt_max_amount turn) (pot_target turn gs))
      | _ \<Rightarrow> 0)"

definition allin_raise_amount :: "ui \<Rightarrow> u32" where
  "allin_raise_amount u = (case v_your_turn (u_state u) of None \<Rightarrow> 0 | Some turn \<Rightarrow> yt_max_amount turn)"

definition submit_raise :: "ui \<Rightarrow> ui" where
  "submit_raise u =
     (case v_your_turn (u_state u) of
        None \<Rightarrow> u
      | Some turn \<Rightarrow>
          (case to_uint32 (u_raise_amount u) of
             None \<Rightarrow> (ui_log (tr (u_lang u) Msg_InvalidRaiseAmount) u)\<lparr>u_refocus := RaiseInput\<rparr>
           | Some parsed \<Rightarrow>
               if parsed < yt_min_amount turn \<or> parsed > yt_max_amount turn
               then (ui_log (tr2 (u_lang u) Msg_RaiseBetween (decimal (unat (yt_min_amount turn)))
                       (decimal (unat (yt_max_amount turn)))) u)\<lparr>u_refocus := RaiseInput\<rparr>
               else send_action Raise (Some parsed) u))"

section \<open>Rooms\<close>

definition lobby_room_step :: "int \<Rightarrow> ui \<Rightarrow> ui" where
  "lobby_room_step delta u =
     (if v_screen (u_state u) \<noteq> Lobby \<or> u_room_labels u = [] then u
      else
        let u = u\<lparr>u_selected := u_selected u + delta\<rparr>
        in if u_selected u < 0 then u\<lparr>u_selected := 0\<rparr>
           else if u_selected u \<ge> int (length (u_room_labels u))
           then u\<lparr>u_selected := int (length (u_room_labels u)) - 1\<rparr> else u)"

definition set_create_panel :: "bool \<Rightarrow> ui \<Rightarrow> ui" where
  "set_create_panel panel u =
     (let u = sync_control_visibility (u\<lparr>u_show_create_panel := panel\<rparr>)
      in if panel then u\<lparr>u_refocus := CreateNameInput\<rparr> else u)"

definition create_button :: "ui \<Rightarrow> ui" where
  "create_button u = set_create_panel (\<not> u_show_create_panel u) u"

definition submit_create_room :: "ui \<Rightarrow> ui" where
  "submit_create_room u =
     (case to_uint32 (u_create_size u) of
        None \<Rightarrow> (ui_log (tr (u_lang u) Msg_InvalidMaxPlayers) u)\<lparr>u_refocus := CreateNameInput\<rparr>
      | Some max_players \<Rightarrow>
          if u_create_name u = [] \<or> max_players < 2 \<or> max_players > 255
          then (ui_log (tr (u_lang u) Msg_RoomNameRequired) u)\<lparr>u_refocus := CreateNameInput\<rparr>
          else
            let u = ui_app (app_create_room (u_create_name u) (ucast max_players)) u
            in sync_control_visibility (u\<lparr>u_show_create_panel := False, u_create_name := []\<rparr>))"

definition join_button :: "ui \<Rightarrow> ui" where
  "join_button u =
     (if u_selected u \<ge> 0 \<and> u_selected u < int (length (v_rooms (u_state u)))
      then
        let room = v_rooms (u_state u) ! nat (u_selected u)
        in if ri_in_game room then ui_log (tr (u_lang u) Msg_CannotJoinInGame) u
           else ui_app (app_join_room (ri_room_id room)) u
      else ui_log (tr (u_lang u) Msg_SelectRoom) u)"

text \<open>What \<open>run\<close> does before its loop.\<close>

definition run_start :: "ui \<Rightarrow> ui" where
  "run_start u = (sync_control_visibility (refresh_button_labels u))\<lparr>u_refocus := PlayerNameInput\<rparr>"

section \<open>The focus\<close>

datatype text_field = NameField | PasswordField | HostField | PortField | CreateNameField
  | CreateSizeField | RaiseField

definition text_input_has_focus :: "(text_field \<Rightarrow> bool) \<Rightarrow> bool" where
  "text_input_has_focus focused \<longleftrightarrow>
     focused NameField \<or> focused PasswordField \<or> focused HostField \<or> focused PortField
     \<or> focused CreateNameField \<or> focused CreateSizeField \<or> focused RaiseField"

text \<open>The field that takes the focus, and the interface after that.\<close>

definition apply_pending_refocus :: "ui \<Rightarrow> text_field option \<times> ui" where
  "apply_pending_refocus u =
     (case u_refocus u of
        RaiseInput \<Rightarrow> Some RaiseField
      | CreateNameInput \<Rightarrow> Some CreateNameField
      | PlayerNameInput \<Rightarrow> Some NameField
      | PasswordInput \<Rightarrow> Some PasswordField
      | NoRefocus \<Rightarrow> None,
      u\<lparr>u_refocus := NoRefocus\<rparr>)"

section \<open>Hot keys\<close>

datatype key = Char char | ArrowDown | ArrowUp | Return | OtherKey

definition log_max_offset :: "ui \<Rightarrow> nat" where
  "log_max_offset u = (if length (v_log (u_state u)) > 8 then length (v_log (u_state u)) - 8 else 0)"

definition handle_hotkeys :: "(text_field \<Rightarrow> bool) \<Rightarrow> key \<Rightarrow> ui \<Rightarrow> ui" where
  "handle_hotkeys focused k u =
     (let v = u_state u; lobby = (v_screen v = Lobby \<and> u_room_labels u \<noteq> []) in
      if text_input_has_focus focused then u
      else if (k = Char (CHR ''j'') \<or> k = ArrowDown) \<and> lobby
      then u\<lparr>u_selected := min (int (length (u_room_labels u)) - 1) (u_selected u + 1)\<rparr>
      else if (k = Char (CHR ''k'') \<or> k = ArrowUp) \<and> lobby
      then u\<lparr>u_selected := max 0 (u_selected u - 1)\<rparr>
      else if k = Char (CHR ''['')
      then u\<lparr>u_log_scroll := min (u_log_scroll u + 1) (int (log_max_offset u))\<rparr>
      else if k = Char (CHR '']'') then u\<lparr>u_log_scroll := max 0 (u_log_scroll u - 1)\<rparr>
      else if k = Char (CHR ''l'') \<or> k = Char (CHR ''L'') then toggle_language u
      else if v_screen v = InGame \<and> v_your_turn v \<noteq> None
      then (if k = Char (CHR ''f'') \<and> has_action Fold v then send_action Fold None u
            else if k = Char (CHR ''c'')
            then (if has_action Check v then send_action Check None u
                  else if has_action Call v then send_action Call None u else u)
            else if k = Char (CHR ''r'') \<and> has_action Raise v then u\<lparr>u_refocus := RaiseInput\<rparr>
            else u)
      else u)"

definition catch_event :: "bool \<Rightarrow> (text_field \<Rightarrow> bool) \<Rightarrow> key \<Rightarrow> ui \<Rightarrow> ui" where
  "catch_event connected focused k u =
     (if k = Return \<and> v_screen (u_state u) = Login then submit_login connected u
      else handle_hotkeys focused k u)"

text \<open>The lines of the log that are shown: their positions from \<open>start\<close> to before \<open>end\<close>.\<close>

definition visible_log :: "ui \<Rightarrow> string list" where
  "visible_log u =
     (let log = v_log (u_state u);
          visible_lines = 8;
          total = int (length log);
          max_offset = (if total > visible_lines then total - visible_lines else 0);
          offset = min (u_log_scroll u) max_offset;
          last_line = (if total > offset then total - offset else 0);
          first_line = (if last_line > visible_lines then last_line - visible_lines else 0)
      in take (nat (last_line - first_line)) (drop (nat first_line) log))"

section \<open>Events\<close>

datatype preset = MinPreset | HalfPreset | PotPreset | AllInPreset

datatype ui_event =
    Message server_message
  | ConnectionChange bool connection_status
  | KeyPress bool "text_field \<Rightarrow> bool" key
  | FoldButton | CheckButton | CallButton | RaiseButton
  | PresetButton preset
  | RoomStep int
  | CreateButton | ConfirmCreate | CancelCreate | JoinButton
  | ReconnectButton
  | LoginButton bool
  | LanguageButton | RefreshButton | LeaveButton | StartButton | QuitButton
  | Edit text_field string
  | RunStart

fun preset_amount :: "preset \<Rightarrow> ui \<Rightarrow> u32" where
  "preset_amount MinPreset u = min_raise_amount u"
| "preset_amount HalfPreset u = half_raise_amount u"
| "preset_amount PotPreset u = pot_raise_amount u"
| "preset_amount AllInPreset u = allin_raise_amount u"

fun edit :: "text_field \<Rightarrow> string \<Rightarrow> ui \<Rightarrow> ui" where
  "edit NameField txt u = u\<lparr>u_name_input := txt\<rparr>"
| "edit PasswordField txt u = u\<lparr>u_password_input := txt\<rparr>"
| "edit HostField txt u = u\<lparr>u_host_input := txt\<rparr>"
| "edit PortField txt u = u\<lparr>u_port_input := txt\<rparr>"
| "edit CreateNameField txt u = u\<lparr>u_create_name := txt\<rparr>"
| "edit CreateSizeField txt u = u\<lparr>u_create_size := txt\<rparr>"
| "edit RaiseField txt u = u\<lparr>u_raise_amount := txt\<rparr>"

fun ui_step :: "ui_event \<Rightarrow> ui \<Rightarrow> ui" where
  "ui_step (Message m) u = add_server_message m u"
| "ui_step (ConnectionChange connected st) u = on_connection_changed connected st u"
| "ui_step (KeyPress connected focused k) u = catch_event connected focused k u"
| "ui_step FoldButton u = send_action Fold None u"
| "ui_step CheckButton u = send_action Check None u"
| "ui_step CallButton u = send_action Call None u"
| "ui_step RaiseButton u = submit_raise u"
| "ui_step (PresetButton p) u = send_preset_raise (preset_amount p u) u"
| "ui_step (RoomStep delta) u = lobby_room_step delta u"
| "ui_step CreateButton u = create_button u"
| "ui_step ConfirmCreate u = submit_create_room u"
| "ui_step CancelCreate u = set_create_panel False u"
| "ui_step JoinButton u = join_button u"
| "ui_step ReconnectButton u = reconnect_button u"
| "ui_step (LoginButton connected) u = submit_login connected u"
| "ui_step LanguageButton u = toggle_language u"
| "ui_step RefreshButton u = ui_app app_list_rooms u"
| "ui_step LeaveButton u = ui_app app_leave_room u"
| "ui_step StartButton u = ui_app app_start_game u"
| "ui_step QuitButton u = ui_app app_quit u"
| "ui_step (Edit field txt) u = edit field txt u"
| "ui_step RunStart u = run_start u"

definition ui_run :: "client_settings \<Rightarrow> string \<Rightarrow> string \<Rightarrow> ui_event list \<Rightarrow> ui" where
  "ui_run st host port evs = fold ui_step evs (initialize_session st host port new_ui)"

section \<open>The controls follow the state\<close>

lemma call_label_fields [simp]:
  "u_state (set_call_label l u) = u_state u" "u_controls (set_call_label l u) = u_controls u"
  "u_show_create_panel (set_call_label l u) = u_show_create_panel u" "u_app (set_call_label l u) = u_app u"
  "u_saved_turn (set_call_label l u) = u_saved_turn u" "u_selected (set_call_label l u) = u_selected u"
  "u_room_labels (set_call_label l u) = u_room_labels u" "u_log_scroll (set_call_label l u) = u_log_scroll u"
  "u_lang (set_call_label l u) = u_lang u" "u_action_pending (set_call_label l u) = u_action_pending u"
  "u_pending_auto_login (set_call_label l u) = u_pending_auto_login u"
  "u_btn (set_call_label l u) = (u_btn u)\<lparr>bl_call := l\<rparr>"
  by (simp_all add: set_call_label_def)

lemma refresh_labels_fields [simp]:
  "u_state (refresh_button_labels u) = u_state u" "u_controls (refresh_button_labels u) = u_controls u"
  "u_show_create_panel (refresh_button_labels u) = u_show_create_panel u"
  "u_app (refresh_button_labels u) = u_app u" "u_saved_turn (refresh_button_labels u) = u_saved_turn u"
  "u_selected (refresh_button_labels u) = u_selected u"
  "u_room_labels (refresh_button_labels u) = u_room_labels u"
  "u_log_scroll (refresh_button_labels u) = u_log_scroll u"
  "u_lang (refresh_button_labels u) = u_lang u"
  "u_action_pending (refresh_button_labels u) = u_action_pending u"
  "u_pending_auto_login (refresh_button_labels u) = u_pending_auto_login u"
  "u_btn (refresh_button_labels u) = base_labels (u_lang u)"
  by (simp_all add: refresh_button_labels_def)

lemma update_labels_fields [simp]:
  "u_state (update_turn_button_labels u) = u_state u" "u_controls (update_turn_button_labels u) = u_controls u"
  "u_show_create_panel (update_turn_button_labels u) = u_show_create_panel u"
  "u_app (update_turn_button_labels u) = u_app u" "u_saved_turn (update_turn_button_labels u) = u_saved_turn u"
  "u_selected (update_turn_button_labels u) = u_selected u"
  "u_room_labels (update_turn_button_labels u) = u_room_labels u"
  "u_log_scroll (update_turn_button_labels u) = u_log_scroll u"
  "u_lang (update_turn_button_labels u) = u_lang u"
  "u_action_pending (update_turn_button_labels u) = u_action_pending u"
  "u_pending_auto_login (update_turn_button_labels u) = u_pending_auto_login u"
  by (simp_all add: update_turn_button_labels_def Let_def split: option.split)

lemma sync_fields [simp]:
  "u_state (sync_control_visibility u) = u_state u"
  "u_controls (sync_control_visibility u) = controls_of (u_state u) (u_show_create_panel u)"
  "u_show_create_panel (sync_control_visibility u) = u_show_create_panel u"
  "u_app (sync_control_visibility u) = u_app u" "u_saved_turn (sync_control_visibility u) = u_saved_turn u"
  "u_selected (sync_control_visibility u) = u_selected u"
  "u_room_labels (sync_control_visibility u) = u_room_labels u"
  "u_log_scroll (sync_control_visibility u) = u_log_scroll u"
  "u_lang (sync_control_visibility u) = u_lang u"
  "u_action_pending (sync_control_visibility u) = u_action_pending u"
  "u_pending_auto_login (sync_control_visibility u) = u_pending_auto_login u"
  by (simp_all add: sync_control_visibility_def)

lemma sync_calls: "u_calls (sync_control_visibility u) = u_calls u"
  by (simp add: sync_control_visibility_def update_turn_button_labels_def set_call_label_def Let_def
      split: option.split)

lemma rebuild_fields [simp]:
  "u_state (rebuild_room_labels u) = u_state u" "u_controls (rebuild_room_labels u) = u_controls u"
  "u_show_create_panel (rebuild_room_labels u) = u_show_create_panel u"
  "u_app (rebuild_room_labels u) = u_app u" "u_saved_turn (rebuild_room_labels u) = u_saved_turn u"
  "u_log_scroll (rebuild_room_labels u) = u_log_scroll u"
  "u_room_labels (rebuild_room_labels u) = map (room_label (u_lang u)) (v_rooms (u_state u))"
  "u_lang (rebuild_room_labels u) = u_lang u"
  "u_action_pending (rebuild_room_labels u) = u_action_pending u"
  by (simp_all add: rebuild_room_labels_def Let_def)

lemma ui_log_fields [simp]:
  "u_state (ui_log l u) = append_log l (u_state u)" "u_controls (ui_log l u) = u_controls u"
  "u_show_create_panel (ui_log l u) = u_show_create_panel u" "u_app (ui_log l u) = u_app u"
  "u_saved_turn (ui_log l u) = u_saved_turn u" "u_selected (ui_log l u) = u_selected u"
  "u_room_labels (ui_log l u) = u_room_labels u" "u_log_scroll (ui_log l u) = u_log_scroll u"
  "u_lang (ui_log l u) = u_lang u" "u_action_pending (ui_log l u) = u_action_pending u"
  by (simp_all add: ui_log_def)

lemma ui_call_fields [simp]:
  "u_state (ui_call c u) = u_state u" "u_controls (ui_call c u) = u_controls u"
  "u_show_create_panel (ui_call c u) = u_show_create_panel u" "u_app (ui_call c u) = u_app u"
  "u_saved_turn (ui_call c u) = u_saved_turn u" "u_selected (ui_call c u) = u_selected u"
  "u_room_labels (ui_call c u) = u_room_labels u" "u_log_scroll (ui_call c u) = u_log_scroll u"
  "u_lang (ui_call c u) = u_lang u" "u_action_pending (ui_call c u) = u_action_pending u"
  by (simp_all add: ui_call_def)

lemma ui_app_fields [simp]:
  "u_state (ui_app f u) = u_state u" "u_controls (ui_app f u) = u_controls u"
  "u_show_create_panel (ui_app f u) = u_show_create_panel u" "u_app (ui_app f u) = f (u_app u)"
  "u_saved_turn (ui_app f u) = u_saved_turn u" "u_selected (ui_app f u) = u_selected u"
  "u_room_labels (ui_app f u) = u_room_labels u" "u_log_scroll (ui_app f u) = u_log_scroll u"
  "u_lang (ui_app f u) = u_lang u" "u_action_pending (ui_app f u) = u_action_pending u"
  by (simp_all add: ui_app_def)

lemma append_log_more [simp]:
  "v_player_names (append_log l v) = v_player_names v" "v_rooms (append_log l v) = v_rooms v"
  "has_action a (append_log l v) = has_action a v"
  by (simp_all add: append_log_def has_action_def)

lemma controls_of_log [simp]: "controls_of (append_log l v) b = controls_of v b"
  by (simp add: controls_of_def)

lemma controls_of_other [simp]:
  "controls_of (v\<lparr>v_player_name := n\<rparr>) b = controls_of v b" "controls_of (v\<lparr>v_server_host := n\<rparr>) b = controls_of v b"
  "controls_of (v\<lparr>v_server_port := n\<rparr>) b = controls_of v b"
  "controls_of (v\<lparr>v_status_message := n\<rparr>) b = controls_of v b"
  by (simp_all add: controls_of_def has_action_def)

definition call_label :: "language \<Rightarrow> your_turn option \<Rightarrow> string" where
  "call_label lang turn =
     (if turn \<noteq> None \<and> 0 < yt_to_call (the turn)
      then tr1 lang Msg_BtnCallAmount (decimal (unat (yt_to_call (the turn)))) else tr lang Msg_BtnCall)"

lemma update_labels_call [simp]:
  "bl_call (u_btn (update_turn_button_labels u)) = call_label (u_lang u) (v_your_turn (u_state u))"
  by (simp add: update_turn_button_labels_def call_label_def Let_def split: option.split)

lemma sync_call [simp]:
  "bl_call (u_btn (sync_control_visibility u)) = call_label (u_lang u) (v_your_turn (u_state u))"
  by (simp add: sync_control_visibility_def)

lemma other_call [simp]:
  "bl_call (u_btn (rebuild_room_labels u)) = bl_call (u_btn u)" "bl_call (u_btn (ui_log l u)) = bl_call (u_btn u)"
  "bl_call (u_btn (ui_call c u)) = bl_call (u_btn u)" "bl_call (u_btn (ui_app f u)) = bl_call (u_btn u)"
  by (simp_all add: rebuild_room_labels_def ui_log_def ui_call_def ui_app_def Let_def)

definition in_sync :: "ui \<Rightarrow> bool" where
  "in_sync u \<longleftrightarrow> u_controls u = controls_of (u_state u) (u_show_create_panel u)
     \<and> bl_call (u_btn u) = call_label (u_lang u) (v_your_turn (u_state u))"

definition selection_ok :: "ui \<Rightarrow> bool" where
  "selection_ok u \<longleftrightarrow> u_room_labels u = map (room_label (u_lang u)) (v_rooms (u_state u)) \<and> 0 \<le> u_log_scroll u
     \<and> 0 \<le> u_selected u \<and> (u_selected u = 0 \<or> u_selected u < int (length (v_rooms (u_state u))))"

lemma in_sync_fields [simp]:
  "in_sync (sync_control_visibility u)" "in_sync (ui_log l u) = in_sync u"
  "in_sync (ui_call c u) = in_sync u" "in_sync (ui_app f u) = in_sync u"
  "in_sync (rebuild_room_labels u) = in_sync u" "in_sync (u\<lparr>u_refocus := r\<rparr>) = in_sync u"
  "in_sync (update_turn_button_labels (refresh_button_labels (u\<lparr>u_lang := lang\<rparr>)))
     \<longleftrightarrow> u_controls u = controls_of (u_state u) (u_show_create_panel u)"
  "in_sync (u\<lparr>u_pending_auto_login := b\<rparr>) = in_sync u" "in_sync (u\<lparr>u_raise_amount := a\<rparr>) = in_sync u"
  "in_sync (u\<lparr>u_selected := k\<rparr>) = in_sync u" "in_sync (u\<lparr>u_log_scroll := i\<rparr>) = in_sync u"
  by (simp_all add: in_sync_def)

lemma selection_ok_fields [simp]:
  "selection_ok (sync_control_visibility u) = selection_ok u" "selection_ok (ui_log l u) = selection_ok u"
  "selection_ok (ui_call c u) = selection_ok u" "selection_ok (ui_app f u) = selection_ok u"
  "selection_ok (update_turn_button_labels u) = selection_ok u"
  "selection_ok (refresh_button_labels u) = selection_ok u"
  "selection_ok (u\<lparr>u_refocus := r\<rparr>) = selection_ok u"
  "selection_ok (u\<lparr>u_pending_auto_login := b\<rparr>) = selection_ok u"
  "selection_ok (u\<lparr>u_raise_amount := a\<rparr>) = selection_ok u"
  "selection_ok (u\<lparr>u_show_create_panel := b\<rparr>) = selection_ok u"
  "selection_ok (u\<lparr>u_show_create_panel := b, u_create_name := a\<rparr>) = selection_ok u"
  by (simp_all add: selection_ok_def)

lemma selection_ok_rebuild:
  "0 \<le> u_log_scroll u \<Longrightarrow> 0 \<le> u_selected u \<Longrightarrow> selection_ok (rebuild_room_labels u)"
  by (auto simp: selection_ok_def rebuild_room_labels_def Let_def)

lemma selection_ok_pos: "selection_ok u \<Longrightarrow> 0 \<le> u_log_scroll u" "selection_ok u \<Longrightarrow> 0 \<le> u_selected u"
  by (simp_all add: selection_ok_def)

lemma send_action_ok: "in_sync u \<Longrightarrow> in_sync (send_action a amt u)"
    "selection_ok u \<Longrightarrow> selection_ok (send_action a amt u)"
  by (simp_all add: send_action_def Let_def selection_ok_def split: option.splits)

lemma send_preset_ok: "in_sync u \<Longrightarrow> in_sync (send_preset_raise amt u)"
    "selection_ok u \<Longrightarrow> selection_ok (send_preset_raise amt u)"
  by (simp_all add: send_preset_raise_def Let_def send_action_ok split: option.splits)

lemma submit_raise_ok: "in_sync u \<Longrightarrow> in_sync (submit_raise u)"
    "selection_ok u \<Longrightarrow> selection_ok (submit_raise u)"
  by (simp_all add: submit_raise_def send_action_ok split: option.splits)

lemma set_connection_rooms [simp]: "v_rooms (set_connection lang st v) = v_rooms v"
  by (cases st) (simp_all add: set_connection_def reset_play_session_def Let_def)

lemma set_connecting_turn [simp]: "v_your_turn (set_connection lang Connecting v) = v_your_turn v"
  by (simp add: set_connection_def Let_def)

lemma reconnecting_fields [simp]:
  "u_state (reconnecting c u) = set_connection (u_lang u) Connecting (u_state u)"
  "u_app (reconnecting c u) = u_app u" "u_saved_turn (reconnecting c u) = u_saved_turn u"
  "u_lang (reconnecting c u) = u_lang u" "u_calls (reconnecting c u) = u_calls u @ [c]"
  "u_controls (reconnecting c u)
     = controls_of (set_connection (u_lang u) Connecting (u_state u)) (u_show_create_panel u)"
  "u_show_create_panel (reconnecting c u) = u_show_create_panel u"
  "u_room_labels (reconnecting c u) = u_room_labels u" "u_log_scroll (reconnecting c u) = u_log_scroll u"
  "u_selected (reconnecting c u) = u_selected u"
  "bl_call (u_btn (reconnecting c u)) = call_label (u_lang u) (v_your_turn (u_state u))"
  "selection_ok (reconnecting c u) = selection_ok u"
  by (simp_all add: reconnecting_def Let_def sync_calls) (simp_all add: ui_call_def selection_ok_def)

lemma submit_login_ok: "in_sync u \<Longrightarrow> in_sync (submit_login connected u)"
    "selection_ok u \<Longrightarrow> selection_ok (submit_login connected u)"
  by (simp_all add: submit_login_def Let_def) (simp_all add: in_sync_def selection_ok_def)

lemma toggle_language_ok: "in_sync u \<Longrightarrow> in_sync (toggle_language u)"
    "selection_ok u \<Longrightarrow> selection_ok (toggle_language u)"
  by (simp_all add: toggle_language_def Let_def selection_ok_rebuild selection_ok_pos in_sync_def)

lemma room_keys_ok:
  assumes "selection_ok u"
  shows "u_room_labels u \<noteq> [] \<Longrightarrow> selection_ok (u\<lparr>u_selected := min (int (length (u_room_labels u)) - 1) (u_selected u + 1)\<rparr>)"
    "selection_ok (u\<lparr>u_selected := max 0 (u_selected u - 1)\<rparr>)"
    "selection_ok (u\<lparr>u_log_scroll := min (u_log_scroll u + 1) (int (log_max_offset u))\<rparr>)"
    "selection_ok (u\<lparr>u_log_scroll := max 0 (u_log_scroll u - 1)\<rparr>)"
  using assms by (auto simp: selection_ok_def log_max_offset_def)

lemma hotkeys_ok: "in_sync u \<Longrightarrow> in_sync (handle_hotkeys focus k u)"
    "selection_ok u \<Longrightarrow> selection_ok (handle_hotkeys focus k u)"
  by (simp_all add: handle_hotkeys_def Let_def send_action_ok toggle_language_ok room_keys_ok)

lemma after_pos [simp]:
  "u_log_scroll (after_error u) = u_log_scroll u" "u_selected (after_error u) = u_selected u"
  "u_log_scroll (after_welcome u) = u_log_scroll u" "u_selected (after_welcome u) = u_selected u"
  "u_log_scroll (after_game_state u) = u_log_scroll u" "u_selected (after_game_state u) = u_selected u"
  "u_log_scroll (after_your_turn t u) = u_log_scroll u" "u_selected (after_your_turn t u) = u_selected u"
  "u_log_scroll (after_left_room u) = u_log_scroll u" "u_selected (after_left_room u) = u_selected u"
  by (simp_all add: after_error_def after_welcome_def after_game_state_def after_your_turn_def
      after_left_room_def Let_def)

lemma message_ok: "in_sync (add_server_message m u)"
    "selection_ok u \<Longrightarrow> selection_ok (add_server_message m u)"
  by (cases m; simp add: add_server_message_def Let_def selection_ok_rebuild selection_ok_pos)+

lemma selection_ok_connection:
  "selection_ok (u\<lparr>u_state := set_connection lang st v\<rparr>) = selection_ok (u\<lparr>u_state := v\<rparr>)"
  by (simp add: selection_ok_def)

lemma connection_ok: "in_sync (on_connection_changed connected st u)"
    "selection_ok u \<Longrightarrow> selection_ok (on_connection_changed connected st u)"
  by (simp_all add: on_connection_changed_def Let_def submit_login_ok selection_ok_connection)

lemma room_step_ok: "in_sync u \<Longrightarrow> in_sync (lobby_room_step delta u)"
    "selection_ok u \<Longrightarrow> selection_ok (lobby_room_step delta u)"
  by (simp_all add: lobby_room_step_def Let_def) (auto simp: selection_ok_def)

lemma reconnect_button_ok: "in_sync (reconnect_button u)"
    "selection_ok u \<Longrightarrow> selection_ok (reconnect_button u)"
  by (simp_all add: reconnect_button_def Let_def) (simp_all add: in_sync_def selection_ok_def reset_play_session_def)

lemma edit_ok: "in_sync u \<Longrightarrow> in_sync (edit field txt u)" "selection_ok u \<Longrightarrow> selection_ok (edit field txt u)"
  by (cases field; simp add: in_sync_def selection_ok_def)+

lemma rooms_ok:
  "in_sync u \<Longrightarrow> in_sync (join_button u)" "selection_ok u \<Longrightarrow> selection_ok (join_button u)"
  "in_sync u \<Longrightarrow> in_sync (submit_create_room u)" "selection_ok u \<Longrightarrow> selection_ok (submit_create_room u)"
  "in_sync (set_create_panel b u)" "selection_ok u \<Longrightarrow> selection_ok (set_create_panel b u)"
  by (simp_all add: join_button_def submit_create_room_def set_create_panel_def Let_def split: option.splits)

lemma ui_step_ok: "in_sync u \<Longrightarrow> in_sync (ui_step e u)" "selection_ok u \<Longrightarrow> selection_ok (ui_step e u)"
  by (cases e; simp add: message_ok connection_ok catch_event_def submit_login_ok hotkeys_ok
      send_action_ok send_preset_ok submit_raise_ok toggle_language_ok room_step_ok reconnect_button_ok
      edit_ok rooms_ok create_button_def run_start_def)+

lemma start_ok: "in_sync (initialize_session st host port new_ui)"
    "selection_ok (initialize_session st host port new_ui)"
  by (simp_all add: initialize_session_def Let_def)
    (simp add: selection_ok_def new_ui_def new_view_def)

lemma ui_run_ok: "in_sync (ui_run st host port evs) \<and> selection_ok (ui_run st host port evs)"
  unfolding ui_run_def
  by (induction evs rule: rev_induct) (simp_all add: start_ok ui_step_ok)

text \<open>The other labels are those of the language, from the start of \<open>run\<close> on.\<close>

definition button_texts :: "language \<Rightarrow> your_turn option \<Rightarrow> button_labels" where
  "button_texts lang turn = (base_labels lang)\<lparr>bl_call := call_label lang turn\<rparr>"

definition names_ok :: "ui \<Rightarrow> bool" where
  "names_ok u \<longleftrightarrow> (u_btn u)\<lparr>bl_call := []\<rparr> = (base_labels (u_lang u))\<lparr>bl_call := []\<rparr>"

lemma names_ok_fields [simp]:
  "names_ok (update_turn_button_labels u) = names_ok u" "names_ok (sync_control_visibility u) = names_ok u"
  "names_ok (rebuild_room_labels u) = names_ok u" "names_ok (ui_log l u) = names_ok u"
  "names_ok (ui_call c u) = names_ok u" "names_ok (ui_app f u) = names_ok u"
  "names_ok (refresh_button_labels u)"
  "names_ok (u\<lparr>u_refocus := r\<rparr>) = names_ok u" "names_ok (u\<lparr>u_state := v\<rparr>) = names_ok u"
  "names_ok (u\<lparr>u_pending_auto_login := b\<rparr>) = names_ok u" "names_ok (u\<lparr>u_raise_amount := a\<rparr>) = names_ok u"
  "names_ok (u\<lparr>u_selected := k\<rparr>) = names_ok u" "names_ok (u\<lparr>u_log_scroll := i\<rparr>) = names_ok u"
  "names_ok (u\<lparr>u_show_create_panel := b\<rparr>) = names_ok u"
  "names_ok (u\<lparr>u_show_create_panel := b, u_create_name := a\<rparr>) = names_ok u"
  "names_ok (u\<lparr>u_action_pending := b, u_saved_turn := t\<rparr>) = names_ok u"
  "names_ok (u\<lparr>u_saved_turn := t, u_action_pending := b\<rparr>) = names_ok u"
  "names_ok (u\<lparr>u_state := v, u_action_pending := b, u_saved_turn := t\<rparr>) = names_ok u"
  "names_ok (u\<lparr>u_action_pending := b, u_saved_turn := t, u_raise_amount := a, u_ring_bell := b'\<rparr>) = names_ok u"
  by (simp_all add: names_ok_def sync_control_visibility_def update_turn_button_labels_def
      rebuild_room_labels_def ui_log_def ui_call_def ui_app_def Let_def split: option.split)

lemma names_ok_reconnecting [simp]: "names_ok (reconnecting c u) = names_ok u"
  by (simp add: reconnecting_def Let_def)

lemma names_ok_send [simp]: "names_ok (send_action a amt u) = names_ok u"
  by (simp add: send_action_def Let_def split: option.split)

lemma names_ok_edit [simp]: "names_ok (edit field txt u) = names_ok u"
  by (cases field) (simp_all add: names_ok_def)

lemma names_ok_actions [simp]:
  "names_ok (send_preset_raise v u) = names_ok u"
  "names_ok (submit_raise u) = names_ok u" "names_ok (submit_login connected u) = names_ok u"
  "names_ok (join_button u) = names_ok u" "names_ok (submit_create_room u) = names_ok u"
  "names_ok (set_create_panel b u) = names_ok u" "names_ok (lobby_room_step delta u) = names_ok u"
  "names_ok (reconnect_button u) = names_ok u"
  by (simp_all add: send_preset_raise_def submit_raise_def submit_login_def join_button_def
      submit_create_room_def set_create_panel_def lobby_room_step_def reconnect_button_def Let_def
      split: option.split)

lemma names_ok_after [simp]:
  "names_ok (after_error u) = names_ok u" "names_ok (after_welcome u) = names_ok u"
  "names_ok (after_game_state u) = names_ok u" "names_ok (after_your_turn t u) = names_ok u"
  "names_ok (after_left_room u) = names_ok u"
  by (simp_all add: after_error_def after_welcome_def after_game_state_def after_your_turn_def
      after_left_room_def Let_def)

lemma names_ok_handlers [simp]:
  "names_ok (toggle_language u)" "names_ok (run_start u)"
  "names_ok (add_server_message m u) = names_ok u"
  "names_ok (on_connection_changed connected st u) = names_ok u"
  "names_ok u \<Longrightarrow> names_ok (handle_hotkeys focus k u)"
  by (simp_all add: toggle_language_def run_start_def add_server_message_def on_connection_changed_def
      handle_hotkeys_def Let_def split: server_message.split)

lemma names_ok_step: "names_ok u \<or> e = RunStart \<Longrightarrow> names_ok (ui_step e u)"
  by (cases e) (auto simp: catch_event_def create_button_def)

lemma run_names:
  assumes "RunStart \<in> set evs"
  shows "u_btn (ui_run st host port evs)
    = button_texts (u_lang (ui_run st host port evs)) (v_your_turn (u_state (ui_run st host port evs)))"
proof -
  have "names_ok (ui_run st host port evs)" using assms
    unfolding ui_run_def by (induction evs rule: rev_induct) (auto simp: names_ok_step)
  moreover have "bl_call (u_btn (ui_run st host port evs)) = call_label (u_lang (ui_run st host port evs))
      (v_your_turn (u_state (ui_run st host port evs)))"
    using ui_run_ok [of st host port evs] by (simp add: in_sync_def)
  ultimately show ?thesis
    by (cases "u_btn (ui_run st host port evs)") (simp add: names_ok_def button_texts_def base_labels_def)
qed

text \<open>
  C28. What the buttons offer is what the state allows: after any sequence of messages, connection changes,
  keys, buttons and edits the visible controls are those of the current screen, turn and create panel
  (start only for the host of a waiting room with two players; an action only if the turn offers it), the
  call button names the amount to call, the room labels are those of the rooms in the current language,
  and the selected row is one of them.
\<close>

theorem controls_follow_state:
  "u_controls (ui_run st host port evs)
     = controls_of (u_state (ui_run st host port evs)) (u_show_create_panel (ui_run st host port evs))
   \<and> bl_call (u_btn (ui_run st host port evs))
     = call_label (u_lang (ui_run st host port evs)) (v_your_turn (u_state (ui_run st host port evs)))
   \<and> u_room_labels (ui_run st host port evs)
     = map (room_label (u_lang (ui_run st host port evs))) (v_rooms (u_state (ui_run st host port evs)))
   \<and> 0 \<le> u_log_scroll (ui_run st host port evs) \<and> 0 \<le> u_selected (ui_run st host port evs)
   \<and> u_selected (ui_run st host port evs) \<le> max 0 (int (length (v_rooms (u_state (ui_run st host port evs)))) - 1)"
  using ui_run_ok [of st host port evs] by (auto simp: in_sync_def selection_ok_def)

end
