(* ===== verification/UiTurns.thy ===== *)
theory UiTurns
  imports PokerUi
begin

text \<open>
  The turn protocol of the client. The user interface hides the turn when it sends an action, keeps
  a copy, and shows it again when the server answers with an error (\<open>send_action\<close> and \<open>add_server_message\<close>
  of \<open>client/src/poker_ui.cpp\<close>). \<open>turn_move\<close> states that protocol as a relation on three values: the turn
  shown, the copy, and the player actions sent. Every event of \<open>PokerUi\<close> is one of its moves; what is
  sent is then a matter of the protocol alone.
\<close>

section \<open>The protocol\<close>

type_synonym turns = "your_turn option \<times> your_turn option \<times> player_action list"

text \<open>An action that answers a turn: one of those offered, with an amount only for a raise, and in its bounds.\<close>

definition answers :: "your_turn \<Rightarrow> player_action \<Rightarrow> bool" where
  "answers turn pa \<longleftrightarrow> pa_action pa \<in> set (yt_available_actions turn)
     \<and> (case pa_amount pa of
          None \<Rightarrow> pa_action pa \<noteq> Raise
        | Some amt \<Rightarrow> pa_action pa = Raise
            \<and> (yt_min_amount turn \<le> yt_max_amount turn
               \<longrightarrow> yt_min_amount turn \<le> amt \<and> amt \<le> yt_max_amount turn))"

text \<open>The events of the user; the others come from the network.\<close>

definition by_user :: "ui_event \<Rightarrow> bool" where
  "by_user e \<longleftrightarrow> (case e of Message _ \<Rightarrow> False | ConnectionChange _ _ \<Rightarrow> False | _ \<Rightarrow> True)"

inductive turn_move :: "ui_event \<Rightarrow> turns \<Rightarrow> turns \<Rightarrow> bool" where
  forget: "\<lbrakk>turn' = turn \<or> turn' = None; saved' = saved \<or> saved' = None\<rbrakk>
    \<Longrightarrow> turn_move e (turn, saved, sent) (turn', saved', sent)"
| act: "\<lbrakk>answers turn pa; by_user e\<rbrakk> \<Longrightarrow> turn_move e (Some turn, saved, sent) (None, Some turn, sent @ [pa])"
| ask: "turn_move (Message (SYourTurn m)) (turn, saved, sent) (Some m, None, sent)"
| refuse: "turn_move (Message (SError m)) (turn, Some kept, sent) (Some kept, None, sent)"

definition is_turn :: "ui_event \<Rightarrow> bool" where
  "is_turn e \<longleftrightarrow> (case e of Message (SYourTurn _) \<Rightarrow> True | _ \<Rightarrow> False)"

definition is_refusal :: "ui_event \<Rightarrow> bool" where
  "is_refusal e \<longleftrightarrow> (case e of Message (SError _) \<Rightarrow> True | _ \<Rightarrow> False)"

definition turns_of :: "ui_event list \<Rightarrow> your_turn set" where
  "turns_of evs = {m. Message (SYourTurn m) \<in> set evs}"

inductive turn_run :: "ui_event list \<Rightarrow> turns \<Rightarrow> bool" where
  start: "turn_run [] (None, None, [])"
| step: "\<lbrakk>turn_run evs t; turn_move e t t'\<rbrakk> \<Longrightarrow> turn_run (evs @ [e]) t'"

text \<open>Only turns of the server are shown or kept, and every action answers one of them.\<close>

lemma turns_of_snoc:
  "turns_of (evs @ [e]) = turns_of evs \<union> (case e of Message (SYourTurn m) \<Rightarrow> {m} | _ \<Rightarrow> {})"
  by (auto simp: turns_of_def split: ui_event.splits server_message.splits)

lemma run_answers:
  "turn_run evs (turn, saved, sent) \<Longrightarrow>
     set_option turn \<subseteq> turns_of evs \<and> set_option saved \<subseteq> turns_of evs
     \<and> (\<forall>pa \<in> set sent. \<exists>m \<in> turns_of evs. answers m pa)"
proof (induction evs "(turn, saved, sent)" arbitrary: turn saved sent rule: turn_run.induct)
  case (step evs t e)
  from step(3) step(2) show ?case
    by (cases rule: turn_move.cases) (fastforce simp: turns_of_snoc)+
qed (simp add: turns_of_def)

text \<open>A turn shown is worth one action; only a turn of the server or a refusal makes one.\<close>

lemma move_count:
  "turn_move e (turn, saved, sent) (turn', saved', sent') \<Longrightarrow>
     length sent' + of_bool (turn' \<noteq> None)
       \<le> length sent + of_bool (turn \<noteq> None) + of_bool (is_turn e) + (of_bool (is_refusal e) :: nat)"
  by (cases rule: turn_move.cases) (auto simp: is_turn_def is_refusal_def)

lemma run_count:
  "turn_run evs (turn, saved, sent) \<Longrightarrow>
     length sent + of_bool (turn \<noteq> None) \<le> length (filter is_turn evs) + length (filter is_refusal evs)"
proof (induction evs "(turn, saved, sent)" arbitrary: turn saved sent rule: turn_run.induct)
  case (step evs t e)
  obtain turn0 saved0 sent0 where t: "t = (turn0, saved0, sent0)" by (cases t)
  show ?case using step(2) [OF t] move_count [OF step(3) [unfolded t]] by auto
qed simp

section \<open>The user interface follows it\<close>

definition player_actions :: "client_message list \<Rightarrow> player_action list" where
  "player_actions ms = concat (map (\<lambda>m. case m of CPlayerAction pa \<Rightarrow> [pa] | _ \<Rightarrow> []) ms)"

definition turns_in :: "ui \<Rightarrow> turns" where
  "turns_in u = (v_your_turn (u_state u), u_saved_turn u, player_actions (a_sent (u_app u)))"

lemma player_actions_other [simp]:
  "player_actions (a_sent (app_list_rooms a)) = player_actions (a_sent a)"
  "player_actions (a_sent (app_leave_room a)) = player_actions (a_sent a)"
  "player_actions (a_sent (app_start_game a)) = player_actions (a_sent a)"
  "player_actions (a_sent (app_quit a)) = player_actions (a_sent a)"
  "player_actions (a_sent (app_send_login n p a)) = player_actions (a_sent a)"
  "player_actions (a_sent (app_create_room n k a)) = player_actions (a_sent a)"
  "player_actions (a_sent (app_join_room r a)) = player_actions (a_sent a)"
  by (simp_all add: player_actions_def app_list_rooms_def app_leave_room_def app_start_game_def
      app_quit_def app_send_login_def app_create_room_def app_join_room_def app_send_def)

lemma player_actions_act [simp]:
  "player_actions (a_sent (send_player_action a amt app))
     = player_actions (a_sent app) @ [\<lparr>pa_action = a, pa_amount = amt\<rparr>]"
  by (simp add: player_actions_def send_player_action_def app_send_def)

lemma turns_in_calm [simp]:
  "turns_in (sync_control_visibility u) = turns_in u" "turns_in (update_turn_button_labels u) = turns_in u"
  "turns_in (refresh_button_labels u) = turns_in u"
  "turns_in (rebuild_room_labels u) = turns_in u" "turns_in (ui_log l u) = turns_in u"
  "turns_in (ui_call c u) = turns_in u" "turns_in (u\<lparr>u_refocus := r\<rparr>) = turns_in u"
  "turns_in (u\<lparr>u_lang := lang\<rparr>) = turns_in u" "turns_in (u\<lparr>u_pending_auto_login := b\<rparr>) = turns_in u"
  "turns_in (u\<lparr>u_raise_amount := a\<rparr>) = turns_in u" "turns_in (u\<lparr>u_selected := k\<rparr>) = turns_in u"
  "turns_in (u\<lparr>u_log_scroll := i\<rparr>) = turns_in u" "turns_in (u\<lparr>u_show_create_panel := b\<rparr>) = turns_in u"
  "turns_in (u\<lparr>u_show_create_panel := b, u_create_name := a\<rparr>) = turns_in u"
  by (simp_all add: turns_in_def)

lemma turns_in_app [simp]:
  "turns_in (ui_app app_list_rooms u) = turns_in u" "turns_in (ui_app app_leave_room u) = turns_in u"
  "turns_in (ui_app app_start_game u) = turns_in u" "turns_in (ui_app app_quit u) = turns_in u"
  "turns_in (ui_app (app_send_login n p) u) = turns_in u"
  "turns_in (ui_app (app_create_room n k) u) = turns_in u"
  "turns_in (ui_app (app_join_room r) u) = turns_in u"
  by (simp_all add: turns_in_def)

lemma turn_move_same: "turn_move e t t"
  by (cases t) (simp add: turn_move.forget)

lemma send_action_turns:
  "turns_in (send_action a amt u) =
     (case v_your_turn (u_state u) of
        Some turn \<Rightarrow>
          if a \<in> set (yt_available_actions turn)
          then (None, Some turn, player_actions (a_sent (u_app u)) @ [\<lparr>pa_action = a, pa_amount = amt\<rparr>])
          else turns_in u
      | None \<Rightarrow> turns_in u)"
  by (simp add: send_action_def has_action_def turns_in_def Let_def split: option.split)

lemma send_action_move:
  assumes "by_user e"
    and "\<And>turn. v_your_turn (u_state u) = Some turn \<Longrightarrow> a \<in> set (yt_available_actions turn) \<Longrightarrow>
      answers turn \<lparr>pa_action = a, pa_amount = amt\<rparr>"
  shows "turn_move e (turns_in u) (turns_in (send_action a amt u))"
  using assms(2)
  by (auto simp: send_action_turns turn_move_same split: option.split)
    (simp add: turns_in_def turn_move.act assms(1))

lemma plain_action_move:
  "by_user e \<Longrightarrow> a \<noteq> Raise \<Longrightarrow> turn_move e (turns_in u) (turns_in (send_action a None u))"
  by (rule send_action_move) (simp_all add: answers_def)

lemma clamp_bounds: "lo \<le> hi \<Longrightarrow> lo \<le> clamp v lo hi \<and> clamp v lo hi \<le> hi"
  by (simp add: clamp_def not_less)

lemma preset_move: "by_user e \<Longrightarrow> turn_move e (turns_in u) (turns_in (send_preset_raise amt u))"
proof (cases "v_your_turn (u_state u)")
  case None
  then show ?thesis by (simp add: send_preset_raise_def turn_move_same)
next
  case (Some turn)
  let ?amt = "clamp amt (yt_min_amount turn) (yt_max_amount turn)"
  let ?u = "u\<lparr>u_raise_amount := decimal (unat ?amt)\<rparr>"
  assume "by_user e"
  then have "turn_move e (turns_in ?u) (turns_in (send_action Raise (Some ?amt) ?u))"
    by (rule send_action_move) (use Some in \<open>simp add: answers_def clamp_bounds\<close>)
  then show ?thesis using Some by (simp add: send_preset_raise_def Let_def turn_move_same)
qed

lemma submit_raise_move: "by_user e \<Longrightarrow> turn_move e (turns_in u) (turns_in (submit_raise u))"
proof -
  assume "by_user e"
  then have "turn_move e (turns_in u) (turns_in (send_action Raise (Some amt) u))"
    if "v_your_turn (u_state u) = Some turn" "yt_min_amount turn \<le> amt" "amt \<le> yt_max_amount turn" for turn amt
    by (rule send_action_move) (use that in \<open>simp add: answers_def\<close>)
  then show ?thesis
    by (simp add: submit_raise_def turn_move_same not_less split: option.split)
qed

lemma submit_login_turns [simp]: "turns_in (submit_login connected u) = turns_in u"
  by (simp add: submit_login_def Let_def) (simp add: turns_in_def)

lemma toggle_turns [simp]: "turns_in (toggle_language u) = turns_in u"
  by (simp add: toggle_language_def Let_def)

lemma hotkeys_move: "by_user e \<Longrightarrow> turn_move e (turns_in u) (turns_in (handle_hotkeys focus k u))"
  by (simp add: handle_hotkeys_def Let_def turn_move_same plain_action_move)

lemma set_connection_turn:
  "v_your_turn (set_connection lang st v) = v_your_turn v \<or> v_your_turn (set_connection lang st v) = None"
  by (cases st) (simp_all add: set_connection_def reset_play_session_def Let_def)

lemma connection_move: "turn_move e (turns_in u) (turns_in (on_connection_changed connected st u))"
  using set_connection_turn [of "u_lang u" st "u_state u"]
  by (simp add: on_connection_changed_def Let_def) (auto simp: turns_in_def intro: turn_move.forget)

lemma message_move: "turn_move (Message m) (turns_in u) (turns_in (add_server_message m u))"
proof -
  let ?v = "apply_message (u_lang u) m (u_state u)" and ?sent = "player_actions (a_sent (u_app u))"
  have calm: ?thesis if "\<forall>t. m \<noteq> SYourTurn t" "\<forall>x. m \<noteq> SError x"
    "turns_in (add_server_message m u) = (turn', saved', ?sent)"
    "turn' = v_your_turn ?v \<or> turn' = None" "saved' = u_saved_turn u \<or> saved' = None" for turn' saved'
  proof -
    have "v_your_turn ?v = v_your_turn (u_state u) \<or> v_your_turn ?v = None"
      using that(1) by (auto simp: apply_message_turn split: server_message.split)
    then have "turn' = v_your_turn (u_state u) \<or> turn' = None" using that(4) by auto
    then show ?thesis using that(3,5) by (simp add: turn_move.forget turns_in_def [of u])
  qed
  show ?thesis
  proof (cases m)
    case (SYourTurn t)
    then have "turns_in (add_server_message m u) = (Some t, None, ?sent)"
      by (simp add: add_server_message_def Let_def after_your_turn_def) (simp add: turns_in_def)
    then show ?thesis using SYourTurn by (simp add: turns_in_def [of u] turn_move.ask)
  next
    case (SError x)
    then have "v_your_turn ?v = v_your_turn (u_state u)" 
      by (simp add: apply_error_def Let_def)
    then have "turns_in (add_server_message m u)
        = (if u_action_pending u \<and> u_saved_turn u \<noteq> None then u_saved_turn u else v_your_turn (u_state u),
           None, ?sent)"
      using SError
      by (simp add: add_server_message_def Let_def after_error_def) (auto simp: turns_in_def)
    then show ?thesis using SError
      by (auto simp: turns_in_def [of u] turn_move.refuse turn_move.forget)
  next
    case (SGameStateUpdate x)
    show ?thesis
      by (rule calm [of "if u_action_pending u then None else v_your_turn ?v"
          "if u_action_pending u then None else u_saved_turn u"])
        (use SGameStateUpdate in \<open>simp_all add: add_server_message_def Let_def after_game_state_def turns_in_def\<close>)
  next
    case (SLeftRoom x)
    show ?thesis
      by (rule calm [of "v_your_turn ?v" None])
        (use SLeftRoom in \<open>simp_all add: add_server_message_def Let_def after_left_room_def turns_in_def\<close>)
  qed (rule calm [of "v_your_turn ?v" "u_saved_turn u"];
      simp add: add_server_message_def Let_def after_welcome_def; simp add: turns_in_def)+
qed

lemma rooms_turns [simp]:
  "turns_in (lobby_room_step delta u) = turns_in u" "turns_in (set_create_panel b u) = turns_in u"
  "turns_in (submit_create_room u) = turns_in u" "turns_in (join_button u) = turns_in u"
  "turns_in (edit field txt u) = turns_in u"
  by (simp_all add: lobby_room_step_def set_create_panel_def submit_create_room_def join_button_def Let_def
      split: option.split) (cases field; simp add: turns_in_def)

lemma reconnect_move: "turn_move e (turns_in u) (turns_in (reconnect_button u))"
  by (simp add: reconnect_button_def Let_def)
    (simp add: turns_in_def reset_play_session_def turn_move.forget)

lemma ui_step_move: "turn_move e (turns_in u) (turns_in (ui_step e u))"
  by (cases e) (simp_all add: message_move connection_move catch_event_def turn_move_same hotkeys_move
      plain_action_move preset_move submit_raise_move create_button_def reconnect_move by_user_def run_start_def)

lemma ui_run_turns: "turn_run evs (turns_in (ui_run st host port evs))"
proof (induction evs rule: rev_induct)
  case Nil
  then show ?case
    by (simp add: ui_run_def initialize_session_def Let_def turns_in_def)
      (simp add: new_ui_def new_view_def set_connection_def player_actions_def Let_def turn_run.start)
next
  case (snoc e evs)
  then show ?case using turn_run.step [OF snoc.IH ui_step_move] by (simp add: ui_run_def)
qed

lemmas ui_run_protocol = ui_run_turns [unfolded turns_in_def]


text \<open>
  C27. What the client sends: every player action it has sent is one that a turn of the server offered, with
  an amount exactly for a raise, and then within the bounds of that turn (where these are in order); and it
  has sent at most one action for each turn received and each error received, so a double key press or
  a stale click sends nothing.
\<close>

theorem actions_answer_turns:
  "(\<forall>pa \<in> set (player_actions (a_sent (u_app (ui_run st host port evs)))). \<exists>m \<in> turns_of evs. answers m pa)
   \<and> length (player_actions (a_sent (u_app (ui_run st host port evs))))
       \<le> length (filter is_turn evs) + length (filter is_refusal evs)"
  using run_answers [OF ui_run_protocol [of evs st host port]]
    run_count [OF ui_run_protocol [of evs st host port]]
  by simp

text \<open>
  A lost connection does not clear a pending action: an error after it, for instance for a wrong
  password, shows the old turn again, on a screen without a table.
\<close>

lemma stale_turn_shown:
  assumes "u_action_pending u" "u_saved_turn u = Some turn" "\<not> u_pending_auto_login u"
    and "v = u_state (ui_step (Message (SError m)) (ui_step (ConnectionChange connected Disconnected) u))"
  shows "v_your_turn v = Some turn \<and> v_screen v = DisconnectedScreen"
  using assms
  by (simp add: on_connection_changed_def add_server_message_def after_error_def Let_def apply_error_def)
    (simp add: set_connection_def reset_play_session_def Let_def)

text \<open>A turn, a press of the all-in preset, then of the call button: one action is sent.\<close>

definition sample_turn :: your_turn where
  "sample_turn = \<lparr>yt_available_actions = [Fold, Call, Raise], yt_min_amount = 40, yt_max_amount = 1000,
     yt_to_call = 10, yt_your_chips = 990\<rparr>"

definition sample_start :: client_settings where
  "sample_start = \<lparr>cs_player_name = ''alice'', cs_host = ''h'', cs_port = ''1'', cs_language = ''en''\<rparr>"

definition sample_events :: "ui_event list" where
  "sample_events = [Message (SYourTurn sample_turn), PresetButton AllInPreset, CallButton]"

lemma sample_actions:
  "player_actions (a_sent (u_app (ui_run sample_start ''h'' ''1'' sample_events)))
     = [\<lparr>pa_action = Raise, pa_amount = Some 1000\<rparr>]"
proof -
  let ?u = "ui_run sample_start ''h'' ''1'' [Message (SYourTurn sample_turn)]"
  have start: "v_your_turn (u_state ?u) = Some sample_turn" "player_actions (a_sent (u_app ?u)) = []"
    by (simp_all add: ui_run_def initialize_session_def add_server_message_def after_your_turn_def Let_def)
      (simp add: new_ui_def player_actions_def sample_start_def)
  have "turns_in (ui_step (PresetButton AllInPreset) ?u)
      = (None, Some sample_turn, [\<lparr>pa_action = Raise, pa_amount = Some 1000\<rparr>])"
    using start
    by (simp add: send_preset_raise_def has_action_def sample_turn_def Let_def allin_raise_amount_def clamp_def
        send_action_turns)
  moreover have "ui_run sample_start ''h'' ''1'' sample_events
      = send_action Call None (ui_step (PresetButton AllInPreset) ?u)"
    by (simp add: ui_run_def sample_events_def)
  ultimately show ?thesis
    using send_action_turns [of Call None "ui_step (PresetButton AllInPreset) ?u"]
    by (simp add: turns_in_def)
qed

theorem actions_answer_turns_witness:
  "answers sample_turn \<lparr>pa_action = Raise, pa_amount = Some 1000\<rparr>"
  using actions_answer_turns [of sample_start "''h''" "''1''" sample_events]
  by (simp add: sample_actions) (simp add: sample_events_def turns_of_def)

end
