(* ===== verification/ClientScreen.thy ===== *)
theory ClientScreen
  imports UiCards UiTurns GameSession
begin

text \<open>
  What the client shows: the \<open>render_*\<close> functions of \<open>client/src/poker_ui.cpp\<close> as trees of elements, and the
  buttons and fields that \<open>PokerUI::run\<close> builds, with the handler of each. A \<open>Maybe\<close> of FTXUI shows its
  content, and lets it take events, as long as its flag is set. The lemmas say which cards, rooms, lines of
  the log and buttons are on the screen, and that the buttons shown do what they say.
\<close>

section \<open>Header and screens\<close>

definition header_title :: "language \<Rightarrow> view \<Rightarrow> string" where
  "header_title lang v =
     tr lang Msg_AppTitle
     @ (if v_player_name v \<noteq> []
        then ''  |  '' @ v_player_name v @ ''  |  '' @ decimal (unat (v_chips v)) @ tr lang Msg_PlayerChips else [])
     @ (case v_room_id v of
          Some room \<Rightarrow> ''  |  '' @ tr1 lang Msg_HeaderRoom (decimal (unat room)) | None \<Rightarrow> [])"

definition render_header :: "language \<Rightarrow> view \<Rightarrow> element" where
  "render_header lang v =
     VBox [HBox [decorate (Text (header_title lang v)) [Bold, Fg YellowColor], Filler,
             Deco (Text (connection_status_label lang (v_connection v))) Dim],
           HBox [Deco (Text (tr1 lang Msg_LanguageHint (language_display_name lang lang))) Dim, Filler,
             Deco (Text (v_status_message v)) Dim]]"

definition render_login :: "language \<Rightarrow> view \<Rightarrow> element" where
  "render_login lang v =
     VBox [Deco (Text (tr lang Msg_EnterYourName)) Bold,
       Separator,
       Deco (Text (tr lang Msg_NameLabel @ '' / '' @ tr lang Msg_PasswordLabel @ '' / '' @ tr lang Msg_HostLabel
         @ '' / '' @ tr lang Msg_PortLabel @ bytes [32, 226, 128, 148, 32] @ tr lang Msg_TypeBelow)) Dim,
       Deco (Text (tr lang Msg_PressJoinWhenReady)) Dim,
       Deco (Text (tr lang Msg_PasswordRules)) Dim,
       Deco (Text (if v_connection v = Connected
           then tr1 lang Msg_ConnectedTo (v_server_host v @ '':'' @ v_server_port v)
           else tr lang Msg_WaitingForConnection)) Dim]"

definition render_disconnected :: "language \<Rightarrow> element" where
  "render_disconnected lang =
     VBox [decorate (Text (tr lang Msg_ConnectionLostTitle)) [Bold, Fg RedColor], Separator,
       Deco (Text (tr lang Msg_ConnectionLostDetail)) Dim, Deco (Text (tr lang Msg_PressReconnect)) Dim]"

text \<open>One line of the list of rooms.\<close>

definition room_line :: "int \<Rightarrow> string list \<Rightarrow> nat \<Rightarrow> element" where
  "room_line selected_index labels i =
     (let selected = (int i = selected_index)
      in decorate (Text ((if selected then ''> '' else ''  '') @ labels ! i))
           (if selected then [Fg YellowColor, Bold] else [Plain]))"

definition room_lines :: "language \<Rightarrow> ui \<Rightarrow> element list" where
  "room_lines lang u =
     (if u_room_labels u = [] then [Deco (Text (tr lang Msg_NoRoomsYet)) Dim]
      else map (room_line (u_selected u) (u_room_labels u)) [0..<length (u_room_labels u)])"

definition create_panel :: "language \<Rightarrow> ui \<Rightarrow> element list" where
  "create_panel lang u =
     (if u_show_create_panel u
      then [Separator,
        Deco (Text (tr lang Msg_CreateRoom)) Bold,
        HBox [Text ('' '' @ tr lang Msg_NameLabel @ '' ''),
          Text (if u_create_name u = [] then tr lang Msg_TypeBelow else u_create_name u)],
        HBox [Text ('' '' @ tr lang Msg_MaxPlayersLabel @ '' ''), Text (u_create_size u)],
        Deco (Text (tr lang Msg_PressCreateConfirm)) Dim]
      else [])"

definition render_lobby :: "language \<Rightarrow> ui \<Rightarrow> element" where
  "render_lobby lang u =
     VBox [Deco (Text (tr lang Msg_Lobby)) Bold, Separator,
       Deco (VBox (room_lines lang u)) Border,
       VBox (create_panel lang u),
       Separator,
       Deco (Text (tr3 lang Msg_BlindsInfo (decimal (unat SMALL_BLIND)) (decimal (unat BIG_BLIND))
         (decimal (unat (v_chips (u_state u)))))) Dim]"

definition render_waiting_room :: "language \<Rightarrow> view \<Rightarrow> element" where
  "render_waiting_room lang v =
     (let seats = map (\<lambda>name. Text (''  (.) '' @ name
            @ (if name = v_room_host_name v then tr lang Msg_HostTag else []))) (v_player_names v);
          hint = (if v_is_room_host v
                  then (if length (v_player_names v) \<ge> 2 then tr lang Msg_PressStartWhenReady
                        else tr lang Msg_NeedTwoPlayers)
                  else tr1 lang Msg_WaitingForHostStart (v_room_host_name v));
          count = tr2 lang Msg_PlayersCount (decimal (length (v_player_names v)))
            (decimal (unat (v_room_max_players v)))
      in VBox [Deco (Text (tr lang Msg_WaitingForPlayers)) Bold, Separator,
           Text (tr lang Msg_PlayersAtTable), Deco (VBox seats) Border,
           Deco (Text count) Center, decorate (Text hint) [Dim, Center],
           decorate (Text (tr lang Msg_AutoStartWhenFull)) [Dim, Center]])"

section \<open>The table\<close>

definition render_hand_result_banner :: "language \<Rightarrow> view \<Rightarrow> element" where
  "render_hand_result_banner lang v =
     (case v_last_hand_result v of
        None \<Rightarrow> Text []
      | Some result \<Rightarrow>
          VBox [decorate (Text (hand_result_text lang result (v_game_state v))) [Fg CyanColor, Bold, Center],
            decorate (Text (tr lang Msg_NextHandSoon)) [Dim, Center]])"

definition render_game_table :: "language \<Rightarrow> view \<Rightarrow> element" where
  "render_game_table lang v =
     (case v_game_state v of
        None \<Rightarrow> Deco (Text (tr lang Msg_WaitingForGameState)) Dim
      | Some game \<Rightarrow>
          let seats = (if gs_players game \<noteq> []
                then render_table_seats lang (gs_players game) (v_player_name v) (gs_active_player_name game)
                else render_table_seats lang [] (v_player_name v) (gs_active_player_name game));
              hint = hand_hint lang v;
              body = [Deco (Text (tr1 lang Msg_PhasePrefix (tr_phase lang (gs_phase game)))) Bold,
                render_hand_result_banner lang v,
                Separator,
                HBox [Text (tr lang Msg_PotLabel @ '' ''),
                  decorate (Text (decimal (unat (gs_total_pot game)))) [Fg YellowColor, Bold]],
                HBox [Text (tr lang Msg_TableBetLabel @ '' ''), Deco (Text (decimal (unat (gs_current_bet game)))) Dim],
                Separator,
                Text (tr lang Msg_CommunityCards),
                render_card_row (gs_general_cards game) 5,
                Separator,
                Text (tr lang Msg_YourHand),
                render_card_row (gs_your_cards game) 2,
                (if hint = [] then Text [] else Deco (Text (tr lang Msg_HandPrefix @ '' '' @ hint)) Dim),
                Separator,
                Text (tr lang Msg_TableLabel),
                seats]
          in decorate (VBox body) [Bg panel_background, Border])"

definition render_body :: "ui \<Rightarrow> element" where
  "render_body u =
     (case v_screen (u_state u) of
        Login \<Rightarrow> render_login (u_lang u) (u_state u)
      | Lobby \<Rightarrow> render_lobby (u_lang u) u
      | WaitingRoom \<Rightarrow> render_waiting_room (u_lang u) (u_state u)
      | InGame \<Rightarrow> render_game_table (u_lang u) (u_state u)
      | DisconnectedScreen \<Rightarrow> render_disconnected (u_lang u))"

section \<open>Log, turn and the whole screen\<close>

definition render_log_panel :: "ui \<Rightarrow> element" where
  "render_log_panel u =
     (let lines = map (\<lambda>line. Deco (Text line) Dim) (visible_log u);
          lines = (if lines = [] then [Deco (Text (tr (u_lang u) Msg_EventLog)) Dim] else lines)
      in decorate (VBox lines) [Border, HeightEqual 10])"

definition render_status_bar :: "language \<Rightarrow> view \<Rightarrow> element" where
  "render_status_bar lang v =
     (case v_your_turn v of
        None \<Rightarrow> Text []
      | Some turn \<Rightarrow>
          decorate (Text (tr1 lang Msg_YourTurnBar (decimal (unat (yt_your_chips turn)))
            @ (if yt_to_call turn > 0 then tr1 lang Msg_ToCallSuffix (decimal (unat (yt_to_call turn))) else [])
            @ tr2 lang Msg_RaiseRange (decimal (unat (yt_min_amount turn))) (decimal (unat (yt_max_amount turn)))))
            [Fg YellowColor, Bold, Center])"

definition render_ui :: "ui \<Rightarrow> element" where
  "render_ui u =
     decorate (VBox [render_header (u_lang u) (u_state u), Separator, Deco (render_body u) Flex, Separator,
         render_status_bar (u_lang u) (u_state u), render_log_panel u])
       [Bg panel_background, Border]"

text \<open>The renderer of \<open>run\<close>: the pending refocus is used up, the bell is rung once, and the screen is drawn above
  the controls. The result holds the field that takes the focus and whether the bell rings.\<close>

definition draw :: "element \<Rightarrow> ui \<Rightarrow> text_field option \<times> bool \<times> element \<times> ui" where
  "draw controls u =
     (let (field, u) = apply_pending_refocus u in
      (field, u_ring_bell u,
      Deco (VBox [render_ui u, Separator, Deco (Text (tr (u_lang u) Msg_Controls)) Dim, controls,
        Deco (Text (tr (u_lang u) Msg_HotkeyHint)) Dim]) Flex,
      u\<lparr>u_ring_bell := False\<rparr>))"

section \<open>Buttons and fields\<close>

text \<open>The buttons, by the names of their variables in \<open>run\<close>.\<close>

datatype button =
    EnterBtn | LoginQuitBtn | LoginLangBtn | RefreshBtn | CreateBtn
   | JoinRoomBtn | WaitingLeaveBtn | GameLeaveBtn | StartBtn | RefreshBtnWaiting | LobbyQuitBtn
   | WaitingQuitBtn | GameQuitBtn | ReconnectBtn | DisconnectedQuitBtn | ConfirmCreateBtn
   | CancelCreateBtn | FoldBtn | CheckBtn | CallBtn | RaiseBtn | MinRaiseBtn | HalfRaiseBtn
   | PotRaiseBtn | AllinRaiseBtn | RoomUpBtn | RoomDownBtn | LobbyLangBtn

fun button_label :: "button \<Rightarrow> button_labels \<Rightarrow> string" where
  "button_label EnterBtn btn = bl_join btn"
| "button_label LoginQuitBtn btn = bl_quit btn"
| "button_label LoginLangBtn btn = bl_lang btn"
| "button_label RefreshBtn btn = bl_refresh btn"
| "button_label CreateBtn btn = bl_create btn"
| "button_label JoinRoomBtn btn = bl_join btn"
| "button_label WaitingLeaveBtn btn = bl_leave btn"
| "button_label GameLeaveBtn btn = bl_leave btn"
| "button_label StartBtn btn = bl_start btn"
| "button_label RefreshBtnWaiting btn = bl_refresh btn"
| "button_label LobbyQuitBtn btn = bl_quit btn"
| "button_label WaitingQuitBtn btn = bl_quit btn"
| "button_label GameQuitBtn btn = bl_quit btn"
| "button_label ReconnectBtn btn = bl_reconnect btn"
| "button_label DisconnectedQuitBtn btn = bl_quit btn"
| "button_label ConfirmCreateBtn btn = bl_confirm btn"
| "button_label CancelCreateBtn btn = bl_cancel btn"
| "button_label FoldBtn btn = bl_fold btn"
| "button_label CheckBtn btn = bl_check btn"
| "button_label CallBtn btn = bl_call btn"
| "button_label RaiseBtn btn = bl_raise btn"
| "button_label MinRaiseBtn btn = bl_min btn"
| "button_label HalfRaiseBtn btn = bl_half btn"
| "button_label PotRaiseBtn btn = bl_pot btn"
| "button_label AllinRaiseBtn btn = bl_allin btn"
| "button_label RoomUpBtn btn = bl_room_up btn"
| "button_label RoomDownBtn btn = bl_room_down btn"
| "button_label LobbyLangBtn btn = bl_lang btn"

fun on_click :: "bool \<Rightarrow> button \<Rightarrow> ui_event" where
  "on_click connected EnterBtn = LoginButton connected"
| "on_click connected LoginQuitBtn = QuitButton"
| "on_click connected LoginLangBtn = LanguageButton"
| "on_click connected RefreshBtn = RefreshButton"
| "on_click connected CreateBtn = CreateButton"
| "on_click connected JoinRoomBtn = JoinButton"
| "on_click connected WaitingLeaveBtn = LeaveButton"
| "on_click connected GameLeaveBtn = LeaveButton"
| "on_click connected StartBtn = StartButton"
| "on_click connected RefreshBtnWaiting = RefreshButton"
| "on_click connected LobbyQuitBtn = QuitButton"
| "on_click connected WaitingQuitBtn = QuitButton"
| "on_click connected GameQuitBtn = QuitButton"
| "on_click connected ReconnectBtn = ReconnectButton"
| "on_click connected DisconnectedQuitBtn = QuitButton"
| "on_click connected ConfirmCreateBtn = ConfirmCreate"
| "on_click connected CancelCreateBtn = CancelCreate"
| "on_click connected FoldBtn = FoldButton"
| "on_click connected CheckBtn = CheckButton"
| "on_click connected CallBtn = CallButton"
| "on_click connected RaiseBtn = RaiseButton"
| "on_click connected MinRaiseBtn = PresetButton MinPreset"
| "on_click connected HalfRaiseBtn = PresetButton HalfPreset"
| "on_click connected PotRaiseBtn = PresetButton PotPreset"
| "on_click connected AllinRaiseBtn = PresetButton AllInPreset"
| "on_click connected RoomUpBtn = RoomStep (- 1)"
| "on_click connected RoomDownBtn = RoomStep 1"
| "on_click connected LobbyLangBtn = LanguageButton"

datatype component =
    Button button
  | Input text_field string bool \<comment> \<open>placeholder, password\<close>
  | Vertical "component list"
  | Horizontal "component list"
  | Maybe component "controls \<Rightarrow> bool"

definition login_controls :: component where
  "login_controls =
     Vertical [Input NameField ''username'' False, Input PasswordField ''password'' True,
       Input HostField ''host'' False, Input PortField ''port'' False,
       Horizontal [Button EnterBtn, Button LoginLangBtn, Button LoginQuitBtn]]"

definition lobby_controls :: component where
  "lobby_controls =
     Horizontal [Button RoomUpBtn, Button RoomDownBtn, Button RefreshBtn, Button CreateBtn,
       Button JoinRoomBtn, Button LobbyLangBtn, Button LobbyQuitBtn]"

definition create_controls :: component where
  "create_controls =
     Vertical [Input CreateNameField ''room name'' False, Input CreateSizeField ''max players'' False,
       Horizontal [Button ConfirmCreateBtn, Button CancelCreateBtn]]"

definition waiting_start_controls :: component where
  "waiting_start_controls = Horizontal [Button StartBtn]"

definition waiting_controls :: component where
  "waiting_controls = Horizontal [Button WaitingLeaveBtn, Button RefreshBtnWaiting, Button WaitingQuitBtn]"

definition raise_presets :: component where
  "raise_presets = Horizontal [Button MinRaiseBtn, Button HalfRaiseBtn, Button PotRaiseBtn, Button AllinRaiseBtn]"

definition turn_controls :: component where
  "turn_controls =
     Horizontal [Maybe (Button FoldBtn) show_fold, Maybe (Button CheckBtn) show_check,
       Maybe (Button CallBtn) show_call, Maybe (Input RaiseField ''amount'' False) show_raise,
       Maybe (Button RaiseBtn) show_raise]"

definition game_bar :: component where
  "game_bar = Horizontal [Button GameLeaveBtn, Button GameQuitBtn]"

definition disconnected_controls :: component where
  "disconnected_controls = Horizontal [Button ReconnectBtn, Button DisconnectedQuitBtn]"

definition root :: component where
  "root =
     Vertical [Maybe login_controls show_login_controls, Maybe lobby_controls show_lobby_controls,
       Maybe create_controls show_create_controls, Maybe waiting_start_controls show_waiting_start,
       Maybe waiting_controls show_waiting_controls, Maybe raise_presets show_raise_presets,
       Maybe turn_controls show_turn_actions, Maybe game_bar show_game_controls,
       Maybe disconnected_controls show_disconnected_controls]"

text \<open>The buttons and the fields that are shown.\<close>

primrec buttons_in :: "controls \<Rightarrow> component \<Rightarrow> button list" where
  "buttons_in c (Button b) = [b]"
| "buttons_in c (Input f placeholder password) = []"
| "buttons_in c (Vertical cs) = concat (map (buttons_in c) cs)"
| "buttons_in c (Horizontal cs) = concat (map (buttons_in c) cs)"
| "buttons_in c (Maybe x flag) = (if flag c then buttons_in c x else [])"

primrec fields_in :: "controls \<Rightarrow> component \<Rightarrow> text_field list" where
  "fields_in c (Button b) = []"
| "fields_in c (Input f placeholder password) = [f]"
| "fields_in c (Vertical cs) = concat (map (fields_in c) cs)"
| "fields_in c (Horizontal cs) = concat (map (fields_in c) cs)"
| "fields_in c (Maybe x flag) = (if flag c then fields_in c x else [])"

definition shown_buttons :: "ui \<Rightarrow> button list" where
  "shown_buttons u = buttons_in (u_controls u) root"

definition shown_fields :: "ui \<Rightarrow> text_field list" where
  "shown_fields u = fields_in (u_controls u) root"

lemmas root_defs = root_def login_controls_def lobby_controls_def create_controls_def
  waiting_start_controls_def waiting_controls_def raise_presets_def turn_controls_def game_bar_def
  disconnected_controls_def

section \<open>The cards on the screen\<close>

lemma panel_is_no_card [simp]: "panel_background \<noteq> card_background"
  by (simp add: panel_background_def card_background_def)

lemma no_cards_in [simp]:
  "shown_cards (render_header lang v) = []" "shown_cards (render_login lang v) = []"
  "shown_cards (render_disconnected lang) = []" "shown_cards (render_status_bar lang v) = []"
  "shown_cards (render_hand_result_banner lang v) = []" "shown_cards (room_line i ls k) = []"
  by (simp_all add: render_header_def render_login_def render_disconnected_def render_status_bar_def
      render_hand_result_banner_def room_line_def Let_def split: option.split)

lemma no_cards_in_lists [simp]:
  "concat (map shown_cards (room_lines lang u)) = []" "concat (map shown_cards (create_panel lang u)) = []"
  by (auto simp: room_lines_def create_panel_def)

lemma no_cards_elsewhere [simp]:
  "shown_cards (render_lobby lang u) = []" "shown_cards (render_waiting_room lang v) = []"
  "shown_cards (render_log_panel u) = []"
  by (simp_all add: render_lobby_def render_waiting_room_def render_log_panel_def Let_def)

definition cards_of_state :: "game_state_update \<Rightarrow> card list" where
  "cards_of_state gs = take 5 (gs_general_cards gs) @ take 2 (gs_your_cards gs)
     @ concat (map (\<lambda>p. take 2 (ps_hole_cards p)) (gs_players gs))"

lemma shown_table:
  "shown_cards (render_game_table lang v) = (case v_game_state v of None \<Rightarrow> [] | Some gs \<Rightarrow> cards_of_state gs)"
  by (auto simp: render_game_table_def cards_of_state_def Let_def split: option.split)

lemma shown_screen:
  "shown_cards (render_ui u) = (case (v_screen (u_state u), v_game_state (u_state u)) of
     (InGame, Some gs) \<Rightarrow> cards_of_state gs | _ \<Rightarrow> [])"
  by (simp add: render_ui_def render_body_def shown_table split: ui_screen.split option.split)

text \<open>
  The cards on the screen: whatever the state, the faces that are drawn, from the top to the bottom, are the
  five board cards and the two own cards of the game state kept, then at most two cards for each player in
  the order of the seats, and only on the screen of the game; faces of different cards differ.
\<close>

theorem screen_shows_cards:
  "shown_cards (render_ui u) = (case (v_screen (u_state u), v_game_state (u_state u)) of
      (InGame, Some gs) \<Rightarrow> take 5 (gs_general_cards gs) @ take 2 (gs_your_cards gs)
        @ concat (map (\<lambda>p. take 2 (ps_hole_cards p)) (gs_players gs))
    | _ \<Rightarrow> [])
   \<and> (render_card c = render_card d \<longleftrightarrow> c = d)"
  using shown_screen [of u] by (simp only: cards_of_state_def render_card_inj simp_thms)

text \<open>
  The lines of a card face do not match: the edge is as long as the label has bytes, but the sign of the suit is one
  character of three bytes; the edge is eight columns wide, the line with the rank and the suit seven.
\<close>

theorem card_face_uneven:
  "\<exists>edge middle. texts (render_card c) = [edge, middle, edge]
     \<and> middle = ''| '' @ card_label c @ '' |'' \<and> columns edge = 8 \<and> columns middle = 7"
  by (simp add: render_card_def styled_card_body_def Let_def card_label_width)

section \<open>The list of rooms\<close>

lemma room_texts:
  "concat (map texts (room_lines lang u)) =
     (if u_room_labels u = [] then [tr lang Msg_NoRoomsYet]
      else map (\<lambda>i. (if int i = u_selected u then ''> '' else ''  '') @ u_room_labels u ! i)
        [0..<length (u_room_labels u)])"
  by (simp add: room_lines_def room_line_def Let_def comp_def)

lemma run_selection:
  "selection_ok (ui_run st host port evs)" "in_sync (ui_run st host port evs)"
  using ui_run_ok by blast+

definition marked_rooms :: "ui \<Rightarrow> nat set" where
  "marked_rooms u =
     {i. i < length (u_room_labels u)
       \<and> concat (map texts (room_lines (u_lang u) u)) ! i = ''> '' @ u_room_labels u ! i}"

lemma marked_rooms_eq:
  "marked_rooms u = {i. i < length (u_room_labels u) \<and> int i = u_selected u}"
  unfolding marked_rooms_def room_texts by (auto split: if_splits)

text \<open>
  What is marked is what is joined: after any events, when the list of rooms is not empty, exactly one line of it is
  marked, the line of a room of the list with its current label; and the join button then asks for this
  room, or, if it is in a game, says that it cannot be joined and sends nothing.
\<close>

theorem marked_room_is_joined:
  assumes "v_rooms (u_state (ui_run st host port evs)) \<noteq> []"
  shows "\<exists>i. marked_rooms (ui_run st host port evs) = {i}
    \<and> i < length (v_rooms (u_state (ui_run st host port evs)))
    \<and> u_room_labels (ui_run st host port evs) ! i
        = room_label (u_lang (ui_run st host port evs)) (v_rooms (u_state (ui_run st host port evs)) ! i)
    \<and> a_sent (u_app (join_button (ui_run st host port evs))) = a_sent (u_app (ui_run st host port evs))
        @ (if ri_in_game (v_rooms (u_state (ui_run st host port evs)) ! i) then []
           else [CJoinRoom \<lparr>jr_room_id = ri_room_id (v_rooms (u_state (ui_run st host port evs)) ! i)\<rparr>])"
proof -
  let ?u = "ui_run st host port evs"
  let ?rooms = "v_rooms (u_state ?u)" and ?i = "nat (u_selected ?u)"
  have ok: "u_room_labels ?u = map (room_label (u_lang ?u)) ?rooms" "0 \<le> u_selected ?u"
    "u_selected ?u < int (length ?rooms)"
    using run_selection(1) [of st host port evs] assms by (auto simp: selection_ok_def)
  then have i: "?i < length ?rooms" "marked_rooms ?u = {?i}" by (auto simp: marked_rooms_eq)
  show ?thesis using i ok
    by (intro exI [of _ ?i]) (simp add: join_button_def Let_def app_join_room_def app_send_def)
qed

section \<open>The buttons on the screen\<close>

fun button_action :: "button \<Rightarrow> action option" where
  "button_action FoldBtn = Some Fold"
| "button_action CheckBtn = Some Check"
| "button_action CallBtn = Some Call"
| "button_action RaiseBtn = Some Raise"
| "button_action MinRaiseBtn = Some Raise"
| "button_action HalfRaiseBtn = Some Raise"
| "button_action PotRaiseBtn = Some Raise"
| "button_action AllinRaiseBtn = Some Raise"
| "button_action b = None"

text \<open>The buttons of a state, screen by screen.\<close>

definition room_buttons :: "view \<Rightarrow> bool \<Rightarrow> button list" where
  "room_buttons v panel =
     (case v_screen v of
        Login \<Rightarrow> [EnterBtn, LoginLangBtn, LoginQuitBtn]
      | Lobby \<Rightarrow> [RoomUpBtn, RoomDownBtn, RefreshBtn, CreateBtn, JoinRoomBtn, LobbyLangBtn, LobbyQuitBtn]
          @ (if panel then [ConfirmCreateBtn, CancelCreateBtn] else [])
      | WaitingRoom \<Rightarrow> (if v_is_room_host v \<and> length (v_player_names v) \<ge> 2 then [StartBtn] else [])
          @ [WaitingLeaveBtn, RefreshBtnWaiting, WaitingQuitBtn]
      | _ \<Rightarrow> [])"

definition play_buttons :: "view \<Rightarrow> button list" where
  "play_buttons v =
     (if has_action Raise v then [MinRaiseBtn, HalfRaiseBtn, PotRaiseBtn, AllinRaiseBtn] else [])
     @ (if v_screen v = InGame
        then (if has_action Fold v then [FoldBtn] else []) @ (if has_action Check v then [CheckBtn] else [])
          @ (if has_action Call v then [CallBtn] else []) @ (if has_action Raise v then [RaiseBtn] else [])
        else [])"

definition exit_buttons :: "view \<Rightarrow> button list" where
  "exit_buttons v = (case v_screen v of
     InGame \<Rightarrow> [GameLeaveBtn, GameQuitBtn] | DisconnectedScreen \<Rightarrow> [ReconnectBtn, DisconnectedQuitBtn] | _ \<Rightarrow> [])"

lemma has_action_turn: "has_action a v \<Longrightarrow> v_your_turn v \<noteq> None"
  by (auto simp: has_action_def split: option.splits)

lemma buttons_of_controls:
  "buttons_in (controls_of v panel) root = room_buttons v panel @ play_buttons v @ exit_buttons v"
  using has_action_turn [of _ v]
  by (cases "v_screen v"; cases "v_your_turn v")
    (simp_all add: root_defs controls_of_def room_buttons_def play_buttons_def exit_buttons_def Let_def has_action_def)

lemma shown_buttons_eq:
  "in_sync u \<Longrightarrow> shown_buttons u
     = room_buttons (u_state u) (u_show_create_panel u) @ play_buttons (u_state u) @ exit_buttons (u_state u)"
  by (simp add: shown_buttons_def in_sync_def buttons_of_controls)

lemma other_buttons:
  "b \<in> set (room_buttons v panel) \<Longrightarrow> button_action b = None" "b \<in> set (exit_buttons v) \<Longrightarrow> button_action b = None"
  by (auto simp: room_buttons_def exit_buttons_def split: ui_screen.splits if_splits)

lemma play_button_action:
  "b \<in> set (play_buttons v) \<Longrightarrow> button_action b = Some a \<Longrightarrow> has_action a v"
  by (auto simp: play_buttons_def split: if_splits)

lemma no_play_buttons: "v_your_turn v = None \<Longrightarrow> play_buttons v = []"
  by (simp add: play_buttons_def has_action_def)

lemma shown_action:
  "in_sync u \<Longrightarrow> b \<in> set (shown_buttons u) \<Longrightarrow> button_action b = Some a \<Longrightarrow>
     \<exists>turn. v_your_turn (u_state u) = Some turn \<and> a \<in> set (yt_available_actions turn)"
  using play_button_action [of b "u_state u" a] other_buttons [of b]
  by (fastforce simp: shown_buttons_eq has_action_def split: option.splits)

lemma send_action_sends:
  assumes "v_your_turn (u_state u) = Some turn" "a \<in> set (yt_available_actions turn)"
  shows "a_sent (u_app (send_action a amt u)) = a_sent (u_app u) @ [CPlayerAction \<lparr>pa_action = a, pa_amount = amt\<rparr>]"
    and "v_your_turn (u_state (send_action a amt u)) = None"
  using assms by (simp_all add: send_action_def has_action_def Let_def send_player_action_def app_send_def)

lemma preset_sends:
  fixes v :: u32
  assumes "v_your_turn (u_state u) = Some turn" "Raise \<in> set (yt_available_actions turn)"
  defines "amt \<equiv> clamp v (yt_min_amount turn) (yt_max_amount turn)"
  shows "a_sent (u_app (send_preset_raise v u))
      = a_sent (u_app u) @ [CPlayerAction \<lparr>pa_action = Raise, pa_amount = Some amt\<rparr>]"
    and "v_your_turn (u_state (send_preset_raise v u)) = None"
    and "answers turn \<lparr>pa_action = Raise, pa_amount = Some amt\<rparr>"
proof -
  let ?u = "u\<lparr>u_raise_amount := decimal (unat amt)\<rparr>"
  have "send_preset_raise v u = send_action Raise (Some amt) ?u"
    using assms(1,2) by (simp add: send_preset_raise_def has_action_def amt_def Let_def)
  then show "a_sent (u_app (send_preset_raise v u))
      = a_sent (u_app u) @ [CPlayerAction \<lparr>pa_action = Raise, pa_amount = Some amt\<rparr>]"
    "v_your_turn (u_state (send_preset_raise v u)) = None"
    using send_action_sends [of ?u turn Raise "Some amt"] assms(1,2) by simp_all
  show "answers turn \<lparr>pa_action = Raise, pa_amount = Some amt\<rparr>"
    using assms(2) by (simp add: answers_def amt_def clamp_bounds)
qed

lemma click_sends:
  assumes "v_your_turn (u_state u) = Some turn" "a \<in> set (yt_available_actions turn)"
    "button_action b = Some a" "b \<noteq> RaiseBtn"
  shows "\<exists>amount. answers turn \<lparr>pa_action = a, pa_amount = amount\<rparr>
    \<and> a_sent (u_app (ui_step (on_click connected b) u))
      = a_sent (u_app u) @ [CPlayerAction \<lparr>pa_action = a, pa_amount = amount\<rparr>]
    \<and> v_your_turn (u_state (ui_step (on_click connected b) u)) = None"
proof -
  let ?acts = "\<lambda>a u'. \<exists>amount. answers turn \<lparr>pa_action = a, pa_amount = amount\<rparr>
    \<and> a_sent (u_app u') = a_sent (u_app u) @ [CPlayerAction \<lparr>pa_action = a, pa_amount = amount\<rparr>]
    \<and> v_your_turn (u_state u') = None"
  have plain: "?acts a (send_action a None u)" if "a \<noteq> Raise"
    using that assms(1,2) by (intro exI [of _ None]) (simp add: answers_def send_action_sends)
  have preset: "?acts Raise (send_preset_raise v u)" if "a = Raise" for v
    using preset_sends [OF assms(1), of v] assms(2) that by blast
  show ?thesis using assms(3,4) plain preset by (cases b) simp_all
qed

text \<open>
  C29. The buttons of a turn act: after any events, when one of the buttons fold, check, call or of the raise presets
  is on the screen, there is a turn of the server that offers its action, and pressing the button sends
  exactly this action, with an amount in the range of the turn for a raise; then no button that acts is
  left on the screen.
\<close>

theorem turn_buttons_act:
  assumes "b \<in> set (shown_buttons (ui_run st host port evs))" "button_action b = Some a" "b \<noteq> RaiseBtn"
  shows "\<exists>turn amount. v_your_turn (u_state (ui_run st host port evs)) = Some turn
    \<and> answers turn \<lparr>pa_action = a, pa_amount = amount\<rparr>
    \<and> a_sent (u_app (ui_run st host port (evs @ [on_click connected b])))
      = a_sent (u_app (ui_run st host port evs)) @ [CPlayerAction \<lparr>pa_action = a, pa_amount = amount\<rparr>]
    \<and> (\<forall>b' \<in> set (shown_buttons (ui_run st host port (evs @ [on_click connected b]))). button_action b' = None)"
proof -
  let ?u = "ui_run st host port evs" and ?u' = "ui_run st host port (evs @ [on_click connected b])"
  obtain turn where turn: "v_your_turn (u_state ?u) = Some turn" "a \<in> set (yt_available_actions turn)"
    using shown_action [OF run_selection(2) assms(1,2)] by blast
  have step: "?u' = ui_step (on_click connected b) ?u" by (simp add: ui_run_def)
  obtain amount where amount: "answers turn \<lparr>pa_action = a, pa_amount = amount\<rparr>"
    "a_sent (u_app ?u') = a_sent (u_app ?u) @ [CPlayerAction \<lparr>pa_action = a, pa_amount = amount\<rparr>]"
    "v_your_turn (u_state ?u') = None"
    using click_sends [OF turn assms(2,3), of connected] step by metis
  have "button_action b' = None" if "b' \<in> set (shown_buttons ?u')" for b'
    using that other_buttons [of b'] no_play_buttons [OF amount(3)]
    by (auto simp: shown_buttons_eq [OF run_selection(2)])
  then show ?thesis using turn(1) amount by blast
qed

section \<open>Witnesses\<close>

lemma after_sample_turn:
  "v_your_turn (u_state (ui_run sample_start ''h'' ''1'' [Message (SYourTurn sample_turn)])) = Some sample_turn"
  by (simp add: ui_run_def initialize_session_def add_server_message_def after_your_turn_def Let_def)

lemma allin_is_shown:
  "AllinRaiseBtn \<in> set (shown_buttons (ui_run sample_start ''h'' ''1'' [Message (SYourTurn sample_turn)]))"
  using after_sample_turn
  by (simp add: shown_buttons_eq run_selection play_buttons_def has_action_def sample_turn_def)

theorem turn_buttons_act_witness:
  "\<exists>turn amount. answers turn \<lparr>pa_action = Raise, pa_amount = amount\<rparr>
    \<and> a_sent (u_app (ui_run sample_start ''h'' ''1'' [Message (SYourTurn sample_turn), PresetButton AllInPreset]))
      = a_sent (u_app (ui_run sample_start ''h'' ''1'' [Message (SYourTurn sample_turn)]))
        @ [CPlayerAction \<lparr>pa_action = Raise, pa_amount = amount\<rparr>]"
  using turn_buttons_act [OF allin_is_shown, of Raise True] by auto

definition sample_room :: room_info where
  "sample_room = \<lparr>ri_room_id = 7, ri_room_name = ''r'', ri_current_players = 1, ri_max_players = 2, ri_in_game = False\<rparr>"

lemma sample_rooms:
  "v_rooms (u_state (ui_run sample_start ''h'' ''1'' [Message (SRoomList \<lparr>rl_rooms = [sample_room]\<rparr>)])) = [sample_room]"
  by (simp add: ui_run_def add_server_message_def apply_room_list_def Let_def)

theorem marked_room_is_joined_witness:
  "marked_rooms (ui_run sample_start ''h'' ''1'' [Message (SRoomList \<lparr>rl_rooms = [sample_room]\<rparr>)]) = {0}"
  using marked_room_is_joined [of sample_start "''h''" "''1''" "[Message (SRoomList \<lparr>rl_rooms = [sample_room]\<rparr>)]"]
  by (auto simp: sample_rooms)

end
