(* ===== verification/ClientServer.thy ===== *)
theory ClientServer
  imports SampleServer ClientScreen
begin

text \<open>
  The client and the table together: the turn that \<open>GameSession::send_your_turn\<close> builds
  (\<open>server/src/game/game_session.cpp\<close>) and the actions that \<open>PokerUI\<close> sends for it
  (\<open>client/src/poker_ui.cpp\<close>) agree on what is allowed.
\<close>

lemma check_accepted:
  "Check \<in> set (yt_available_actions (your_turn_message g p)) \<longleftrightarrow> g_current_bet g = bet_of g p"
  by (auto simp: your_turn_message_def Let_def)

lemma raise_offered:
  "Raise \<in> set (yt_available_actions (your_turn_message g p)) \<Longrightarrow>
     yt_min_amount (your_turn_message g p) \<le> yt_max_amount (your_turn_message g p)"
  by (auto simp: your_turn_message_def Let_def split: if_splits)

lemma raise_legal:
  assumes r: "bets_in_range g p" and last: "0 < g_last_raise g"
    and v: "yt_min_amount (your_turn_message g p) \<le> v" "v \<le> yt_max_amount (your_turn_message g p)"
  shows "legal_raise g p v"
proof -
  have u: "unat (g_current_bet g + g_last_raise g) = unat (g_current_bet g) + unat (g_last_raise g)"
      "unat (bet_of g p + chips_of g p) = unat (bet_of g p) + unat (chips_of g p)"
    using r by (simp_all add: bets_in_range_def unat_plus_le)
  have lo: "unat (g_current_bet g) + unat (g_last_raise g) \<le> unat v"
    and hi: "unat v \<le> unat (bet_of g p) + unat (chips_of g p)"
    using v by (simp_all add: your_turn_message_def Let_def word_le_nat_alt u)
  then show ?thesis using last by (simp add: legal_raise_def word_less_nat_alt)
qed

lemma answer_accepted:
  assumes r: "bets_in_range g p" and last: "0 < g_last_raise g"
    and a: "answers (your_turn_message g p) pa"
  shows "\<exists>g'. play_action p (pa_action pa) (pa_amount pa) g = Inr g'"
proof (cases "pa_action pa")
  case Raise
  then obtain v where v: "pa_amount pa = Some v" and "legal_raise g p v"
    using a raise_legal [OF r last] raise_offered [of g p] by (auto simp: answers_def split: option.splits)
  then show ?thesis using Raise play_raise [OF r, of v] by (auto split: sum.splits)
next
  case Call
  then show ?thesis using play_call [OF r] by auto
next
  case Check
  then show ?thesis using a check_accepted [of g p] by (simp add: answers_def play_action_def)
qed (simp add: play_action_def)

text \<open>
  C24. Client and table agree: if the turns a client receives are those of a table whose amounts are in range
  and whose last raise is positive, then every player action it sends, by whatever keys and buttons,
  answers one of these turns, and the table that asked accepts it.
\<close>

theorem client_actions_accepted:
  assumes "\<And>m. m \<in> turns_of evs \<Longrightarrow>
    \<exists>g p. m = your_turn_message g p \<and> bets_in_range g p \<and> 0 < g_last_raise g"
    and "pa \<in> set (player_actions (a_sent (u_app (ui_run st host port evs))))"
  shows "\<exists>g p g'. your_turn_message g p \<in> turns_of evs \<and> answers (your_turn_message g p) pa
    \<and> play_action p (pa_action pa) (pa_amount pa) g = Inr g'"
proof -
  obtain m where m: "m \<in> turns_of evs" "answers m pa"
    using run_answers [OF ui_run_protocol [of evs st host port]] assms(2) by blast
  obtain g p where g: "m = your_turn_message g p" "bets_in_range g p" "0 < g_last_raise g"
    using assms(1) [OF m(1)] by blast
  show ?thesis using answer_accepted [OF g(2,3)] m unfolding g(1) by blast
qed

lemma sample_turn_asked:
  "sample_turn = your_turn_message sample_table 0 \<and> bets_in_range sample_table 0 \<and> 0 < g_last_raise sample_table"
proof -
  have s: "bet_of sample_table 0 = 10" "chips_of sample_table 0 = 990" "g_current_bet sample_table = 20"
    "g_last_raise sample_table = 20" "g_pot sample_table = 30"
    by (simp_all add: sample_table_def getd_def)
  show ?thesis by (simp add: sample_turn_def your_turn_message_def bets_in_range_def s Let_def)
qed

theorem client_actions_accepted_witness:
  "\<exists>g p g'. your_turn_message g p = sample_turn \<and> play_action p Raise (Some 1000) g = Inr g'"
proof -
  have t: "turns_of sample_events = {sample_turn}" by (auto simp: sample_events_def turns_of_def)
  have "\<exists>g p g'. your_turn_message g p \<in> turns_of sample_events
      \<and> answers (your_turn_message g p) \<lparr>pa_action = Raise, pa_amount = Some 1000\<rparr>
      \<and> play_action p (pa_action \<lparr>pa_action = Raise, pa_amount = Some 1000\<rparr>)
          (pa_amount \<lparr>pa_action = Raise, pa_amount = Some 1000\<rparr>) g = Inr g'"
    by (rule client_actions_accepted [where st = sample_start and host = "''h''" and port = "''1''"])
      (use t sample_turn_asked in \<open>auto simp: sample_actions\<close>)
  then show ?thesis using t by auto
qed

section \<open>What a player sees\<close>



end
