(* ===== verification/NetworkClient.thy ===== *)
theory NetworkClient
  imports NetworkSession
begin

text \<open>
  The connection of the client: \<open>NetworkClient\<close> of \<open>client/include/network_client.h\<close> and
  \<open>client/src/network_client.cpp\<close>. The member functions and the completion handlers are one definition
  each. \<open>k_ops\<close> lists the asynchronous operations that are outstanding, with the number of the socket
  object they were started on (the code does not know it; the handlers of the model do not read it).
  \<open>k_notified\<close> lists the calls of the connection handler, \<open>k_received\<close> those of the message handler,
  \<open>k_wire\<close> the packets handed to \<open>async_write\<close>. What asio does with an operation is the outcome with which
  it completes. \<open>parse\<close> and \<open>dump\<close> are parameters. Calls from the other thread are single steps.
\<close>

section \<open>State\<close>

datatype client_state = Disconnected | Connecting | Connected | Failed

datatype async_op =
    Resolve
  | Connect nat
  | Timer
  | ReadHeader nat
  | ReadBody nat u32
  | Write nat
  | Post "u8 list"

datatype outcome = Success | Aborted | OtherError

record net_client =
  k_host :: string
  k_port :: string
  k_state :: client_state
  k_closed :: bool
  k_write_in_progress :: bool
  k_write_queue :: "u8 list list"
  k_socket :: nat
  k_socket_open :: bool
  k_ops :: "async_op list"
  k_notified :: "client_state list"
  k_received :: "server_message list"
  k_wire :: "(nat \<times> u8 list) list"

definition new_client :: "string \<Rightarrow> string \<Rightarrow> net_client" where
  "new_client host port =
     \<lparr>k_host = host, k_port = port, k_state = Disconnected, k_closed = True,
      k_write_in_progress = False, k_write_queue = [], k_socket = 0, k_socket_open = False,
      k_ops = [], k_notified = [], k_received = [], k_wire = []\<rparr>"

section \<open>Operations\<close>

definition is_connected :: "net_client \<Rightarrow> bool" where
  "is_connected s \<longleftrightarrow> k_state s = Connected"

definition notify :: "client_state \<Rightarrow> net_client \<Rightarrow> net_client" where
  "notify st s = s\<lparr>k_notified := k_notified s @ [st]\<rparr>"

definition add_op :: "async_op \<Rightarrow> net_client \<Rightarrow> net_client" where
  "add_op p s = s\<lparr>k_ops := k_ops s @ [p]\<rparr>"

definition set_endpoint :: "string \<Rightarrow> string \<Rightarrow> net_client \<Rightarrow> net_client" where
  "set_endpoint host port s = s\<lparr>k_host := host, k_port := port\<rparr>"

definition do_write :: "net_client \<Rightarrow> net_client" where
  "do_write s =
     (if \<not> is_connected s \<or> k_write_in_progress s \<or> k_write_queue s = [] then s
      else add_op (Write (k_socket s))
        (s\<lparr>k_write_in_progress := True, k_wire := k_wire s @ [(k_socket s, hd (k_write_queue s))]\<rparr>))"

definition close_connection :: "bool \<Rightarrow> net_client \<Rightarrow> net_client" where
  "close_connection notify_handler s =
     (let was_connected = (k_state s = Connected \<or> k_state s = Connecting);
          s = s\<lparr>k_closed := True, k_write_queue := [], k_write_in_progress := False\<rparr>;
          s = (if k_socket_open s then s\<lparr>k_socket_open := False\<rparr> else s)
      in if notify_handler \<and> was_connected then notify Disconnected (s\<lparr>k_state := Disconnected\<rparr>)
         else if k_state s = Connecting then s\<lparr>k_state := Disconnected\<rparr> else s)"

definition do_read_header :: "net_client \<Rightarrow> net_client" where
  "do_read_header s =
     (if k_closed s \<or> k_state s \<noteq> Connected then s else add_op (ReadHeader (k_socket s)) s)"

definition do_read_body :: "u32 \<Rightarrow> net_client \<Rightarrow> net_client" where
  "do_read_body len s = (if k_closed s then s else add_op (ReadBody (k_socket s) len) s)"

definition on_message :: "(string \<Rightarrow> string + json) \<Rightarrow> string \<Rightarrow> net_client \<Rightarrow> net_client" where
  "on_message parse raw s =
     (case parse raw of
        Inl e \<Rightarrow> s
      | Inr data \<Rightarrow>
          (case from_json_server data of
             Ret msg \<Rightarrow> s\<lparr>k_received := k_received s @ [msg]\<rparr> | _ \<Rightarrow> s))"

definition on_connect_result :: "outcome \<Rightarrow> net_client \<Rightarrow> net_client" where
  "on_connect_result ec s =
     (if k_closed s then s
      else if ec = Success
      then let s = notify Connected (s\<lparr>k_state := Connected\<rparr>);
               s = (if k_write_queue s \<noteq> [] \<and> \<not> k_write_in_progress s then do_write s else s)
           in do_read_header s
      else if ec = Aborted then s
      else notify Failed (s\<lparr>k_closed := True, k_state := Failed, k_write_queue := []\<rparr>))"

definition begin_connect :: "net_client \<Rightarrow> net_client" where
  "begin_connect s =
     (if k_state s = Connecting then s
      else add_op Resolve (notify Connecting
        (s\<lparr>k_socket := k_socket s + 1, k_socket_open := False, k_closed := False, k_state := Connecting\<rparr>)))"

definition start_client :: "net_client \<Rightarrow> net_client" where
  "start_client s = begin_connect s"

definition reconnect :: "net_client \<Rightarrow> net_client" where
  "reconnect s = begin_connect (close_connection False s)"

definition send_message :: "(json \<Rightarrow> string result) \<Rightarrow> client_message \<Rightarrow> net_client \<Rightarrow> net_client result" where
  "send_message dump msg s =
     bind_r (dump (to_json_client msg)) (\<lambda>json_str.
       if length json_str > unat MAX_PACKET_SIZE then Ret s
       else map_r (\<lambda>packet. add_op (Post packet) s) (encode_packet json_str))"

section \<open>Completion handlers\<close>

definition resolved :: "outcome \<Rightarrow> net_client \<Rightarrow> net_client" where
  "resolved ec s =
     (if k_closed s then s
      else if ec \<noteq> Success then on_connect_result ec s
      else add_op (Connect (k_socket s)) (add_op Timer (s\<lparr>k_socket_open := True\<rparr>)))"

definition timed_out :: "outcome \<Rightarrow> net_client \<Rightarrow> net_client" where
  "timed_out ec s =
     (if ec \<noteq> Success \<or> k_closed s \<or> k_state s \<noteq> Connecting then s
      else on_connect_result OtherError (s\<lparr>k_socket_open := False\<rparr>))"

definition header_read :: "outcome \<Rightarrow> u8 list \<Rightarrow> net_client \<Rightarrow> net_client" where
  "header_read ec bs s =
     (if k_closed s then s
      else if ec = Success \<and> length bs = 4
      then (case decode_packet_length bs of
              (len, ok) \<Rightarrow> if \<not> ok then close_connection True s else do_read_body len s)
      else close_connection True s)"

definition body_read :: "(string \<Rightarrow> string + json) \<Rightarrow> outcome \<Rightarrow> u8 list \<Rightarrow> net_client \<Rightarrow> net_client" where
  "body_read parse ec bs s =
     (if k_closed s then s
      else if ec = Success then do_read_header (on_message parse (string_of_bytes bs) s)
      else close_connection True s)"

definition write_done :: "outcome \<Rightarrow> net_client \<Rightarrow> net_client" where
  "write_done ec s =
     (let s = s\<lparr>k_write_in_progress := False\<rparr> in
      if \<not> is_connected s then s
      else if ec = Success
      then let s = (if k_write_queue s \<noteq> [] then s\<lparr>k_write_queue := tl (k_write_queue s)\<rparr> else s)
           in if k_write_queue s \<noteq> [] then do_write s else s
      else close_connection True s)"

definition posted :: "u8 list \<Rightarrow> net_client \<Rightarrow> net_client" where
  "posted packet s =
     (if k_state s = Connecting then s\<lparr>k_write_queue := k_write_queue s @ [packet]\<rparr>
      else if \<not> is_connected s then s
      else
        let s = s\<lparr>k_write_queue := k_write_queue s @ [packet]\<rparr>
        in if \<not> k_write_in_progress s then do_write s else s)"

text \<open>An operation completes: it is outstanding no more, and its handler runs.\<close>

definition run_handler ::
  "(string \<Rightarrow> string + json) \<Rightarrow> async_op \<Rightarrow> outcome \<Rightarrow> u8 list \<Rightarrow> net_client \<Rightarrow> net_client" where
  "run_handler parse p ec bs s =
     (case p of
        Resolve \<Rightarrow> resolved ec s
      | Connect _ \<Rightarrow> on_connect_result ec s
      | Timer \<Rightarrow> timed_out ec s
      | ReadHeader _ \<Rightarrow> header_read ec bs s
      | ReadBody _ _ \<Rightarrow> body_read parse ec bs s
      | Write _ \<Rightarrow> write_done ec s
      | Post packet \<Rightarrow> posted packet s)"

definition complete ::
  "(string \<Rightarrow> string + json) \<Rightarrow> async_op \<Rightarrow> outcome \<Rightarrow> u8 list \<Rightarrow> net_client \<Rightarrow> net_client" where
  "complete parse p ec bs s = run_handler parse p ec bs (s\<lparr>k_ops := remove1 p (k_ops s)\<rparr>)"

section \<open>Runs without a pending reconnect\<close>

fun is_read :: "async_op \<Rightarrow> bool" where
  "is_read (ReadHeader g) = True" | "is_read (ReadBody g len) = True" | "is_read _ = False"

fun is_write :: "async_op \<Rightarrow> bool" where
  "is_write (Write g) = True" | "is_write _ = False"

fun is_connecting :: "async_op \<Rightarrow> bool" where
  "is_connecting Resolve = True" | "is_connecting (Connect g) = True" | "is_connecting _ = False"

fun is_post :: "async_op \<Rightarrow> bool" where
  "is_post (Post packet) = True" | "is_post _ = False"

definition pending :: "(async_op \<Rightarrow> bool) \<Rightarrow> net_client \<Rightarrow> nat" where
  "pending P s = length (filter P (k_ops s))"

text \<open>How an operation can complete: on a socket only closing it aborts one, and a read without error has
  all its bytes.\<close>

definition completes_with :: "async_op \<Rightarrow> outcome \<Rightarrow> u8 list \<Rightarrow> net_client \<Rightarrow> bool" where
  "completes_with p ec bs s \<longleftrightarrow> p \<in> set (k_ops s) \<and> (case p of
     Resolve \<Rightarrow> ec \<noteq> Aborted
   | Timer \<Rightarrow> True
   | Post _ \<Rightarrow> ec = Success
   | ReadHeader _ \<Rightarrow> (ec = Aborted \<longrightarrow> \<not> k_socket_open s) \<and> (ec = Success \<longrightarrow> length bs = 4)
   | ReadBody _ len \<Rightarrow> (ec = Aborted \<longrightarrow> \<not> k_socket_open s) \<and> (ec = Success \<longrightarrow> length bs = unat len)
   | _ \<Rightarrow> ec = Aborted \<longrightarrow> \<not> k_socket_open s)"

text \<open>
  Runs in which a new connection is begun only when no operation on the old socket is outstanding. The
  list holds the packets that were accepted for the current connection.
\<close>

inductive client_run ::
  "(string \<Rightarrow> string + json) \<Rightarrow> (json \<Rightarrow> string result) \<Rightarrow> u8 list list \<Rightarrow> net_client \<Rightarrow> bool"
  for parse :: "string \<Rightarrow> string + json" and dump :: "json \<Rightarrow> string result" where
  cr_new: "client_run parse dump [] (new_client host port)"
| cr_connect: "client_run parse dump ms s \<Longrightarrow> list_all is_post (k_ops s) \<Longrightarrow>
    client_run parse dump [] (reconnect (set_endpoint host port s))"
| cr_send: "client_run parse dump ms s \<Longrightarrow> send_message dump m s = Ret s' \<Longrightarrow> client_run parse dump ms s'"
| cr_complete: "client_run parse dump ms s \<Longrightarrow> completes_with p ec bs s \<Longrightarrow>
    client_run parse dump
      (ms @ (case p of Post packet \<Rightarrow> if k_state s = Connecting \<or> k_state s = Connected then [packet] else [] | _ \<Rightarrow> []))
      (complete parse p ec bs s)"

definition wire_of :: "net_client \<Rightarrow> u8 list list" where
  "wire_of s = map snd (filter (\<lambda>gp. fst gp = k_socket s) (k_wire s))"

text \<open>The steps that the connection handler sees.\<close>

fun next_state :: "client_state \<Rightarrow> client_state \<Rightarrow> bool" where
  "next_state Disconnected st = (st = Connecting)"
| "next_state Failed st = (st = Connecting)"
| "next_state Connecting st = (st = Connected \<or> st = Failed)"
| "next_state Connected st = (st = Disconnected)"

definition queue_ok :: "u8 list list \<Rightarrow> net_client \<Rightarrow> bool" where
  "queue_ok ms s \<longleftrightarrow> (\<exists>sent. ms = sent @ k_write_queue s
     \<and> wire_of s = sent @ (if k_write_in_progress s then [hd (k_write_queue s)] else []))"

definition client_wf :: "u8 list list \<Rightarrow> net_client \<Rightarrow> bool" where
  "client_wf ms s \<longleftrightarrow>
     (\<forall>gp \<in> set (k_wire s). fst gp \<le> k_socket s)
     \<and> successively next_state (Disconnected # k_notified s)
     \<and> last (Disconnected # k_notified s) = k_state s
     \<and> (case k_state s of
         Connecting \<Rightarrow> \<not> k_closed s \<and> pending is_connecting s = 1 \<and> pending is_read s = 0
           \<and> pending is_write s = 0 \<and> \<not> k_write_in_progress s \<and> queue_ok ms s
           \<and> (\<forall>g. Connect g \<in> set (k_ops s) \<longrightarrow> k_socket_open s)
       | Connected \<Rightarrow> \<not> k_closed s \<and> pending is_connecting s = 0 \<and> pending is_read s = 1
           \<and> pending is_write s = (if k_write_in_progress s then 1 else 0) \<and> k_socket_open s
           \<and> (k_write_in_progress s \<longleftrightarrow> k_write_queue s \<noteq> []) \<and> queue_ok ms s
       | _ \<Rightarrow> k_closed s \<and> k_write_queue s = [] \<and> \<not> k_write_in_progress s
           \<and> (\<exists>k. wire_of s = take k ms))"

lemma pending_add: "pending P (add_op p s) = (if P p then pending P s + 1 else pending P s)"
  by (simp add: pending_def add_op_def)

lemma pending_remove:
  "p \<in> set (k_ops s) \<Longrightarrow>
    pending P (s\<lparr>k_ops := remove1 p (k_ops s)\<rparr>) = (if P p then pending P s - 1 else pending P s)"
  by (simp add: pending_def filter_remove1 length_remove1)

lemma pending_pos: "p \<in> set (k_ops s) \<Longrightarrow> P p \<Longrightarrow> 0 < pending P s"
  by (auto simp: pending_def length_greater_0_conv filter_empty_conv)

lemma pending_ops [simp]:
  "pending P (s\<lparr>k_state := a\<rparr>) = pending P s" "pending P (s\<lparr>k_closed := b\<rparr>) = pending P s"
  "pending P (s\<lparr>k_write_in_progress := b\<rparr>) = pending P s" "pending P (s\<lparr>k_write_queue := q\<rparr>) = pending P s"
  "pending P (s\<lparr>k_socket_open := b\<rparr>) = pending P s" "pending P (notify st s) = pending P s"
  "pending P (s\<lparr>k_wire := w\<rparr>) = pending P s" "pending P (s\<lparr>k_received := r\<rparr>) = pending P s"
  "pending P (s\<lparr>k_socket := g\<rparr>) = pending P s"
  by (simp_all add: pending_def notify_def)

lemma wire_of_simps [simp]:
  "wire_of (s\<lparr>k_state := a\<rparr>) = wire_of s" "wire_of (s\<lparr>k_closed := b\<rparr>) = wire_of s"
  "wire_of (s\<lparr>k_write_in_progress := b\<rparr>) = wire_of s" "wire_of (s\<lparr>k_write_queue := q\<rparr>) = wire_of s"
  "wire_of (s\<lparr>k_socket_open := b\<rparr>) = wire_of s" "wire_of (notify st s) = wire_of s"
  "wire_of (add_op p s) = wire_of s" "wire_of (s\<lparr>k_received := r\<rparr>) = wire_of s"
  "wire_of (s\<lparr>k_ops := ops\<rparr>) = wire_of s"
  "wire_of (s\<lparr>k_wire := k_wire s @ [(k_socket s, packet)]\<rparr>) = wire_of s @ [packet]"
  by (simp_all add: wire_of_def notify_def add_op_def)

lemma successively_snoc:
  "successively P (x # xs @ [y]) \<longleftrightarrow> successively P (x # xs) \<and> P (last (x # xs)) y"
  using successively_append_iff [of P "x # xs" "[y]"] by simp

text \<open>The parts of \<open>client_wf\<close> that do not depend on what is outstanding.\<close>

definition trace_wf :: "net_client \<Rightarrow> bool" where
  "trace_wf s \<longleftrightarrow> (\<forall>gp \<in> set (k_wire s). fst gp \<le> k_socket s)
     \<and> successively next_state (Disconnected # k_notified s)
     \<and> last (Disconnected # k_notified s) = k_state s"

lemma trace_wf_notify:
  "trace_wf s \<Longrightarrow> next_state (k_state s) st \<Longrightarrow> trace_wf (notify st (s\<lparr>k_state := st\<rparr>))"
  unfolding trace_wf_def notify_def by (simp add: successively_snoc)

lemma trace_wf_simps [simp]:
  "trace_wf (s\<lparr>k_closed := b\<rparr>) = trace_wf s" "trace_wf (s\<lparr>k_write_in_progress := b\<rparr>) = trace_wf s"
  "trace_wf (s\<lparr>k_write_queue := q\<rparr>) = trace_wf s" "trace_wf (s\<lparr>k_socket_open := b\<rparr>) = trace_wf s"
  "trace_wf (add_op p s) = trace_wf s" "trace_wf (s\<lparr>k_received := r\<rparr>) = trace_wf s"
  "trace_wf (s\<lparr>k_ops := ops\<rparr>) = trace_wf s" "trace_wf (s\<lparr>k_host := h\<rparr>) = trace_wf s"
  "trace_wf (s\<lparr>k_port := h\<rparr>) = trace_wf s"
  "trace_wf (s\<lparr>k_wire := k_wire s @ [(k_socket s, packet)]\<rparr>) = trace_wf s"
  by (simp_all add: trace_wf_def add_op_def)

definition connected_wf :: "u8 list list \<Rightarrow> net_client \<Rightarrow> bool" where
  "connected_wf ms s \<longleftrightarrow> k_state s = Connected \<and> \<not> k_closed s \<and> pending is_connecting s = 0
     \<and> pending is_write s = (if k_write_in_progress s then 1 else 0) \<and> k_socket_open s
     \<and> (k_write_in_progress s \<longleftrightarrow> k_write_queue s \<noteq> []) \<and> queue_ok ms s"

lemma client_wf_eq:
  "client_wf ms s \<longleftrightarrow> trace_wf s \<and> (case k_state s of
       Connecting \<Rightarrow> \<not> k_closed s \<and> pending is_connecting s = 1 \<and> pending is_read s = 0
         \<and> pending is_write s = 0 \<and> \<not> k_write_in_progress s \<and> queue_ok ms s
         \<and> (\<forall>g. Connect g \<in> set (k_ops s) \<longrightarrow> k_socket_open s)
     | Connected \<Rightarrow> connected_wf ms s \<and> pending is_read s = 1
     | _ \<Rightarrow> k_closed s \<and> k_write_queue s = [] \<and> \<not> k_write_in_progress s
         \<and> (\<exists>k. wire_of s = take k ms))"
  by (cases "k_state s") (auto simp: client_wf_def trace_wf_def connected_wf_def)

text \<open>Ending a connection.\<close>

lemma queue_ok_prefix:
  assumes "queue_ok ms s" "k_write_in_progress s \<longrightarrow> k_write_queue s \<noteq> []"
  shows "\<exists>k. wire_of s = take k ms"
proof -
  obtain sent where sent: "ms = sent @ k_write_queue s"
      "wire_of s = sent @ (if k_write_in_progress s then [hd (k_write_queue s)] else [])"
    using assms(1) by (auto simp: queue_ok_def)
  have "wire_of s = take (length (wire_of s)) ms"
    using sent assms(2) by (cases "k_write_queue s") auto
  then show ?thesis by blast
qed

lemma close_wf:
  assumes "trace_wf s" "k_state s = Connected" "\<exists>k. wire_of s = take k ms"
  shows "client_wf ms (close_connection True s)"
proof -
  let ?s = "s\<lparr>k_closed := True, k_write_queue := [], k_write_in_progress := False\<rparr>"
  let ?t = "if k_socket_open ?s then ?s\<lparr>k_socket_open := False\<rparr> else ?s"
  have eq: "close_connection True s = notify Disconnected (?t\<lparr>k_state := Disconnected\<rparr>)"
    using assms(2) by (simp add: close_connection_def Let_def)
  have "trace_wf ?t" "k_state ?t = Connected" using assms(1,2) by simp_all
  then have "trace_wf (close_connection True s)" unfolding eq by (intro trace_wf_notify) simp_all
  moreover have "k_closed (close_connection True s)" "k_write_queue (close_connection True s) = []"
      "\<not> k_write_in_progress (close_connection True s)" "k_state (close_connection True s) = Disconnected"
      "wire_of (close_connection True s) = wire_of s"
    unfolding eq by (simp_all add: notify_def wire_of_def)
  ultimately show ?thesis using assms(3) by (simp add: client_wf_eq)
qed

lemma failed_wf:
  assumes "trace_wf s" "k_state s = Connecting" "\<not> k_write_in_progress s" "queue_ok ms s"
  shows "client_wf ms (notify Failed (s\<lparr>k_closed := True, k_state := Failed, k_write_queue := []\<rparr>))"
proof -
  have "trace_wf (notify Failed (s\<lparr>k_closed := True, k_state := Failed, k_write_queue := []\<rparr>))"
    using assms(1,2) by (simp add: trace_wf_def notify_def successively_snoc)
  moreover have "\<exists>k. wire_of s = take k ms" using queue_ok_prefix [OF assms(4)] assms(3) by simp
  ultimately show ?thesis using assms(3) by (simp add: client_wf_eq notify_def wire_of_def)
qed

text \<open>Writing on an open connection.\<close>

lemma do_write_fields:
  assumes "k_state s = Connected" "\<not> k_write_in_progress s" "k_write_queue s \<noteq> []"
  shows "k_state (do_write s) = Connected" "k_closed (do_write s) = k_closed s"
    "k_write_in_progress (do_write s)" "k_write_queue (do_write s) = k_write_queue s"
    "k_socket_open (do_write s) = k_socket_open s" "wire_of (do_write s) = wire_of s @ [hd (k_write_queue s)]"
    "trace_wf (do_write s) = trace_wf s" "k_notified (do_write s) = k_notified s"
    "pending P (do_write s) = pending P s + (if P (Write (k_socket s)) then 1 else 0)"
proof -
  let ?s = "s\<lparr>k_write_in_progress := True, k_wire := k_wire s @ [(k_socket s, hd (k_write_queue s))]\<rparr>"
  have eq: "do_write s = add_op (Write (k_socket s)) ?s"
    using assms by (simp add: do_write_def is_connected_def)
  show "wire_of (do_write s) = wire_of s @ [hd (k_write_queue s)]" "trace_wf (do_write s) = trace_wf s"
    "pending P (do_write s) = pending P s + (if P (Write (k_socket s)) then 1 else 0)"
    unfolding eq by (simp_all add: pending_add) (simp_all add: wire_of_def trace_wf_def)
  show "k_state (do_write s) = Connected" "k_closed (do_write s) = k_closed s"
    "k_write_in_progress (do_write s)" "k_write_queue (do_write s) = k_write_queue s"
    "k_socket_open (do_write s) = k_socket_open s" "k_notified (do_write s) = k_notified s"
    unfolding eq by (simp_all add: add_op_def assms(1))
qed

text \<open>When no write is outstanding and all that was sent is on the wire, the queue is written from
  its front.\<close>

lemma write_next_wf:
  assumes "trace_wf s" "k_state s = Connected" "\<not> k_closed s" "k_socket_open s" "\<not> k_write_in_progress s"
    and "pending is_connecting s = 0" "pending is_write s = 0" "ms = wire_of s @ k_write_queue s"
  shows "connected_wf ms (if k_write_queue s \<noteq> [] then do_write s else s)"
proof (cases "k_write_queue s = []")
  case True
  then show ?thesis using assms by (simp add: connected_wf_def queue_ok_def)
next
  case False
  note f = do_write_fields [OF assms(2,5) False]
  have "queue_ok ms (do_write s)" using assms(8) by (auto simp: queue_ok_def f)
  then show ?thesis using False assms f by (simp add: connected_wf_def)
qed

lemma add_op_fields [simp]:
  "k_state (add_op p s) = k_state s" "k_closed (add_op p s) = k_closed s"
  "k_write_in_progress (add_op p s) = k_write_in_progress s" "k_write_queue (add_op p s) = k_write_queue s"
  "k_socket_open (add_op p s) = k_socket_open s" "k_ops (add_op p s) = k_ops s @ [p]"
  "queue_ok ms (add_op p s) = queue_ok ms s"
  by (simp_all add: add_op_def queue_ok_def wire_of_def)

lemma do_read_header_wf:
  assumes "trace_wf s" "connected_wf ms s" "pending is_read s = 0"
  shows "client_wf ms (do_read_header s)"
  using assms by (simp add: do_read_header_def client_wf_eq connected_wf_def pending_add)

section \<open>Every completion keeps the client consistent\<close>

lemma queue_ok_idle: "\<not> k_write_in_progress s \<Longrightarrow> queue_ok ms s \<longleftrightarrow> ms = wire_of s @ k_write_queue s"
  by (auto simp: queue_ok_def)

lemma queue_ok_ops [simp]:
  "queue_ok ms (s\<lparr>k_ops := ops\<rparr>) = queue_ok ms s"
  "queue_ok ms (s\<lparr>k_socket_open := b\<rparr>) = queue_ok ms s"
  by (simp_all add: queue_ok_def)

lemma closed_ops: "client_wf ms s \<Longrightarrow> k_closed s \<Longrightarrow> client_wf ms (s\<lparr>k_ops := ops\<rparr>)"
  by (cases "k_state s") (simp_all add: client_wf_eq connected_wf_def)

lemma closed_iff: "client_wf ms s \<Longrightarrow> k_closed s \<longleftrightarrow> k_state s = Disconnected \<or> k_state s = Failed"
  by (cases "k_state s") (simp_all add: client_wf_eq connected_wf_def)

definition connecting_wf :: "u8 list list \<Rightarrow> net_client \<Rightarrow> bool" where
  "connecting_wf ms s \<longleftrightarrow> trace_wf s \<and> k_state s = Connecting \<and> \<not> k_closed s
     \<and> pending is_connecting s = 0 \<and> pending is_read s = 0 \<and> pending is_write s = 0
     \<and> \<not> k_write_in_progress s \<and> queue_ok ms s"

lemma connect_result_wf:
  assumes "connecting_wf ms s" "ec \<noteq> Aborted" "ec = Success \<longrightarrow> k_socket_open s"
  shows "client_wf ms (on_connect_result ec s)"
proof (cases ec)
  case Success
  let ?t = "notify Connected (s\<lparr>k_state := Connected\<rparr>)"
  let ?u = "if k_write_queue ?t \<noteq> [] then do_write ?t else ?t"
  have t: "trace_wf ?t" using assms(1) by (intro trace_wf_notify) (simp_all add: connecting_wf_def)
  have st: "k_state ?t = Connected" "\<not> k_closed ?t" "k_socket_open ?t" "\<not> k_write_in_progress ?t"
      "k_write_queue ?t = k_write_queue s"
    using assms Success by (simp_all add: notify_def connecting_wf_def)
  have "ms = wire_of s @ k_write_queue s"
    using assms(1) queue_ok_idle [of s ms] by (simp add: connecting_wf_def)
  then have u: "connected_wf ms ?u"
    by (intro write_next_wf [OF t st(1-4)])
      (use assms(1) in \<open>simp_all add: connecting_wf_def st(5)\<close>)
  have "trace_wf ?u" "pending is_read ?u = 0"
    using t assms(1) do_write_fields [OF st(1) st(4)] by (simp_all add: connecting_wf_def)
  then have "client_wf ms (do_read_header ?u)" using u by (intro do_read_header_wf)
  then show ?thesis
    using Success assms(1) st(4) by (simp add: on_connect_result_def connecting_wf_def Let_def)
next
  case OtherError
  then show ?thesis
    using assms(1) failed_wf [of s ms] by (simp add: on_connect_result_def connecting_wf_def)
qed (use assms in simp)

text \<open>The states that a completion meets, with the operation taken out.\<close>

lemma take_out_connecting:
  assumes "client_wf ms s" "\<not> k_closed s" "p \<in> set (k_ops s)" "is_connecting p"
  shows "connecting_wf ms (s\<lparr>k_ops := remove1 p (k_ops s)\<rparr>)"
proof -
  have "0 < pending is_connecting s" using assms(3,4) by (rule pending_pos)
  then have "k_state s = Connecting"
    using assms(1,2) by (cases "k_state s") (simp_all add: client_wf_eq connected_wf_def)
  moreover have "\<not> is_read p" "\<not> is_write p" using assms(4) by (cases p; simp)+
  ultimately show ?thesis
    using assms(1,3,4) by (simp add: client_wf_eq connecting_wf_def pending_remove)
qed

lemma connected_wf_ops:
  assumes "connected_wf ms s" "pending is_connecting (s\<lparr>k_ops := ops\<rparr>) = 0"
    "pending is_write (s\<lparr>k_ops := ops\<rparr>) = pending is_write s"
  shows "connected_wf ms (s\<lparr>k_ops := ops\<rparr>)"
  using assms by (simp add: connected_wf_def)

lemma take_out_read:
  assumes "client_wf ms s" "\<not> k_closed s" "p \<in> set (k_ops s)" "is_read p"
  shows "connected_wf ms (s\<lparr>k_ops := remove1 p (k_ops s)\<rparr>)"
    and "pending is_read (s\<lparr>k_ops := remove1 p (k_ops s)\<rparr>) = 0" and "trace_wf s"
proof -
  have "0 < pending is_read s" using assms(3,4) by (rule pending_pos)
  then have c: "k_state s = Connected"
    using assms(1,2) by (cases "k_state s") (simp_all add: client_wf_eq)
  have "\<not> is_connecting p" "\<not> is_write p" using assms(4) by (cases p; simp)+
  then show "connected_wf ms (s\<lparr>k_ops := remove1 p (k_ops s)\<rparr>)"
    using assms(1,3) c by (intro connected_wf_ops) (simp_all add: client_wf_eq pending_remove connected_wf_def)
  show "pending is_read (s\<lparr>k_ops := remove1 p (k_ops s)\<rparr>) = 0" "trace_wf s"
    using assms c by (simp_all add: client_wf_eq pending_remove)
qed

lemma connected_prefix:
  "connected_wf ms s \<Longrightarrow> k_state s = Connected \<and> (\<exists>k. wire_of s = take k ms)"
  using queue_ok_prefix by (auto simp: connected_wf_def)

lemma read_step_wf:
  assumes "connected_wf ms s" "pending is_read s = 0" "trace_wf s"
  shows "client_wf ms (header_read ec bs s)" "client_wf ms (body_read parse ec bs s)"
proof -
  have closing: "client_wf ms (close_connection True s)"
    using assms(3) connected_prefix [OF assms(1)] by (intro close_wf) auto
  have open_s: "\<not> k_closed s" "k_state s = Connected" using assms(1) by (simp_all add: connected_wf_def)
  have "client_wf ms (do_read_body len s)" for len
  proof -
    have eq: "do_read_body len s = add_op (ReadBody (k_socket s) len) s"
      using open_s by (simp add: do_read_body_def)
    show ?thesis
      using assms unfolding eq by (simp add: client_wf_eq connected_wf_def pending_add)
  qed
  then show "client_wf ms (header_read ec bs s)"
    using closing open_s by (auto simp: header_read_def split: prod.split)
  have "connected_wf ms (on_message parse r s) \<and> pending is_read (on_message parse r s) = 0
      \<and> trace_wf (on_message parse r s)" for r
    using assms by (auto simp: on_message_def connected_wf_def queue_ok_def split: sum.split result.split)
  then show "client_wf ms (body_read parse ec bs s)"
    using closing open_s do_read_header_wf by (simp add: body_read_def)
qed

lemma write_done_wf:
  assumes "client_wf ms s" "p \<in> set (k_ops s)" "is_write p"
  shows "client_wf ms (write_done ec (s\<lparr>k_ops := remove1 p (k_ops s)\<rparr>))"
proof (cases "k_state s")
  case Connected
  let ?s = "(s\<lparr>k_ops := remove1 p (k_ops s)\<rparr>)\<lparr>k_write_in_progress := False\<rparr>"
  have c: "connected_wf ms s" "trace_wf s" "pending is_read s = 1" using assms(1) Connected by (simp_all add: client_wf_eq)
  have wip: "k_write_in_progress s" "k_write_queue s \<noteq> []"
    using c(1) pending_pos [of p s is_write] assms(2,3) by (auto simp: connected_wf_def split: if_splits)
  have np: "\<not> is_connecting p" "\<not> is_read p" using assms(3) by (cases p; simp)+
  obtain sent where sent: "ms = sent @ k_write_queue s" "wire_of s = sent @ [hd (k_write_queue s)]"
    using c(1) wip by (auto simp: connected_wf_def queue_ok_def)
  show ?thesis
  proof (cases "ec = Success")
    case True
    let ?t = "?s\<lparr>k_write_queue := tl (k_write_queue s)\<rparr>"
    have t: "trace_wf ?t" "k_state ?t = Connected" "\<not> k_closed ?t" "k_socket_open ?t"
        "\<not> k_write_in_progress ?t" "pending is_connecting ?t = 0" "pending is_write ?t = 0"
        "pending is_read ?t = 1" "ms = wire_of ?t @ k_write_queue ?t"
      using c wip np sent assms(2,3) by (simp_all add: connected_wf_def pending_remove)
    have "connected_wf ms (if k_write_queue ?t \<noteq> [] then do_write ?t else ?t)"
      by (rule write_next_wf [OF t(1-7) t(9)])
    moreover have "trace_wf (if k_write_queue ?t \<noteq> [] then do_write ?t else ?t)"
        "pending is_read (if k_write_queue ?t \<noteq> [] then do_write ?t else ?t) = 1"
      using t do_write_fields [OF t(2) t(5)] by simp_all
    moreover have "write_done ec (s\<lparr>k_ops := remove1 p (k_ops s)\<rparr>)
        = (if k_write_queue ?t \<noteq> [] then do_write ?t else ?t)"
      using True wip Connected by (simp add: write_done_def is_connected_def)
    ultimately show ?thesis by (simp add: client_wf_eq connected_wf_def)
  next
    case False
    have "\<exists>k. wire_of ?s = take k ms" using connected_prefix [OF c(1)] by simp
    then have "client_wf ms (close_connection True ?s)" using c(2) Connected by (intro close_wf) simp_all
    then show ?thesis using False Connected by (simp add: write_done_def is_connected_def)
  qed
next
  case Connecting
  then show ?thesis
    using assms pending_pos [of p s is_write] by (simp add: client_wf_eq)
qed (use assms in \<open>simp_all add: client_wf_eq write_done_def is_connected_def Let_def\<close>)

text \<open>A packet that was posted joins the queue of the connection, if there is one.\<close>

lemma posted_wf:
  assumes "client_wf ms s" "Post packet \<in> set (k_ops s)"
  shows "client_wf (ms @ (if k_state s = Connecting \<or> k_state s = Connected then [packet] else []))
    (posted packet (s\<lparr>k_ops := remove1 (Post packet) (k_ops s)\<rparr>))"
proof -
  let ?s = "s\<lparr>k_ops := remove1 (Post packet) (k_ops s)\<rparr>"
  let ?t = "?s\<lparr>k_write_queue := k_write_queue s @ [packet]\<rparr>"
  have pend: "pending is_read ?s = pending is_read s" "pending is_write ?s = pending is_write s"
    "pending is_connecting ?s = pending is_connecting s"
    using assms(2) by (simp_all add: pending_remove)
  show ?thesis
  proof (cases "k_state s")
    case Connecting
    have "queue_ok ms s" "\<not> k_write_in_progress s" using assms(1) Connecting by (simp_all add: client_wf_eq)
    then have "queue_ok (ms @ [packet]) ?t" by (simp add: queue_ok_idle)
    moreover have "Connect g \<in> set (remove1 (Post packet) (k_ops s)) \<Longrightarrow> Connect g \<in> set (k_ops s)" for g
      by (rule subsetD [OF set_remove1_subset])
    ultimately show ?thesis
      using assms(1) Connecting pend by (auto simp: client_wf_eq posted_def)
  next
    case Connected
    have c: "connected_wf ms s" "trace_wf s" "pending is_read s = 1"
      using assms(1) Connected by (simp_all add: client_wf_eq)
    show ?thesis
    proof (cases "k_write_in_progress s")
      case True
      have "queue_ok (ms @ [packet]) ?t" using c(1) True by (auto simp: connected_wf_def queue_ok_def)
      then show ?thesis
        using True c pend Connected by (simp add: posted_def is_connected_def client_wf_eq connected_wf_def)
    next
      case False
      have t: "trace_wf ?t" "k_state ?t = Connected" "\<not> k_closed ?t" "k_socket_open ?t"
        "\<not> k_write_in_progress ?t" "pending is_connecting ?t = 0" "pending is_write ?t = 0"
        "ms @ [packet] = wire_of ?t @ k_write_queue ?t" "k_write_queue ?t \<noteq> []"
        using c False pend by (simp_all add: connected_wf_def queue_ok_idle)
      have "connected_wf (ms @ [packet]) (do_write ?t)" using write_next_wf [OF t(1-8)] by simp
      then show ?thesis
        using False c pend Connected do_write_fields [OF t(2) t(5) t(9)] t(1)
        by (simp add: posted_def is_connected_def client_wf_eq connected_wf_def)
    qed
  qed (use assms(1) in \<open>simp_all add: client_wf_eq posted_def is_connected_def\<close>)
qed

lemma timer_wf:
  assumes "client_wf ms s" "Timer \<in> set (k_ops s)"
  shows "client_wf ms (timed_out ec (s\<lparr>k_ops := remove1 Timer (k_ops s)\<rparr>))"
proof -
  let ?s = "s\<lparr>k_ops := remove1 Timer (k_ops s)\<rparr>"
  have pend: "pending is_read ?s = pending is_read s" "pending is_write ?s = pending is_write s"
    "pending is_connecting ?s = pending is_connecting s"
    using assms(2) by (simp_all add: pending_remove)
  have sub: "Connect g \<in> set (remove1 Timer (k_ops s)) \<Longrightarrow> Connect g \<in> set (k_ops s)" for g
    by (rule subsetD [OF set_remove1_subset])
  have same: "client_wf ms ?s"
    using assms(1) pend sub by (cases "k_state s") (auto simp: client_wf_eq connected_wf_def)
  show ?thesis
  proof (cases "ec = Success \<and> \<not> k_closed s \<and> k_state s = Connecting")
    case True
    have "client_wf ms (notify Failed ((?s\<lparr>k_socket_open := False\<rparr>)\<lparr>k_closed := True, k_state := Failed, k_write_queue := []\<rparr>))"
      by (rule failed_wf) (use True assms(1) in \<open>simp_all add: client_wf_eq\<close>)
    then show ?thesis using True by (simp add: timed_out_def on_connect_result_def)
  next
    case False
    then show ?thesis using same by (auto simp: timed_out_def)
  qed
qed

lemma resolved_wf:
  assumes "connecting_wf ms s" "ec \<noteq> Aborted"
  shows "client_wf ms (resolved ec s)"
proof (cases "ec = Success")
  case True
  then show ?thesis
    using assms(1) queue_ok_idle [of s ms]
    by (simp add: resolved_def connecting_wf_def client_wf_eq pending_add queue_ok_idle)
next
  case False
  then show ?thesis using assms connect_result_wf [of ms s ec] by (simp add: resolved_def connecting_wf_def)
qed

lemma complete_wf:
  assumes "client_wf ms s" "completes_with p ec bs s"
  shows "client_wf
    (ms @ (case p of Post packet \<Rightarrow> if k_state s = Connecting \<or> k_state s = Connected then [packet] else [] | _ \<Rightarrow> []))
    (complete parse p ec bs s)"
proof -
  let ?s = "s\<lparr>k_ops := remove1 p (k_ops s)\<rparr>"
  have mem: "p \<in> set (k_ops s)" using assms(2) by (simp add: completes_with_def)
  show ?thesis
  proof (cases p)
    case Resolve
    show ?thesis
    proof (cases "k_closed s")
      case False
      then have "connecting_wf ms ?s" using take_out_connecting [OF assms(1) False mem] Resolve by simp
      then show ?thesis
        using Resolve assms(2) resolved_wf by (simp add: complete_def run_handler_def completes_with_def)
    qed (use Resolve closed_ops [OF assms(1)] in \<open>simp add: complete_def run_handler_def resolved_def\<close>)
  next
    case (Connect g)
    show ?thesis
    proof (cases "k_closed s")
      case False
      then have c: "connecting_wf ms ?s" using take_out_connecting [OF assms(1) False mem] Connect by simp
      then have "k_socket_open s"
        using assms(1) mem Connect by (auto simp: client_wf_eq connecting_wf_def)
      then show ?thesis
        using Connect assms(2) connect_result_wf [OF c, of ec]
        by (simp add: complete_def run_handler_def completes_with_def)
    qed (use Connect closed_ops [OF assms(1)] in \<open>simp add: complete_def run_handler_def on_connect_result_def\<close>)
  next
    case Timer
    then show ?thesis using timer_wf [OF assms(1)] mem by (simp add: complete_def run_handler_def)
  next
    case (ReadHeader g)
    show ?thesis
    proof (cases "k_closed s")
      case False
      then show ?thesis
        using take_out_read [OF assms(1) False mem] ReadHeader
        by (simp add: complete_def run_handler_def read_step_wf(1))
    qed (use ReadHeader closed_ops [OF assms(1)] in \<open>simp add: complete_def run_handler_def header_read_def\<close>)
  next
    case (ReadBody g len)
    show ?thesis
    proof (cases "k_closed s")
      case False
      then show ?thesis
        using take_out_read [OF assms(1) False mem] ReadBody
        by (simp add: complete_def run_handler_def read_step_wf(2))
    qed (use ReadBody closed_ops [OF assms(1)] in \<open>simp add: complete_def run_handler_def body_read_def\<close>)
  next
    case (Write g)
    then show ?thesis using write_done_wf [OF assms(1) mem] by (simp add: complete_def run_handler_def)
  next
    case (Post packet)
    then show ?thesis using posted_wf [OF assms(1)] mem by (simp add: complete_def run_handler_def)
  qed
qed

lemma reconnect_wf:
  assumes "client_wf ms s" "list_all is_post (k_ops s)"
  shows "client_wf [] (reconnect (set_endpoint host port s))"
proof -
  have none: "pending is_connecting s = 0" "pending is_read s = 0" "pending is_write s = 0"
  proof -
    have "\<not> is_connecting p \<and> \<not> is_read p \<and> \<not> is_write p" if "is_post p" for p
      using that by (cases p) simp_all
    then show "pending is_connecting s = 0" "pending is_read s = 0" "pending is_write s = 0"
      using assms(2) by (auto simp: pending_def list_all_iff filter_empty_conv)
  qed
  then have st: "k_state s = Disconnected \<or> k_state s = Failed"
    using assms(1) by (cases "k_state s") (simp_all add: client_wf_eq)
  let ?t = "close_connection False (set_endpoint host port s)"
  have t: "k_state ?t = k_state s" "k_socket ?t = k_socket s" "k_ops ?t = k_ops s" "k_wire ?t = k_wire s"
      "k_notified ?t = k_notified s" "k_write_queue ?t = []" "\<not> k_write_in_progress ?t"
    using st by (auto simp: close_connection_def set_endpoint_def Let_def)
  have eq: "reconnect (set_endpoint host port s) = add_op Resolve (notify Connecting
      (?t\<lparr>k_socket := k_socket ?t + 1, k_socket_open := False, k_closed := False, k_state := Connecting\<rparr>))"
    using st t(1) by (auto simp: reconnect_def begin_connect_def)
  have tr: "trace_wf s" using assms(1) by (simp add: client_wf_eq)
  let ?u = "reconnect (set_endpoint host port s)"
  have "trace_wf ?u"
    using tr st unfolding eq
    by (auto simp: trace_wf_def notify_def add_op_def t successively_snoc)
  moreover have "wire_of ?u = []"
    using tr unfolding eq by (auto simp: trace_wf_def wire_of_def notify_def add_op_def t filter_empty_conv)
  moreover have "pending P ?u = pending P s + (if P Resolve then 1 else 0)" for P
    unfolding eq by (simp add: pending_add) (simp add: pending_def t)
  moreover have "Connect g \<notin> set (k_ops s)" for g
    using assms(2) by (auto simp: list_all_iff)
  then have "k_state ?u = Connecting" "\<not> k_closed ?u" "\<not> k_write_in_progress ?u" "k_write_queue ?u = []"
      "Connect g \<notin> set (k_ops ?u)" for g
    unfolding eq by (simp_all add: notify_def t)
  ultimately show ?thesis using none by (simp add: client_wf_eq queue_ok_idle)
qed

lemma send_message_eq:
  assumes "send_message dump m s = Ret s'"
  obtains "s' = s" | packet where "s' = add_op (Post packet) s"
  using assms by (auto simp: send_message_def bind_r_Ret_iff map_r_Ret_iff split: if_splits)

lemma post_op_wf: "client_wf ms s \<Longrightarrow> client_wf ms (add_op (Post packet) s)"
  by (cases "k_state s") (simp_all add: client_wf_eq connected_wf_def pending_add)

lemma client_run_wf: "client_run parse dump ms s \<Longrightarrow> client_wf ms s"
proof (induction rule: client_run.induct)
  case (cr_new host port)
  show ?case by (simp add: client_wf_eq trace_wf_def wire_of_def new_client_def)
next
  case (cr_connect ms s host port)
  then show ?case by (intro reconnect_wf)
next
  case (cr_send ms s m s')
  from cr_send(2) show ?case
    by (rule send_message_eq) (use cr_send.IH post_op_wf in simp_all)
next
  case (cr_complete ms s p ec bs)
  then show ?case by (intro complete_wf)
qed

section \<open>The client reads and writes packets\<close>

text \<open>The read that is outstanding completes with these bytes; a write completes.\<close>

definition client_wanted :: "net_client \<Rightarrow> nat" where
  "client_wanted s = (case filter is_read (k_ops s) of
     ReadHeader g # _ \<Rightarrow> 4 | ReadBody g len # _ \<Rightarrow> unat len | _ \<Rightarrow> 0)"

definition client_feed :: "(string \<Rightarrow> string + json) \<Rightarrow> u8 list \<Rightarrow> net_client \<Rightarrow> net_client" where
  "client_feed parse bs s = (case filter is_read (k_ops s) of
     p # _ \<Rightarrow> complete parse p Success bs s | [] \<Rightarrow> s)"

definition client_ready :: "net_client \<Rightarrow> bool" where
  "client_ready s \<longleftrightarrow> k_state s = Connected \<and> \<not> k_closed s \<and> (\<exists>g. filter is_read (k_ops s) = [ReadHeader g])"

definition handled :: "(string \<Rightarrow> string + json) \<Rightarrow> string \<Rightarrow> net_client \<Rightarrow> net_client" where
  "handled parse body s =
     do_read_header (on_message parse body (s\<lparr>k_ops := filter (\<lambda>p. \<not> is_read p) (k_ops s)\<rparr>))"

lemma remove1_only: "filter P xs = [p] \<Longrightarrow> remove1 p xs = filter (\<lambda>x. \<not> P x) xs"
proof (induction xs)
  case (Cons x xs)
  have "P p" using Cons.prems by (metis filter_eq_ConsD)
  then show ?case using Cons by (cases "P x") (auto simp: filter_empty_conv)
qed simp

lemma on_message_fields [simp]:
  "k_state (on_message parse raw s) = k_state s" "k_closed (on_message parse raw s) = k_closed s"
  "k_ops (on_message parse raw s) = k_ops s"
  by (simp_all add: on_message_def split: sum.split result.split)

lemma client_header_fed:
  assumes "client_ready s" "packet_body body"
  shows "client_feed parse (header body) s = add_op (ReadBody (k_socket s) (word_of_nat (length body)))
    (s\<lparr>k_ops := filter (\<lambda>p. \<not> is_read p) (k_ops s)\<rparr>)"
  using assms
  by (auto simp: client_ready_def client_feed_def complete_def run_handler_def header_read_def remove1_only
      decode_packet_header do_read_body_def)

lemma only_reads: "filter is_read (filter (\<lambda>p. \<not> is_read p) ops @ [p]) = (if is_read p then [p] else [])"
  by (simp add: filter_empty_conv)

interpretation client_reader: packet_reader client_wanted "client_feed parse" client_ready "handled parse" for parse
proof (unfold_locales, goal_cases)
  case (1 s)
  then show ?case by (auto simp: client_ready_def client_wanted_def)
next
  case (2 s body)
  then show ?case
    by (simp add: client_header_fed client_wanted_def packet_body_length only_reads del: filter_append)
next
  case (3 s body)
  let ?ops = "filter (\<lambda>p. \<not> is_read p) (k_ops s)"
  let ?p = "ReadBody (k_socket s) (word_of_nat (length body))"
  let ?t = "add_op ?p (s\<lparr>k_ops := ?ops\<rparr>)"
  have reads: "filter is_read (k_ops ?t) = [?p]" by (simp add: only_reads del: filter_append)
  have "remove1 ?p (k_ops ?t) = ?ops" by (simp add: remove1_append_single)
  then have "client_feed parse (bytes_of_string body) ?t
      = body_read parse Success (bytes_of_string body) (?t\<lparr>k_ops := ?ops\<rparr>)"
    unfolding client_feed_def reads by (simp add: complete_def run_handler_def)
  then show ?case using 3
    by (simp add: client_header_fed body_read_def handled_def add_op_def) (simp add: client_ready_def)
next
  case (4 s body)
  then show ?case
    by (simp add: client_ready_def handled_def do_read_header_def only_reads filter_empty_conv)
qed

definition client_written :: "(string \<Rightarrow> string + json) \<Rightarrow> net_client \<Rightarrow> net_client" where
  "client_written parse s = (case filter is_write (k_ops s) of
     p # _ \<Rightarrow> complete parse p Success [] s | [] \<Rightarrow> s)"

definition client_writes :: "net_client \<Rightarrow> bool" where
  "client_writes s \<longleftrightarrow> k_state s = Connected \<and> (k_write_in_progress s \<longleftrightarrow> k_write_queue s \<noteq> [])
     \<and> pending is_write s = (if k_write_in_progress s then 1 else 0)"

lemma the_write:
  assumes "client_writes s" "k_write_in_progress s"
  obtains g where "filter is_write (k_ops s) = [Write g]"
proof -
  have "length (filter is_write (k_ops s)) = 1" using assms by (simp add: client_writes_def pending_def)
  then obtain p where p: "filter is_write (k_ops s) = [p]" by (auto simp: length_Suc_conv)
  then have "is_write p" by (metis filter_eq_ConsD)
  then show thesis using that p by (cases p) auto
qed

lemma client_written_eq:
  assumes "client_writes s" "k_write_in_progress s"
  shows "client_written parse s =
    (let t = s\<lparr>k_ops := filter (\<lambda>p. \<not> is_write p) (k_ops s), k_write_in_progress := False,
               k_write_queue := tl (k_write_queue s)\<rparr>
     in if tl (k_write_queue s) \<noteq> [] then do_write t else t)"
proof -
  obtain g where g: "filter is_write (k_ops s) = [Write g]" using assms by (rule the_write)
  show ?thesis using assms
    unfolding client_written_def g
    by (simp add: complete_def run_handler_def write_done_def is_connected_def client_writes_def
        remove1_only [OF g] Let_def)
qed

interpretation client_writer:
  packet_writer k_write_queue k_write_in_progress wire_of client_writes "client_written parse" for parse
proof -
  have "client_writes (client_written parse s) \<and> k_write_queue (client_written parse s) = tl (k_write_queue s)
      \<and> (k_write_in_progress (client_written parse s) \<longleftrightarrow> tl (k_write_queue s) \<noteq> [])
      \<and> wire_of (client_written parse s) = wire_of s @ take 1 (tl (k_write_queue s))"
    if "client_writes s" "k_write_in_progress s" for s
  proof -
    let ?t = "s\<lparr>k_ops := filter (\<lambda>p. \<not> is_write p) (k_ops s), k_write_in_progress := False,
        k_write_queue := tl (k_write_queue s)\<rparr>"
    have t: "k_state ?t = Connected" "\<not> k_write_in_progress ?t" "pending is_write ?t = 0" "wire_of ?t = wire_of s"
      using that by (simp_all add: client_writes_def) (simp_all add: pending_def wire_of_def)
    show ?thesis
    proof (cases "tl (k_write_queue s)")
      case Nil
      then show ?thesis using that t by (simp add: client_written_eq client_writes_def)
    next
      case (Cons p q)
      then have "k_write_queue ?t \<noteq> []" by simp
      from do_write_fields [OF t(1,2) this] show ?thesis
        using that t Cons by (simp add: client_written_eq client_writes_def)
    qed
  qed
  then show "packet_writer k_write_queue k_write_in_progress wire_of client_writes (client_written parse)"
    by unfold_locales (simp_all add: client_writes_def)
qed

section \<open>What the client promises\<close>


text \<open>
  C34. Reconnecting while connected, as the login does when the address was changed: closing the socket
  aborts the outstanding read, but \<open>closed_\<close> is false again before its handler runs, so the handler
  takes the abort for a failure of the new connection and closes it: the client ends disconnected,
  and the new connection that is being set up is dropped when the name is resolved.
\<close>

theorem reconnect_while_connected:
  assumes "k_state s = Connected" "ReadHeader g \<in> set (k_ops s)"
  shows "let t = complete parse (ReadHeader g) Aborted bs (reconnect (set_endpoint host port s));
             u = complete parse Resolve Success [] t
         in k_notified t = k_notified s @ [Connecting, Disconnected] \<and> k_state t = Disconnected \<and> k_closed t
           \<and> Resolve \<in> set (k_ops t)
           \<and> k_state u = Disconnected \<and> k_ops u = remove1 Resolve (k_ops t) \<and> k_notified u = k_notified t"
proof -
  let ?r = "reconnect (set_endpoint host port s)"
  have r: "k_state ?r = Connecting" "\<not> k_closed ?r" "k_notified ?r = k_notified s @ [Connecting]"
    "k_ops ?r = k_ops s @ [Resolve]"
    using assms(1)
    by (simp_all add: reconnect_def close_connection_def set_endpoint_def begin_connect_def notify_def
        add_op_def Let_def)
  let ?t = "complete parse (ReadHeader g) Aborted bs ?r"
  have t: "?t = close_connection True (?r\<lparr>k_ops := remove1 (ReadHeader g) (k_ops ?r)\<rparr>)"
    using r(2) by (simp add: complete_def run_handler_def header_read_def)
  have "Resolve \<in> set (remove1 (ReadHeader g) (k_ops ?r))" by (simp add: r(4) remove1_append)
  then have tf: "k_notified ?t = k_notified s @ [Connecting, Disconnected]" "k_state ?t = Disconnected"
    "k_closed ?t" "Resolve \<in> set (k_ops ?t)"
    unfolding t using r by (simp_all add: close_connection_def notify_def Let_def)
  have "complete parse Resolve Success [] ?t = ?t\<lparr>k_ops := remove1 Resolve (k_ops ?t)\<rparr>"
    using tf(3) by (simp add: complete_def run_handler_def resolved_def)
  then show ?thesis using tf by (simp add: Let_def)
qed

section \<open>Witnesses\<close>

definition sample_client :: net_client where
  "sample_client =
     complete (\<lambda>_. Inl []) (Connect 1) Success []
      (complete (\<lambda>_. Inl []) Resolve Success [] (reconnect (set_endpoint ''h'' ''1'' (new_client ''h'' ''1''))))"

lemmas sample_client_defs = sample_client_def new_client_def set_endpoint_def reconnect_def
  close_connection_def begin_connect_def add_op_def notify_def complete_def run_handler_def
  resolved_def on_connect_result_def do_read_header_def Let_def

lemma sample_client_run: "client_run (\<lambda>_. Inl []) dump [] sample_client"
proof -
  let ?s0 = "new_client ''h'' ''1''"
  let ?s1 = "reconnect (set_endpoint ''h'' ''1'' ?s0)"
  let ?s2 = "complete (\<lambda>_. Inl []) Resolve Success [] ?s1"
  have s1: "client_run (\<lambda>_. Inl []) dump [] ?s1"
    by (rule cr_connect [OF cr_new]) (simp add: new_client_def)
  have "completes_with Resolve Success [] ?s1"
    by (simp add: completes_with_def sample_client_defs)
  from cr_complete [OF s1 this] have s2: "client_run (\<lambda>_. Inl []) dump [] ?s2" by simp
  have "completes_with (Connect 1) Success [] ?s2"
    by (simp add: completes_with_def sample_client_defs)
  from cr_complete [OF s2 this] show ?thesis by (simp add: sample_client_def)
qed


theorem reconnect_while_connected_witness:
  "k_state (complete (\<lambda>_. Inl []) (ReadHeader 1) Aborted [] (reconnect (set_endpoint ''other'' ''2'' sample_client)))
     = Disconnected"
proof -
  have "k_state sample_client = Connected" "ReadHeader 1 \<in> set (k_ops sample_client)"
    by (simp_all add: sample_client_defs)
  from reconnect_while_connected [OF this, of "\<lambda>_. Inl []" "[]" "''other''" "''2''"]
  show ?thesis by (simp add: Let_def)
qed

end
