(* ===== verification/ClientMain.thy ===== *)
theory ClientMain
  imports ClientScreen NetworkClient
begin

text \<open>
  The running client: \<open>main\<close> of \<open>client/src/main.cpp\<close> with the parts it connects. The state holds the user
  interface (\<open>PokerUi\<close>) and the connection (\<open>NetworkClient\<close>). What a handler of the interface sends goes to
  \<open>NetworkClient::send\<close>, its calls of \<open>reconnect\<close> and \<open>reconnect_to\<close> to the connection; what the connection
  reports goes to \<open>on_connection_changed\<close> and \<open>add_server_message\<close> inside the handler that reports it.
  A step is an input that the screen offers, or the completion of an outstanding operation with any
  outcome; the handlers of the two threads run one after the other. An exception that leaves a handler
  ends the program (\<open>Exn\<close>). The parameters are those of \<open>NetworkClient\<close>; \<open>list_rooms\<close>, the only message sent
  while a message is handled, has no strings that \<open>dump\<close> could refuse.
\<close>

section \<open>State\<close>

record client_app =
  m_ui :: ui
  m_net :: net_client

definition parse_host :: "string list \<Rightarrow> string \<Rightarrow> string" where
  "parse_host argv default_host = (if length argv \<ge> 2 then argv ! 1 else default_host)"

definition parse_port :: "string list \<Rightarrow> string \<Rightarrow> string" where
  "parse_port argv default_port = (if length argv \<ge> 3 then argv ! 2 else default_port)"

text \<open>The \<open>switch\<close> of the connection handler.\<close>

fun status_of :: "client_state \<Rightarrow> connection_status" where
  "status_of client_state.Connecting = connection_status.Connecting"
| "status_of client_state.Connected = connection_status.Connected"
| "status_of client_state.Failed = connection_status.Failed"
| "status_of client_state.Disconnected = connection_status.Disconnected"

section \<open>Handlers of the interface\<close>

text \<open>The calls of the application: \<open>reconnect\<close>, \<open>reconnect_to\<close>; saving the settings does not touch the connection.\<close>

fun perform :: "ui_call \<Rightarrow> net_client \<Rightarrow> net_client" where
  "perform ReconnectCall s = reconnect s"
| "perform (ReconnectTo host port) s = reconnect (set_endpoint host port s)"
| "perform (SaveSettings st) s = s"

fun send_all :: "(json \<Rightarrow> string result) \<Rightarrow> client_message list \<Rightarrow> net_client \<Rightarrow> net_client result" where
  "send_all dump [] s = Ret s"
| "send_all dump (msg # msgs) s = bind_r (send_message dump msg s) (send_all dump msgs)"

definition new_calls :: "ui \<Rightarrow> ui \<Rightarrow> ui_call list" where
  "new_calls u u' = drop (length (u_calls u)) (u_calls u')"

definition new_messages :: "ui \<Rightarrow> ui \<Rightarrow> client_message list" where
  "new_messages u u' = drop (length (a_sent (u_app u))) (a_sent (u_app u'))"

definition ui_handler ::
  "(json \<Rightarrow> string result) \<Rightarrow> (ui \<Rightarrow> ui) \<Rightarrow> client_app \<Rightarrow> client_app result" where
  "ui_handler dump f m =
     (let u' = f (m_ui m); s = fold perform (new_calls (m_ui m) u') (m_net m)
      in map_r (\<lambda>s'. \<lparr>m_ui = u', m_net = s'\<rparr>) (send_all dump (new_messages (m_ui m) u') s))"

section \<open>Handlers of the connection\<close>

text \<open>The handlers that \<open>main\<close> registers.\<close>

definition connection_handler ::
  "(json \<Rightarrow> string result) \<Rightarrow> client_state \<Rightarrow> client_app \<Rightarrow> client_app result" where
  "connection_handler dump st m =
     ui_handler dump (on_connection_changed (is_connected (m_net m)) (status_of st)) m"

definition message_handler ::
  "(json \<Rightarrow> string result) \<Rightarrow> server_message \<Rightarrow> client_app \<Rightarrow> client_app result" where
  "message_handler dump msg m = ui_handler dump (add_server_message msg) m"

fun each :: "('a \<Rightarrow> client_app \<Rightarrow> client_app result) \<Rightarrow> 'a list \<Rightarrow> client_app \<Rightarrow> client_app result" where
  "each f [] m = Ret m"
| "each f (x # xs) m = bind_r (f x m) (each f xs)"

text \<open>A handler of the connection that reports last, if it does.\<close>

definition net_handler ::
  "(json \<Rightarrow> string result) \<Rightarrow> (net_client \<Rightarrow> net_client) \<Rightarrow> client_app \<Rightarrow> client_app result" where
  "net_handler dump f m =
     (let s' = f (m_net m)
      in each (connection_handler dump) (drop (length (k_notified (m_net m))) (k_notified s')) (m\<lparr>m_net := s'\<rparr>))"

text \<open>\<open>on_connect_result\<close> reports a connection before it writes and reads.\<close>

definition report_connected :: "net_client \<Rightarrow> net_client" where
  "report_connected s = notify client_state.Connected (s\<lparr>k_state := client_state.Connected\<rparr>)"

definition begin_io :: "net_client \<Rightarrow> net_client" where
  "begin_io s =
     do_read_header (if k_write_queue s \<noteq> [] \<and> \<not> k_write_in_progress s then do_write s else s)"

lemma report_begin_io: "\<not> k_closed s \<Longrightarrow> on_connect_result Success s = begin_io (report_connected s)"
  by (simp add: on_connect_result_def begin_io_def report_connected_def Let_def)

definition connect_result ::
  "(json \<Rightarrow> string result) \<Rightarrow> outcome \<Rightarrow> client_app \<Rightarrow> client_app result" where
  "connect_result dump ec m =
     (if k_closed (m_net m) \<or> ec \<noteq> Success then net_handler dump (on_connect_result ec) m
      else map_r (\<lambda>m. m\<lparr>m_net := begin_io (m_net m)\<rparr>) (net_handler dump report_connected m))"

text \<open>A body is handled before the next header is read.\<close>

definition body_result ::
  "(string \<Rightarrow> string + json) \<Rightarrow> (json \<Rightarrow> string result) \<Rightarrow> outcome \<Rightarrow> u8 list \<Rightarrow> client_app
    \<Rightarrow> client_app result" where
  "body_result parse dump ec bs m =
     (if k_closed (m_net m) \<or> ec \<noteq> Success then net_handler dump (body_read parse ec bs) m
      else
        let s = on_message parse (string_of_bytes bs) (m_net m)
        in map_r (\<lambda>m. m\<lparr>m_net := do_read_header (m_net m)\<rparr>)
             (each (message_handler dump) (drop (length (k_received (m_net m))) (k_received s)) (m\<lparr>m_net := s\<rparr>)))"

definition complete_app ::
  "(string \<Rightarrow> string + json) \<Rightarrow> (json \<Rightarrow> string result) \<Rightarrow> async_op \<Rightarrow> outcome \<Rightarrow> u8 list \<Rightarrow> client_app
    \<Rightarrow> client_app result" where
  "complete_app parse dump p ec bs m =
     (let m = m\<lparr>m_net := (m_net m)\<lparr>k_ops := remove1 p (k_ops (m_net m))\<rparr>\<rparr>
      in case p of
           Connect _ \<Rightarrow> connect_result dump ec m
         | ReadBody _ _ \<Rightarrow> body_result parse dump ec bs m
         | _ \<Rightarrow> net_handler dump (run_handler parse p ec bs) m)"

section \<open>Runs\<close>

definition start_app ::
  "(json \<Rightarrow> string result) \<Rightarrow> client_settings \<Rightarrow> string list \<Rightarrow> client_app result" where
  "start_app dump settings argv =
     (let host = parse_host argv (cs_host settings); port = parse_port argv (cs_port settings)
      in net_handler dump start_client
           \<lparr>m_ui = initialize_session settings host port new_ui, m_net = new_client host port\<rparr>)"

text \<open>What the screen offers: its buttons, its fields, and the keys.\<close>

fun offered :: "bool \<Rightarrow> ui \<Rightarrow> ui_event \<Rightarrow> bool" where
  "offered connected u (Message msg) = False"
| "offered connected u (ConnectionChange c st) = False"
| "offered connected u (KeyPress c focus k) = (c = connected)"
| "offered connected u (Edit field txt) = (field \<in> set (shown_fields u))"
| "offered connected u RunStart = True"
| "offered connected u e = (e \<in> on_click connected ` set (shown_buttons u))"

inductive app_step ::
  "(string \<Rightarrow> string + json) \<Rightarrow> (json \<Rightarrow> string result) \<Rightarrow> client_app \<Rightarrow> client_app \<Rightarrow> bool" for parse dump where
  user: "offered (is_connected (m_net m)) (m_ui m) e \<Longrightarrow> ui_handler dump (ui_step e) m = Ret m' \<Longrightarrow>
    app_step parse dump m m'"
| completion: "p \<in> set (k_ops (m_net m)) \<Longrightarrow> complete_app parse dump p ec bs m = Ret m' \<Longrightarrow>
    app_step parse dump m m'"

section \<open>What the handlers of the interface do to the connection\<close>

text \<open>Most handlers leave the connection alone; the others open a new one.\<close>

definition no_call :: "ui_call \<Rightarrow> bool" where
  "no_call c \<longleftrightarrow> (case c of SaveSettings _ \<Rightarrow> True | _ \<Rightarrow> False)"

definition only_saves :: "ui \<Rightarrow> ui \<Rightarrow> bool" where
  "only_saves u u' \<longleftrightarrow> (\<exists>cs. u_calls u' = u_calls u @ cs \<and> list_all no_call cs)"

definition keeps :: "ui \<Rightarrow> ui \<Rightarrow> bool" where
  "keeps u u' \<longleftrightarrow> only_saves u u'
     \<and> v_connection (u_state u') = v_connection (u_state u) \<and> v_screen (u_state u') = v_screen (u_state u)"

definition redials :: "ui \<Rightarrow> ui \<Rightarrow> bool" where
  "redials u u' \<longleftrightarrow> (\<exists>c. u_calls u' = u_calls u @ [c] \<and> \<not> no_call c)
     \<and> v_connection (u_state u') = connection_status.Connecting"

lemma only_saves_same: "u_calls u' = u_calls u \<Longrightarrow> only_saves u u'"
  by (simp add: only_saves_def)

lemma keeps_refl [simp]: "keeps u u"
  by (simp add: keeps_def only_saves_def)

lemma keeps_trans: "keeps u u' \<Longrightarrow> keeps u' u'' \<Longrightarrow> keeps u u''"
  by (auto simp: keeps_def only_saves_def)

lemma no_call_simps [simp]: "no_call (SaveSettings st)" "\<not> no_call ReconnectCall" "\<not> no_call (ReconnectTo h p)"
  by (simp_all add: no_call_def)

lemma append_log_connection [simp]:
  "v_connection (append_log l v) = v_connection v" "v_screen (append_log l v) = v_screen v"
  by (simp_all add: append_log_def)

lemma calls_fields [simp]:
  "u_calls (set_call_label l u) = u_calls u" "u_calls (refresh_button_labels u) = u_calls u"
  "u_calls (update_turn_button_labels u) = u_calls u" "u_calls (sync_control_visibility u) = u_calls u"
  "u_calls (rebuild_room_labels u) = u_calls u" "u_calls (ui_log l u) = u_calls u"
  "u_calls (ui_app f u) = u_calls u" "u_calls (ui_call c u) = u_calls u @ [c]"
  by (simp_all add: set_call_label_def refresh_button_labels_def sync_calls update_turn_button_labels_def
      rebuild_room_labels_def ui_log_def ui_app_def ui_call_def Let_def split: option.split)

lemma send_action_keeps [simp]: "keeps u (send_action a amt u)"
  by (simp add: send_action_def keeps_def only_saves_def Let_def split: option.split)

lemma raise_keeps [simp]: "keeps u (submit_raise u)" "keeps u (send_preset_raise amt u)"
proof -
  have "keeps u (send_action a amt (u\<lparr>u_raise_amount := r\<rparr>))" for a amt r
    by (rule keeps_trans [OF _ send_action_keeps]) (simp add: keeps_def only_saves_def)
  then show "keeps u (send_preset_raise amt u)"
    by (simp add: send_preset_raise_def Let_def split: option.split)
  show "keeps u (submit_raise u)"
    by (simp add: submit_raise_def split: option.split) (simp add: keeps_def only_saves_def)
qed

lemma toggle_keeps [simp]: "keeps u (toggle_language u)"
  by (simp add: toggle_language_def keeps_def only_saves_def Let_def)

lemma hotkeys_keep [simp]: "keeps u (handle_hotkeys focus k u)"
  by (simp add: handle_hotkeys_def Let_def) (simp add: keeps_def only_saves_def)

lemma rooms_keep [simp]:
  "keeps u (lobby_room_step delta u)" "keeps u (set_create_panel b u)" "keeps u (submit_create_room u)"
  "keeps u (join_button u)" "keeps u (edit field txt u)" "keeps u (ui_app f u)" "keeps u (run_start u)"
  by (simp_all add: lobby_room_step_def set_create_panel_def submit_create_room_def join_button_def run_start_def
      keeps_def only_saves_def Let_def split: option.split) (cases field; simp)

lemma set_connecting_view [simp]:
  "v_connection (set_connection lang st v) = st"
  "v_screen (set_connection lang connection_status.Connecting v) = v_screen v"
  by (cases st; simp add: set_connection_def reset_play_session_def Let_def)+

lemma submit_login_effect:
  "keeps u (submit_login connected u)
   \<or> connected \<and> redials u (submit_login connected u)
     \<and> v_screen (u_state (submit_login connected u)) = v_screen (u_state u)"
  by (simp add: submit_login_def keeps_def only_saves_def redials_def Let_def)

lemma reconnect_button_effect:
  "redials u (reconnect_button u) \<and> v_screen (u_state (reconnect_button u)) = Login"
  by (simp add: reconnect_button_def redials_def Let_def)

text \<open>An input that the screen offers.\<close>

lemma on_click_login: "LoginButton c = on_click connected b \<Longrightarrow> c = connected"
  by (cases b) simp_all

lemma offered_effect:
  assumes "offered connected u e"
  shows "keeps u (ui_step e u)
    \<or> (connected \<or> e = ReconnectButton) \<and> redials u (ui_step e u)
      \<and> (e = ReconnectButton \<longrightarrow> v_screen (u_state (ui_step e u)) = Login)
      \<and> (e \<noteq> ReconnectButton \<longrightarrow> v_screen (u_state (ui_step e u)) = v_screen (u_state u))"
proof (cases e)
  case (LoginButton c)
  then have "c = connected" using assms on_click_login by auto
  then show ?thesis using LoginButton submit_login_effect [of u connected] by auto
next
  case (KeyPress c focus k)
  then show ?thesis using assms submit_login_effect [of u connected]
    by (auto simp: catch_event_def)
next
  case ReconnectButton
  then show ?thesis using reconnect_button_effect [of u] by simp
qed (use assms in \<open>simp_all add: create_button_def\<close>)

lemma reconnect_shown:
  "in_sync u \<Longrightarrow> offered connected u ReconnectButton \<Longrightarrow> v_screen (u_state u) = DisconnectedScreen"
proof -
  assume sync: "in_sync u" and "offered connected u ReconnectButton"
  then obtain b where b: "ReconnectButton = on_click connected b" "b \<in> set (shown_buttons u)" by auto
  then have "b = ReconnectBtn" by (cases b) simp_all
  then show ?thesis using b(2)
    by (auto simp: shown_buttons_eq [OF sync] room_buttons_def play_buttons_def exit_buttons_def
        split: ui_screen.splits if_splits)
qed

text \<open>The connection afterwards.\<close>

definition same_link :: "net_client \<Rightarrow> net_client \<Rightarrow> bool" where
  "same_link s s' \<longleftrightarrow> k_state s' = k_state s \<and> k_closed s' = k_closed s \<and> k_host s' = k_host s
     \<and> k_port s' = k_port s \<and> k_wire s' = k_wire s \<and> k_socket s' = k_socket s"

lemma same_link_trans: "same_link s s' \<Longrightarrow> same_link s' s'' \<Longrightarrow> same_link s s''"
  by (simp add: same_link_def)

lemma send_message_link: "send_message dump msg s = Ret s' \<Longrightarrow> same_link s s'"
  by (auto simp: send_message_def bind_r_Ret_iff map_r_Ret_iff add_op_def same_link_def split: if_splits)

lemma send_all_link: "send_all dump msgs s = Ret s' \<Longrightarrow> same_link s s'"
proof (induction msgs arbitrary: s)
  case Nil
  then show ?case by (simp add: same_link_def)
next
  case (Cons msg msgs)
  then show ?case by (auto simp: bind_r_Ret_iff intro: same_link_trans send_message_link)
qed

lemma perform_saves: "list_all no_call cs \<Longrightarrow> fold perform cs s = s"
  by (induction cs) (auto simp: no_call_def split: ui_call.splits)

lemma reconnect_state: "k_state (reconnect s) = client_state.Connecting \<and> \<not> k_closed (reconnect s)"
  by (simp add: reconnect_def begin_connect_def close_connection_def add_op_def notify_def Let_def)

lemma redial_state:
  "\<not> no_call c \<Longrightarrow> k_state (perform c s) = client_state.Connecting \<and> \<not> k_closed (perform c s)"
  by (cases c) (simp_all add: reconnect_state)

lemma ui_handler_effect:
  assumes "ui_handler dump f m = Ret m'"
  shows "m_ui m' = f (m_ui m)"
    and "only_saves (m_ui m) (f (m_ui m)) \<Longrightarrow> same_link (m_net m) (m_net m')"
    and "redials (m_ui m) (f (m_ui m)) \<Longrightarrow>
      k_state (m_net m') = client_state.Connecting \<and> \<not> k_closed (m_net m')"
proof -
  let ?s = "fold perform (new_calls (m_ui m) (f (m_ui m))) (m_net m)"
  obtain s' where s': "send_all dump (new_messages (m_ui m) (f (m_ui m))) ?s = Ret s'"
      "m' = \<lparr>m_ui = f (m_ui m), m_net = s'\<rparr>"
    using assms by (auto simp: ui_handler_def Let_def map_r_Ret_iff)
  then show "m_ui m' = f (m_ui m)" by simp
  have link: "same_link ?s (m_net m')" using s' send_all_link by simp
  show "same_link (m_net m) (m_net m')" if "only_saves (m_ui m) (f (m_ui m))"
    using that link by (auto simp: only_saves_def new_calls_def perform_saves)
  show "k_state (m_net m') = client_state.Connecting \<and> \<not> k_closed (m_net m')"
    if "redials (m_ui m) (f (m_ui m))"
    using that link redial_state [of _ "m_net m"] by (auto simp: redials_def new_calls_def same_link_def)
qed

section \<open>What the screen says about the connection\<close>

definition linked :: "ui \<Rightarrow> net_client \<Rightarrow> bool" where
  "linked u s \<longleftrightarrow> in_sync u \<and> v_connection (u_state u) = status_of (k_state s)
     \<and> (k_closed s \<longleftrightarrow> k_state s = client_state.Failed \<or> k_state s = client_state.Disconnected)
     \<and> (v_screen (u_state u) = DisconnectedScreen \<longleftrightarrow> k_state s = client_state.Disconnected)
     \<and> (k_state s = client_state.Failed \<longrightarrow> v_screen (u_state u) = Login)"

definition app_linked :: "client_app \<Rightarrow> bool" where
  "app_linked m \<longleftrightarrow> linked (m_ui m) (m_net m)"

lemma linked_keeps:
  "linked u s \<Longrightarrow> in_sync u' \<Longrightarrow> keeps u u' \<Longrightarrow> same_link s s' \<Longrightarrow> linked u' s'"
  by (simp add: linked_def keeps_def only_saves_def same_link_def)

lemma linked_redials:
  "in_sync u \<Longrightarrow> v_connection (u_state u) = connection_status.Connecting \<Longrightarrow>
     v_screen (u_state u) \<noteq> DisconnectedScreen \<Longrightarrow>
     k_state s = client_state.Connecting \<and> \<not> k_closed s \<Longrightarrow> linked u s"
  by (simp add: linked_def)

lemma user_linked:
  assumes "app_linked m" "offered (is_connected (m_net m)) (m_ui m) e"
    and "ui_handler dump (ui_step e) m = Ret m'"
  shows "app_linked m'"
proof -
  have ok: "linked (m_ui m) (m_net m)" "in_sync (ui_step e (m_ui m))"
    using assms(1) ui_step_ok(1) by (simp_all add: app_linked_def linked_def)
  note eff = ui_handler_effect [OF assms(3)]
  show ?thesis using offered_effect [OF assms(2)]
  proof
    assume "keeps (m_ui m) (ui_step e (m_ui m))"
    then show ?thesis using linked_keeps [OF ok _ eff(2)] eff(1) by (simp add: app_linked_def keeps_def)
  next
    assume r: "(is_connected (m_net m) \<or> e = ReconnectButton) \<and> redials (m_ui m) (ui_step e (m_ui m))
      \<and> (e = ReconnectButton \<longrightarrow> v_screen (u_state (ui_step e (m_ui m))) = Login)
      \<and> (e \<noteq> ReconnectButton \<longrightarrow> v_screen (u_state (ui_step e (m_ui m))) = v_screen (u_state (m_ui m)))"
    then have "v_screen (u_state (ui_step e (m_ui m))) \<noteq> DisconnectedScreen"
      using ok(1) by (cases "e = ReconnectButton") (auto simp: linked_def is_connected_def)
    then show ?thesis using r ok(2) eff(3) linked_redials
      unfolding app_linked_def eff(1) by (simp add: redials_def)
  qed
qed

text \<open>The connection handler, when the state that it reports has been reached.\<close>

lemma connection_effect:
  fixes connected st
  defines "u1 \<equiv> \<lambda>u. u\<lparr>u_state := set_connection (u_lang u) st (u_state u)\<rparr>"
  shows "keeps (u1 u) (on_connection_changed connected st u)
    \<or> st = connection_status.Connected \<and> redials (u1 u) (on_connection_changed connected st u)
      \<and> v_screen (u_state (on_connection_changed connected st u)) = v_screen (u_state (u1 u))"
proof -
  let ?u2 = "sync_control_visibility (u1 u)"
  have k: "keeps (u1 u) ?u2" "keeps ?u2 (?u2\<lparr>u_pending_auto_login := b\<rparr>)" for b by (simp_all add: keeps_def only_saves_def)
  show ?thesis
  proof (cases "u_pending_auto_login ?u2 \<and> st = connection_status.Connected")
    case True
    let ?u3 = "?u2\<lparr>u_pending_auto_login := False\<rparr>"
    have "on_connection_changed connected st u = submit_login connected ?u3"
      using True by (simp add: on_connection_changed_def u1_def Let_def)
    moreover have "u_calls ?u3 = u_calls (u1 u)" "v_screen (u_state ?u3) = v_screen (u_state (u1 u))" by simp_all
    ultimately show ?thesis
      using submit_login_effect [of ?u3 connected] keeps_trans [OF k(1) keeps_trans [OF k(2)]] True
      by (auto simp: redials_def)
  next
    case False
    then have "on_connection_changed connected st u = ?u2"
      by (auto simp: on_connection_changed_def u1_def Let_def)
    then show ?thesis using k(1) by simp
  qed
qed

definition closed_ok :: "net_client \<Rightarrow> bool" where
  "closed_ok s \<longleftrightarrow> (k_closed s \<longleftrightarrow> k_state s = client_state.Failed \<or> k_state s = client_state.Disconnected)"

lemma linked_closed_ok: "linked u s \<Longrightarrow> closed_ok s"
  by (simp add: linked_def closed_ok_def)

lemma set_connection_screen:
  "v_screen (set_connection lang (status_of st) v) = (case st of
     client_state.Failed \<Rightarrow> Login | client_state.Disconnected \<Rightarrow> DisconnectedScreen | _ \<Rightarrow> v_screen v)"
  by (cases st) (simp_all add: set_connection_def reset_play_session_def Let_def)

lemma status_of_connected: "status_of st = connection_status.Connected \<longleftrightarrow> st = client_state.Connected"
  by (cases st) simp_all

lemma connection_linked:
  assumes run: "connection_handler dump st m = Ret m'" and st: "k_state (m_net m) = st" "closed_ok (m_net m)"
    and screen: "v_screen (u_state (m_ui m)) = DisconnectedScreen \<Longrightarrow> st = client_state.Disconnected \<or> st = client_state.Failed"
  shows "app_linked m'"
proof -
  let ?c = "is_connected (m_net m)"
  let ?f = "on_connection_changed ?c (status_of st)"
  let ?u1 = "(m_ui m)\<lparr>u_state := set_connection (u_lang (m_ui m)) (status_of st) (u_state (m_ui m))\<rparr>"
  note eff = ui_handler_effect [OF run [unfolded connection_handler_def]]
  have sync: "in_sync (?f (m_ui m))" by (rule connection_ok(1))
  have u1: "v_connection (u_state ?u1) = status_of st"
    "v_screen (u_state ?u1) = (case st of client_state.Failed \<Rightarrow> Login
       | client_state.Disconnected \<Rightarrow> DisconnectedScreen | _ \<Rightarrow> v_screen (u_state (m_ui m)))"
    by (simp_all add: set_connection_screen)
  have calls: "u_calls ?u1 = u_calls (m_ui m)" by simp
  show ?thesis using connection_effect [of "m_ui m" "status_of st" ?c]
  proof
    assume k: "keeps ?u1 (?f (m_ui m))"
    have "same_link (m_net m) (m_net m')"
      by (rule eff(2)) (use k in \<open>simp add: keeps_def only_saves_def\<close>)
    then show ?thesis using k sync u1 st screen unfolding app_linked_def eff(1) linked_def
      by (cases st) (auto simp: keeps_def same_link_def closed_ok_def)
  next
    assume r: "status_of st = connection_status.Connected \<and> redials ?u1 (?f (m_ui m))
      \<and> v_screen (u_state (?f (m_ui m))) = v_screen (u_state ?u1)"
    then have c: "st = client_state.Connected" by (simp add: status_of_connected)
    have "k_state (m_net m') = client_state.Connecting \<and> \<not> k_closed (m_net m')"
      by (rule eff(3)) (use r in \<open>auto simp: redials_def\<close>)
    then show ?thesis using r sync u1 screen c unfolding app_linked_def eff(1)
      by (intro linked_redials) (auto simp: redials_def)
  qed
qed

text \<open>What a handler of the connection reports.\<close>

definition reports :: "net_client \<Rightarrow> net_client \<Rightarrow> bool" where
  "reports s s' \<longleftrightarrow>
     k_notified s' = k_notified s \<and> k_state s' = k_state s \<and> k_closed s' = k_closed s
     \<or> (\<exists>st. k_notified s' = k_notified s @ [st] \<and> k_state s' = st \<and> closed_ok s'
         \<and> (st = client_state.Failed \<or> st = client_state.Disconnected \<or> k_state s \<noteq> client_state.Disconnected))"

lemma net_handler_linked:
  assumes "app_linked m" "reports (m_net m) (f (m_net m))" "net_handler dump f m = Ret m'"
  shows "app_linked m'"
  using assms(2) [unfolded reports_def]
proof
  assume "k_notified (f (m_net m)) = k_notified (m_net m) \<and> k_state (f (m_net m)) = k_state (m_net m)
    \<and> k_closed (f (m_net m)) = k_closed (m_net m)"
  then show ?thesis using assms(1,3) by (auto simp: net_handler_def Let_def app_linked_def linked_def)
next
  assume "\<exists>st. k_notified (f (m_net m)) = k_notified (m_net m) @ [st] \<and> k_state (f (m_net m)) = st
    \<and> closed_ok (f (m_net m))
    \<and> (st = client_state.Failed \<or> st = client_state.Disconnected \<or> k_state (m_net m) \<noteq> client_state.Disconnected)"
  then obtain st where st: "k_notified (f (m_net m)) = k_notified (m_net m) @ [st]" "k_state (f (m_net m)) = st"
    "closed_ok (f (m_net m))"
    "st = client_state.Failed \<or> st = client_state.Disconnected \<or> k_state (m_net m) \<noteq> client_state.Disconnected"
    by blast
  then have run: "connection_handler dump st (m\<lparr>m_net := f (m_net m)\<rparr>) = Ret m'"
    using assms(3) by (auto simp: net_handler_def Let_def bind_r_Ret_iff)
  show ?thesis
    by (rule connection_linked [OF run]) (use st assms(1) in \<open>auto simp: app_linked_def linked_def\<close>)
qed

lemma reports_same [simp]: "reports s s"
  by (simp add: reports_def)

lemma close_reports: "closed_ok s \<Longrightarrow> \<not> k_closed s \<Longrightarrow> reports s (close_connection True s)"
  by (cases "k_state s") (simp_all add: reports_def close_connection_def closed_ok_def notify_def Let_def)

lemma failed_reports:
  "closed_ok s \<Longrightarrow> k_closed s \<or> ec \<noteq> Success \<Longrightarrow> reports s (on_connect_result ec s)"
  by (cases ec) (auto simp: reports_def on_connect_result_def closed_ok_def notify_def)

lemma do_write_link [simp]:
  "k_notified (do_write s) = k_notified s" "k_state (do_write s) = k_state s" "k_closed (do_write s) = k_closed s"
  by (simp_all add: do_write_def add_op_def)

lemma do_read_fields [simp]:
  "k_notified (do_read_header s) = k_notified s" "k_state (do_read_header s) = k_state s"
  "k_closed (do_read_header s) = k_closed s" "k_notified (do_read_body len s) = k_notified s"
  "k_state (do_read_body len s) = k_state s" "k_closed (do_read_body len s) = k_closed s"
  by (simp_all add: do_read_header_def do_read_body_def add_op_def)

lemma write_done_reports: "closed_ok s \<Longrightarrow> reports s (write_done ec s)"
proof -
  assume ok: "closed_ok s"
  let ?s = "s\<lparr>k_write_in_progress := False\<rparr>"
  have "reports ?s (close_connection True ?s)" if "is_connected s"
    by (rule close_reports) (use ok that in \<open>simp_all add: closed_ok_def is_connected_def\<close>)
  then show ?thesis by (auto simp: write_done_def Let_def reports_def is_connected_def)
qed

lemma posted_reports: "reports s (posted packet s)"
  by (simp add: posted_def reports_def Let_def)

lemma header_read_reports: "closed_ok s \<Longrightarrow> reports s (header_read ec bs s)"
  using close_reports [of s] by (auto simp: header_read_def reports_def split: prod.split)

lemma body_read_reports: "closed_ok s \<Longrightarrow> k_closed s \<or> ec \<noteq> Success \<Longrightarrow> reports s (body_read parse ec bs s)"
  using close_reports [of s] by (auto simp: body_read_def)

lemma resolved_reports: "closed_ok s \<Longrightarrow> reports s (resolved ec s)"
  using failed_reports [of s ec] by (auto simp: resolved_def) (simp add: reports_def add_op_def)

lemma timed_out_reports: "closed_ok s \<Longrightarrow> reports s (timed_out ec s)"
  using failed_reports [of "s\<lparr>k_socket_open := False\<rparr>" OtherError]
  by (auto simp: timed_out_def reports_def closed_ok_def)

lemmas handler_reports = write_done_reports header_read_reports resolved_reports timed_out_reports

lemma begin_io_fields [simp]:
  "k_state (begin_io s) = k_state s" "k_closed (begin_io s) = k_closed s" 
  by (simp_all add: begin_io_def)

lemma linked_fields:
  "k_state s' = k_state s \<Longrightarrow> k_closed s' = k_closed s \<Longrightarrow> linked u s' = linked u s"
  by (simp add: linked_def)

lemma connect_linked:
  assumes "app_linked m" "connect_result dump ec m = Ret m'"
  shows "app_linked m'"
proof (cases "k_closed (m_net m) \<or> ec \<noteq> Success")
  case True
  then have run: "net_handler dump (on_connect_result ec) m = Ret m'" using assms(2) by (auto simp: connect_result_def)
  show ?thesis
    by (rule net_handler_linked [OF assms(1) _ run])
      (use True assms(1) linked_closed_ok failed_reports in \<open>auto simp: app_linked_def\<close>)
next
  case False
  obtain m1 where m1: "net_handler dump report_connected m = Ret m1" "m' = m1\<lparr>m_net := begin_io (m_net m1)\<rparr>"
    using assms(2) False by (auto simp: connect_result_def map_r_Ret_iff)
  have "reports (m_net m) (report_connected (m_net m))"
    using False assms(1) by (auto simp: reports_def report_connected_def notify_def closed_ok_def app_linked_def linked_def)
  then have "app_linked m1" using net_handler_linked [OF assms(1) _ m1(1)] by simp
  then show ?thesis using m1(2) linked_fields [of "begin_io (m_net m1)" "m_net m1"] by (simp add: app_linked_def)
qed

lemma message_effect:
  "only_saves u (add_server_message msg u) \<and> in_sync (add_server_message msg u)
   \<and> v_connection (u_state (add_server_message msg u)) = v_connection (u_state u)
   \<and> (v_screen (u_state u) \<noteq> DisconnectedScreen \<longrightarrow>
        v_screen (u_state (add_server_message msg u)) \<noteq> DisconnectedScreen)"
proof -
  let ?v = "apply_message (u_lang u) msg (u_state u)"
  have v: "v_connection ?v = v_connection (u_state u)"
    "v_screen ?v = v_screen (u_state u) \<or> v_screen ?v \<in> {Lobby, WaitingRoom, InGame}"
    by (cases msg; simp add: apply_welcome_def apply_room_list_def apply_joined_room_def apply_game_state_def
        apply_hand_result_def apply_left_room_def apply_error_def reset_play_session_def Let_def
        split: option.split)+
  have "u_calls (add_server_message msg u) = u_calls u
      \<or> (\<exists>st. u_calls (add_server_message msg u) = u_calls u @ [SaveSettings st])"
    "v_connection (u_state (add_server_message msg u)) = v_connection ?v"
    "v_screen (u_state (add_server_message msg u)) = v_screen ?v"
    by (cases msg; simp add: add_server_message_def after_error_def after_welcome_def after_game_state_def
        after_your_turn_def after_left_room_def Let_def)+
  then show ?thesis using v by (auto simp: only_saves_def message_ok(1))
qed

lemma message_linked:
  assumes "app_linked m" "\<not> k_closed (m_net m)" "message_handler dump msg m = Ret m'"
  shows "app_linked m' \<and> \<not> k_closed (m_net m')"
proof -
  note eff = ui_handler_effect [OF assms(3) [unfolded message_handler_def]]
  have "same_link (m_net m) (m_net m')" by (rule eff(2)) (simp add: message_effect)
  then show ?thesis using assms(1,2) message_effect [of "m_ui m" msg]
    unfolding app_linked_def eff(1) by (auto simp: linked_def same_link_def)
qed

lemma messages_linked:
  "app_linked m \<Longrightarrow> \<not> k_closed (m_net m) \<Longrightarrow> each (message_handler dump) msgs m = Ret m' \<Longrightarrow>
     app_linked m'"
  by (induction msgs arbitrary: m) (auto simp: bind_r_Ret_iff dest: message_linked)

lemma on_message_link [simp]:
  "k_state (on_message parse raw s) = k_state s" "k_closed (on_message parse raw s) = k_closed s"
  by (simp_all add: on_message_def split: sum.split result.split)

lemma body_linked:
  assumes "app_linked m" "body_result parse dump ec bs m = Ret m'"
  shows "app_linked m'"
proof (cases "k_closed (m_net m) \<or> ec \<noteq> Success")
  case True
  then have run: "net_handler dump (body_read parse ec bs) m = Ret m'" using assms(2) by (auto simp: body_result_def)
  show ?thesis
    by (rule net_handler_linked [OF assms(1) _ run])
      (use True assms(1) linked_closed_ok body_read_reports in \<open>auto simp: app_linked_def\<close>)
next
  case False
  let ?s = "on_message parse (string_of_bytes bs) (m_net m)"
  obtain m1 where m1: "each (message_handler dump) (drop (length (k_received (m_net m))) (k_received ?s))
      (m\<lparr>m_net := ?s\<rparr>) = Ret m1" "m' = m1\<lparr>m_net := do_read_header (m_net m1)\<rparr>"
    using assms(2) False by (auto simp: body_result_def Let_def map_r_Ret_iff)
  have "app_linked (m\<lparr>m_net := ?s\<rparr>)" using assms(1) linked_fields [of ?s "m_net m"] by (simp add: app_linked_def)
  then have "app_linked m1" using messages_linked [OF _ _ m1(1)] False by simp
  then show ?thesis using m1(2) linked_fields [of "do_read_header (m_net m1)" "m_net m1"] by (simp add: app_linked_def)
qed

lemma complete_linked:
  assumes "app_linked m" "complete_app parse dump p ec bs m = Ret m'"
  shows "app_linked m'"
proof -
  let ?m = "m\<lparr>m_net := (m_net m)\<lparr>k_ops := remove1 p (k_ops (m_net m))\<rparr>\<rparr>"
  have m: "app_linked ?m" "closed_ok (m_net ?m)"
    using assms(1) linked_closed_ok [of "m_ui m" "m_net m"] by (simp_all add: app_linked_def linked_def closed_ok_def)
  have other: "app_linked m'" if "net_handler dump (run_handler parse p ec bs) ?m = Ret m'"
      "reports (m_net ?m) (run_handler parse p ec bs (m_net ?m))"
    using net_handler_linked [OF m(1) that(2,1)] .
  show ?thesis
    using assms(2) connect_linked [OF m(1)] body_linked [OF m(1)] other handler_reports [OF m(2)]
    by (cases p) (simp_all add: complete_app_def run_handler_def Let_def posted_reports)
qed

lemma step_linked: "app_step parse dump m m' \<Longrightarrow> app_linked m \<Longrightarrow> app_linked m'"
  by (cases rule: app_step.cases) (auto intro: user_linked complete_linked)

lemma steps_linked: "(app_step parse dump)\<^sup>*\<^sup>* m m' \<Longrightarrow> app_linked m \<Longrightarrow> app_linked m'"
  by (induction rule: rtranclp_induct) (auto intro: step_linked)

lemma start_linked: "start_app dump st argv = Ret m \<Longrightarrow> app_linked m"
proof -
  assume run: "start_app dump st argv = Ret m"
  let ?host = "parse_host argv (cs_host st)" and ?port = "parse_port argv (cs_port st)"
  let ?m = "\<lparr>m_ui = initialize_session st ?host ?port new_ui, m_net = start_client (new_client ?host ?port)\<rparr>"
  have c: "connection_handler dump client_state.Connecting ?m = Ret m"
    using run by (auto simp: start_app_def net_handler_def start_client_def begin_connect_def new_client_def
        add_op_def notify_def bind_r_Ret_iff Let_def)
  have screen: "v_screen (u_state (m_ui ?m)) = Login"
    by (simp add: initialize_session_def Let_def) (simp add: new_ui_def new_view_def)
  show ?thesis
    by (rule connection_linked [OF c])
      (use screen in \<open>simp_all add: start_client_def begin_connect_def new_client_def add_op_def notify_def closed_ok_def\<close>)
qed

text \<open>
  C31. The screen tells the truth about the connection: whatever the user does and however the operations of
  the network complete, after every step of the client the status shown is the state of the connection;
  the screen of a lost connection, with its reconnect button, is shown exactly when the connection is lost,
  and after a failed attempt to connect the login screen.
\<close>

theorem connection_shown:
  assumes "start_app dump st argv = Ret m0" "(app_step parse dump)\<^sup>*\<^sup>* m0 m"
  shows "v_connection (u_state (m_ui m)) = status_of (k_state (m_net m))
    \<and> (v_screen (u_state (m_ui m)) = DisconnectedScreen \<longleftrightarrow> k_state (m_net m) = client_state.Disconnected)
    \<and> (k_state (m_net m) = client_state.Failed \<longrightarrow> v_screen (u_state (m_ui m)) = Login)"
  using steps_linked [OF assms(2) start_linked [OF assms(1)]] by (simp add: app_linked_def linked_def)

section \<open>After a failed attempt to connect\<close>

lemma closed_handlers:
  assumes "k_closed s" "closed_ok s"
  shows "same_link s (run_handler parse p ec bs s)" "k_notified (run_handler parse p ec bs s) = k_notified s"
proof -
  have st: "k_state s \<noteq> client_state.Connecting" "k_state s \<noteq> client_state.Connected" using assms by (auto simp: closed_ok_def)
  have same: "resolved ec s = s" "on_connect_result ec s = s" "timed_out ec s = s" "header_read ec bs s = s"
    "body_read parse ec bs s = s"
    using assms(1) by (simp_all add: resolved_def on_connect_result_def timed_out_def header_read_def body_read_def)
  have posted: "posted packet s = s" for packet using st by (simp add: posted_def is_connected_def)
  have written: "write_done ec s = s\<lparr>k_write_in_progress := False\<rparr>" using st by (simp add: write_done_def is_connected_def)
  show "same_link s (run_handler parse p ec bs s)" "k_notified (run_handler parse p ec bs s) = k_notified s"
    by (cases p; simp add: run_handler_def same posted written same_link_def)+
qed

lemma closed_net_handler:
  "k_notified (f (m_net m)) = k_notified (m_net m) \<Longrightarrow> net_handler dump f m = Ret m' \<Longrightarrow>
     m' = m\<lparr>m_net := f (m_net m)\<rparr>"
  by (simp add: net_handler_def)

lemma closed_complete:
  assumes "app_linked m" "k_closed (m_net m)" "complete_app parse dump p ec bs m = Ret m'"
  shows "same_link (m_net m) (m_net m')"
proof -
  let ?s = "(m_net m)\<lparr>k_ops := remove1 p (k_ops (m_net m))\<rparr>"
  let ?m = "m\<lparr>m_net := ?s\<rparr>"
  have s: "k_closed ?s" "closed_ok ?s"
    using assms(1,2) linked_closed_ok [of "m_ui m" "m_net m"] by (simp_all add: app_linked_def closed_ok_def)
  have "net_handler dump (run_handler parse p ec bs) ?m = Ret m'"
    using assms(2,3)
    by (cases p) (simp_all add: complete_app_def connect_result_def body_result_def run_handler_def Let_def net_handler_def)
  then have "m' = ?m\<lparr>m_net := run_handler parse p ec bs ?s\<rparr>"
    using closed_net_handler [of "run_handler parse p ec bs" ?m] closed_handlers [OF s] by simp
  then have "same_link ?s (m_net m')" using closed_handlers(1) [OF s] by simp
  then show ?thesis by (simp add: same_link_def)
qed

lemma failed_step:
  assumes "app_step parse dump m m'" "app_linked m" "k_state (m_net m) = client_state.Failed"
  shows "same_link (m_net m) (m_net m')"
  using assms(1)
proof cases
  case (user e)
  have m: "in_sync (m_ui m)" "v_screen (u_state (m_ui m)) = Login" "\<not> is_connected (m_net m)"
    using assms(2,3) by (simp_all add: app_linked_def linked_def is_connected_def)
  have "e \<noteq> ReconnectButton"
  proof
    assume "e = ReconnectButton"
    then have "v_screen (u_state (m_ui m)) = DisconnectedScreen" using reconnect_shown [OF m(1)] user(1) by blast
    then show False using m(2) by simp
  qed
  then have "keeps (m_ui m) (ui_step e (m_ui m))" using offered_effect [OF user(1)] m(3) by blast
  then show ?thesis using ui_handler_effect(2) [OF user(2)] by (simp add: keeps_def)
next
  case (completion p ec bs)
  then show ?thesis using closed_complete [OF assms(2) _ completion(2)] assms(2,3)
    by (simp add: app_linked_def linked_def)
qed

lemma failed_steps:
  "(app_step parse dump)\<^sup>*\<^sup>* m m' \<Longrightarrow> app_linked m \<Longrightarrow> k_state (m_net m) = client_state.Failed \<Longrightarrow>
     same_link (m_net m) (m_net m')"
proof (induction rule: rtranclp_induct)
  case base
  then show ?case by (simp add: same_link_def)
next
  case (step m1 m2)
  have "app_linked m1" "same_link (m_net m) (m_net m1)" using step steps_linked by blast+
  then show ?case using failed_step [OF step(2)] step(5) same_link_trans by (simp add: same_link_def)
qed

text \<open>
  C32. A failed attempt to connect is final: from then on nothing that the user can do on the screen, and nothing
  that the network does, opens another connection, changes the address or sends a byte. The login screen
  that is shown then has fields for the address, but its button asks for a connection before it looks at
  them, and the button to reconnect is on another screen.
\<close>

theorem failed_for_good:
  assumes "start_app dump st argv = Ret m0" "(app_step parse dump)\<^sup>*\<^sup>* m0 m"
    and "k_state (m_net m) = client_state.Failed" "(app_step parse dump)\<^sup>*\<^sup>* m m'"
  shows "k_state (m_net m') = client_state.Failed \<and> k_host (m_net m') = k_host (m_net m)
    \<and> k_port (m_net m') = k_port (m_net m) \<and> k_socket (m_net m') = k_socket (m_net m)
    \<and> k_wire (m_net m') = k_wire (m_net m) \<and> v_screen (u_state (m_ui m')) = Login"
proof -
  have m: "app_linked m" using steps_linked [OF assms(2) start_linked [OF assms(1)]] .
  then have "same_link (m_net m) (m_net m')" "app_linked m'"
    using failed_steps [OF assms(4) m assms(3)] steps_linked [OF assms(4)] by blast+
  then show ?thesis using assms(3) by (simp add: same_link_def app_linked_def linked_def)
qed

section \<open>Reconnecting\<close>

text \<open>The login form is filled in, with the address of the connection.\<close>

definition login_filled :: "ui \<Rightarrow> bool" where
  "login_filled u \<longleftrightarrow> \<not> list_all is_login_space (u_name_input u)
     \<and> is_valid_username (trim_login (u_name_input u))
     \<and> u_password_input u \<noteq> [] \<and> is_valid_password (u_password_input u)
     \<and> u_host_input u = v_server_host (u_state u) \<and> u_port_input u = v_server_port (u_state u)"

definition login_of :: "ui \<Rightarrow> client_message" where
  "login_of u = CLogin \<lparr>lg_username = trim_login (u_name_input u), lg_password = u_password_input u\<rparr>"

lemma filled_login:
  assumes "login_filled u"
  shows "only_saves u (submit_login True u)"
    "a_sent (u_app (submit_login True u)) = a_sent (u_app u) @ [login_of u]"
  using assms
  by (simp_all add: submit_login_def login_filled_def only_saves_def login_of_def app_send_login_def app_send_def Let_def)

definition same_form :: "ui \<Rightarrow> ui \<Rightarrow> bool" where
  "same_form u u' \<longleftrightarrow> u_name_input u' = u_name_input u \<and> u_password_input u' = u_password_input u
     \<and> u_host_input u' = u_host_input u \<and> u_port_input u' = u_port_input u
     \<and> v_server_host (u_state u') = v_server_host (u_state u)
     \<and> v_server_port (u_state u') = v_server_port (u_state u) \<and> a_sent (u_app u') = a_sent (u_app u)
     \<and> u_pending_auto_login u' = u_pending_auto_login u"

lemma same_form_login:
  "same_form u u' \<Longrightarrow> login_filled u' = login_filled u \<and> login_of u' = login_of u"
  by (simp add: same_form_def login_filled_def login_of_def)

lemma sync_form: "same_form u (sync_control_visibility u)"
  by (simp add: sync_control_visibility_def update_turn_button_labels_def set_call_label_def same_form_def Let_def
      split: option.split)

lemma set_connection_form: "same_form u (u\<lparr>u_state := set_connection lang st (u_state u)\<rparr>)"
  by (cases st) (simp_all add: same_form_def set_connection_def reset_play_session_def Let_def)

lemma same_form_trans: "same_form u u' \<Longrightarrow> same_form u' u'' \<Longrightarrow> same_form u u''"
  by (simp add: same_form_def)

lemma reconnecting_form: "same_form u (reconnecting c u)"
  unfolding reconnecting_def Let_def
  by (rule same_form_trans [OF _ sync_form], rule same_form_trans [OF _ set_connection_form])
    (simp add: same_form_def ui_call_def)

lemma reconnect_button_form:
  "same_form (u\<lparr>u_pending_auto_login := v_player_name (u_state u) \<noteq> [] \<and> u_password_input u \<noteq> []\<rparr>) (reconnect_button u)"
  unfolding reconnect_button_def Let_def
  by (rule same_form_trans [OF _ reconnecting_form], rule same_form_trans [OF _ sync_form])
    (simp add: same_form_def reset_play_session_def)

text \<open>The three steps: the button, the address is resolved, the connection is made.\<close>

lemma press_reconnect:
  assumes "app_linked m" "k_state (m_net m) = client_state.Disconnected"
  shows "\<exists>m'. app_step parse dump m m' \<and> m_ui m' = reconnect_button (m_ui m) \<and> app_linked m'
    \<and> Resolve \<in> set (k_ops (m_net m')) \<and> \<not> k_closed (m_net m') \<and> k_state (m_net m') = client_state.Connecting"
proof -
  have m: "in_sync (m_ui m)" "v_screen (u_state (m_ui m)) = DisconnectedScreen" "\<not> is_connected (m_net m)"
    using assms by (simp_all add: app_linked_def linked_def is_connected_def)
  have "ReconnectBtn \<in> set (shown_buttons (m_ui m))" using m by (simp add: shown_buttons_eq exit_buttons_def)
  then have "on_click False ReconnectBtn \<in> on_click False ` set (shown_buttons (m_ui m))" by (rule imageI)
  then have offer: "offered (is_connected (m_net m)) (m_ui m) ReconnectButton" using m(3) by simp
  have sent: "a_sent (u_app (reconnect_button (m_ui m))) = a_sent (u_app (m_ui m))"
    using reconnect_button_form [of "m_ui m"] by (simp add: same_form_def)
  have calls: "u_calls (reconnect_button (m_ui m)) = u_calls (m_ui m) @ [ReconnectCall]"
    by (simp add: reconnect_button_def Let_def)
  let ?m = "\<lparr>m_ui = reconnect_button (m_ui m), m_net = reconnect (m_net m)\<rparr>"
  have run: "ui_handler dump (ui_step ReconnectButton) m = Ret ?m"
    using sent calls by (simp add: ui_handler_def new_calls_def new_messages_def Let_def)
  have "Resolve \<in> set (k_ops (reconnect (m_net m)))"
    by (simp add: reconnect_def begin_connect_def close_connection_def add_op_def notify_def Let_def)
  then show ?thesis
    using app_step.user [OF offer run] user_linked [OF assms(1) offer run] reconnect_state [of "m_net m"]
    by (intro exI [of _ ?m]) simp
qed

lemma resolve_succeeds:
  assumes "Resolve \<in> set (k_ops (m_net m))" "\<not> k_closed (m_net m)"
  shows "\<exists>m' g. app_step parse dump m m' \<and> m_ui m' = m_ui m \<and> Connect g \<in> set (k_ops (m_net m'))
    \<and> \<not> k_closed (m_net m') \<and> k_write_queue (m_net m') = k_write_queue (m_net m)"
proof -
  let ?s = "(m_net m)\<lparr>k_ops := remove1 Resolve (k_ops (m_net m))\<rparr>"
  have "complete_app parse dump Resolve Success [] m = Ret (m\<lparr>m_net := resolved Success ?s\<rparr>)"
    using assms(2) by (simp add: complete_app_def net_handler_def run_handler_def resolved_def add_op_def)
  then have "app_step parse dump m (m\<lparr>m_net := resolved Success ?s\<rparr>)" using assms(1) by (rule app_step.completion [rotated])
  then show ?thesis using assms(2)
    by (intro exI [of _ "m\<lparr>m_net := resolved Success ?s\<rparr>"] exI [of _ "k_socket (m_net m)"])
      (simp add: resolved_def add_op_def)
qed

lemma connect_succeeds:
  assumes "Connect g \<in> set (k_ops (m_net m))" "\<not> k_closed (m_net m)" "u_pending_auto_login (m_ui m)"
    and filled: "login_filled (m_ui m)"
    and dumped: "dump (to_json_client (login_of (m_ui m))) = Ret body" "length body \<le> unat MAX_PACKET_SIZE"
  shows "\<exists>m'. app_step parse dump m m' \<and> k_state (m_net m') = client_state.Connected
    \<and> a_sent (u_app (m_ui m')) = a_sent (u_app (m_ui m)) @ [login_of (m_ui m)]
    \<and> Post (frame body) \<in> set (k_ops (m_net m'))"
proof -
  let ?s = "report_connected ((m_net m)\<lparr>k_ops := remove1 (Connect g) (k_ops (m_net m))\<rparr>)"
  let ?u1 = "sync_control_visibility ((m_ui m)\<lparr>u_state :=
      set_connection (u_lang (m_ui m)) connection_status.Connected (u_state (m_ui m))\<rparr>)"
  let ?u2 = "?u1\<lparr>u_pending_auto_login := False\<rparr>"
  have form1: "same_form (m_ui m) ?u1" by (rule same_form_trans [OF set_connection_form sync_form])
  then have form: "login_filled ?u2" "login_of ?u2 = login_of (m_ui m)" "a_sent (u_app ?u2) = a_sent (u_app (m_ui m))"
    using same_form_login [OF form1] filled by (simp_all add: login_filled_def login_of_def same_form_def)
  have changed: "on_connection_changed True connection_status.Connected (m_ui m) = submit_login True ?u2"
    using assms(3) by (simp add: on_connection_changed_def Let_def)
  note login = filled_login [OF form(1)]
  have new: "fold perform (new_calls (m_ui m) (submit_login True ?u2)) s = s"
    "new_messages (m_ui m) (submit_login True ?u2) = [login_of (m_ui m)]" for s
    using login form(2,3) by (auto simp: only_saves_def new_calls_def new_messages_def perform_saves)
  have sent: "send_message dump (login_of (m_ui m)) ?s = Ret (add_op (Post (frame body)) ?s)"
    using dumped by (simp add: send_message_def encode_frame)
  let ?m1 = "\<lparr>m_ui = submit_login True ?u2, m_net = add_op (Post (frame body)) ?s\<rparr>"
  have "connection_handler dump client_state.Connected (m\<lparr>m_net := ?s\<rparr>) = Ret ?m1"
    using new sent changed
    by (simp add: connection_handler_def ui_handler_def is_connected_def report_connected_def notify_def Let_def)
  then have "connect_result dump Success (m\<lparr>m_net := (m_net m)\<lparr>k_ops := remove1 (Connect g) (k_ops (m_net m))\<rparr>\<rparr>)
      = Ret (?m1\<lparr>m_net := begin_io (m_net ?m1)\<rparr>)"
    using assms(2) by (simp add: connect_result_def net_handler_def report_connected_def notify_def)
  then have "complete_app parse dump (Connect g) Success [] m = Ret (?m1\<lparr>m_net := begin_io (m_net ?m1)\<rparr>)"
    by (simp add: complete_app_def)
  then have step: "app_step parse dump m (?m1\<lparr>m_net := begin_io (m_net ?m1)\<rparr>)"
    using assms(1) by (rule app_step.completion [rotated])
  have "Post (frame body) \<in> set (k_ops (begin_io (add_op (Post (frame body)) ?s)))"
    by (simp add: begin_io_def do_read_header_def do_write_def add_op_def)
  then show ?thesis using step login(2) form(2,3)
    by (intro exI [of _ "?m1\<lparr>m_net := begin_io (m_net ?m1)\<rparr>"])
      (simp add: report_connected_def notify_def add_op_def)
qed

text \<open>
  C33. Reconnecting logs in again: when the connection is lost, a user is known and the login form is still
  filled in with a valid name, a valid password and the same address, then pressing the reconnect button,
  which the screen offers, and a successful connection send exactly one message, the login of the form,
  and its packet is on its way.
\<close>

theorem reconnect_logs_in:
  assumes "start_app dump st argv = Ret m0" "(app_step parse dump)\<^sup>*\<^sup>* m0 m"
    and "k_state (m_net m) = client_state.Disconnected"
    and "v_player_name (u_state (m_ui m)) \<noteq> []" "login_filled (m_ui m)"
    and "dump (to_json_client (login_of (m_ui m))) = Ret body" "length body \<le> unat MAX_PACKET_SIZE"
  shows "\<exists>m1 m2 m3. app_step parse dump m m1 \<and> app_step parse dump m1 m2 \<and> app_step parse dump m2 m3
    \<and> m_ui m1 = ui_step ReconnectButton (m_ui m) \<and> v_connection (u_state (m_ui m3)) = connection_status.Connected
    \<and> a_sent (u_app (m_ui m3)) = a_sent (u_app (m_ui m)) @ [login_of (m_ui m)]
    \<and> Post (frame body) \<in> set (k_ops (m_net m3))"
proof -
  have m: "app_linked m" using steps_linked [OF assms(2) start_linked [OF assms(1)]] .
  obtain m1 where m1: "app_step parse dump m m1" "m_ui m1 = reconnect_button (m_ui m)" "app_linked m1"
      "Resolve \<in> set (k_ops (m_net m1))" "\<not> k_closed (m_net m1)"
    using press_reconnect [OF m assms(3)] by blast
  obtain m2 g where m2: "app_step parse dump m1 m2" "m_ui m2 = m_ui m1" "Connect g \<in> set (k_ops (m_net m2))"
      "\<not> k_closed (m_net m2)"
    using resolve_succeeds [OF m1(4,5)] by blast
  have ui: "login_filled (m_ui m2)" "login_of (m_ui m2) = login_of (m_ui m)" "u_pending_auto_login (m_ui m2)"
    "a_sent (u_app (m_ui m2)) = a_sent (u_app (m_ui m))"
    using reconnect_button_form [of "m_ui m"] assms(4,5) unfolding m2(2) m1(2)
    by (simp_all add: same_form_def login_filled_def login_of_def)
  obtain m3 where m3: "app_step parse dump m2 m3" "k_state (m_net m3) = client_state.Connected"
      "a_sent (u_app (m_ui m3)) = a_sent (u_app (m_ui m2)) @ [login_of (m_ui m2)]"
      "Post (frame body) \<in> set (k_ops (m_net m3))"
    using connect_succeeds [where m = m2 and dump = dump, OF m2(3,4) ui(3,1) assms(6) [folded ui(2)] assms(7)]
    by blast
  have "app_linked m3" using step_linked m1(3) m2(1) m3(1) by blast
  then have "v_connection (u_state (m_ui m3)) = connection_status.Connected"
    using m3(2) by (simp add: app_linked_def linked_def)
  then show ?thesis using m1(1,2) m2(1) m3 ui by auto
qed

section \<open>Witnesses\<close>

lemma calm_handler:
  "u_calls (f (m_ui m)) = u_calls (m_ui m) \<Longrightarrow> a_sent (u_app (f (m_ui m))) = a_sent (u_app (m_ui m)) \<Longrightarrow>
     ui_handler dump f m = Ret (m\<lparr>m_ui := f (m_ui m)\<rparr>)"
  by (simp add: ui_handler_def new_calls_def new_messages_def Let_def)

lemma calm_connection:
  "st \<noteq> client_state.Connected \<Longrightarrow> connection_handler dump st m
     = Ret (m\<lparr>m_ui := on_connection_changed (is_connected (m_net m)) (status_of st) (m_ui m)\<rparr>)"
  unfolding connection_handler_def
  by (rule calm_handler) (simp_all add: on_connection_changed_def status_of_connected Let_def)

lemma start_returns: "\<exists>m. start_app dump st argv = Ret m \<and> k_state (m_net m) = client_state.Connecting
  \<and> k_ops (m_net m) = [Resolve] \<and> k_wire (m_net m) = []"
  by (simp add: start_app_def net_handler_def start_client_def begin_connect_def new_client_def
      add_op_def notify_def calm_connection Let_def)

text \<open>The name of the server cannot be resolved.\<close>

lemma resolve_fails:
  assumes "app_linked m" "k_state (m_net m) = client_state.Connecting" "k_ops (m_net m) = [Resolve]"
  shows "\<exists>m'. app_step parse dump m m' \<and> k_state (m_net m') = client_state.Failed
    \<and> k_wire (m_net m') = k_wire (m_net m)"
proof -
  have "\<not> k_closed (m_net m)" using assms(1,2) by (simp add: app_linked_def linked_def)
  then obtain m' where m': "complete_app parse dump Resolve OtherError [] m = Ret m'"
      "k_state (m_net m') = client_state.Failed" "k_wire (m_net m') = k_wire (m_net m)"
    by (simp add: complete_app_def net_handler_def run_handler_def resolved_def on_connect_result_def
        notify_def calm_connection Let_def)
  have "Resolve \<in> set (k_ops (m_net m))" using assms(3) by simp
  then show ?thesis using app_step.completion [OF _ m'(1)] m'(2,3) by blast
qed

lemma failed_app:
  "\<exists>m0 m. start_app dump st argv = Ret m0 \<and> (app_step parse dump)\<^sup>*\<^sup>* m0 m
    \<and> k_state (m_net m) = client_state.Failed \<and> k_wire (m_net m) = []"
proof -
  obtain m0 where m0: "start_app dump st argv = Ret m0" "k_state (m_net m0) = client_state.Connecting"
      "k_ops (m_net m0) = [Resolve]" "k_wire (m_net m0) = []"
    using start_returns by blast
  then show ?thesis using resolve_fails [OF start_linked [OF m0(1)] m0(2,3)] by (metis r_into_rtranclp)
qed

theorem connection_shown_witness:
  "\<exists>m0 m. start_app (\<lambda>_. Ret []) sample_start [''client'', ''nowhere''] = Ret m0
    \<and> (app_step (\<lambda>_. Inl []) (\<lambda>_. Ret []))\<^sup>*\<^sup>* m0 m \<and> k_state (m_net m) = client_state.Failed
    \<and> v_connection (u_state (m_ui m)) = connection_status.Failed \<and> v_screen (u_state (m_ui m)) = Login"
proof -
  obtain m0 m where m: "start_app (\<lambda>_. Ret []) sample_start [''client'', ''nowhere''] = Ret m0"
      "(app_step (\<lambda>_. Inl []) (\<lambda>_. Ret []))\<^sup>*\<^sup>* m0 m" "k_state (m_net m) = client_state.Failed"
    using failed_app by blast
  show ?thesis
    by (rule exI [of _ m0], rule exI [of _ m]) (use connection_shown [OF m(1,2)] m in simp)
qed

text \<open>After the failure the user presses the button of the login screen.\<close>

lemma press_enter:
  assumes "app_linked m" "k_state (m_net m) = client_state.Failed"
  shows "\<exists>m'. app_step parse dump m m' \<and> v_log (u_state (m_ui m')) \<noteq> []"
proof -
  have m: "in_sync (m_ui m)" "v_screen (u_state (m_ui m)) = Login" "\<not> is_connected (m_net m)"
    using assms by (simp_all add: app_linked_def linked_def is_connected_def)
  have "EnterBtn \<in> set (shown_buttons (m_ui m))" using m by (simp add: shown_buttons_eq room_buttons_def)
  then have "on_click False EnterBtn \<in> on_click False ` set (shown_buttons (m_ui m))" by (rule imageI)
  then have offer: "offered (is_connected (m_net m)) (m_ui m) (LoginButton False)" using m(3) by simp
  have "ui_handler dump (ui_step (LoginButton False)) m = Ret (m\<lparr>m_ui := ui_step (LoginButton False) (m_ui m)\<rparr>)"
    by (rule calm_handler) (simp_all add: submit_login_def)
  then have "app_step parse dump m (m\<lparr>m_ui := ui_step (LoginButton False) (m_ui m)\<rparr>)"
    using app_step.user [OF offer] by blast
  moreover have "0 < length (v_log (u_state (m_ui (m\<lparr>m_ui := ui_step (LoginButton False) (m_ui m)\<rparr>))))"
    by (simp add: submit_login_def append_log_def pop_old_lines_length kMaxLogLines_def del: length_greater_0_conv)
  ultimately show ?thesis by auto
qed

theorem failed_for_good_witness:
  "\<exists>m0 m m'. start_app (\<lambda>_. Ret []) sample_start [''client'', ''nowhere''] = Ret m0
    \<and> (app_step (\<lambda>_. Inl []) (\<lambda>_. Ret []))\<^sup>*\<^sup>* m0 m \<and> k_state (m_net m) = client_state.Failed
    \<and> app_step (\<lambda>_. Inl []) (\<lambda>_. Ret []) m m' \<and> v_log (u_state (m_ui m')) \<noteq> []
    \<and> k_state (m_net m') = client_state.Failed \<and> k_wire (m_net m') = []"
proof -
  obtain m0 m where m: "start_app (\<lambda>_. Ret []) sample_start [''client'', ''nowhere''] = Ret m0"
      "(app_step (\<lambda>_. Inl []) (\<lambda>_. Ret []))\<^sup>*\<^sup>* m0 m" "k_state (m_net m) = client_state.Failed"
      "k_wire (m_net m) = []"
    using failed_app by blast
  obtain m' where m': "app_step (\<lambda>_. Inl []) (\<lambda>_. Ret []) m m'" "v_log (u_state (m_ui m')) \<noteq> []"
    using press_enter [OF steps_linked [OF m(2) start_linked [OF m(1)]] m(3)] by blast
  have "(app_step (\<lambda>_. Inl []) (\<lambda>_. Ret []))\<^sup>*\<^sup>* m m'" using m'(1) by (rule r_into_rtranclp)
  note final = failed_for_good [OF m(1-3) this]
  show ?thesis
    by (rule exI [of _ m0], rule exI [of _ m], rule exI [of _ m']) (use final m m' in simp)
qed

text \<open>A session that is lost after a login: connected, the password is typed, the button pressed, a read fails.\<close>

lemma connect_calm:
  assumes "Connect g \<in> set (k_ops (m_net m))" "\<not> k_closed (m_net m)" "\<not> u_pending_auto_login (m_ui m)"
    and "k_write_queue (m_net m) = []"
  shows "\<exists>m' g. app_step parse dump m m' \<and> same_form (m_ui m) (m_ui m') \<and> ReadHeader g \<in> set (k_ops (m_net m'))
    \<and> k_state (m_net m') = client_state.Connected \<and> v_screen (u_state (m_ui m')) = v_screen (u_state (m_ui m))"
proof -
  let ?s = "report_connected ((m_net m)\<lparr>k_ops := remove1 (Connect g) (k_ops (m_net m))\<rparr>)"
  let ?u = "sync_control_visibility ((m_ui m)\<lparr>u_state :=
      set_connection (u_lang (m_ui m)) connection_status.Connected (u_state (m_ui m))\<rparr>)"
  have form: "same_form (m_ui m) ?u" by (rule same_form_trans [OF set_connection_form sync_form])
  have changed: "on_connection_changed True connection_status.Connected (m_ui m) = ?u"
    using assms(3) form by (simp add: on_connection_changed_def same_form_def Let_def)
  have "connection_handler dump client_state.Connected (m\<lparr>m_net := ?s\<rparr>) = Ret \<lparr>m_ui = ?u, m_net = ?s\<rparr>"
    using changed form calm_handler [of "on_connection_changed True connection_status.Connected" "m\<lparr>m_net := ?s\<rparr>" dump]
    by (simp add: connection_handler_def is_connected_def report_connected_def notify_def same_form_def)
  then have "complete_app parse dump (Connect g) Success [] m = Ret \<lparr>m_ui = ?u, m_net = begin_io ?s\<rparr>"
    using assms(2) by (simp add: complete_app_def connect_result_def net_handler_def report_connected_def notify_def)
  then have step: "app_step parse dump m \<lparr>m_ui = ?u, m_net = begin_io ?s\<rparr>"
    using assms(1) by (rule app_step.completion [rotated])
  have "ReadHeader (k_socket (m_net m)) \<in> set (k_ops (begin_io ?s))"
    using assms(2,4) by (simp add: begin_io_def do_read_header_def report_connected_def notify_def add_op_def)
  then show ?thesis using step form
    by (intro exI [of _ "\<lparr>m_ui = ?u, m_net = begin_io ?s\<rparr>"] exI [of _ "k_socket (m_net m)"])
      (simp add: report_connected_def notify_def set_connection_def Let_def)
qed

lemma type_password:
  assumes "app_linked m" "v_screen (u_state (m_ui m)) = Login"
  shows "app_step parse dump m (m\<lparr>m_ui := (m_ui m)\<lparr>u_password_input := p\<rparr>\<rparr>)"
proof -
  have "shown_fields (m_ui m) = fields_in (controls_of (u_state (m_ui m)) (u_show_create_panel (m_ui m))) root"
    using assms(1) by (simp add: shown_fields_def app_linked_def linked_def in_sync_def)
  then have offer: "offered (is_connected (m_net m)) (m_ui m) (Edit PasswordField p)"
    using assms(2) by (simp add: root_defs controls_of_def Let_def)
  have "ui_handler dump (ui_step (Edit PasswordField p)) m = Ret (m\<lparr>m_ui := ui_step (Edit PasswordField p) (m_ui m)\<rparr>)"
    by (rule calm_handler) simp_all
  then show ?thesis using app_step.user [OF offer] by simp
qed

lemma filled_login_view:
  assumes "login_filled u"
  shows "v_player_name (u_state (submit_login True u)) = trim_login (u_name_input u)"
    "login_filled (submit_login True u)"
  using assms by (simp_all add: submit_login_def login_filled_def append_log_def ui_call_def ui_app_def ui_log_def Let_def)

lemma press_login:
  assumes "app_linked m" "v_screen (u_state (m_ui m)) = Login" "k_state (m_net m) = client_state.Connected"
    and "login_filled (m_ui m)" "dump (to_json_client (login_of (m_ui m))) = Ret body" "length body \<le> unat MAX_PACKET_SIZE"
  shows "app_step parse dump m \<lparr>m_ui = submit_login True (m_ui m), m_net = add_op (Post (frame body)) (m_net m)\<rparr>"
proof -
  have sync: "in_sync (m_ui m)" and c: "is_connected (m_net m)"
    using assms(1,3) by (simp_all add: app_linked_def linked_def is_connected_def)
  have "EnterBtn \<in> set (shown_buttons (m_ui m))" using assms(2) sync by (simp add: shown_buttons_eq room_buttons_def)
  then have "on_click True EnterBtn \<in> on_click True ` set (shown_buttons (m_ui m))" by (rule imageI)
  then have offer: "offered (is_connected (m_net m)) (m_ui m) (LoginButton True)" using c by simp
  have new: "fold perform (new_calls (m_ui m) (submit_login True (m_ui m))) s = s"
    "new_messages (m_ui m) (submit_login True (m_ui m)) = [login_of (m_ui m)]" for s
    using filled_login [OF assms(4)] by (auto simp: only_saves_def new_calls_def new_messages_def perform_saves)
  have "send_message dump (login_of (m_ui m)) (m_net m) = Ret (add_op (Post (frame body)) (m_net m))"
    using assms(5,6) by (simp add: send_message_def encode_frame)
  then show ?thesis using app_step.user [OF offer, of dump] new by (simp add: ui_handler_def Let_def)
qed

lemma read_fails:
  assumes "ReadHeader g \<in> set (k_ops (m_net m))" "k_state (m_net m) = client_state.Connected" "\<not> k_closed (m_net m)"
  shows "\<exists>m'. app_step parse dump m m' \<and> k_state (m_net m') = client_state.Disconnected
    \<and> v_player_name (u_state (m_ui m')) = v_player_name (u_state (m_ui m))
    \<and> login_filled (m_ui m') = login_filled (m_ui m)"
proof -
  let ?u = "sync_control_visibility ((m_ui m)\<lparr>u_state :=
      set_connection (u_lang (m_ui m)) connection_status.Disconnected (u_state (m_ui m))\<rparr>)"
  obtain m' where m': "complete_app parse dump (ReadHeader g) OtherError [] m = Ret m'"
      "k_state (m_net m') = client_state.Disconnected" "m_ui m' = ?u"
    using assms(2,3)
    by (simp add: complete_app_def net_handler_def run_handler_def header_read_def close_connection_def notify_def
        calm_connection on_connection_changed_def Let_def)
  have "same_form (m_ui m) ?u" by (rule same_form_trans [OF set_connection_form sync_form])
  then have "login_filled ?u = login_filled (m_ui m)" using same_form_login by blast
  moreover have "v_player_name (u_state ?u) = v_player_name (u_state (m_ui m))"
    by (simp add: set_connection_def reset_play_session_def Let_def)
  moreover have "app_step parse dump m m'" using assms(1) m'(1) by (rule app_step.completion)
  ultimately show ?thesis using m'(2,3) by auto
qed

lemma started:
  fixes st argv
  defines "host \<equiv> parse_host argv (cs_host st)" and "port \<equiv> parse_port argv (cs_port st)"
  assumes "cs_player_name st \<noteq> []"
  shows "\<exists>m. start_app dump st argv = Ret m \<and> k_ops (m_net m) = [Resolve] \<and> k_write_queue (m_net m) = []
    \<and> \<not> k_closed (m_net m) \<and> \<not> u_pending_auto_login (m_ui m) \<and> v_screen (u_state (m_ui m)) = Login
    \<and> u_name_input (m_ui m) = cs_player_name st
    \<and> u_host_input (m_ui m) = v_server_host (u_state (m_ui m))
    \<and> u_port_input (m_ui m) = v_server_port (u_state (m_ui m))"
proof -
  let ?u = "initialize_session st host port new_ui"
  let ?u' = "sync_control_visibility (?u\<lparr>u_state := set_connection (u_lang ?u) connection_status.Connecting (u_state ?u)\<rparr>)"
  have form: "same_form ?u ?u'" by (rule same_form_trans [OF set_connection_form sync_form])
  let ?v = "(new_ui\<lparr>u_state := set_connection English connection_status.Connecting
      (new_view\<lparr>v_server_host := host, v_server_port := port\<rparr>), u_host_input := host, u_port_input := port,
      u_name_input := cs_player_name st, u_lang := parse_language (cs_language st)\<rparr>)"
  have "?u = sync_control_visibility ?v" using assms(3) by (simp add: initialize_session_def new_ui_def Let_def)
  then have form0: "same_form ?v ?u" using sync_form by simp
  have run: "start_app dump st argv = Ret \<lparr>m_ui = ?u', m_net = start_client (new_client host port)\<rparr>"
    by (simp add: start_app_def net_handler_def start_client_def begin_connect_def new_client_def add_op_def
        notify_def calm_connection on_connection_changed_def host_def port_def Let_def)
  have screen: "v_screen (u_state ?u) = Login" using \<open>?u = _\<close> by (simp add: new_view_def)
  show ?thesis
    by (intro exI conjI, rule run)
      (use form form0 screen in \<open>simp_all add: same_form_def start_client_def begin_connect_def new_client_def
        add_op_def notify_def new_ui_def set_connection_def Let_def\<close>)
qed

lemma lost_app:
  assumes "cs_player_name st \<noteq> []" "\<not> list_all is_login_space (cs_player_name st)"
    "is_valid_username (trim_login (cs_player_name st))" "p \<noteq> []" "is_valid_password p"
    and dumped: "\<And>j. dump j = Ret body" "length body \<le> unat MAX_PACKET_SIZE"
  shows "\<exists>m0 m. start_app dump st argv = Ret m0 \<and> (app_step parse dump)\<^sup>*\<^sup>* m0 m
    \<and> k_state (m_net m) = client_state.Disconnected
    \<and> v_player_name (u_state (m_ui m)) = trim_login (cs_player_name st) \<and> login_filled (m_ui m)"
proof -
  let ?step = "app_step parse dump"
  obtain m0 where m0: "start_app dump st argv = Ret m0" "k_ops (m_net m0) = [Resolve]" "k_write_queue (m_net m0) = []"
      "\<not> k_closed (m_net m0)" "\<not> u_pending_auto_login (m_ui m0)" "v_screen (u_state (m_ui m0)) = Login"
      "u_name_input (m_ui m0) = cs_player_name st" "u_host_input (m_ui m0) = v_server_host (u_state (m_ui m0))"
      "u_port_input (m_ui m0) = v_server_port (u_state (m_ui m0))"
    using started [OF assms(1), of dump argv] by blast
  obtain m1 g where m1: "?step m0 m1" "m_ui m1 = m_ui m0" "Connect g \<in> set (k_ops (m_net m1))"
      "\<not> k_closed (m_net m1)" "k_write_queue (m_net m1) = []"
    using resolve_succeeds [of m0 parse dump] m0(2-4) by fastforce
  obtain m2 g' where m2: "?step m1 m2" "same_form (m_ui m0) (m_ui m2)" "ReadHeader g' \<in> set (k_ops (m_net m2))"
      "k_state (m_net m2) = client_state.Connected" "v_screen (u_state (m_ui m2)) = Login"
    using connect_calm [OF m1(3,4) _ m1(5), of parse dump] m0(5,6) unfolding m1(2) by auto
  let ?m3 = "m2\<lparr>m_ui := (m_ui m2)\<lparr>u_password_input := p\<rparr>\<rparr>"
  have linked2: "app_linked m2" using start_linked [OF m0(1)] m1(1) m2(1) step_linked by blast
  have m3: "?step m2 ?m3" by (rule type_password [OF linked2 m2(5)])
  have linked3: "app_linked ?m3" using step_linked [OF m3 linked2] .
  have filled: "login_filled (m_ui ?m3)" "u_name_input (m_ui ?m3) = cs_player_name st"
    using assms(2-5) m0(7-9) m2(2) by (simp_all add: login_filled_def same_form_def)
  let ?m4 = "\<lparr>m_ui = submit_login True (m_ui ?m3), m_net = add_op (Post (frame body)) (m_net ?m3)\<rparr>"
  have m4: "?step ?m3 ?m4"
    by (rule press_login [OF linked3 _ _ filled(1) dumped]) (use m2(4,5) in simp_all)
  have linked4: "app_linked ?m4" using step_linked [OF m4 linked3] .
  have net4: "ReadHeader g' \<in> set (k_ops (m_net ?m4))" "k_state (m_net ?m4) = client_state.Connected"
    using m2(3,4) by (simp_all add: add_op_def)
  then have "\<not> k_closed (m_net ?m4)" using linked4 by (simp add: app_linked_def linked_def)
  from read_fails [OF net4 this] obtain m5 where m5: "?step ?m4 m5" "k_state (m_net m5) = client_state.Disconnected"
      "v_player_name (u_state (m_ui m5)) = v_player_name (u_state (m_ui ?m4))"
      "login_filled (m_ui m5) = login_filled (m_ui ?m4)"
    by blast
  have "?step\<^sup>*\<^sup>* m0 m5"
    using m1(1) m2(1) m3 m4 m5(1) by (meson converse_rtranclp_into_rtranclp rtranclp.rtrancl_refl)
  then show ?thesis using m0(1) m5 filled_login_view [OF filled(1)] filled(2) by auto
qed

theorem reconnect_logs_in_witness:
  "\<exists>m0 m m1 m2 m3. start_app (\<lambda>_. Ret ''{}'') sample_start [] = Ret m0
    \<and> (app_step (\<lambda>_. Inl []) (\<lambda>_. Ret ''{}''))\<^sup>*\<^sup>* m0 m \<and> k_state (m_net m) = client_state.Disconnected
    \<and> app_step (\<lambda>_. Inl []) (\<lambda>_. Ret ''{}'') m m1 \<and> app_step (\<lambda>_. Inl []) (\<lambda>_. Ret ''{}'') m1 m2
    \<and> app_step (\<lambda>_. Inl []) (\<lambda>_. Ret ''{}'') m2 m3
    \<and> a_sent (u_app (m_ui m3)) = a_sent (u_app (m_ui m)) @ [login_of (m_ui m)]
    \<and> Post (frame ''{}'') \<in> set (k_ops (m_net m3))"
proof -
  have valid: "is_valid_username (trim_login ''alice'')" "is_valid_password ''a1b2''" by code_simp+
  have st: "cs_player_name sample_start \<noteq> []" "\<not> list_all is_login_space (cs_player_name sample_start)"
    "is_valid_username (trim_login (cs_player_name sample_start))" "trim_login (cs_player_name sample_start) \<noteq> []"
    using valid(1) by (simp_all add: sample_start_def is_login_space_def trim_login_def)
  have len: "length ''{}'' \<le> unat MAX_PACKET_SIZE" by (simp add: unat_max_packet)
  obtain m0 m where m: "start_app (\<lambda>_. Ret ''{}'') sample_start [] = Ret m0"
      "(app_step (\<lambda>_. Inl []) (\<lambda>_. Ret ''{}''))\<^sup>*\<^sup>* m0 m" "k_state (m_net m) = client_state.Disconnected"
      "v_player_name (u_state (m_ui m)) \<noteq> []" "login_filled (m_ui m)"
    using lost_app [OF st(1-3) _ valid(2) _ len, of "\<lambda>_. Ret ''{}''" "[]"] st(4) by (metis list.distinct(1))
  show ?thesis using reconnect_logs_in [OF m(1-5) refl len] m(1-3) by blast
qed

end
