(* ===== verification/GameLiveness.thy ===== *)
theory GameLiveness
  imports GameChips
begin

text \<open>
  A hand ends. Every action that the rules accept brings the hand closer to its end: a raise and a
  call take chips from a stack that nothing refills during a hand, the end of a betting round
  leaves fewer streets, and every other action leaves fewer seats that still have to act. The number
  \<open>patience\<close> bounds the actions that are left; the number of the hand is the number of shuffles.
\<close>

section \<open>Seats that still have to act\<close>

text \<open>The players that \<open>is_round_complete\<close> waits for.\<close>

definition to_act :: "game \<Rightarrow> pid \<Rightarrow> bool" where
  "to_act g p \<longleftrightarrow> can_player_act g p \<and> (bet_of g p < g_current_bet g \<or> p \<notin> g_acted g)"

lemma to_act_advance [simp]: "to_act (advance_to_next_player g) p = to_act g p"
  by (simp add: to_act_def advance_to_next_player_def can_player_act_def)

lemma round_complete_to_act:
  "round_complete g \<longleftrightarrow> count_active_players g \<le> 1 \<or> (\<forall>p \<in> set (g_players g). \<not> to_act g p)"
  by (auto simp: round_complete_def to_act_def can_player_act_def not_less)

text \<open>The distance from the current seat, plus one, of the last seat that still has to act.\<close>

definition seats_to_come :: "game \<Rightarrow> nat" where
  "seats_to_come g = length (dropWhile (\<lambda>k. \<not> to_act g (seat_at g (g_current g + k)))
     (rev [0..<length (g_players g)]))"

lemma length_dropWhile_rev_upt:
  "length (dropWhile P (rev [0..<n])) \<le> m \<longleftrightarrow> (\<forall>k. m \<le> k \<and> k < n \<longrightarrow> P k)"
proof (induction n)
  case (Suc n)
  show ?case
  proof (cases "P n")
    case True
    then show ?thesis using Suc by (auto simp: less_Suc_eq)
  next
    case False
    have "Suc n \<le> m \<longleftrightarrow> (\<forall>k. m \<le> k \<and> k < Suc n \<longrightarrow> P k)"
      using False by (meson le_less_trans lessI not_le not_less_eq_eq)
    then show ?thesis using False by simp
  qed
qed simp

lemma seats_to_come_le:
  "seats_to_come g \<le> m \<longleftrightarrow>
     (\<forall>k. m \<le> k \<and> k < length (g_players g) \<longrightarrow> \<not> to_act g (seat_at g (g_current g + k)))"
  unfolding seats_to_come_def by (rule length_dropWhile_rev_upt)

lemma seats_to_come_max: "seats_to_come g \<le> length (g_players g)"
  unfolding seats_to_come_le by auto

lemma seats_to_come_pos:
  assumes "g_current g < length (g_players g)" "q \<in> set (g_players g)" "to_act g q"
  shows "0 < seats_to_come g"
proof (rule ccontr)
  let ?n = "length (g_players g)"
  assume "\<not> 0 < seats_to_come g"
  then have none: "\<not> to_act g (seat_at g (g_current g + k))" if "k < ?n" for k
    using seats_to_come_le [of g 0] that by simp
  obtain d where d: "seat_at g (g_current g + d) = q" using seat_at_ex [OF assms(2)] by metis
  then have "seat_at g (g_current g + d mod ?n) = q" by (simp add: seat_at_def mod_simps)
  moreover have "d mod ?n < ?n" using assms(1) by (intro mod_less_divisor) linarith
  ultimately show False using none assms(3) by metis
qed

text \<open>One seat has acted, the others are as they were, and the turn has passed on.\<close>

lemma seats_to_come_decreases:
  assumes cur: "g_current g < length (g_players g)" and dist: "distinct (g_players g)"
    and same: "g_players h = g_players g" "g_current h = g_current g"
    and acted: "\<not> to_act h (g_players g ! g_current g)"
    and others: "\<And>q. q \<in> set (g_players g) \<Longrightarrow> q \<noteq> g_players g ! g_current g \<Longrightarrow>
      \<not> to_act g q \<Longrightarrow> \<not> to_act h q"
    and left: "q \<in> set (g_players g)" "to_act h q"
  shows "seats_to_come (advance_to_next_player h) < seats_to_come g"
proof -
  let ?n = "length (g_players g)" and ?p = "g_players g ! g_current g" and ?c = "g_current g"
  let ?h = "advance_to_next_player h"
  note to_act_adv = to_act_advance [of h]
  have seat_h: "seat_at h i = seat_at g i" "seat_at ?h i = seat_at g i" for i
    by (simp_all add: seat_at_def same)
  have "g_current h < length (g_players h)" using cur same by simp
  from find_next_spec [OF this, unfolded same]
  obtain e where e: "1 \<le> e" "e \<le> ?n" "find_next_active_player h = (?c + e) mod ?n"
    "\<forall>j. 1 \<le> j \<and> j < e \<longrightarrow> \<not> acts h (?c + j)" by blast
  have at: "seat_at ?h (g_current ?h + k) = seat_at g (?c + e + k)" for k
    by (simp add: seat_h e(3)) (simp add: seat_at_def mod_simps)
  let ?d = "seats_to_come g"
  have "seats_to_come ?h \<le> ?d - e"
  proof (unfold seats_to_come_le, intro allI impI)
    fix k assume k: "?d - e \<le> k \<and> k < length (g_players ?h)"
    then have kn: "k < ?n" by (simp add: same)
    let ?i = "(e + k) mod ?n"
    have seat: "seat_at ?h (g_current ?h + k) = seat_at g (?c + ?i)"
      unfolding at by (simp add: seat_at_def mod_simps ac_simps)
    have i: "?i < ?n" using cur by (intro mod_less_divisor) linarith
    show "\<not> to_act ?h (seat_at ?h (g_current ?h + k))"
    proof (cases "e + k < ?n")
      case True
      then have ik: "?i = e + k" by simp
      have "?d \<le> ?i" using k ik by linarith
      then have "\<not> to_act g (seat_at g (?c + ?i))" using i seats_to_come_le [of g ?d] by blast
      moreover have "seat_at g (?c + ?i) \<in> set (g_players g)"
        unfolding seat_at_def using cur by (intro nth_mem mod_less_divisor) linarith
      ultimately have "\<not> to_act h (seat_at g (?c + ?i))"
        using others [of "seat_at g (?c + ?i)"] acted by (cases "seat_at g (?c + ?i) = ?p") simp_all
      then show ?thesis unfolding seat to_act_adv .
    next
      case False
      then have "?i = e + k - ?n" using kn e(2) by (simp add: le_mod_geq)
      then have ie: "?i < e" using False kn by linarith
      show ?thesis
      proof (cases "?i = 0")
        case True
        then have "seat_at g (?c + ?i) = ?p" using cur by (simp add: seat_at_def)
        then show ?thesis unfolding seat to_act_adv using acted by simp
      next
        case False
        then have "\<not> acts h (?c + ?i)" using e(4) ie by simp
        then show ?thesis unfolding seat to_act_adv by (simp add: acts_def seat_h to_act_def)
      qed
    qed
  qed
  moreover have "0 < seats_to_come ?h"
    by (rule seats_to_come_pos [of _ q]) (use left to_act_adv same index_bounds(5) [of h] in \<open>auto dest: length_pos_if_in_set\<close>)
  ultimately show ?thesis using e(1) by linarith
qed

section \<open>The number of the hand\<close>

lemma count_steps [simp]:
  "g_shuffle_count (send_message p m g) = g_shuffle_count g"
  "g_shuffle_count (send_all msg g) = g_shuffle_count g"
  "g_shuffle_count (send_error p code g) = g_shuffle_count g"
  "g_shuffle_count (advance_to_next_player g) = g_shuffle_count g"
  "g_shuffle_count (reset_bets g) = g_shuffle_count g"
  "g_shuffle_count (with_board cs d ph g) = g_shuffle_count g"
  "g_shuffle_count (fold_leaver p g) = g_shuffle_count g"
  "g_shuffle_count (persist_player_chips p g) = g_shuffle_count g"
  "g_shuffle_count (contribute p chips g) = g_shuffle_count g"
  "g_shuffle_count (note_action p a amt g) = g_shuffle_count g"
  by (simp_all add: send_message_def send_all_eq send_error_def advance_to_next_player_def reset_bets_def
      with_board_def begin_betting_round_def fold_leaver_def persist_player_chips_def contribute_def
      mark_all_in_if_needed_def note_action_def broadcast_action_event_def record_player_action_def
      Let_def split: option.split)

lemma count_persist_all [simp]: "g_shuffle_count (persist_all_chips g) = g_shuffle_count g"
  using money_step_persist_all [of g] by (simp add: money_step_def)

lemma count_leave [simp]: "g_shuffle_count (give_up_seat p c i g) = g_shuffle_count g"
  by (simp add: give_up_seat_def erase_player_state_def fix_indices_after_removal_def Let_def)

lemma count_new_hand: "dealt g h \<Longrightarrow> g_shuffle_count (open_betting h) = Suc (g_shuffle_count g)"
  by (auto simp: dealt_def reset_table_def open_betting_def post_blinds_def begin_betting_round_def Let_def)

lemma count_play: "play_action p a amt g = Inr g' \<Longrightarrow> g_shuffle_count g' = g_shuffle_count g"
  by (auto simp: play_action_def Let_def split: action.splits if_splits option.splits)

interpretation hand_count: table_invariant "\<lambda>g. c \<le> g_shuffle_count g" for c
proof (unfold_locales, goal_cases)
  case (8 g g')
  then show ?case using award_all_pots_wf [OF 8(1)] by (metis money_step_def result.inject(1))
next
  case (9 g h)
  then show ?case using count_new_hand [OF 9(4)] by (simp add: advance_dealer_def)
next
  case (10 g a amt g')
  then show ?case using count_play [OF 10(4)] by simp
qed simp_all

lemma new_hand_counts:
  assumes "table_wf g" "g_players g \<noteq> []" "start_new_hand n g = Ret g'"
  shows "g_shuffle_count g < g_shuffle_count g'"
proof (cases n)
  case (Suc k)
  have "seated (advance_dealer g)" using assms(1,2) by (intro seated_advance_dealer) (simp_all add: table_wf_def)
  then have "keeps (\<lambda>g'. Suc (g_shuffle_count g) \<le> g_shuffle_count g') (start k (advance_dealer g))"
    using assms(2) count_new_hand [of "advance_dealer g"]
    by (intro hand_count.hand_keeps(1)) (simp_all add: advance_dealer_def)
  then show ?thesis using assms(3) Suc by (simp add: Suc_le_eq)
qed (use assms(3) in simp)

lemma try_counts:
  assumes "table_wf g" "try_start_new_hand n g = Ret g'"
  shows "g' = g \<or> g_shuffle_count g < g_shuffle_count g'"
proof (cases n)
  case (Suc k)
  then have "g' = g \<or> has_enough_players g \<and> start_new_hand k g = Ret g'"
    using assms(2) by (auto split: if_splits)
  moreover have "g_players g \<noteq> []" if "has_enough_players g"
    using that by (auto simp: has_enough_players_def)
  ultimately show ?thesis using new_hand_counts [OF assms(1)] by blast
qed (use assms(2) in simp)

section \<open>Who was asked last\<close>

text \<open>The last message is not a request to act.\<close>

definition quiet :: "game \<Rightarrow> bool" where
  "quiet g \<longleftrightarrow> (\<forall>q turn. g_outbox g = [] \<or> last (g_outbox g) \<noteq> (q, SYourTurn turn))"

lemma waits_not_quiet: "waits g \<Longrightarrow> \<not> quiet g"
  by (auto simp: waits_def quiet_def send_message_def)

lemma quiet_append:
  assumes "quiet g" "g_outbox h = g_outbox g @ ob" "\<And>q turn. (q, SYourTurn turn) \<notin> set ob"
  shows "quiet h"
  using assms by (cases "ob = []") (auto simp: quiet_def dest: last_in_set)

lemma quiet_send_all:
  "quiet g \<Longrightarrow> (\<And>q turn. msg q \<noteq> SYourTurn turn) \<Longrightarrow> quiet (send_all msg g)"
  by (rule quiet_append [of g _ "map (\<lambda>p. (p, msg p)) (g_players g)"]) (auto simp: send_all_eq dest: sym)

lemma quiet_simps [simp]:
  "quiet (advance_to_next_player g) = quiet g" "quiet (reset_bets g) = quiet g"
  "quiet (with_board cs d ph g) = quiet g" "quiet (g\<lparr>g_phase := ph\<rparr>) = quiet g"
  by (simp_all add: quiet_def advance_to_next_player_def reset_bets_def with_board_def
      begin_betting_round_def Let_def)

lemma quiet_award: "table_wf g \<Longrightarrow> quiet g \<Longrightarrow> award_all_pots g = Ret g' \<Longrightarrow> quiet g'"
proof (cases "g_pot g = 0")
  case False
  assume "table_wf g" "quiet g" "award_all_pots g = Ret g'"
  with award_all_pots_eq [OF _ False] obtain ob where
    "g_outbox g' = g_outbox g @ ob"
    "\<forall>(q, m) \<in> set ob. (\<exists>h. m = SGameStateUpdate (state_update h q)) \<or> (\<exists>r. m = SHandResult r)"
    by fastforce
  then show ?thesis using \<open>quiet g\<close> by (elim quiet_append) auto
qed (simp add: award_all_pots_def)

section \<open>What a call leads to\<close>

text \<open>The hand is over: a new one was dealt, or nobody was asked.\<close>

definition hand_over :: "game \<Rightarrow> game \<Rightarrow> bool" where
  "hand_over g g' \<longleftrightarrow> g_shuffle_count g < g_shuffle_count g' \<or> g_shuffle_count g' = g_shuffle_count g \<and> quiet g'"

lemma try_over:
  assumes "table_wf g" "quiet g" "g_shuffle_count g0 = g_shuffle_count g" "try_start_new_hand n g = Ret g'"
  shows "hand_over g0 g'"
  using try_counts [OF assms(1,4)] assms(2,3) by (auto simp: hand_over_def)

lemma award_try_over:
  assumes wf: "table_wf g" and q: "quiet g" and eq: "bind_r (award_all_pots g) (try_start_new_hand n) = Ret g'"
  shows "hand_over g g'"
proof -
  obtain h where h: "award_all_pots g = Ret h" "money_step g h" using award_all_pots_wf [OF wf] by metis
  have "table_wf h" using wf h(2) by (rule wf_money_step)
  moreover have "quiet h" using wf q h(1) by (rule quiet_award)
  ultimately show ?thesis using try_over [of h g n g'] eq h by (simp add: money_step_def)
qed

lemma single_over:
  "table_wf g \<Longrightarrow> quiet g \<Longrightarrow> handle_single_winner n g = Ret g' \<Longrightarrow> hand_over g g'"
  by (cases n) (simp_all add: award_try_over)

lemma showdown_over:
  assumes wf: "table_wf g" and q: "quiet g" and ph: "g_phase g = River" and eq: "do_showdown n g = Ret g'"
  shows "hand_over g g'"
proof (cases n)
  case (Suc k)
  let ?g = "sent_states (g\<lparr>g_phase := Showdown\<rparr>)"
  have wf': "table_wf ?g" using sent_states_wf(1) [OF showdown_wf(1) [OF wf ph]] .
  have q': "quiet ?g" using q by (intro quiet_send_all) simp_all
  from wf ph have "hand_over ?g g'"
  proof (cases rule: showdown_call [where n = k])
    case none
    then show ?thesis using try_over [OF wf' q' refl] eq Suc by simp
  next
    case one
    then show ?thesis using single_over [OF wf' q'] eq Suc by simp
  next
    case (paid h)
    then have "bind_r (award_all_pots ?g) (try_start_new_hand k) = Ret g'" using eq Suc by simp
    then show ?thesis by (rule award_try_over [OF wf' q'])
  qed
  then show ?thesis by (simp add: hand_over_def)
qed (use eq in simp)

text \<open>How many streets are still to come.\<close>

fun streets_left :: "game_phase \<Rightarrow> nat" where
  "streets_left PreFlop = 3"
| "streets_left Flop = 2"
| "streets_left Turn = 1"
| "streets_left River = 0"
| "streets_left Showdown = 0"

text \<open>The same hand goes on with the same stacks, in the same phase or a later one, and a player is asked.\<close>

definition asks_from :: "nat \<Rightarrow> game \<Rightarrow> game \<Rightarrow> bool" where
  "asks_from k g g' \<longleftrightarrow> waits g' \<and> g_shuffle_count g' = g_shuffle_count g \<and> g_players g' = g_players g
     \<and> g_chips g' = g_chips g \<and> streets_left (g_phase g') + k \<le> streets_left (g_phase g)"

lemma ask_asks:
  assumes "can_player_act g (g_players g ! g_current g)" "ask_current_player n g = Ret g'"
  shows "asks_from 0 g g'"
  using assms
  by (cases n) (auto simp: asks_from_def waits_def send_message_def Let_def)

lemma street_down: "street ph = Some (k, ph') \<Longrightarrow> streets_left ph = Suc (streets_left ph')"
  by (cases ph) auto

lemma hand_over_cong: "g_shuffle_count g = g_shuffle_count h \<Longrightarrow> hand_over g g' = hand_over h g'"
  by (simp add: hand_over_def)

lemma asks_from_adv [simp]: "asks_from k (advance_to_next_player g) g' = asks_from k g g'"
  by (simp add: asks_from_def advance_to_next_player_def)

lemma asks_from_mono: "asks_from k g g' \<Longrightarrow> j \<le> k \<Longrightarrow> asks_from j g g'"
  by (simp add: asks_from_def)

text \<open>A street that was dealt is a step towards the end.\<close>

lemma street_asks:
  assumes "table_wf g" "g_players g \<noteq> []" "quiet g" "street (g_phase g) = Some (k, phase)"
    and "deal_street k phase (reset_bets g) = Ret h"
  shows "quiet h" "asks_from 0 h g' \<Longrightarrow> asks_from 1 g g'" "hand_over h g' = hand_over g g'"
proof -
  obtain cs d where "deal_street k phase (reset_bets g) = Ret (sent_states (with_board cs d phase (reset_bets g)))"
    by (rule deal_street_eq [OF reset_bets_wf(1) [OF assms(1)], of k phase]) (use assms(2,4) in \<open>simp_all add: reset_bets_def\<close>)
  then have h: "h = sent_states (with_board cs d phase (reset_bets g))" using assms(5) by simp
  show "quiet h" unfolding h using assms(3) by (intro quiet_send_all) simp_all
  have f: "g_players h = g_players g" "g_chips h = g_chips g" "g_phase h = phase" "g_shuffle_count h = g_shuffle_count g"
    by (simp_all add: h send_all_eq with_board_def begin_betting_round_def reset_bets_def Let_def)
  then show "asks_from 0 h g' \<Longrightarrow> asks_from 1 g g'" using street_down [OF assms(4)] by (simp add: asks_from_def)
  show "hand_over h g' = hand_over g g'" using f(4) by (rule hand_over_cong)
qed

lemma ask_leads:
  assumes wf: "table_wf g" and ne: "g_players g \<noteq> []" and q: "quiet g" and eq: "ask_current_player n g = Ret g'"
    and phase: "\<And>m. m < n \<Longrightarrow> next_phase m (advance_to_next_player g) = Ret g'
      \<Longrightarrow> asks_from 1 (advance_to_next_player g) g' \<or> hand_over (advance_to_next_player g) g'"
  shows "asks_from 0 g g' \<or> hand_over g g'"
proof (cases "can_player_act g (g_players g ! g_current g)")
  case True
  then show ?thesis using ask_asks [OF _ eq] by blast
next
  case False
  let ?a = "advance_to_next_player g"
  obtain m where m: "n = Suc m" using eq by (cases n) auto
  have eq2: "(if round_complete ?a then next_phase m ?a else ask_current_player m ?a) = Ret g'"
    using eq False is_round_complete_wf [OF advance_wf(1) [OF wf ne]] by (simp add: m Let_def)
  have over: "hand_over ?a g' = hand_over g g'" by (rule hand_over_cong) simp
  show ?thesis
  proof (cases "round_complete ?a")
    case True
    then show ?thesis using phase [of m] eq2 m over asks_from_mono [of 1 g g' 0] by auto
  next
    case False
    then obtain p where "p \<in> set (g_players g)" "can_player_act g p" using not_complete_acts by fastforce
    moreover have "g_current g < length (g_players g)" using wf ne by (simp add: table_wf_def)
    ultimately have "can_player_act ?a (g_players ?a ! g_current ?a)" using find_next_can_act by simp
    then show ?thesis using ask_asks [of ?a m g'] eq2 False by simp
  qed
qed

lemma next_phase_leads:
  assumes "table_wf g" "g_players g \<noteq> []" "quiet g" "next_phase n g = Ret g'"
  shows "asks_from 1 g g' \<or> hand_over g g'"
  using assms
proof (induction n arbitrary: g rule: less_induct)
  case (less n)
  obtain m where n: "n = Suc m" using less.prems(4) by (cases n) auto
  from less.prems(1,2) show ?case
  proof (cases rule: next_phase_call [where n = m])
    case single
    then show ?thesis using single_over [OF less.prems(1,3)] less.prems(4) n by simp
  next
    case over
    then show ?thesis using less.prems(3,4) n by (auto simp: hand_over_def quiet_def reset_bets_def)
  next
    case river
    have "do_showdown m (reset_bets g) = Ret g'" using river(2) less.prems(4) n by simp
    moreover have "g_phase (reset_bets g) = River" using river(1) by (simp add: reset_bets_def)
    ultimately have "hand_over (reset_bets g) g'"
      using showdown_over [OF reset_bets_wf(1) [OF less.prems(1)]] less.prems(3) by simp
    then show ?thesis using hand_over_cong [of g "reset_bets g" g'] by simp
  next
    case (street k phase h)
    note st = street_asks [OF less.prems(1-3) street(1,2)]
    have ne: "g_players h \<noteq> []" using same_players [OF street(4)] less.prems(2) by simp
    have ask: "ask_current_player m h = Ret g'" using street(6) less.prems(4) n by simp
    have "asks_from 0 h g' \<or> hand_over h g'"
    proof (rule ask_leads [OF street(3) ne st(1) ask])
      fix m' assume "m' < m" "next_phase m' (advance_to_next_player h) = Ret g'"
      then show "asks_from 1 (advance_to_next_player h) g' \<or> hand_over (advance_to_next_player h) g'"
        using less.IH [of m' "advance_to_next_player h"] n advance_wf(1) [OF street(3) ne] ne st(1) by simp
    qed
    then show ?thesis using st(2,3) by blast
  qed
qed

section \<open>Every action makes progress\<close>

definition patience :: "game \<Rightarrow> nat" where
  "patience g = (4 * nsum (chips_of g) (g_players g) + streets_left (g_phase g)) * (length (g_players g) + 1)
     + seats_to_come g"

lemma patience_less:
  assumes "g_players h = g_players g"
    and "4 * nsum (chips_of h) (g_players g) + streets_left (g_phase h)
      < 4 * nsum (chips_of g) (g_players g) + streets_left (g_phase g)"
  shows "patience h < patience g"
proof -
  let ?a = "4 * nsum (chips_of h) (g_players g) + streets_left (g_phase h)"
  let ?b = "4 * nsum (chips_of g) (g_players g) + streets_left (g_phase g)"
  have "(?a + 1) * (length (g_players g) + 1) \<le> ?b * (length (g_players g) + 1)"
    using assms(2) by (intro mult_right_mono) simp_all
  then show ?thesis using seats_to_come_max [of h] assms(1) by (simp add: patience_def)
qed

lemma patience_bound:
  "patience g \<le> (4 * nsum (chips_of g) (g_players g) + 3) * (length (g_players g) + 1) + length (g_players g)"
proof -
  have "streets_left (g_phase g) \<le> 3" by (cases "g_phase g") simp_all
  then have "(4 * nsum (chips_of g) (g_players g) + streets_left (g_phase g)) * (length (g_players g) + 1)
      \<le> (4 * nsum (chips_of g) (g_players g) + 3) * (length (g_players g) + 1)"
    by (intro mult_right_mono) simp_all
  then show ?thesis using seats_to_come_max [of g] by (simp add: patience_def)
qed

lemma contribute_stacks:
  assumes "distinct (g_players g)" "p \<in> set (g_players g)"
  shows "nsum (chips_of (contribute p x g)) (g_players g) + unat (min x (chips_of g p))
    = nsum (chips_of g) (g_players g)"
proof -
  have "nsum (chips_of (contribute p x g)) (g_players g) + unat (chips_of g p)
      = nsum (chips_of g) (g_players g) + unat (chips_of (contribute p x g) p)"
    using assms by (rule nsum_update) (simp add: contribute_fields)
  moreover have "unat (chips_of (contribute p x g) p) = unat (chips_of g p) - unat (min x (chips_of g p))"
    by (simp add: contribute_fields unat_minus_le)
  moreover have "unat (min x (chips_of g p)) \<le> unat (chips_of g p)" by (simp add: unat_min)
  ultimately show ?thesis by linarith
qed

lemma play_stacks:
  assumes "play_action p a amt g = Inr g'" "distinct (g_players g)" "p \<in> set (g_players g)"
  shows "nsum (chips_of g') (g_players g) \<le> nsum (chips_of g) (g_players g)"
    "a = Raise \<Longrightarrow> nsum (chips_of g') (g_players g) < nsum (chips_of g) (g_players g)"
proof -
  have c: "nsum (chips_of (contribute p x g)) (g_players g) \<le> nsum (chips_of g) (g_players g)" for x
    using contribute_stacks [OF assms(2,3), of x] by linarith
  show "nsum (chips_of g') (g_players g) \<le> nsum (chips_of g) (g_players g)"
    using assms(1) c by (auto simp: play_action_def Let_def split: action.splits if_splits option.splits)
  assume "a = Raise"
  then obtain v where v: "\<not> v \<le> bet_of g p" "\<not> v - bet_of g p > chips_of g p"
      "g_chips g' = g_chips (contribute p (v - bet_of g p) g)"
    using assms(1) by (auto simp: play_action_def Let_def split: if_splits option.splits)
  then have "0 < unat (min (v - bet_of g p) (chips_of g p))"
    by (auto simp: unat_gt_0 min_def word_gt_0)
  then show "nsum (chips_of g') (g_players g) < nsum (chips_of g) (g_players g)"
    using contribute_stacks [OF assms(2,3), of "v - bet_of g p"] v(3) by simp
qed

lemma play_phase: "play_action p a amt g = Inr g' \<Longrightarrow> g_phase g' = g_phase g \<and> g_current g' = g_current g"
  by (auto simp: play_action_def contribute_def mark_all_in_if_needed_def Let_def
      split: action.splits if_splits option.splits)

lemma contribute_acted [simp]: "g_acted (contribute p x g) = g_acted g"
  by (simp add: contribute_def mark_all_in_if_needed_def Let_def)

lemma note_fields:
  "g_phase (note_action p a amt g) = g_phase g" "g_current (note_action p a amt g) = g_current g"
  "g_folded (note_action p a amt g) = g_folded g" "g_all_in (note_action p a amt g) = g_all_in g"
  "g_round_bets (note_action p a amt g) = g_round_bets g"
  "g_current_bet (note_action p a amt g) = g_current_bet g"
  "g_acted (note_action p a amt g) = insert p (if a = Raise then {} else g_acted g)"
  by (simp_all add: note_action_def broadcast_action_event_def record_player_action_def send_all_eq Let_def)

lemma quiet_note: "g_players g \<noteq> [] \<Longrightarrow> quiet (note_action p a amt g)"
  by (auto simp: quiet_def note_action_def broadcast_action_event_def record_player_action_def send_all_eq
      last_map Let_def)

text \<open>A call, a check and a fold leave the player with nothing to do, and the others as they were.\<close>

lemma to_act_after:
  assumes eq: "play_action p a amt g = Inr g'" and a: "a \<noteq> Raise"
  shows "\<not> to_act (note_action p a amt g') p"
    "q \<noteq> p \<Longrightarrow> to_act (note_action p a amt g') q = to_act g q"
proof -
  let ?c = "g_current_bet g - bet_of g p"
  consider (fold) "g' = g\<lparr>g_folded := insert p (g_folded g)\<rparr>"
    | (even) "g' = g" "g_current_bet g = bet_of g p"
    | (call) "g' = contribute p ?c g"
    using eq a by (cases a) (auto simp: play_action_def Let_def word_gt_0 split: if_splits)
  then have "\<not> to_act (note_action p a amt g') p \<and>
      (q \<noteq> p \<longrightarrow> to_act (note_action p a amt g') q = to_act g q)"
  proof cases
    case fold
    then show ?thesis using a by (simp add: to_act_def can_player_act_def note_fields)
  next
    case even
    then show ?thesis using a by (simp add: to_act_def can_player_act_def note_fields)
  next
    case call
    have "p \<in> g_all_in g'" if "chips_of g p \<le> ?c" using that call by (simp add: contribute_fields)
    moreover have "bet_of g' p = g_current_bet g" if "\<not> chips_of g p \<le> ?c"
      using that call by (simp add: contribute_fields min_absorb1)
    ultimately show ?thesis using a call
      by (auto simp: to_act_def can_player_act_def note_fields contribute_fields)
  qed
  then show "\<not> to_act (note_action p a amt g') p"
    "q \<noteq> p \<Longrightarrow> to_act (note_action p a amt g') q = to_act g q" by blast+
qed

definition accepted :: "cid \<Rightarrow> action \<Rightarrow> u32 option \<Rightarrow> game \<Rightarrow> bool" where
  "accepted c a amt g \<longleftrightarrow> (case get_player g c of
     None \<Rightarrow> False
   | Some p \<Rightarrow> g_players g ! g_current g = p
       \<and> (case play_action p a amt g of Inl _ \<Rightarrow> False | Inr _ \<Rightarrow> True))"

text \<open>The action leaves the betting round open: fewer seats are to come, or fewer chips are left to bet.\<close>

lemma open_round_progress:
  assumes wf: "table_wf g" and ne: "g_players g \<noteq> []" and g1: "play_action (g_players g ! g_current g) a amt g = Inr g1"
    and h: "h = note_action (g_players g ! g_current g) a amt g1" and open': "\<not> round_complete (advance_to_next_player h)"
    and eq: "ask_current_player n (advance_to_next_player h) = Ret g'"
  shows "waits g' \<and> g_shuffle_count g' = g_shuffle_count g \<and> patience g' < patience g"
proof -
  let ?p = "g_players g ! g_current g" and ?h = "advance_to_next_player h"
  have p: "?p \<in> set (g_players g)" and cur: "g_current g < length (g_players g)"
    using wf ne by (simp_all add: table_wf_def)
  have pl: "g_players h = g_players g" using play_action_frame(1) [OF g1] by (simp add: h note_action_fields)
  have same: "g_phase h = g_phase g" "g_current h = g_current g" "g_chips h = g_chips g1"
    "g_shuffle_count h = g_shuffle_count g"
    using play_phase [OF g1] count_play [OF g1] by (simp_all add: h note_fields note_action_fields)
  obtain r where r: "r \<in> set (g_players g)" "to_act h r" using open' pl by (auto simp: round_complete_to_act)
  then have "can_player_act ?h (g_players ?h ! g_current ?h)"
    using find_next_can_act [of h r] cur pl same by (simp add: to_act_def)
  then have g': "g' = send_message (g_players ?h ! g_current ?h)
      (SYourTurn (your_turn_message ?h (g_players ?h ! g_current ?h))) ?h" and w: "waits g'"
    using eq ask_asks [OF _ eq] by (cases n; auto simp: Let_def asks_from_def)+
  have f: "g_players g' = g_players g" "g_chips g' = g_chips g1" "g_phase g' = g_phase g"
      "seats_to_come g' = seats_to_come ?h" "g_shuffle_count g' = g_shuffle_count g"
    unfolding g' using pl same
    by (simp_all add: send_message_def advance_to_next_player_def seats_to_come_def seat_at_def to_act_def
        can_player_act_def)
  note stacks = play_stacks [OF g1 wf_distinct [OF wf] p]
  have "patience g' < patience g"
  proof (cases "nsum (chips_of g1) (g_players g) < nsum (chips_of g) (g_players g)")
    case True
    then show ?thesis using f by (intro patience_less) simp_all
  next
    case False
    then have "seats_to_come ?h < seats_to_come g"
      using seats_to_come_decreases [OF cur wf_distinct [OF wf] pl same(2) _ _ r] to_act_after [OF g1] stacks(2)
      unfolding h by blast
    moreover have "nsum (chips_of g1) (g_players g) = nsum (chips_of g) (g_players g)"
      using False stacks(1) by linarith
    ultimately show ?thesis using f by (simp add: patience_def)
  qed
  then show ?thesis using w f(5) by simp
qed

lemma action_leads:
  assumes wf: "table_wf g" and acc: "accepted c a amt g" and eq: "apply_action n c a amt g = Ret g'"
  shows "hand_over g g'
    \<or> waits g' \<and> g_shuffle_count g' = g_shuffle_count g \<and> patience g' < patience g"
proof -
  let ?p = "g_players g ! g_current g"
  obtain g1 where c: "g_connection_map g c = Some ?p" and g1: "play_action ?p a amt g = Inr g1"
    using acc by (auto simp: accepted_def get_player_def split: option.splits sum.splits)
  have ne: "g_players g \<noteq> []" using c wf_no_seats [OF wf, of c] by auto
  have p: "?p \<in> set (g_players g)" using wf ne by (simp add: table_wf_def)
  note fr = play_action_frame [OF g1]
  let ?g2 = "note_action ?p a amt g1"
  let ?g3 = "advance_to_next_player ?g2"
  have wf2: "table_wf ?g2" using fr(5) [OF wf] money_step_note by (rule wf_money_step)
  have pl: "g_players ?g2 = g_players g" using fr(1) by (simp add: note_action_fields)
  have q: "quiet ?g2" using fr(1) ne by (intro quiet_note) simp
  have count: "g_shuffle_count ?g2 = g_shuffle_count g" using count_play [OF g1] by simp
  note adv = advance_wf(1) [OF wf2, unfolded pl, OF ne]
  have "apply_action n c a amt g = (if count_active_players ?g2 = 1 then handle_single_winner n ?g2
      else if round_complete ?g3 then next_phase n ?g3 else ask_current_player n ?g3)"
    unfolding apply_action_unfold using c g1 is_round_complete_wf [OF adv] by (simp add: Let_def)
  then consider (single) "handle_single_winner n ?g2 = Ret g'"
    | (complete) "next_phase n ?g3 = Ret g'"
    | (ask) "\<not> round_complete ?g3" "ask_current_player n ?g3 = Ret g'"
    using eq by (metis)
  then show ?thesis
  proof cases
    case single
    then show ?thesis using single_over [OF wf2 q] hand_over_cong [OF count] by blast
  next
    case complete
    have "asks_from 1 ?g3 g' \<or> hand_over ?g3 g'" using next_phase_leads [OF adv _ _ complete] q pl ne by simp
    moreover have "hand_over ?g3 g' = hand_over g g'" using count by (intro hand_over_cong) simp
    moreover have "patience g' < patience g" if "asks_from 1 ?g3 g'"
      using that play_stacks(1) [OF g1 wf_distinct [OF wf] p] pl play_phase [OF g1]
      by (intro patience_less) (auto simp: asks_from_def advance_to_next_player_def note_fields note_action_fields)
    ultimately show ?thesis using count by (auto simp: asks_from_def)
  next
    case ask
    then show ?thesis using open_round_progress [OF wf ne g1 refl] by blast
  qed
qed

section \<open>Hands end\<close>

text \<open>A run of accepted actions of one hand, each of which left the table asking somebody.\<close>

inductive in_hand :: "game \<Rightarrow> nat \<Rightarrow> game \<Rightarrow> bool" for g :: game where
  in_hand_start: "in_hand g 0 g"
| in_hand_action: "\<lbrakk>in_hand g k h; accepted c a amt h; apply_action n c a amt h = Ret h'; waits h';
    g_shuffle_count h' = g_shuffle_count h\<rbrakk> \<Longrightarrow> in_hand g (Suc k) h'"

lemma in_hand_patience: "in_hand g k h \<Longrightarrow> table_wf g \<Longrightarrow> table_wf h \<and> k + patience h \<le> patience g"
proof (induction rule: in_hand.induct)
  case (in_hand_action k h c a amt n h')
  then have wf: "table_wf h" by simp
  have "\<not> hand_over h h'"
    using in_hand_action.hyps(4,5) waits_not_quiet [of h'] by (simp add: hand_over_def)
  then have "patience h' < patience h"
    using action_leads [OF wf in_hand_action.hyps(2,3)] by blast
  then show ?case using in_hand_action apply_action_result [OF wf, of n c a amt] by auto
qed simp

text \<open>
  C11. Every hand ends: at a well-formed table an accepted action ends the hand (a new one is dealt, or
  nobody is asked any more) or leaves it in the same hand with a player asked; and the actions of
  one hand are at most \<open>(4 * chips + 3) * (seats + 1) + seats\<close>, whoever plays what. So no sequence of
  checks, calls, folds and raises goes round for ever.
\<close>

theorem hand_ends:
  assumes "table_wf g" "in_hand g k h"
  shows "k \<le> (4 * nsum (chips_of g) (g_players g) + 3) * (length (g_players g) + 1) + length (g_players g)
    \<and> (accepted c a amt h \<and> apply_action n c a amt h = Ret h'
        \<longrightarrow> hand_over h h' \<or> in_hand g (Suc k) h')"
proof (intro conjI impI)
  note h = in_hand_patience [OF assms(2,1)]
  show "k \<le> (4 * nsum (chips_of g) (g_players g) + 3) * (length (g_players g) + 1) + length (g_players g)"
    using h patience_bound [of g] by linarith
  assume "accepted c a amt h \<and> apply_action n c a amt h = Ret h'"
  then show "hand_over h h' \<or> in_hand g (Suc k) h'"
    using action_leads [of h c a amt n h'] h in_hand_action [OF assms(2)] by blast
qed

text \<open>At the sample table the small blind calls and the big blind is asked.\<close>

lemma sample_call: "\<exists>h. in_hand sample_table 1 h"
proof -
  let ?g1 = "contribute 0 10 sample_table"
  let ?g2 = "note_action 0 Call None ?g1"
  let ?g3 = "advance_to_next_player ?g2"
  have play: "play_action 0 Call None sample_table = Inr ?g1"
    by (simp add: play_action_def sample_table_def getd_def)
  have wf2: "table_wf ?g2"
    using play_action_frame(5) [OF play sample_wf] money_step_note by (rule wf_money_step)
  have pl: "g_players ?g2 = [0, 1]" by (simp add: note_action_fields contribute_fields sample_players)
  have two: "count_active_players ?g2 = 2"
    unfolding count_active_players_def pl by (simp add: note_fields contribute_fields sample_table_def)
  have open_round: "\<not> round_complete ?g3"
  proof -
    have "to_act sample_table 1" by (simp add: to_act_def can_player_act_def sample_table_def)
    then have "to_act ?g3 1" using to_act_after(2) [OF play, of 1] by simp
    then show ?thesis using two pl by (auto simp: round_complete_to_act)
  qed
  then obtain h where h: "ask_current_player 1 ?g3 = Ret h" "waits h"
    using advanced_waits [OF wf2, of 0] pl by auto
  have turn: "g_connection_map sample_table 0 = Some 0" "g_players sample_table ! g_current sample_table = 0"
    by (simp_all add: sample_table_def)
  have eq: "apply_action 1 0 Call None sample_table = Ret h"
    unfolding apply_action_unfold using turn play two open_round h(1)
      is_round_complete_wf [OF advance_wf(1) [OF wf2]] pl
    by (simp add: Let_def)
  have acc: "accepted 0 Call None sample_table"
    by (simp add: accepted_def get_player_def play turn)
  have "g_shuffle_count h = g_shuffle_count ?g3"
    using h by (auto simp: Let_def bind_r_Ret_iff split: if_splits)
  then have "g_shuffle_count h = g_shuffle_count sample_table" by simp
  from in_hand_action [OF in_hand_start acc eq h(2) this] show ?thesis by auto
qed

theorem hand_ends_witness:
  "\<exists>k h. in_hand sample_table k h \<and> 0 < k \<and> k \<le> (4 * 1970 + 3) * 3 + 2"
proof -
  obtain h where h: "in_hand sample_table 1 h" using sample_call by blast
  have "nsum (chips_of sample_table) (g_players sample_table) = 1970"
    by (simp add: sample_table_def getd_def)
  then show ?thesis using hand_ends [OF sample_wf h] h sample_players by auto
qed

end
