(* ===== verification/Delivery.thy ===== *)
theory Delivery
  imports ServerLoop NetworkClient
begin

text \<open>
  The two ends of a connection together: \<open>NetworkClient\<close> of \<open>client/src/network_client.cpp\<close> and \<open>Session\<close> of
  \<open>server/src/network/session.cpp\<close>, joined by a stream of bytes. What one end accepts for sending, the
  other end reads as the same messages in the same order, once the outstanding writes have completed.
  The text of JSON is a parameter on both sides: what the library reads back from the text of a message
  is that message (its members may be listed as \<open>to_json\<close> lists them, since the order has no meaning).
\<close>

section \<open>The packets of a client are messages\<close>

definition sendable :: "(json \<Rightarrow> string result) \<Rightarrow> client_message \<Rightarrow> bool" where
  "sendable dump m \<longleftrightarrow> (case dump (to_json_client m) of
     Ret body \<Rightarrow> length body \<le> unat MAX_PACKET_SIZE | _ \<Rightarrow> False)"

definition body_of :: "(json \<Rightarrow> string result) \<Rightarrow> client_message \<Rightarrow> string" where
  "body_of dump m = (case dump (to_json_client m) of Ret body \<Rightarrow> body | _ \<Rightarrow> [])"

definition posts :: "net_client \<Rightarrow> u8 list set" where
  "posts s = {packet. Post packet \<in> set (k_ops s)}"

lemma posts_simps [simp]:
  "posts (notify st s) = posts s" "posts (s\<lparr>k_state := a\<rparr>) = posts s" "posts (s\<lparr>k_closed := b\<rparr>) = posts s"
  "posts (s\<lparr>k_write_in_progress := b\<rparr>) = posts s" "posts (s\<lparr>k_write_queue := q\<rparr>) = posts s"
  "posts (s\<lparr>k_socket_open := b\<rparr>) = posts s" "posts (s\<lparr>k_received := r\<rparr>) = posts s"
  "posts (s\<lparr>k_wire := w\<rparr>) = posts s" "posts (s\<lparr>k_host := h\<rparr>) = posts s" "posts (s\<lparr>k_port := h\<rparr>) = posts s"
  "posts (s\<lparr>k_socket := g\<rparr>) = posts s"
  "\<not> is_post p \<Longrightarrow> posts (add_op p s) = posts s" "posts (add_op (Post packet) s) = insert packet (posts s)"
  by (auto simp: posts_def notify_def add_op_def)

lemma posts_do_write [simp]: "posts (do_write s) = posts s"
  by (simp add: do_write_def)

lemma posts_close [simp]: "posts (close_connection b s) = posts s"
  by (simp add: close_connection_def Let_def)

lemma posts_do_read [simp]: "posts (do_read_header s) = posts s" "posts (do_read_body len s) = posts s"
  by (simp_all add: do_read_header_def do_read_body_def)

lemma posts_on_message [simp]: "posts (on_message parse raw s) = posts s"
  by (simp add: posts_def)

lemma posts_connect_result [simp]: "posts (on_connect_result ec s) = posts s"
  by (simp add: on_connect_result_def Let_def)

lemma posts_complete: "posts (complete parse p ec bs s) \<subseteq> posts s"
proof -
  have "posts (run_handler parse p ec bs t) = posts t" for t
    by (cases p) (simp_all add: run_handler_def resolved_def timed_out_def header_read_def body_read_def
        write_done_def posted_def Let_def split: prod.split)
  then show ?thesis using set_remove1_subset [of p "k_ops s"] by (auto simp: complete_def posts_def)
qed

lemma send_message_posts:
  assumes "send_message dump m s = Ret s'"
  shows "s' = s \<or> sendable dump m \<and> s' = add_op (Post (frame (body_of dump m))) s"
  using assms by (auto simp: send_message_def bind_r_Ret_iff sendable_def body_of_def encode_frame split: if_splits)

lemma client_run_posts:
  assumes "client_run parse dump ms s"
  shows "(\<exists>sent. list_all (sendable dump) sent \<and> ms = map (\<lambda>m. frame (body_of dump m)) sent)
    \<and> posts s \<subseteq> {frame (body_of dump m) |m. sendable dump m}"
  using assms
proof (induction rule: client_run.induct)
  case (cr_new host port)
  then show ?case by (simp add: new_client_def posts_def)
next
  case (cr_connect ms s host port)
  then show ?case
    by (simp add: reconnect_def begin_connect_def set_endpoint_def)
next
  case (cr_send ms s m s')
  then show ?case using send_message_posts [OF cr_send(2)] by auto
next
  case (cr_complete ms s p ec bs)
  let ?new = "case p of Post packet \<Rightarrow>
    if k_state s = Connecting \<or> k_state s = Connected then [packet] else [] | _ \<Rightarrow> []"
  obtain sent where sent: "list_all (sendable dump) sent" "ms = map (\<lambda>m. frame (body_of dump m)) sent"
    using cr_complete.IH by blast
  have "\<exists>more. list_all (sendable dump) more \<and> ?new = map (\<lambda>m. frame (body_of dump m)) more"
  proof (cases "?new = []")
    case False
    then obtain packet where p: "p = Post packet" and new: "?new = [packet]"
      by (cases p) (auto split: if_splits)
    then have "packet \<in> posts s" using cr_complete.hyps(2) by (simp add: completes_with_def posts_def)
    then obtain m where "sendable dump m" "packet = frame (body_of dump m)" using cr_complete.IH by blast
    then show ?thesis unfolding new by (intro exI [of _ "[m]"]) simp
  qed (intro exI [of _ "[]"]; simp)
  then obtain more where "list_all (sendable dump) more" "?new = map (\<lambda>m. frame (body_of dump m)) more" by blast
  then have "list_all (sendable dump) (sent @ more)
      \<and> ms @ ?new = map (\<lambda>m. frame (body_of dump m)) (sent @ more)" using sent by simp
  then show ?case using cr_complete.IH posts_complete by blast
qed

section \<open>From the client to the server\<close>

definition client_drained :: "(string \<Rightarrow> string + json) \<Rightarrow> net_client \<Rightarrow> net_client" where
  "client_drained parse s = (client_written parse ^^ length (k_write_queue s)) s"

lemma client_run_drains:
  assumes run: "client_run parse dump ms s" and connected: "k_state s = Connected"
  shows "client_run parse dump ms (client_drained parse s) \<and> k_state (client_drained parse s) = Connected
    \<and> k_write_queue (client_drained parse s) = [] \<and> wire_of (client_drained parse s) = ms"
proof -
  have "client_writes s"
    using client_run_wf [OF run] connected by (simp add: client_wf_eq connected_wf_def client_writes_def)
  note d = client_writer.drains [OF this, folded client_drained_def, of parse]
  have run': "client_run parse dump ms (client_drained parse s)"
    unfolding client_drained_def using \<open>client_writes s\<close> run
  proof (rule client_writer.drains_keeps)
    fix t assume t: "client_writes t" "k_write_in_progress t" "client_run parse dump ms t"
    obtain g where g: "filter is_write (k_ops t) = [Write g]" using t(1,2) by (rule the_write)
    then have "Write g \<in> set (k_ops t)" by (metis filter_eq_ConsD in_set_conv_decomp)
    then have "completes_with (Write g) Success [] t" by (simp add: completes_with_def)
    from cr_complete [OF t(3) this] show "client_run parse dump ms (client_written parse t)"
      by (simp add: client_written_def g)
  qed
  have c: "k_state (client_drained parse s) = Connected" using d by (simp add: client_writes_def)
  then have "queue_ok ms (client_drained parse s)"
    using client_run_wf [OF run'] by (simp add: client_wf_eq connected_wf_def)
  then show ?thesis using run' c d by (simp add: queue_ok_idle)
qed

definition read_client :: "(string \<Rightarrow> string + json) \<Rightarrow> string \<Rightarrow> client_message result" where
  "read_client parse body = (case parse body of Inl e \<Rightarrow> Exn JsonError | Inr j \<Rightarrow> from_json_client j)"

text \<open>
  C20. From the client to the server: when the outstanding writes of a connected client have completed,
  which leaves it connected and its queue empty, the bytes on its socket make a new session of the
  server process, in order and each once, texts that are read as exactly the messages the client
  accepted, and nothing else.
\<close>

theorem client_to_server:
  assumes "client_run parse dump ms s" "k_state s = Connected"
    and "\<And>m body. dump (to_json_client m) = Ret body \<Longrightarrow> body \<noteq> [] \<and> parse' body = Inr (to_json_client m)"
  shows "\<exists>sent. ms = map (\<lambda>m. frame (body_of dump m)) sent
    \<and> client_run parse dump ms (client_drained parse s) \<and> k_state (client_drained parse s) = Connected
    \<and> k_write_queue (client_drained parse s) = []
    \<and> map (read_client parse') (n_processed (deliver (concat (wire_of (client_drained parse s)))
        (start_session new_session))) = map Ret sent"
proof -
  obtain sent where sent: "list_all (sendable dump) sent" "ms = map (\<lambda>m. frame (body_of dump m)) sent"
    using client_run_posts [OF assms(1)] by blast
  note d = client_run_drains [OF assms(1,2)]
  have body: "packet_body (body_of dump m) \<and> read_client parse' (body_of dump m) = Ret m" if "sendable dump m" for m
    using that assms(3) [of m]
    by (auto simp: sendable_def body_of_def packet_body_def read_client_def client_roundtrip split: result.splits)
  let ?bodies = "map (body_of dump) sent" and ?s = "start_session new_session"
  have ok: "list_all packet_body ?bodies" using sent(1) body by (simp add: list_all_iff)
  note ready = new_session_ready(1)
  have "n_processed (deliver (concat (wire_of (client_drained parse s))) ?s) = ?bodies"
    using session_reader.feed_all(2) [OF ready ok] d sent(2)
    by (simp add: deliver_def fold_processed new_session_ready comp_def)
  then have "map (read_client parse') (n_processed (deliver (concat (wire_of (client_drained parse s))) ?s))
      = map Ret sent"
    using sent(1) body by (simp add: list_all_iff)
  then show ?thesis using sent(2) d by blast
qed

section \<open>From the server to the client\<close>

lemma handled_received:
  assumes "parse body = Inr (to_json_server m)"
  shows "k_received (handled parse body c) = k_received c @ [m]"
  using assms by (simp add: handled_def do_read_header_def on_message_def server_roundtrip add_op_def)

lemma fold_handled:
  "list_all2 (\<lambda>body m. parse body = Inr (to_json_server m)) bodies sent \<Longrightarrow>
    k_received (fold (handled parse) bodies c) = k_received c @ sent"
  by (induction arbitrary: c rule: list_all2_induct) (simp_all add: handled_received)

text \<open>The messages of a log for a connection, without those that have no text or one too long for a packet.\<close>

definition messages_to :: "(json \<Rightarrow> string result) \<Rightarrow> cid \<Rightarrow> (cid \<times> server_message) list \<Rightarrow> server_message list" where
  "messages_to dump c log =
     map snd (filter (\<lambda>(d, m). d = c \<and> text_of (dump (to_json_server m)) \<noteq> []) log)"

lemma messages_texts:
  "list_all2 (\<lambda>body m. dump (to_json_server m) = Ret body \<and> length body \<le> unat MAX_PACKET_SIZE)
     (texts_to dump c log) (messages_to dump c log)"
proof (induction log)
  case (Cons dm log)
  obtain d m where "dm = (d, m)" by (cases dm)
  with Cons show ?case
    by (cases "dump (to_json_server m)") (auto simp: messages_to_def text_of_def)
qed (simp add: messages_to_def)

text \<open>
  C21. From the server to the client: what the processors of a running server send to an open connection is on its
  socket once the outstanding writes have completed, and the client at the other end, connected and
  waiting for a header, hands exactly these messages to its handler, in the order in which they were
  sent, and waits for the next.
\<close>

theorem server_to_client:
  assumes "host_run dump parse what pbkdf2 (new_host db draws) h" "db_wf db"
    and "h_sessions h c = Some s" "\<not> n_closed s" "client_ready k"
    and "\<And>m body. dump (to_json_server m) = Ret body \<Longrightarrow> body \<noteq> [] \<and> parse' body = Inr (to_json_server m)"
  shows "n_write_queue (drained s) = []
    \<and> client_ready (feed_stream client_wanted (client_feed parse') (concat (n_wire (drained s))) k)
    \<and> k_received (feed_stream client_wanted (client_feed parse') (concat (n_wire (drained s))) k)
      = k_received k @ messages_to dump c (h_log h)"
proof -
  have "host_ok dump h" using host_run_ok [OF assms(1)] new_host_ok assms(2) by blast
  from host_session [OF this assms(3)]
  have run: "session_run dump (texts_to dump c (h_log h)) s" using assms(4) by auto
  let ?bodies = "texts_to dump c (h_log h)"
  have reads: "list_all2 (\<lambda>body m. packet_body body \<and> parse' body = Inr (to_json_server m))
      ?bodies (messages_to dump c (h_log h))"
    using messages_texts by (rule list_all2_mono) (use assms(6) in \<open>auto simp: packet_body_def\<close>)
  then have ok: "list_all packet_body ?bodies" by (auto simp: list_all_length list_all2_conv_all_nth)
  note d = session_run_drains [OF run assms(4)]
  note fed = client_reader.feed_all [OF assms(5) ok, of parse']
  have "k_received (fold (handled parse') ?bodies k) = k_received k @ messages_to dump c (h_log h)"
    using reads by (intro fold_handled) (auto elim: list_all2_mono)
  then show ?thesis using d fed by auto
qed

section \<open>Witnesses\<close>

text \<open>A library that knows the text of one message.\<close>

definition dump_one :: "json \<Rightarrow> json \<Rightarrow> string result" where
  "dump_one j0 j = (if j = j0 then Ret ''x'' else Exn JsonError)"

definition parse_one :: "json \<Rightarrow> string \<Rightarrow> string + json" where
  "parse_one j0 txt = Inr j0"

lemma one_text: "dump_one j0 j = Ret body \<Longrightarrow> body \<noteq> [] \<and> parse_one j0 body = Inr j"
  by (auto simp: dump_one_def parse_one_def split: if_splits)

lemma sample_client_fields:
  "k_state sample_client = Connected" "k_ops sample_client = [Timer, ReadHeader 1]" "k_closed sample_client = False"
  "k_received sample_client = []"
  by (simp_all add: sample_client_defs)

abbreviation (input) no_parse :: "string \<Rightarrow> string + json" where
  "no_parse \<equiv> \<lambda>_. Inl []"

lemma sample_posted: "\<exists>s. client_run no_parse (dump_one (to_json_client CListRooms)) [frame ''x''] s
    \<and> k_state s = Connected"
proof -
  let ?d = "dump_one (to_json_client CListRooms)" and ?p = "Post (frame ''x'')"
  let ?s = "add_op ?p sample_client"
  have "send_message ?d CListRooms sample_client = Ret ?s"
    by (simp add: send_message_def dump_one_def unat_max_packet encode_frame)
  from cr_send [OF sample_client_run this] have run: "client_run no_parse ?d [] ?s" .
  have st: "k_state ?s = Connected" "k_ops ?s = [Timer, ReadHeader 1, ?p]"
    by (simp_all add: add_op_def sample_client_fields)
  then have "completes_with ?p Success [] ?s" by (simp add: completes_with_def)
  from cr_complete [OF run this] have "client_run no_parse ?d [frame ''x''] (complete no_parse ?p Success [] ?s)"
    by (simp add: add_op_def sample_client_fields)
  moreover have "k_state (complete no_parse ?p Success [] ?s) = Connected"
    by (simp add: complete_def run_handler_def posted_def do_write_def add_op_def sample_client_fields Let_def)
  ultimately show ?thesis by blast
qed

theorem client_to_server_witness:
  "\<exists>s m. client_run no_parse (dump_one (to_json_client CListRooms)) [frame ''x''] s
    \<and> map (read_client (parse_one (to_json_client CListRooms)))
      (n_processed (deliver (concat (wire_of (client_drained no_parse s))) (start_session new_session)))
    = [Ret m]"
proof -
  let ?d = "dump_one (to_json_client CListRooms)" and ?p = "parse_one (to_json_client CListRooms)"
  obtain s where s: "client_run no_parse ?d [frame ''x''] s" "k_state s = Connected"
    using sample_posted by blast
  have "\<exists>sent. [frame ''x''] = map (\<lambda>m. frame (body_of ?d m)) sent
    \<and> client_run no_parse ?d [frame ''x''] (client_drained no_parse s)
    \<and> k_state (client_drained no_parse s) = Connected \<and> k_write_queue (client_drained no_parse s) = []
    \<and> map (read_client ?p) (n_processed (deliver (concat (wire_of (client_drained no_parse s)))
        (start_session new_session))) = map Ret sent"
    by (rule client_to_server [OF s]) (rule one_text)
  then obtain sent where posted: "[frame ''x''] = map (\<lambda>m. frame (body_of ?d m)) sent"
    and got: "map (read_client ?p) (n_processed (deliver (concat (wire_of (client_drained no_parse s)))
      (start_session new_session))) = map Ret sent" by (elim exE conjE)
  from arg_cong [OF posted, of length] have "length sent = 1" by simp
  then obtain m where "sent = [m]" by (cases sent) auto
  with got have "map (read_client ?p) (n_processed (deliver (concat (wire_of (client_drained no_parse s)))
      (start_session new_session))) = [Ret m]" by (simp only: list.map)
  with s(1) show ?thesis by (intro exI conjI)
qed

theorem server_to_client_witness:
  "\<exists>(h :: host) s. h_log h = [(0, sample_answer)] \<and> h_sessions h 0 = Some s
    \<and> k_received (feed_stream client_wanted (client_feed (parse_one (to_json_server sample_answer)))
      (concat (n_wire (drained s))) sample_client) = [sample_answer]"
proof -
  let ?d = "dump_one (to_json_server sample_answer)" and ?p = "parse_one (to_json_server sample_answer)"
  have dumped: "?d (to_json_server sample_answer) = Ret ''x''" by (simp add: dump_one_def)
  obtain h s where h: "host_run ?d (\<lambda>_. Inl ''bad'') (\<lambda>_. []) sample_pbkdf2 (new_host sample_db (\<lambda>_ _. [])) h"
    "h_sessions h 0 = Some s" "\<not> n_closed s" "h_log h = [(0, sample_answer)]"
    using sample_host [of ?d, OF dumped] by (auto simp: unat_max_packet)
  have ready: "client_ready sample_client" by (simp add: client_ready_def sample_client_fields)
  let ?c = "feed_stream client_wanted (client_feed ?p) (concat (n_wire (drained s))) sample_client"
  have "n_write_queue (drained s) = [] \<and> client_ready ?c
      \<and> k_received ?c = k_received sample_client @ messages_to ?d 0 (h_log h)"
    by (rule server_to_client [OF h(1) sample_db_wf h(2,3) ready]) (rule one_text)
  moreover have "messages_to ?d 0 (h_log h) = [sample_answer]"
    using dumped by (simp add: messages_to_def h(4) text_of_def unat_max_packet)
  ultimately have "k_received ?c = [sample_answer]" by (simp only: sample_client_fields append_Nil)
  then show ?thesis by (intro exI [of _ h] exI [of _ s] conjI h)
qed

end
