(* ===== verification/JsonTypes.thy ===== *)
theory JsonTypes
  imports Protocol
begin

text \<open>
  The wire format as types: a small language of JSON types, and for each \<open>from_json\<close> of
  \<open>common/include/poker/protocol.h\<close> and \<open>common/src/protocol.cpp\<close> the type of the values it reads. The lemmas
  show that a reader returns a message exactly on the values of its type, and throws on all others, and
  that what \<open>to_json\<close> writes has the type. Members with a default may be missing but not be of another
  type; members that are not in a type are ignored.
\<close>

section \<open>Types\<close>

datatype jtype =
    TString
  | TBool
  | TNumber    \<comment> \<open>a number, or a boolean\<close>
  | TUnsigned  \<comment> \<open>a number\<close>
  | TCard
  | TAny
  | TNull jtype
  | TArray jtype
  | TItems jtype \<comment> \<open>any value whose items have the type\<close>
  | TMembers "(string \<times> bool \<times> jtype) list" \<comment> \<open>name, required, type\<close>

definition is_ret :: "'a result \<Rightarrow> bool" where
  "is_ret r \<longleftrightarrow> (case r of Ret _ \<Rightarrow> True | _ \<Rightarrow> False)"

lemma member_size:
  "(k, r, t) \<in> set ms \<Longrightarrow> size t < Suc (size_list (size_prod (\<lambda>_. 0) (size_prod (\<lambda>_. 0) size)) ms)"
  by (induction ms) auto

function conforms :: "jtype \<Rightarrow> json \<Rightarrow> bool" where
  "conforms TString j = is_ret (get_string j)"
| "conforms TBool j = is_ret (get_bool j)"
| "conforms TNumber j = is_ret (get_arithmetic j)"
| "conforms TUnsigned j = (is_ret (get_arithmetic j) \<and> \<not> is_ret (get_bool j))"
| "conforms TCard j = (case j of JString s \<Rightarrow> is_ret (card_of_string s) | _ \<Rightarrow> False)"
| "conforms TAny j = True"
| "conforms (TNull t) j = (j = JNull \<or> conforms t j)"
| "conforms (TArray t) j = (case j of JArray xs \<Rightarrow> list_all (conforms t) xs | _ \<Rightarrow> False)"
| "conforms (TItems t) j = list_all (conforms t) (json_items j)"
| "conforms (TMembers ms) j =
     list_all (\<lambda>(k, required, t). case json_at j k of Ret v \<Rightarrow> conforms t v | _ \<Rightarrow> \<not> required) ms"
  by pat_completeness auto
termination
  by (relation "measure (\<lambda>(t, j). size t)") (auto dest: member_size)

section \<open>The types of the messages\<close>

definition login_type :: jtype where
  "login_type = TMembers [(''username'', True, TString), (''password'', True, TString)]"

definition create_room_type :: jtype where
  "create_room_type = TMembers [(''room_name'', True, TString), (''max_players'', True, TNumber)]"

definition join_room_type :: jtype where
  "join_room_type = TMembers [(''room_id'', True, TUnsigned)]"

definition player_action_type :: jtype where
  "player_action_type = TMembers [(''action'', True, TAny), (''amount'', False, TNull TNumber)]"

definition welcome_type :: jtype where
  "welcome_type = TMembers [(''player_name'', True, TString), (''chips'', False, TNumber),
     (''is_new_account'', False, TBool)]"

definition room_info_type :: jtype where
  "room_info_type = TMembers [(''room_id'', True, TUnsigned), (''room_name'', True, TString),
     (''current_players'', True, TNumber), (''max_players'', True, TNumber), (''in_game'', False, TBool)]"

definition room_list_type :: jtype where
  "room_list_type = TMembers [(''rooms'', True, TArray room_info_type)]"

definition joined_room_type :: jtype where
  "joined_room_type = TMembers [(''room_id'', True, TUnsigned), (''player_names'', True, TArray TString),
     (''host_name'', True, TString), (''max_players'', True, TNumber), (''in_game'', False, TBool)]"

definition player_state_type :: jtype where
  "player_state_type = TMembers [(''name'', True, TString), (''chips'', True, TNumber),
     (''round_bet'', True, TNumber), (''folded'', True, TBool), (''all_in'', True, TBool),
     (''is_dealer'', False, TBool), (''is_small_blind'', False, TBool), (''is_big_blind'', False, TBool),
     (''hole_cards'', False, TItems TCard)]"

definition game_state_type :: jtype where
  "game_state_type = TMembers [(''general_cards'', True, TItems TCard), (''your_cards'', True, TItems TCard),
     (''phase'', True, TAny), (''active_player_name'', True, TString), (''total_pot'', True, TNumber),
     (''current_bet'', False, TNumber), (''players'', False, TArray player_state_type)]"

definition your_turn_type :: jtype where
  "your_turn_type = TMembers [(''available_actions'', True, TArray TAny), (''min_amount'', True, TNumber),
     (''max_amount'', True, TNumber), (''to_call'', False, TNumber), (''your_chips'', False, TNumber)]"

definition error_type :: jtype where
  "error_type = TMembers [(''code'', True, TNumber), (''description'', True, TString)]"

definition left_room_type :: jtype where
  "left_room_type = TMembers [(''room_id'', True, TUnsigned), (''your_chips'', False, TNumber),
     (''has_your_chips'', False, TBool)]"

definition hand_result_type :: jtype where
  "hand_result_type = TMembers [(''winner_names'', True, TArray TString), (''pot_amount'', True, TNumber),
     (''winner_hand_labels'', False, TArray TString)]"

definition action_event_type :: jtype where
  "action_event_type = TMembers [(''player_name'', True, TString), (''action'', True, TAny),
     (''amount'', False, TNull TNumber)]"

text \<open>The envelope: a type name, and data of the type that belongs to it.\<close>

definition client_types :: "(string \<times> jtype) list" where
  "client_types = [(''login'', login_type), (''create_room'', create_room_type), (''join_room'', join_room_type),
     (''leave_room'', TAny), (''list_rooms'', TAny), (''start_game'', TAny), (''player_action'', player_action_type)]"

definition server_types :: "(string \<times> jtype) list" where
  "server_types = [(''welcome'', welcome_type), (''room_list'', room_list_type),
     (''joined_room'', joined_room_type), (''game_state_update'', game_state_type),
     (''your_turn'', your_turn_type), (''error'', error_type), (''left_room'', left_room_type),
     (''hand_result'', hand_result_type), (''action_event'', action_event_type)]"

definition envelope :: "(string \<times> jtype) list \<Rightarrow> json \<Rightarrow> bool" where
  "envelope types j \<longleftrightarrow> (case json_at j ''type'' of
     Ret (JString name) \<Rightarrow> (case map_of types name of
         Some t \<Rightarrow> conforms (TMembers [(''data'', True, t)]) j | None \<Rightarrow> False)
   | _ \<Rightarrow> False)"

section \<open>Readers and types\<close>

lemma is_ret_cases [simp]: "is_ret (Ret x)" "\<not> is_ret (Exn e)" "\<not> is_ret NoFuel"
  by (simp_all add: is_ret_def)

lemma is_ret_bind [simp]:
  "is_ret (map_r f m) = is_ret m" "is_ret (bind_r m g) = (\<exists>x. m = Ret x \<and> is_ret (g x))"
  by (cases m; simp)+

lemma ex_ret [simp]: "(\<exists>x. m = Ret x) = is_ret m"
  by (cases m) simp_all

lemma is_ret_if [simp]: "is_ret (if b then m else m') = (if b then is_ret m else is_ret m')"
  by (rule if_distrib)

text \<open>A member and the elements of an array, as tests that \<open>simp\<close> can compare.\<close>

definition member :: "bool \<Rightarrow> (json \<Rightarrow> bool) \<Rightarrow> json \<Rightarrow> string \<Rightarrow> bool" where
  "member required P j k = (case json_at j k of Ret v \<Rightarrow> P v | _ \<Rightarrow> \<not> required)"

definition elements :: "(json \<Rightarrow> bool) \<Rightarrow> json \<Rightarrow> bool" where
  "elements P j = (case j of JArray xs \<Rightarrow> list_all P xs | _ \<Rightarrow> False)"

declare conforms.simps [simp del]

lemma conforms_eqs [simp]:
  "conforms TString = (\<lambda>j. is_ret (get_string j))" "conforms TBool = (\<lambda>j. is_ret (get_bool j))"
  "conforms TNumber = (\<lambda>j. is_ret (get_arithmetic j))"
  "conforms TUnsigned = (\<lambda>j. is_ret (get_arithmetic j) \<and> \<not> is_ret (get_bool j))"
  "conforms TCard = (\<lambda>j. is_ret (card_from_json j))" "conforms TAny = (\<lambda>j. True)"
  "conforms (TNull t) = (\<lambda>j. j = JNull \<or> conforms t j)" "conforms (TArray t) = elements (conforms t)"
  "conforms (TItems t) = (\<lambda>j. list_all (conforms t) (json_items j))"
  "conforms (TMembers []) = (\<lambda>j. True)"
  "conforms (TMembers ((k, required, t) # ms)) = (\<lambda>j. member required (conforms t) j k \<and> conforms (TMembers ms) j)"
proof -
  show "conforms TCard = (\<lambda>j. is_ret (card_from_json j))"
  proof
    show "conforms TCard j = is_ret (card_from_json j)" for j
      by (cases j) (simp_all add: conforms.simps card_from_json_def)
  qed
qed (simp_all add: fun_eq_iff conforms.simps elements_def member_def)

lemma is_ret_words [simp]:
  "is_ret (get_u8 j) = is_ret (get_arithmetic j)" "is_ret (get_u32 j) = is_ret (get_arithmetic j)"
  "is_ret (get_i32 j) = is_ret (get_arithmetic j)"
  "is_ret (get_u64 j) = (is_ret (get_arithmetic j) \<and> \<not> is_ret (get_bool j))"
  by (simp_all add: get_u8_def get_u32_def get_i32_def) (cases j; simp)

lemma is_ret_mapM [simp]: "is_ret (mapM_r f xs) = list_all (\<lambda>x. is_ret (f x)) xs"
  by (induction xs) auto

lemma is_ret_list [simp]:
  "is_ret (get_list f j) = elements (\<lambda>x. is_ret (f x)) j"
  "is_ret (get_strings j) = elements (\<lambda>x. is_ret (get_string x)) j"
  by (cases j; simp add: elements_def get_strings_def)+

lemma is_ret_cards [simp]: "is_ret (get_cards j) = list_all (\<lambda>x. is_ret (card_from_json x)) (json_items j)"
  by (simp add: get_cards_def)

lemma is_ret_enums [simp]: "is_ret (get_action j)" "is_ret (get_phase j)"
  by (simp_all add: get_action_def get_phase_def)

lemma is_ret_at [simp]: "is_ret (get_at j k f) = member True (\<lambda>v. is_ret (f v)) j k"
  by (cases "json_at j k") (simp_all add: get_at_def member_def del: ex_ret)

lemma contains_at: "json_contains j k = is_ret (json_at j k)"
  by (cases j) (simp_all add: is_ret_def split: option.split)

lemma is_ret_or [simp]: "is_ret (get_or j k d f) = member False (\<lambda>v. is_ret (f v)) j k"
  by (cases "json_at j k") (simp_all add: get_or_def contains_at member_def)

lemma is_ret_amount [simp]:
  "is_ret (get_amount j) = member False (\<lambda>v. v = JNull \<or> is_ret (get_arithmetic v)) j ''amount''"
  by (cases "json_at j ''amount''") (simp_all add: get_amount_def contains_at member_def)

text \<open>A reader returns exactly on its type.\<close>

lemma readers_types:
  "is_ret (from_json_login j) = conforms login_type j"
  "is_ret (from_json_create_room j) = conforms create_room_type j"
  "is_ret (from_json_join_room j) = conforms join_room_type j"
  "is_ret (from_json_player_action j) = conforms player_action_type j"
  "is_ret (from_json_welcome_msg j) = conforms welcome_type j"
  "is_ret (from_json_room_info j) = conforms room_info_type j"
  "is_ret (from_json_player_state j) = conforms player_state_type j"
  "is_ret (from_json_your_turn j) = conforms your_turn_type j"
  "is_ret (from_json_error_msg j) = conforms error_type j"
  "is_ret (from_json_left_room j) = conforms left_room_type j"
  "is_ret (from_json_hand_result j) = conforms hand_result_type j"
  "is_ret (from_json_action_event j) = conforms action_event_type j"
  "is_ret (from_json_joined_room j) = conforms joined_room_type j"
  by (simp_all add: from_json_login_def login_type_def
      from_json_create_room_def create_room_type_def
      from_json_join_room_def join_room_type_def
      from_json_player_action_def player_action_type_def
      from_json_welcome_msg_def welcome_type_def
      from_json_room_info_def room_info_type_def
      from_json_player_state_def player_state_type_def
      from_json_your_turn_def your_turn_type_def
      from_json_error_msg_def error_type_def
      from_json_left_room_def left_room_type_def
      from_json_hand_result_def hand_result_type_def
      from_json_action_event_def action_event_type_def
      from_json_joined_room_def joined_room_type_def
      conj_ac)

lemma lists_of_types:
  "is_ret (from_json_room_list j) = conforms room_list_type j"
  "is_ret (from_json_game_state_update j) = conforms game_state_type j"
  by (simp_all add: from_json_room_list_def room_list_type_def from_json_game_state_update_def
      game_state_type_def readers_types)

lemma envelope_eq:
  "is_ret (bind_r (get_at j ''type'' get_string) f)
     \<longleftrightarrow> (\<exists>name. json_at j ''type'' = Ret (JString name) \<and> is_ret (f name))"
  "envelope types j \<longleftrightarrow> (\<exists>name. json_at j ''type'' = Ret (JString name)
     \<and> (\<exists>t. map_of types name = Some t \<and> member True (conforms t) j ''data''))"
proof -
  have str: "get_string v = Ret name \<longleftrightarrow> v = JString name" for v name by (cases v) auto
  show "is_ret (bind_r (get_at j ''type'' get_string) f)
     \<longleftrightarrow> (\<exists>name. json_at j ''type'' = Ret (JString name) \<and> is_ret (f name))"
    by (cases "json_at j ''type''") (auto simp: get_at_def bind_r_Ret_iff str simp del: ex_ret)
  show "envelope types j \<longleftrightarrow> (\<exists>name. json_at j ''type'' = Ret (JString name)
     \<and> (\<exists>t. map_of types name = Some t \<and> member True (conforms t) j ''data''))"
    by (auto simp: envelope_def split: result.splits json.splits option.splits)
qed

lemma client_reader_type: "is_ret (from_json_client j) = envelope client_types j"
  unfolding from_json_client_def envelope_eq
  by (simp add: client_types_def readers_types)

lemma server_reader_type: "is_ret (from_json_server j) = envelope server_types j"
  unfolding from_json_server_def envelope_eq
  by (simp add: server_types_def readers_types lists_of_types)

section \<open>The property\<close>

text \<open>
  C40. The wire format is typed. \<open>from_json\<close> of a client message, and of a server message, returns exactly on
  the JSON values of the declared type (an envelope with a known type name and data of the type that
  belongs to it) and throws on all others; what \<open>to_json\<close> writes, for every message, is of the type and is read
  as the same message.
\<close>

theorem wire_types:
  "is_ret (from_json_client j) = envelope client_types j
   \<and> is_ret (from_json_server j) = envelope server_types j
   \<and> envelope client_types (to_json_client cm) \<and> from_json_client (to_json_client cm) = Ret cm
   \<and> envelope server_types (to_json_server sm) \<and> from_json_server (to_json_server sm) = Ret sm"
  by (simp flip: client_reader_type server_reader_type add: client_roundtrip server_roundtrip)

end
